(* ===== verification/LuaPrelude.thy ===== *)
theory LuaPrelude
  imports Main "HOL-Library.Word" "HOL-Library.Multiset"
begin

text \<open>
  Shared ground of the development: the results of operations that can raise a Lua error,
  the collections of facts the component theories add to, and the generic lemmas on lists,
  options and words that more than one component uses.

  The C code is read on the platform its comments assume and its build targets, an LP64
  machine: \<open>char\<close> has 8 bits, \<open>int\<close> 32, \<open>long\<close>, \<open>size_t\<close> and pointers 64, and
  two's complement integers.
\<close>

section \<open>Errors and results\<close>

text \<open>
  \<open>luaG_runerror\<close>, \<open>luaX_syntaxerror\<close> and \<open>luaD_throw\<close> leave the running C function by a
  long jump.  An operation that can do so returns a value of a sum type, with \<open>Inl\<close> the error.
\<close>

datatype lua_error =
    RunError string      \<comment> \<open>\<open>LUA_ERRRUN\<close> with its message\<close>
  | SyntaxError string   \<comment> \<open>\<open>LUA_ERRSYNTAX\<close>\<close>
  | MemError             \<comment> \<open>\<open>LUA_ERRMEM\<close>\<close>
  | ErrErr               \<comment> \<open>\<open>LUA_ERRERR\<close>\<close>
  | OutOfBounds          \<comment> \<open>the C code reads or writes outside of an object\<close>
  | NoReturn             \<comment> \<open>a loop of the C code does not end (the model is out of fuel)\<close>

type_synonym 'a res = "lua_error + 'a"

definition bindR :: "'a res \<Rightarrow> ('a \<Rightarrow> 'b res) \<Rightarrow> 'b res" where
  "bindR m f = (case m of Inl e \<Rightarrow> Inl e | Inr x \<Rightarrow> f x)"

lemma bindR_simps [simp]:
  "bindR (Inl e) f = Inl e"
  "bindR (Inr x) f = f x"
  by (simp_all add: bindR_def)

lemma bindR_assoc: "bindR (bindR m f) g = bindR m (\<lambda>x. bindR (f x) g)"
  by (cases m) simp_all

lemma bindR_eq_Inr: "bindR m f = Inr y \<longleftrightarrow> (\<exists>x. m = Inr x \<and> f x = Inr y)"
  by (cases m) auto

lemma bindR_eq_Inl: "bindR m f = Inl e \<longleftrightarrow> m = Inl e \<or> (\<exists>x. m = Inr x \<and> f x = Inl e)"
  by (cases m) auto

lemma bindR_cong [fundef_cong]:
  "m = m' \<Longrightarrow> (\<And>x. m' = Inr x \<Longrightarrow> f x = f' x) \<Longrightarrow> bindR m f = bindR m' f'"
  by (cases m') auto

text \<open>
  Two ways to say what holds of a result: \<open>yields\<close> speaks of normal results only, \<open>ensures\<close>
  also excludes the two errors that are not errors of Lua.
\<close>

definition yields :: "'a res \<Rightarrow> ('a \<Rightarrow> bool) \<Rightarrow> bool" where
  "yields r Q \<longleftrightarrow> (\<forall>x. r = Inr x \<longrightarrow> Q x)"

definition ensures :: "'a res \<Rightarrow> ('a \<Rightarrow> bool) \<Rightarrow> bool" where
  "ensures r Q \<longleftrightarrow> (case r of Inl e \<Rightarrow> e \<noteq> OutOfBounds \<and> e \<noteq> NoReturn | Inr x \<Rightarrow> Q x)"

lemma yields_simps [simp]: "yields (Inl e) Q" "yields (Inr x) Q \<longleftrightarrow> Q x"
  by (simp_all add: yields_def)

lemma ensures_simps [simp]:
  "ensures (Inl e) Q \<longleftrightarrow> e \<noteq> OutOfBounds \<and> e \<noteq> NoReturn" "ensures (Inr x) Q \<longleftrightarrow> Q x"
  by (simp_all add: ensures_def)

lemma yieldsD: "yields r Q \<Longrightarrow> r = Inr x \<Longrightarrow> Q x"
  by simp

lemma ensuresD: "ensures r Q \<Longrightarrow> r = Inr x \<Longrightarrow> Q x"
  by simp

lemma yields_bind: "yields m P \<Longrightarrow> (\<And>x. P x \<Longrightarrow> yields (f x) Q) \<Longrightarrow> yields (bindR m f) Q"
  by (cases m) simp_all

lemma ensures_bind: "ensures m P \<Longrightarrow> (\<And>x. P x \<Longrightarrow> ensures (f x) Q) \<Longrightarrow> ensures (bindR m f) Q"
  by (cases m) simp_all

lemma yields_if: "(b \<Longrightarrow> yields m Q) \<Longrightarrow> (\<not> b \<Longrightarrow> yields n Q) \<Longrightarrow> yields (if b then m else n) Q"
  by simp

lemma ensures_if: "(b \<Longrightarrow> ensures m Q) \<Longrightarrow> (\<not> b \<Longrightarrow> ensures n Q) \<Longrightarrow> ensures (if b then m else n) Q"
  by simp

lemma yields_mono: "yields r P \<Longrightarrow> (\<And>x. P x \<Longrightarrow> Q x) \<Longrightarrow> yields r Q"
  by (cases r) simp_all

lemma ensures_mono: "ensures r P \<Longrightarrow> (\<And>x. P x \<Longrightarrow> Q x) \<Longrightarrow> ensures r Q"
  by (cases r) simp_all

text \<open>\<open>succeeds\<close>: the operation returns a result with the property.\<close>

definition succeeds :: "'a res \<Rightarrow> ('a \<Rightarrow> bool) \<Rightarrow> bool" where
  "succeeds m Q \<longleftrightarrow> (\<exists>x. m = Inr x \<and> Q x)"

lemma succeeds_Inr [simp]: "succeeds (Inr x) Q = Q x" "\<not> succeeds (Inl e) Q"
  by (simp_all add: succeeds_def)

lemma succeeds_bind: "succeeds m P \<Longrightarrow> (\<And>x. P x \<Longrightarrow> succeeds (f x) Q) \<Longrightarrow> succeeds (bindR m f) Q"
  by (auto simp: succeeds_def)

lemma succeeds_mono: "succeeds m P \<Longrightarrow> (\<And>x. P x \<Longrightarrow> Q x) \<Longrightarrow> succeeds m Q"
  by (auto simp: succeeds_def)

section \<open>Collections of facts\<close>

named_theorems instr_simps "reading and writing instruction fields"
named_theorems table_simps "observations of a Lua table after an operation"

section \<open>Lists\<close>

lemma nth_list_update_iff: "i < length xs \<Longrightarrow> (xs[j := v]) ! i = (if i = j then v else xs ! i)"
  by simp

section \<open>Words\<close>

text \<open>A C \<open>int\<close> read from the low 32 bits of an \<open>unsigned long\<close>.\<close>

definition int_of_ulong :: "64 word \<Rightarrow> int" where
  "int_of_ulong w = sint (ucast w :: 32 word)"

lemma int_of_ulong_eq: "int_of_ulong w = signed_take_bit 31 (uint w)"
  by (simp add: int_of_ulong_def sint_uint unsigned_ucast_eq signed_take_bit_take_bit
      flip: take_bit_eq_mod)

lemma int_of_ulong_small: "uint w < 2 ^ 31 \<Longrightarrow> int_of_ulong w = uint w"
  unfolding int_of_ulong_eq
  by (rule signed_take_bit_int_eq_self) (auto intro: order_trans [where y = 0])

lemma int_of_ulong_word_of_int: "0 \<le> k \<Longrightarrow> k < 2 ^ 31 \<Longrightarrow> int_of_ulong (word_of_int k) = k"
  by (subst int_of_ulong_small) (auto simp: take_bit_int_eq_self uint_word_of_int_eq)

unbundle bit_operations_syntax

lemma and_nat_le: "(a :: nat) AND b \<le> b"
proof -
  have "int (a AND b) \<le> int b"
    using AND_upper2 [of "int b" "int a"] by (simp add: of_nat_and_eq)
  then show ?thesis by simp
qed

lemma and_nat_less: "0 < b \<Longrightarrow> (a :: nat) AND (b - 1) < b"
  using and_nat_le [of a "b - 1"] by linarith

lemma and_pow2_mod: "(a :: nat) AND (2 ^ k - 1) = a mod 2 ^ k"
  using take_bit_eq_mask [of k a] by (simp add: take_bit_eq_mod mask_eq_exp_minus_1)

section \<open>Multisets of nested lists\<close>

lemma mset_concat_push:
  "i < length hs \<Longrightarrow> mset (concat (hs[i := p # hs ! i])) = add_mset p (mset (concat hs))"
proof (induction hs arbitrary: i)
  case (Cons h hs)
  then show ?case by (cases i) auto
qed simp

lemma distinct_map_mset_cong: "mset xs = mset ys \<Longrightarrow> distinct (map f xs) = distinct (map f ys)"
  by (metis mset_eq_imp_distinct_iff mset_map)

end
