(* ===== verification/Numbers.thy ===== *)
theory Numbers
  imports LuaPrelude
begin

text \<open>
  Lua numbers.  \<open>lua_Number\<close> is a C \<open>double\<close> (\<open>lua/lua.h\<close>, \<open>LUA_NUMBER\<close>), here its IEEE 754
  bit pattern.  The arithmetic of \<open>double\<close> is the language's: exact arithmetic on integer
  multiples of the smallest subnormal \<open>2 ^ -1074\<close>, rounded to the nearest double, ties to even.
  Every finite double is such a multiple, so the values compare as integers.
\<close>

type_synonym lua_Number = "64 word"

section \<open>Bit pattern and value\<close>

definition num_neg_bit :: "lua_Number \<Rightarrow> bool" where
  "num_neg_bit x \<longleftrightarrow> 2 ^ 63 \<le> unat x"

definition num_mag :: "lua_Number \<Rightarrow> nat" where
  \<comment> \<open>the pattern without its sign: magnitudes are ordered as patterns\<close>
  "num_mag x = unat x mod 2 ^ 63"

definition inf_mag :: nat where "inf_mag = 2047 * 2 ^ 52"

definition num_isnan :: "lua_Number \<Rightarrow> bool" where
  "num_isnan x \<longleftrightarrow> inf_mag < num_mag x"

definition num_isinf :: "lua_Number \<Rightarrow> bool" where
  "num_isinf x \<longleftrightarrow> num_mag x = inf_mag"

text \<open>
  The magnitude of a pattern in units of \<open>2 ^ -1074\<close>.  For the pattern of infinity this is a
  value above that of every finite double, so that comparisons need no special case for it.
\<close>

definition mag_val :: "nat \<Rightarrow> nat" where
  "mag_val m = (let e = m div 2 ^ 52; f = m mod 2 ^ 52
    in if e = 0 then f else (f + 2 ^ 52) * 2 ^ (e - 1))"

definition num_val :: "lua_Number \<Rightarrow> int" where
  "num_val x = (if num_neg_bit x then - int (mag_val (num_mag x)) else int (mag_val (num_mag x)))"

definition mk_num :: "bool \<Rightarrow> nat \<Rightarrow> lua_Number" where
  "mk_num neg m = word_of_nat ((if neg then 2 ^ 63 else 0) + m)"

definition num_nan :: lua_Number where "num_nan = mk_num False (inf_mag + 2 ^ 51)"
definition num_inf :: "bool \<Rightarrow> lua_Number" where "num_inf neg = mk_num neg inf_mag"

section \<open>Rounding\<close>

fun nat_bits :: "nat \<Rightarrow> nat" where
  "nat_bits n = (if n = 0 then 0 else Suc (nat_bits (n div 2)))"

declare nat_bits.simps [simp del]

text \<open>
  The magnitude pattern nearest to \<open>n / d\<close> units: \<open>q\<close> is the quotient cut to 53 bits by a power
  \<open>2 ^ k\<close>, rounded half to even; \<open>k * 2 ^ 52 + q\<close> is the pattern, a carry out of the 53 bits
  included; above the largest finite double the result is infinity.
\<close>

definition round_mag :: "nat \<Rightarrow> nat \<Rightarrow> nat" where
  "round_mag n d =
    (let k = nat_bits (n div d) - 53; d' = d * 2 ^ k; q = n div d'; r = n mod d';
         q' = (if d' < 2 * r \<or> (d' = 2 * r \<and> odd q) then q + 1 else q)
     in min (k * 2 ^ 52 + q') inf_mag)"

definition round_num :: "int \<Rightarrow> nat \<Rightarrow> lua_Number" where
  "round_num n d = mk_num (n < 0) (round_mag (nat \<bar>n\<bar>) d)"

section \<open>Arithmetic, comparison and conversion\<close>

definition num_eq :: "lua_Number \<Rightarrow> lua_Number \<Rightarrow> bool" where
  "num_eq x y \<longleftrightarrow> \<not> num_isnan x \<and> \<not> num_isnan y \<and> num_val x = num_val y"

definition num_lt :: "lua_Number \<Rightarrow> lua_Number \<Rightarrow> bool" where
  "num_lt x y \<longleftrightarrow> \<not> num_isnan x \<and> \<not> num_isnan y \<and> num_val x < num_val y"

definition num_le :: "lua_Number \<Rightarrow> lua_Number \<Rightarrow> bool" where
  "num_le x y \<longleftrightarrow> \<not> num_isnan x \<and> \<not> num_isnan y \<and> num_val x \<le> num_val y"

definition num_neg :: "lua_Number \<Rightarrow> lua_Number" where
  "num_neg x = mk_num (\<not> num_neg_bit x) (num_mag x)"

definition num_add :: "lua_Number \<Rightarrow> lua_Number \<Rightarrow> lua_Number" where
  "num_add x y =
    (if num_isnan x \<or> num_isnan y then num_nan
     else if num_isinf x then
       (if num_isinf y \<and> num_neg_bit x \<noteq> num_neg_bit y then num_nan else x)
     else if num_isinf y then y
     else let s = num_val x + num_val y
       in if s = 0 then mk_num (num_neg_bit x \<and> num_neg_bit y) 0 else round_num s 1)"

definition num_sub :: "lua_Number \<Rightarrow> lua_Number \<Rightarrow> lua_Number" where
  "num_sub x y = num_add x (if num_isnan y then y else num_neg y)"

definition num_mul :: "lua_Number \<Rightarrow> lua_Number \<Rightarrow> lua_Number" where
  "num_mul x y = (let neg = (num_neg_bit x \<noteq> num_neg_bit y) in
    if num_isnan x \<or> num_isnan y then num_nan
    else if num_isinf x \<or> num_isinf y then
      (if num_val x = 0 \<or> num_val y = 0 then num_nan else num_inf neg)
    else mk_num neg (round_mag (nat \<bar>num_val x\<bar> * nat \<bar>num_val y\<bar>) (2 ^ 1074)))"

definition num_div :: "lua_Number \<Rightarrow> lua_Number \<Rightarrow> lua_Number" where
  "num_div x y = (let neg = (num_neg_bit x \<noteq> num_neg_bit y) in
    if num_isnan x \<or> num_isnan y then num_nan
    else if num_isinf x then (if num_isinf y then num_nan else num_inf neg)
    else if num_isinf y then mk_num neg 0
    else if num_val y = 0 then (if num_val x = 0 then num_nan else num_inf neg)
    else mk_num neg (round_mag (nat \<bar>num_val x\<bar> * 2 ^ 1074) (nat \<bar>num_val y\<bar>)))"

text \<open>\<open>cast(lua_Number, k)\<close> and \<open>(int)(n)\<close>; the latter is undefined outside of \<open>int\<close>: \<open>None\<close>.\<close>

definition num_of_int :: "int \<Rightarrow> lua_Number" where
  "num_of_int k = mk_num (k < 0) (round_mag (nat \<bar>k\<bar> * 2 ^ 1074) 1)"

definition INT_MIN :: int where "INT_MIN = - (2 ^ 31)"
definition INT_MAX :: int where "INT_MAX = 2 ^ 31 - 1"

definition num_to_int :: "lua_Number \<Rightarrow> int option" where
  "num_to_int x =
    (if num_isnan x \<or> num_isinf x then None
     else let k = sgn (num_val x) * (\<bar>num_val x\<bar> div 2 ^ 1074)
       in if INT_MIN \<le> k \<and> k \<le> INT_MAX then Some k else None)"

text \<open>
  \<open>lua_number2int\<close>.  Where the conversion is undefined the model has the result of the x86-64
  instruction, \<open>INT_MIN\<close>; no result of the operations below depends on the choice.
\<close>

definition lua_number2int :: "lua_Number \<Rightarrow> int" where
  "lua_number2int n = (case num_to_int n of Some k \<Rightarrow> k | None \<Rightarrow> INT_MIN)"

text \<open>\<open>int\<close> arithmetic that can wrap, and division, which truncates.\<close>

definition int_wrap :: "int \<Rightarrow> int" where
  "int_wrap i = sint (word_of_int i :: 32 word)"

lemma int_wrap_small: "INT_MIN \<le> i \<Longrightarrow> i \<le> INT_MAX \<Longrightarrow> int_wrap i = i"
  by (simp add: int_wrap_def INT_MIN_def INT_MAX_def signed_of_int signed_take_bit_int_eq_self)

definition half :: "int \<Rightarrow> int" where
  "half i = (if i < 0 then - (- i div 2) else i div 2)"

section \<open>Values of patterns\<close>

lemma nat_bits_bounds: "0 < n \<Longrightarrow> 2 ^ (nat_bits n - 1) \<le> n \<and> n < 2 ^ nat_bits n"
proof (induction n rule: nat_bits.induct)
  case (1 n)
  show ?case
  proof (cases "n = 1")
    case True
    then show ?thesis by (simp add: nat_bits.simps)
  next
    case False
    with 1 have IH: "2 ^ (nat_bits (n div 2) - 1) \<le> n div 2 \<and> n div 2 < 2 ^ nat_bits (n div 2)"
      by simp
    have b: "nat_bits n = Suc (nat_bits (n div 2))"
      using 1 by (subst nat_bits.simps) simp
    have "0 < nat_bits (n div 2)"
      using False 1 by (subst nat_bits.simps) (simp add: div_eq_0_iff)
    then have "2 ^ nat_bits (n div 2) = 2 * (2 :: nat) ^ (nat_bits (n div 2) - 1)"
      by (metis Suc_diff_1 power_Suc)
    moreover have "2 * a \<le> n \<and> n < 4 * a" if "a \<le> n div 2 \<and> n div 2 < 2 * a" for a
      using that by presburger
    ultimately show ?thesis
      using IH unfolding b by (simp add: power_Suc)
  qed
qed

lemma power_bracket_unique:
  assumes "(2::nat) ^ a \<le> n" "n < 2 ^ Suc a" "2 ^ b \<le> n" "n < 2 ^ Suc b"
  shows "a = b"
proof -
  have "(2::nat) ^ a < 2 ^ Suc b" and "(2::nat) ^ b < 2 ^ Suc a"
    using assms by linarith+
  then have "a < Suc b" "b < Suc a"
    using power_strict_increasing_iff [of "2::nat"] by (metis one_less_numeral_iff semiring_norm(76))+
  then show ?thesis by simp
qed

lemma nat_bits_bracket:
  assumes "0 < n"
  obtains c where "nat_bits n = Suc c" "2 ^ c \<le> n" "n < 2 ^ Suc c"
proof -
  have "nat_bits n \<noteq> 0"
    using assms by (subst nat_bits.simps) simp
  then obtain c where "nat_bits n = Suc c"
    by (cases "nat_bits n") auto
  with nat_bits_bounds [OF assms] that show ?thesis by auto
qed

lemma nat_bits_eq:
  assumes "2 ^ b \<le> n" "n < 2 ^ Suc b"
  shows "nat_bits n = Suc b"
proof -
  have "0 < n"
    using assms(1) by (metis gr0I le_zero_eq power_eq_0_iff zero_neq_numeral)
  then obtain c where "nat_bits n = Suc c" "2 ^ c \<le> n" "n < 2 ^ Suc c"
    by (rule nat_bits_bracket)
  with assms show ?thesis
    using power_bracket_unique by metis
qed

text \<open>A 53-bit number times a power of two is a double: nothing is rounded.\<close>

lemma nat_bits_scaled:
  assumes "2 ^ 52 \<le> q" "q < 2 ^ 53"
  shows "nat_bits (q * 2 ^ k) = 53 + k"
proof -
  have "2 ^ (52 + k) \<le> q * 2 ^ k" "q * 2 ^ k < 2 ^ Suc (52 + k)"
    using assms by (simp_all add: power_add)
  from nat_bits_eq [OF this] show ?thesis by simp
qed

lemma round_mag_exact:
  assumes q: "2 ^ 52 \<le> q" "q < 2 ^ 53" and k: "k \<le> 2045"
  shows "round_mag (q * 2 ^ k) 1 = k * 2 ^ 52 + q"
proof -
  have "k * 2 ^ 52 + q \<le> inf_mag"
    using q k by (simp add: inf_mag_def)
  then show ?thesis
    using nat_bits_scaled [OF q] by (simp add: round_mag_def)
qed

lemma div_mod_unique: "r < d \<Longrightarrow> (a * d + r) div d = a \<and> (a * d + r) mod d = (r :: nat)"
  by simp

lemma mag_val_scaled:
  assumes "2 ^ 52 \<le> q" "q < 2 ^ 53"
  shows "mag_val (k * 2 ^ 52 + q) = q * 2 ^ k"
proof -
  obtain r where r: "q = 2 ^ 52 + r" "r < 2 ^ 52"
    using assms by (metis add_less_cancel_left le_Suc_ex mult_2 numeral_plus_one one_plus_numeral
        plus_1_eq_Suc power_Suc semiring_norm(3) semiring_norm(5))
  then have "k * 2 ^ 52 + q = Suc k * 2 ^ 52 + r" by simp
  then have "(k * 2 ^ 52 + q) div 2 ^ 52 = Suc k" "(k * 2 ^ 52 + q) mod 2 ^ 52 = r"
    using div_mod_unique [of r "2 ^ 52" "Suc k"] r(2) by (simp_all only:)
  moreover have "r + 2 ^ 52 = q"
    using r(1) by simp
  ultimately show ?thesis
    by (simp only: mag_val_def Let_def) simp
qed

lemma mag_val_0 [simp]: "mag_val 0 = 0"
  by (simp add: mag_val_def)

lemma mag_val_less_Suc: "mag_val m < mag_val (Suc m)"
proof (cases "Suc (m mod 2 ^ 52) = 2 ^ 52")
  case True
  define e where "e = m div 2 ^ 52"
  have m: "m = e * 2 ^ 52 + (2 ^ 52 - 1)"
    using True div_mult_mod_eq [of m "2 ^ 52"] unfolding e_def by linarith
  then have "Suc m = Suc e * 2 ^ 52" by simp
  then have "Suc m div 2 ^ 52 = Suc e" "Suc m mod 2 ^ 52 = 0"
    by simp_all
  then have "mag_val (Suc m) = 2 ^ 52 * 2 ^ e"
    by (simp add: mag_val_def)
  moreover have "mag_val m < 2 ^ 52 * 2 ^ e"
    using True unfolding mag_val_def e_def [symmetric]
    by (cases e) (simp_all add: Let_def)
  ultimately show ?thesis by simp
next
  case False
  then have "Suc m div 2 ^ 52 = m div 2 ^ 52" "Suc m mod 2 ^ 52 = Suc (m mod 2 ^ 52)"
    by (simp_all add: div_Suc mod_Suc)
  then show ?thesis
    by (simp add: mag_val_def Let_def)
qed

lemma mag_val_mono: "m < n \<Longrightarrow> mag_val m < mag_val n"
  by (rule lift_Suc_mono_less [of mag_val]) (rule mag_val_less_Suc)

lemma mag_val_inject [simp]: "mag_val m = mag_val n \<longleftrightarrow> m = n"
  by (metis linorder_less_linear mag_val_mono less_irrefl)

text \<open>Sign and magnitude of a built pattern.\<close>

lemma inf_mag_less: "inf_mag < 2 ^ 63"
  by (simp add: inf_mag_def)

lemma unat_mk_num: "m < 2 ^ 63 \<Longrightarrow> unat (mk_num neg m) = (if neg then 2 ^ 63 else 0) + m"
  unfolding mk_num_def unat_of_nat by (simp del: of_nat_add)

lemma mk_num_neg [simp]: "m < 2 ^ 63 \<Longrightarrow> num_neg_bit (mk_num neg m) = neg"
  by (simp add: num_neg_bit_def unat_mk_num)

lemma mk_num_mag [simp]: "m < 2 ^ 63 \<Longrightarrow> num_mag (mk_num neg m) = m"
  by (simp add: num_mag_def unat_mk_num)

lemma num_mag_less: "num_mag x < 2 ^ 63"
  by (simp add: num_mag_def)

lemma mk_num_fields [simp]: "mk_num (num_neg_bit x) (num_mag x) = x"
proof -
  have "unat x < 2 ^ 64"
    using unsigned_less [of x, where 'a = nat] by simp
  then have "(if num_neg_bit x then 2 ^ 63 else 0) + num_mag x = unat x"
    by (auto simp: num_neg_bit_def num_mag_def le_mod_geq)
  then show ?thesis
    by (simp add: mk_num_def)
qed

lemma num_val_0_iff: "num_val x = 0 \<longleftrightarrow> num_mag x = 0"
  using mag_val_inject [of "num_mag x" 0] by (simp add: num_val_def del: mag_val_inject)

lemma abs_num_val: "nat \<bar>num_val x\<bar> = mag_val (num_mag x)"
  by (cases "num_neg_bit x") (simp_all add: num_val_def)

lemma num_neg_bit_val: "num_val x \<noteq> 0 \<Longrightarrow> num_neg_bit x \<longleftrightarrow> num_val x < 0"
  by (cases "num_neg_bit x") (simp_all add: num_val_def)

lemma num_val_inject:
  assumes "num_val x = num_val y" "num_val x \<noteq> 0"
  shows "x = y"
proof -
  have "mag_val (num_mag x) = mag_val (num_mag y)"
    using assms(1) abs_num_val [of x] abs_num_val [of y] by simp
  moreover have "num_neg_bit x = num_neg_bit y"
    using assms num_neg_bit_val [of x] num_neg_bit_val [of y] by simp
  ultimately have "mk_num (num_neg_bit x) (num_mag x) = mk_num (num_neg_bit y) (num_mag y)"
    by simp
  then show ?thesis
    by (simp only: mk_num_fields)
qed

section \<open>Integers as doubles\<close>

lemma int_mag:
  assumes "k \<noteq> 0" "\<bar>k\<bar> < 2 ^ 53"
  obtains m where "round_mag (nat \<bar>k\<bar> * 2 ^ 1074) 1 = m" "m < inf_mag"
    "mag_val m = nat \<bar>k\<bar> * 2 ^ 1074"
proof -
  define n where "n = nat \<bar>k\<bar>"
  have n: "0 < n" "n < 2 ^ 53"
    using assms by (auto simp: n_def)
  obtain c where c: "2 ^ c \<le> n" "n < 2 ^ Suc c"
    using nat_bits_bracket [OF n(1)] .
  have "c < 53"
    by (rule power_less_imp_less_exp [of "2::nat"]) (use c(1) n(2) in linarith)+
  define q where "q = n * 2 ^ (52 - c)"
  have e: "n * 2 ^ 1074 = q * 2 ^ (1022 + c)"
    using \<open>c < 53\<close> by (simp add: q_def mult.assoc flip: power_add)
  have "2 ^ c * 2 ^ (52 - c) = (2::nat) ^ 52" "2 ^ Suc c * 2 ^ (52 - c) = (2::nat) ^ 53"
    using \<open>c < 53\<close> by (simp_all flip: power_add power_Suc)
  then have q: "2 ^ 52 \<le> q" "q < 2 ^ 53"
    unfolding q_def using c by (metis mult_le_mono1, metis mult_less_cancel2 zero_less_numeral
        zero_less_power)
  show ?thesis
  proof (rule that)
    show "round_mag (nat \<bar>k\<bar> * 2 ^ 1074) 1 = (1022 + c) * 2 ^ 52 + q"
      unfolding n_def [symmetric] e by (rule round_mag_exact [OF q]) (use \<open>c < 53\<close> in simp)
    show "mag_val ((1022 + c) * 2 ^ 52 + q) = nat \<bar>k\<bar> * 2 ^ 1074"
      unfolding n_def [symmetric] e by (rule mag_val_scaled [OF q])
    show "(1022 + c) * 2 ^ 52 + q < inf_mag"
      using q \<open>c < 53\<close> by (simp add: inf_mag_def)
  qed
qed

lemma num_of_int_exact:
  assumes "\<bar>k\<bar> < 2 ^ 53"
  shows "num_val (num_of_int k) = k * 2 ^ 1074" "num_mag (num_of_int k) < inf_mag"
proof -
  have "num_val (num_of_int k) = k * 2 ^ 1074 \<and> num_mag (num_of_int k) < inf_mag"
  proof (cases "k = 0")
    case True
    then show ?thesis
      by (simp add: num_of_int_def round_mag_def nat_bits.simps num_val_def inf_mag_def)
  next
    case False
    obtain m where m: "round_mag (nat \<bar>k\<bar> * 2 ^ 1074) 1 = m" "m < inf_mag"
      "mag_val m = nat \<bar>k\<bar> * 2 ^ 1074"
      using int_mag [OF False assms] .
    have "m < 2 ^ 63"
      using m(2) inf_mag_less by linarith
    then show ?thesis
      using m by (auto simp: num_of_int_def num_val_def)
  qed
  then show "num_val (num_of_int k) = k * 2 ^ 1074" "num_mag (num_of_int k) < inf_mag" by auto
qed

lemma num_of_int_finite:
  assumes "\<bar>k\<bar> < 2 ^ 53"
  shows "\<not> num_isnan (num_of_int k)" "\<not> num_isinf (num_of_int k)"
  using num_of_int_exact(2) [OF assms] by (auto simp: num_isnan_def num_isinf_def)

text \<open>An \<open>int\<close> survives the round trip through \<open>lua_Number\<close>.\<close>

lemma num_to_int_of_int:
  assumes "INT_MIN \<le> k" "k \<le> INT_MAX"
  shows "num_to_int (num_of_int k) = Some k"
proof -
  have k: "\<bar>k\<bar> < 2 ^ 53"
    using assms by (auto simp: INT_MIN_def INT_MAX_def)
  show ?thesis
    using assms num_of_int_exact(1) [OF k] num_of_int_finite [OF k]
    by (simp add: num_to_int_def abs_mult sgn_mult mult_sgn_abs)
qed

lemma lua_number2int_of_int [simp]:
  "INT_MIN \<le> k \<Longrightarrow> k \<le> INT_MAX \<Longrightarrow> lua_number2int (num_of_int k) = k"
  by (simp add: lua_number2int_def num_to_int_of_int)

lemma num_of_int_inject:
  "\<bar>j\<bar> < 2 ^ 53 \<Longrightarrow> \<bar>k\<bar> < 2 ^ 53 \<Longrightarrow> num_eq (num_of_int j) (num_of_int k) \<longleftrightarrow> j = k"
  by (simp add: num_eq_def num_of_int_finite num_of_int_exact)

section \<open>Equality of numbers\<close>

lemma num_eq_refl: "num_eq x x \<longleftrightarrow> \<not> num_isnan x"
  by (simp add: num_eq_def)

lemma num_eq_sym: "num_eq x y \<Longrightarrow> num_eq y x"
  by (simp add: num_eq_def)

lemma num_eq_trans: "num_eq x y \<Longrightarrow> num_eq y z \<Longrightarrow> num_eq x z"
  by (simp add: num_eq_def)

lemma num_isinf_cong: "num_eq x y \<Longrightarrow> num_isinf x = num_isinf y"
  by (metis inf_mag_def num_eq_def num_isinf_def num_val_0_iff num_val_inject
      mult_eq_0_iff power_eq_0_iff zero_neq_numeral)

text \<open>Equal numbers differ at most in the sign of a zero, which adding one removes.\<close>

lemma num_eq_cases: "num_eq x y \<Longrightarrow> x = y \<or> num_val x = 0 \<and> num_val y = 0"
  using num_val_inject by (auto simp: num_eq_def)

lemma num_add_one_cong:
  assumes "num_eq x y"
  shows "num_add x (num_of_int 1) = num_add y (num_of_int 1)"
proof (cases "x = y")
  case False
  with assms have z: "num_val x = 0" "num_val y = 0"
    using num_eq_cases by auto
  then have "\<not> num_isinf x" "\<not> num_isinf y" "\<not> num_isnan x" "\<not> num_isnan y"
    by (auto simp: num_val_0_iff num_isinf_def num_isnan_def inf_mag_def)
  then show ?thesis
    using z num_of_int_finite [of 1] num_of_int_exact [of 1] by (simp add: num_add_def)
qed simp

end
