(* ===== verification/CLib.thy ===== *)
theory CLib
  imports Numbers
begin

text \<open>
  What the sources use of the C library, in the \<open>C\<close> locale: the classification of characters
  (\<open>ctype.h\<close>), \<open>strtod\<close> (\<open>stdlib.h\<close>), and the conversions \<open>%d\<close> and \<open>%.14g\<close> of \<open>sprintf\<close>
  (\<open>stdio.h\<close>).  Strings are lists of bytes; a C string ends at its first zero byte.
\<close>

section \<open>Characters\<close>

definition uchar :: "char \<Rightarrow> nat" where
  "uchar c = of_char c"

definition NUL :: char where "NUL = CHR 0x00"

definition between :: "nat \<Rightarrow> nat \<Rightarrow> char \<Rightarrow> bool" where
  "between lo hi c \<longleftrightarrow> lo \<le> uchar c \<and> uchar c \<le> hi"

definition isdigit :: "char \<Rightarrow> bool" where "isdigit c \<longleftrightarrow> between 48 57 c"
definition islower :: "char \<Rightarrow> bool" where "islower c \<longleftrightarrow> between 97 122 c"
definition isupper :: "char \<Rightarrow> bool" where "isupper c \<longleftrightarrow> between 65 90 c"
definition isalpha :: "char \<Rightarrow> bool" where "isalpha c \<longleftrightarrow> islower c \<or> isupper c"
definition isalnum :: "char \<Rightarrow> bool" where "isalnum c \<longleftrightarrow> isalpha c \<or> isdigit c"
definition isspace :: "char \<Rightarrow> bool" where "isspace c \<longleftrightarrow> between 9 13 c \<or> uchar c = 32"
definition iscntrl :: "char \<Rightarrow> bool" where "iscntrl c \<longleftrightarrow> uchar c < 32 \<or> uchar c = 127"
definition ispunct :: "char \<Rightarrow> bool" where "ispunct c \<longleftrightarrow> between 33 126 c \<and> \<not> isalnum c"
definition isxdigit :: "char \<Rightarrow> bool" where
  "isxdigit c \<longleftrightarrow> isdigit c \<or> between 97 102 c \<or> between 65 70 c"

definition tolower :: "char \<Rightarrow> char" where
  "tolower c = (if isupper c then char_of (uchar c + 32) else c)"

definition toupper :: "char \<Rightarrow> char" where
  "toupper c = (if islower c then char_of (uchar c - 32) else c)"

lemmas ctype_defs =
  isdigit_def islower_def isupper_def isalpha_def isalnum_def isspace_def iscntrl_def ispunct_def
  isxdigit_def between_def uchar_def

text \<open>The C string at the start of a byte list.\<close>

definition cstr :: "string \<Rightarrow> string" where
  "cstr s = takeWhile (\<lambda>c. c \<noteq> NUL) s"

section \<open>Reading numbers: \<open>strtod\<close>\<close>

definition digit_val :: "char \<Rightarrow> nat" where
  "digit_val c = (if isdigit c then uchar c - 48
     else if islower c then uchar c - 87 else uchar c - 55)"

definition digits_val :: "nat \<Rightarrow> string \<Rightarrow> nat" where
  "digits_val b ds = foldl (\<lambda>v c. v * b + digit_val c) 0 ds"

text \<open>An exponent is a marker, an optional sign and at least one digit; otherwise nothing is read.\<close>

definition scan_exp :: "string \<Rightarrow> string \<Rightarrow> int \<times> string" where
  "scan_exp marker s = (case s of
     c # s' \<Rightarrow>
       if c \<in> set marker then
         (let (neg, t) = (case s' of
              d # u \<Rightarrow> if d = CHR ''-'' then (True, u) else if d = CHR ''+'' then (False, u)
                else (False, s')
            | [] \<Rightarrow> (False, s'));
            ds = takeWhile isdigit t
          in if ds = [] then (0, s)
             else ((if neg then - int (digits_val 10 ds) else int (digits_val 10 ds)),
                   dropWhile isdigit t))
       else (0, s)
   | [] \<Rightarrow> (0, s))"

definition mag_of_scaled :: "nat \<Rightarrow> nat \<Rightarrow> int \<Rightarrow> nat" where
  \<comment> \<open>the magnitude pattern of \<open>m * b ^ e\<close>\<close>
  "mag_of_scaled m b e = (if 0 \<le> e then round_mag (m * b ^ nat e * 2 ^ 1074) 1
     else round_mag (m * 2 ^ 1074) (b ^ nat (- e)))"

definition starts_ci :: "string \<Rightarrow> string \<Rightarrow> bool" where
  "starts_ci w s \<longleftrightarrow> map tolower (take (length w) s) = w"

text \<open>Magnitude and rest of the input after the sign, or \<open>None\<close> when there is no number.\<close>

definition scan_mantissa ::
  "nat \<Rightarrow> (char \<Rightarrow> bool) \<Rightarrow> string \<Rightarrow> string \<Rightarrow> (nat \<times> string) option" where
  "scan_mantissa b digit marker s =
     (let ip = takeWhile digit s; r = dropWhile digit s;
          (fp, r') = (case r of c # u \<Rightarrow> if c = CHR ''.'' then (takeWhile digit u, dropWhile digit u)
                        else ([], r) | [] \<Rightarrow> ([], r))
      in if ip = [] \<and> fp = [] then None
         else let (e, r'') = scan_exp marker r';
                  m = digits_val b (ip @ fp)
           in Some ((if b = 16 then mag_of_scaled m 2 (e - 4 * int (length fp))
                     else mag_of_scaled m 10 (e - int (length fp))), r''))"

definition scan_mag :: "string \<Rightarrow> (nat \<times> string) option" where
  "scan_mag s =
    (if starts_ci ''infinity'' s then Some (inf_mag, drop 8 s)
     else if starts_ci ''inf'' s then Some (inf_mag, drop 3 s)
     else if starts_ci ''nan'' s then Some (inf_mag + 2 ^ 51, drop 3 s)
     else if starts_ci ''0x'' s then
       (case scan_mantissa 16 isxdigit ''pP'' (drop 2 s) of
          Some r \<Rightarrow> Some r | None \<Rightarrow> Some (0, drop 1 s))
     else scan_mantissa 10 isdigit ''eE'' s)"

text \<open>Value read and rest of the C string; \<open>None\<close> when no conversion is possible.\<close>

definition strtod :: "string \<Rightarrow> (lua_Number \<times> string) option" where
  "strtod s =
    (let t = dropWhile isspace s;
         (neg, u) = (case t of c # v \<Rightarrow> if c = CHR ''-'' then (True, v)
                       else if c = CHR ''+'' then (False, v) else (False, t) | [] \<Rightarrow> (False, t))
     in case scan_mag u of None \<Rightarrow> None | Some (m, r) \<Rightarrow> Some (mk_num neg m, r))"

section \<open>Writing numbers\<close>

fun dec_digits :: "nat \<Rightarrow> string" where
  "dec_digits n = (if n < 10 then [char_of (48 + n)]
     else dec_digits (n div 10) @ [char_of (48 + n mod 10)])"

declare dec_digits.simps [simp del]

definition fmt_d :: "int \<Rightarrow> string" where
  "fmt_d k = (if k < 0 then CHR ''-'' # dec_digits (nat (- k)) else dec_digits (nat k))"

text \<open>
  \<open>%.14g\<close> (\<open>LUA_NUMBER_FMT\<close>) of the positive rational \<open>n / d\<close>: \<open>p\<close> is the decimal exponent,
  \<open>m\<close> the number rounded to 14 digits, ties to even.
\<close>

definition exp10_le :: "nat \<Rightarrow> nat \<Rightarrow> int \<Rightarrow> bool" where
  "exp10_le n d p \<longleftrightarrow> (if 0 \<le> p then d * 10 ^ nat p \<le> n else d \<le> n * 10 ^ nat (- p))"

fun find_exp10 :: "nat \<Rightarrow> nat \<Rightarrow> nat \<Rightarrow> int \<Rightarrow> int" where
  "find_exp10 0 n d p = p"
| "find_exp10 (Suc f) n d p = (if exp10_le n d p then p else find_exp10 f n d (p - 1))"

definition round_div :: "nat \<Rightarrow> nat \<Rightarrow> nat" where
  "round_div n d = (let q = n div d; r = n mod d
     in if d < 2 * r \<or> (d = 2 * r \<and> odd q) then q + 1 else q)"

definition strip_zeros :: "string \<Rightarrow> string" where
  "strip_zeros s = rev (dropWhile (\<lambda>c. c = CHR ''0'') (rev s))"

definition fmt_g14 :: "nat \<Rightarrow> nat \<Rightarrow> string" where
  "fmt_g14 n d =
    (let p0 = find_exp10 700 n d 309;
         m0 = (if p0 \<le> 13 then round_div (n * 10 ^ nat (13 - p0)) d
               else round_div n (d * 10 ^ nat (p0 - 13)));
         (p, m) = (if m0 = 10 ^ 14 then (p0 + 1, 10 ^ 13) else (p0, m0));
         ds = dec_digits m;
         dot = (\<lambda>i f. let f' = strip_zeros f in if f' = [] then i else i @ ''.'' @ f')
     in if p < -4 \<or> 14 \<le> p then
          dot (take 1 ds) (drop 1 ds) @ ''e'' @ (if p < 0 then ''-'' else ''+'') @
          (if \<bar>p\<bar> < 10 then ''0'' else []) @ dec_digits (nat \<bar>p\<bar>)
        else if p < 0 then dot ''0'' (replicate (nat (- p) - 1) (CHR ''0'') @ ds)
        else dot (take (nat p + 1) ds) (drop (nat p + 1) ds))"

definition lua_number2str :: "lua_Number \<Rightarrow> string" where
  "lua_number2str x =
    (if num_neg_bit x then ''-'' else []) @
    (if num_isnan x then ''nan'' else if num_isinf x then ''inf''
     else if num_mag x = 0 then ''0'' else fmt_g14 (mag_val (num_mag x)) (2 ^ 1074))"

end
