(* ===== verification/Objects.thy ===== *)
theory Objects
  imports CLib
begin

text \<open>
  Lua values and the generic functions on them (\<open>lua/lobject.h\<close>, \<open>lua/lobject.c\<close>).

  A \<open>TObject\<close> is a tag and a value.  Collectable objects other than strings are referenced by
  their address.  A string value is a pointer to an interned \<open>TString\<close>; the model carries its
  contents, since two such pointers are equal exactly when the contents are (theory
  \<open>StringTable\<close>, where interning is modelled and this is proved).
\<close>

unbundle bit_operations_syntax

type_synonym addr = "64 word"

datatype TObject =
    LNil
  | LBoolean int             \<comment> \<open>\<open>value.b\<close>\<close>
  | LLightUserdata addr      \<comment> \<open>\<open>value.p\<close>\<close>
  | LNumber lua_Number       \<comment> \<open>\<open>value.n\<close>\<close>
  | LString string           \<comment> \<open>\<open>value.gc->ts\<close>\<close>
  | LTable addr
  | LFunction addr
  | LUserdata addr
  | LThread addr
  | LNone                    \<comment> \<open>tag \<open>LUA_TNONE\<close>: a key removed by the collector\<close>

text \<open>The tags of \<open>lua.h\<close>.\<close>

fun ttype :: "TObject \<Rightarrow> int" where
  "ttype LNone = -1"
| "ttype LNil = 0"
| "ttype (LBoolean _) = 1"
| "ttype (LLightUserdata _) = 2"
| "ttype (LNumber _) = 3"
| "ttype (LString _) = 4"
| "ttype (LTable _) = 5"
| "ttype (LFunction _) = 6"
| "ttype (LUserdata _) = 7"
| "ttype (LThread _) = 8"

definition iscollectable :: "TObject \<Rightarrow> bool" where
  "iscollectable o' \<longleftrightarrow> 4 \<le> ttype o'"

definition ttisnil :: "TObject \<Rightarrow> bool" where
  "ttisnil o' \<longleftrightarrow> ttype o' = 0"

definition l_isfalse :: "TObject \<Rightarrow> bool" where
  "l_isfalse o' = (case o' of LNil \<Rightarrow> True | LBoolean b \<Rightarrow> b = 0 | _ \<Rightarrow> False)"

lemma ttisnil_iff [simp]: "ttisnil o' \<longleftrightarrow> o' = LNil"
  by (cases o') (simp_all add: ttisnil_def)

section \<open>Raw equality\<close>

definition luaO_rawequalObj :: "TObject \<Rightarrow> TObject \<Rightarrow> bool" where
  "luaO_rawequalObj t1 t2 =
    (if ttype t1 \<noteq> ttype t2 then False
     else case t1 of
       LNil \<Rightarrow> True
     | LNumber m \<Rightarrow> (case t2 of LNumber n \<Rightarrow> num_eq m n | _ \<Rightarrow> False)
     | LBoolean b \<Rightarrow> t2 = LBoolean b
     | LLightUserdata p \<Rightarrow> t2 = LLightUserdata p
     | LNone \<Rightarrow> True
     | _ \<Rightarrow> t1 = t2)"

lemma luaO_rawequalObj_simps [simp]:
  "luaO_rawequalObj LNil k \<longleftrightarrow> k = LNil"
  "luaO_rawequalObj k LNil \<longleftrightarrow> k = LNil"
  "luaO_rawequalObj (LNumber m) (LNumber n) \<longleftrightarrow> num_eq m n"
  by (cases k; simp add: luaO_rawequalObj_def)+

lemma luaO_rawequalObj_other:
  assumes "\<And>n. k \<noteq> LNumber n"
  shows "luaO_rawequalObj k k' \<longleftrightarrow> k = k'" "luaO_rawequalObj k' k \<longleftrightarrow> k' = k"
  using assms by (cases k; cases k'; auto simp: luaO_rawequalObj_def)+

section \<open>Floating-point bytes\<close>

text \<open>
  \<open>luaO_int2fb\<close> and \<open>fb2int\<close>: table sizes as \<open>(mmmmmxxx)\<close> with value \<open>xxx * 2 ^ mmmmm\<close>.
\<close>

function int2fb_loop :: "32 word \<Rightarrow> nat \<Rightarrow> 32 word \<times> nat" where
  "int2fb_loop x m = (if 8 \<le> x then int2fb_loop (drop_bit 1 (x + 1)) (m + 1) else (x, m))"
  by pat_completeness auto

definition fb2int :: "nat \<Rightarrow> nat" where
  "fb2int x = push_bit (drop_bit 3 x) (x AND 7)"

section \<open>Binary logarithm\<close>

definition log_8 :: "nat list" where
  "log_8 = [0] @ replicate 2 1 @ replicate 4 2 @ replicate 8 3 @ replicate 16 4 @
     replicate 32 5 @ replicate 64 6 @ replicate 128 7"

definition luaO_log2 :: "32 word \<Rightarrow> int" where
  "luaO_log2 x =
    (if 0x00010000 \<le> x then
       (if 0x01000000 \<le> x then int (log_8 ! (unat (drop_bit 24 x AND 0xff) - 1)) + 24
        else int (log_8 ! (unat (drop_bit 16 x AND 0xff) - 1)) + 16)
     else
       (if 0x00000100 \<le> x then int (log_8 ! (unat (drop_bit 8 x AND 0xff) - 1)) + 8
        else if x \<noteq> 0 then int (log_8 ! (unat (x AND 0xff) - 1))
        else -1))"

section \<open>Strings and numbers\<close>

text \<open>
  \<open>luaO_str2d\<close>: the whole C string must be a number, trailing white space aside.
\<close>

definition luaO_str2d :: "string \<Rightarrow> lua_Number option" where
  "luaO_str2d s =
    (case strtod (cstr s) of
       None \<Rightarrow> None
     | Some (res, endptr) \<Rightarrow> if dropWhile isspace endptr \<noteq> [] then None else Some res)"

text \<open>
  \<open>luaO_pushfstring\<close>.  The pieces are pushed and concatenated by \<open>luaV_concat\<close>, which turns
  numbers into strings; the model returns the resulting string.
\<close>

datatype fmtarg = FmtS string | FmtC int | FmtD int | FmtF lua_Number

fun luaO_pushvfstring :: "string \<Rightarrow> fmtarg list \<Rightarrow> string option" where
  "luaO_pushvfstring [] args = Some []"
| "luaO_pushvfstring (c # cs) args =
    (if c \<noteq> CHR ''%'' then map_option (Cons c) (luaO_pushvfstring cs args)
     else (case cs of
       [] \<Rightarrow> None
     | d # rest \<Rightarrow>
         if d = CHR ''%'' then map_option (Cons d) (luaO_pushvfstring rest args)
         else (case args of
           [] \<Rightarrow> None
         | a # as \<Rightarrow>
             (case a of
                FmtS s \<Rightarrow> if d = CHR ''s'' then map_option ((@) (cstr s)) (luaO_pushvfstring rest as) else None
              | FmtC k \<Rightarrow> if d = CHR ''c''
                  then map_option ((@) (cstr [char_of (nat (k mod 256))])) (luaO_pushvfstring rest as) else None
              | FmtD k \<Rightarrow> if d = CHR ''d''
                  then map_option ((@) (lua_number2str (num_of_int k))) (luaO_pushvfstring rest as) else None
              | FmtF x \<Rightarrow> if d = CHR ''f''
                  then map_option ((@) (lua_number2str x)) (luaO_pushvfstring rest as) else None))))"

section \<open>Names of chunks\<close>

text \<open>
  \<open>luaO_chunkid\<close> writes a printable name of a chunk to a buffer of \<open>bufflen\<close> bytes.  The result
  is the C string left in the buffer.  8 and 17 are the \<open>sizeof\<close> of the decorations.
\<close>

definition luaO_chunkid :: "string \<Rightarrow> int \<Rightarrow> string" where
  "luaO_chunkid src bufflen =
    (let source = cstr src in
     if source \<noteq> [] \<and> hd source = CHR ''='' then take (nat (bufflen - 1)) (tl source)
     else if source \<noteq> [] \<and> hd source = CHR ''@'' then
       (let source = tl source; bufflen = bufflen - 8; l = int (length source)
        in if bufflen < l then ''...'' @ drop (nat (l - bufflen)) source else source)
     else
       (let len = int (length (takeWhile (\<lambda>c. c \<noteq> CHR 0x0A) source)); bufflen = bufflen - 17;
            len = (if bufflen < len then bufflen else len)
        in ''[string '' @ [CHR 0x22] @
           (if nat len < length source then take (nat len) source @ ''...'' else source) @
           [CHR 0x22] @ '']''))"

section \<open>Termination and correctness of the conversions\<close>

lemma unat_drop_bit_1: "unat (drop_bit 1 w) = unat (w :: 32 word) div 2"
  by (simp add: drop_bit_eq_div unat_div_distrib)

lemma unat_halve: "unat (drop_bit 1 (x + 1) :: 32 word) \<le> (unat x + 1) div 2"
  unfolding unat_drop_bit_1 unat_word_ariths(1) by (rule div_le_mono) simp

termination int2fb_loop
proof (relation "measure (\<lambda>(x, m). unat x)")
  fix x :: "32 word" and m :: nat
  assume "8 \<le> x"
  then have "8 \<le> unat x"
    by (simp add: word_le_nat_alt)
  with unat_halve [of x] show "((drop_bit 1 (x + 1), m + 1), (x, m)) \<in> measure (\<lambda>(x, m). unat x)"
    by simp
qed simp

declare int2fb_loop.simps [simp del]

definition luaO_int2fb :: "32 word \<Rightarrow> nat" where
  "luaO_int2fb x = (case int2fb_loop x 0 of (x', m) \<Rightarrow> push_bit 3 m OR unat x')"

text \<open>
  Below \<open>UINT_MAX\<close> nothing wraps: each round halves, rounding up, until the mantissa fits.
\<close>

lemma unat_halve_exact:
  assumes "unat x < 2 ^ 32 - 1"
  shows "unat (drop_bit 1 (x + 1) :: 32 word) = (unat x + 1) div 2"
proof -
  have "unat (x + 1) = unat x + 1"
    unfolding unat_word_ariths(1) using assms by simp
  then show ?thesis
    by (simp only: unat_drop_bit_1)
qed

lemma int2fb_loop_bounds:
  assumes "unat x < 2 ^ 32 - 1" "int2fb_loop x m = (y, m')"
  shows "y < 8 \<and> m \<le> m' \<and> unat x \<le> unat y * 2 ^ (m' - m) \<and>
    unat y * 2 ^ (m' - m) < unat x + 2 ^ (m' - m) \<and> (m < m' \<longrightarrow> 4 \<le> unat y)"
  using assms
proof (induction x m arbitrary: y m' rule: int2fb_loop.induct)
  case (1 x m)
  show ?case
  proof (cases "8 \<le> x")
    case False
    with 1 show ?thesis by (subst (asm) int2fb_loop.simps) (auto simp: not_le)
  next
    case True
    define z where "z = drop_bit 1 (x + 1)"
    have z: "unat z = (unat x + 1) div 2"
      unfolding z_def by (rule unat_halve_exact [OF 1(2)])
    have x8: "8 \<le> unat x"
      using True by (simp add: word_le_nat_alt)
    have eq: "int2fb_loop z (m + 1) = (y, m')"
      using 1(3) True by (subst (asm) int2fb_loop.simps) (simp add: z_def)
    have "unat z < 2 ^ 32 - 1"
      using z 1(2) by linarith
    from 1(1) [OF True this [unfolded z_def] eq [unfolded z_def]]
    have IH: "y < 8" "m + 1 \<le> m'" "unat z \<le> unat y * 2 ^ (m' - (m + 1))"
      "unat y * 2 ^ (m' - (m + 1)) < unat z + 2 ^ (m' - (m + 1))" "m + 1 < m' \<longrightarrow> 4 \<le> unat y"
      by (auto simp: z_def)
    have e: "(2::nat) ^ (m' - m) = 2 * 2 ^ (m' - (m + 1))"
      using IH(2) by (metis Suc_diff_le Suc_eq_plus1 diff_Suc_Suc power_Suc)
    have "4 \<le> unat y"
    proof (cases "m + 1 < m'")
      case False
      then have "m' - (m + 1) = 0" using IH(2) by simp
      with IH(3) z x8 show ?thesis by simp
    qed (use IH(5) in simp)
    moreover have "unat x \<le> unat y * (2 * w)" "unat y * (2 * w) < unat x + 2 * w"
      if "unat z \<le> unat y * w" "unat y * w < unat z + w" for w
      using that z by (simp_all add: algebra_simps)
    ultimately show ?thesis
      using IH(1-4) unfolding e by auto
  qed
qed

lemma push_or_add: "r < 8 \<Longrightarrow> push_bit 3 m OR r = 8 * m + (r :: nat)"
proof -
  assume "r < 8"
  then have "take_bit 3 r = r"
    by (simp add: take_bit_nat_eq_self_iff)
  then have "\<not> bit (push_bit 3 m) n \<or> \<not> bit r n" for n
    by (metis bit_push_bit_iff bit_take_bit_iff not_le)
  then have "push_bit 3 m + r = push_bit 3 m OR r"
    by (intro disjunctive_add_eq_or bit_eqI) (simp add: bit_and_iff)
  then show ?thesis
    by (simp add: push_bit_eq_mult)
qed

lemma fb2int_fb: "r < 8 \<Longrightarrow> fb2int (push_bit 3 m OR r) = r * 2 ^ m"
proof -
  assume r: "r < 8"
  have "(8 * m + r) AND 7 = r"
    using r take_bit_eq_mask [of 3 "8 * m + r"] by (simp add: take_bit_eq_mod mask_eq_exp_minus_1)
  moreover have "drop_bit 3 (8 * m + r) = m"
    using r by (simp add: drop_bit_eq_div)
  ultimately show ?thesis
    unfolding fb2int_def push_or_add [OF r] by (simp add: push_bit_eq_mult)
qed

text \<open>A floating-point byte is at least the size it stands for, and at most 4/3 of it.\<close>

lemma int2fb_rounds:
  assumes "unat x < 2 ^ 32 - 1"
  shows "unat x \<le> fb2int (luaO_int2fb x)" "3 * fb2int (luaO_int2fb x) \<le> 4 * unat x"
proof -
  obtain y m where l: "int2fb_loop x 0 = (y, m)"
    by fastforce
  from int2fb_loop_bounds [OF assms l]
  have y: "y < 8" "unat x \<le> unat y * 2 ^ m" "unat y * 2 ^ m < unat x + 2 ^ m" "0 < m \<longrightarrow> 4 \<le> unat y"
    by auto
  then have "unat y < 8"
    by (simp add: word_less_nat_alt)
  then have fb: "fb2int (luaO_int2fb x) = unat y * 2 ^ m"
    by (simp add: luaO_int2fb_def l fb2int_fb)
  show "unat x \<le> fb2int (luaO_int2fb x)"
    using y(2) fb by simp
  show "3 * fb2int (luaO_int2fb x) \<le> 4 * unat x"
  proof (cases "m = 0")
    case True
    with y(2,3) fb show ?thesis by simp
  next
    case False
    then obtain r where r: "unat y = r + 4"
      using y(4) word_le_nat_alt [of 4 y] le_Suc_ex by (auto simp: add.commute dest: le_Suc_ex)
    have "(r + 3) * 2 ^ m < unat x"
      using y(3) by (simp add: r algebra_simps)
    then show ?thesis
      unfolding fb r by (simp add: algebra_simps)
  qed
qed

section \<open>Logarithm\<close>

lemma log_8_nth:
  assumes "j < 2 ^ k" "k < 8"
  shows "log_8 ! (2 ^ k - 1 + j) = k"
proof -
  have "k \<in> {0, 1, 2, 3, 4, 5, 6, 7}"
    using assms(2) by auto
  with assms(1) show ?thesis
    by (auto simp: log_8_def nth_append)
qed

lemma log_8_bracket:
  assumes "1 \<le> i" "i < 256"
  shows "2 ^ (log_8 ! (i - 1)) \<le> i" "i < 2 ^ Suc (log_8 ! (i - 1))"
proof -
  have "\<exists>k < 8. 2 ^ k \<le> i \<and> i < 2 ^ Suc k"
    using assms ex_power_ivl1 [of 2 i] power_less_imp_less_exp [of "2 :: nat" _ 8]
    by (auto intro: le_less_trans)
  then obtain k where k: "k < 8" "2 ^ k \<le> i" "i < 2 ^ Suc k"
    by blast
  then have "log_8 ! (i - 1) = k"
    using log_8_nth [of "i - 2 ^ k" k] by simp
  with k show "2 ^ (log_8 ! (i - 1)) \<le> i" "i < 2 ^ Suc (log_8 ! (i - 1))"
    by simp_all
qed

lemma shifted_bracket:
  assumes "2 ^ l \<le> n div 2 ^ s" "n div 2 ^ s < (2 :: nat) ^ Suc l"
  shows "2 ^ (l + s) \<le> n" "n < 2 ^ Suc (l + s)"
proof -
  have "2 ^ l * 2 ^ s \<le> n"
    using assms(1) by (simp add: less_eq_div_iff_mult_less_eq)
  moreover have "n < 2 ^ Suc l * 2 ^ s"
    using assms(2) by (simp only: div_less_iff_less_mult zero_less_power zero_less_numeral)
  ultimately show "2 ^ (l + s) \<le> n" "n < 2 ^ Suc (l + s)"
    by (simp_all add: power_add)
qed

lemma log_step:
  assumes "1 \<le> n div 2 ^ s" "n div 2 ^ s < 256"
  shows "2 ^ (log_8 ! (n div 2 ^ s - 1) + s) \<le> n" "n < 2 ^ Suc (log_8 ! (n div 2 ^ s - 1) + s)"
  using shifted_bracket [OF log_8_bracket [OF assms]] by auto

lemma unat_drop_bit: "unat (drop_bit s (x :: 32 word)) = unat x div 2 ^ s"
proof -
  have "unat x < 2 ^ 32"
    using unsigned_less [of x, where 'a = nat] by simp
  then have "take_bit 32 (unat x) = unat x"
    by (simp add: take_bit_nat_eq_self)
  then show ?thesis
    by (simp only: unsigned_drop_bit_eq) (simp add: drop_bit_eq_div)
qed

lemma unat_byte: "unat (drop_bit s (x :: 32 word) AND 0xff) = (unat x div 2 ^ s) mod 256"
proof -
  have "drop_bit s x AND 0xff = take_bit 8 (drop_bit s x)"
    using take_bit_eq_mask [of 8 "drop_bit s x"] by (simp add: mask_eq_exp_minus_1)
  then show ?thesis
    by (simp only: unsigned_take_bit_eq unat_drop_bit) (simp add: take_bit_eq_mod)
qed

lemma luaO_log2_0: "luaO_log2 0 = -1"
  by (simp add: luaO_log2_def)

lemma luaO_log2_bracket:
  assumes "x \<noteq> 0"
  obtains l where "luaO_log2 x = int l" "2 ^ l \<le> unat x" "unat x < 2 ^ Suc l"
proof -
  define n where "n = unat x"
  have n: "n < 2 ^ 32" "0 < n"
    using unsigned_less [of x, where 'a = nat] assms by (simp_all add: n_def unat_gt_0)
  have le: "w \<le> x \<longleftrightarrow> unat w \<le> n" for w
    by (simp add: n_def word_le_nat_alt)
  have k: "thesis" if "luaO_log2 x = int (log_8 ! (n div 2 ^ s - 1) + s)"
    "1 \<le> n div 2 ^ s" "n div 2 ^ s < 256" for s
    using that log_step [of n s] \<open>\<And>l. _ \<Longrightarrow> _ \<Longrightarrow> _ \<Longrightarrow> thesis\<close> n_def by metis
  consider "2 ^ 24 \<le> n" | "2 ^ 16 \<le> n" "n < 2 ^ 24" | "2 ^ 8 \<le> n" "n < 2 ^ 16" | "n < 2 ^ 8"
    by linarith
  then show ?thesis
  proof cases
    case 1
    then have "luaO_log2 x = int (log_8 ! (n div 2 ^ 24 - 1) + 24)"
      using n by (simp add: luaO_log2_def le unat_byte flip: n_def)
    with 1 n show ?thesis
      by (intro k [of 24]) (simp_all add: less_eq_div_iff_mult_less_eq div_less_iff_less_mult)
  next
    case 2
    then have "luaO_log2 x = int (log_8 ! (n div 2 ^ 16 - 1) + 16)"
      using n by (simp add: luaO_log2_def le unat_byte flip: n_def)
    with 2 n show ?thesis
      by (intro k [of 16]) (simp_all add: less_eq_div_iff_mult_less_eq div_less_iff_less_mult)
  next
    case 3
    then have "luaO_log2 x = int (log_8 ! (n div 2 ^ 8 - 1) + 8)"
      using n by (simp add: luaO_log2_def le unat_byte flip: n_def)
    with 3 n show ?thesis
      by (intro k [of 8]) (simp_all add: less_eq_div_iff_mult_less_eq div_less_iff_less_mult)
  next
    case 4
    then have "luaO_log2 x = int (log_8 ! (n div 2 ^ 0 - 1) + 0)"
      using n assms unat_byte [of 0 x] by (simp add: luaO_log2_def le flip: n_def)
    with 4 n show ?thesis
      by (intro k [of 0]) simp_all
  qed
qed

section \<open>Chunk names fit their buffer\<close>

lemma luaO_chunkid_length:
  assumes "17 \<le> bufflen"
  shows "int (length (luaO_chunkid src bufflen)) < bufflen"
  using assms by (auto simp: luaO_chunkid_def Let_def)

section \<open>Properties\<close>

text \<open>
  a size that is encoded as a floating-point byte and decoded again is not smaller than it was,
  and at most a third larger, for all sizes below \<open>UINT_MAX\<close>.
\<close>

theorem int2fb_bounds:
  assumes "unat x < 2 ^ 32 - 1"
  shows "unat x \<le> fb2int (luaO_int2fb x) \<and> 3 * fb2int (luaO_int2fb x) \<le> 4 * unat x"
  using int2fb_rounds [OF assms] by simp

lemma int2fb_bounds_witness:
  "unat (1000 :: 32 word) \<le> fb2int (luaO_int2fb 1000) \<and> 3 * fb2int (luaO_int2fb 1000) \<le> 4 * unat (1000 :: 32 word)"
  by (rule int2fb_bounds) simp

text \<open>
  \<open>luaO_log2\<close>, which looks the logarithm of the highest byte up in a table, is the binary
  logarithm rounded down for every unsigned int but 0.
\<close>

theorem log2_floor:
  assumes "x \<noteq> 0"
  shows "\<exists>l. luaO_log2 x = int l \<and> 2 ^ l \<le> unat x \<and> unat x < 2 ^ Suc l"
  using luaO_log2_bracket [OF assms] by metis

lemma log2_floor_witness:
  "\<exists>l. luaO_log2 0xFFFF = int l \<and> 2 ^ l \<le> unat (0xFFFF :: 32 word) \<and> unat (0xFFFF :: 32 word) < 2 ^ Suc l"
  by (rule log2_floor) simp

text \<open>
  the printable name of a chunk, with its terminating NUL, fits a buffer of at least 17 bytes,
  whatever the name of the source.
\<close>

theorem chunkid_fits:
  assumes "17 \<le> bufflen"
  shows "int (length (luaO_chunkid src bufflen)) < bufflen"
  using assms by (rule luaO_chunkid_length)

lemma chunkid_fits_witness: "int (length (luaO_chunkid ''@a/very/long/path/to/a/file.lua'' 20)) < 20"
  by (rule chunkid_fits) simp

end
