(* ===== verification/Streams.thy ===== *)
theory Streams
  imports Objects
begin

text \<open>
  Buffered input streams (\<open>lua/lzio.c\<close>) and the growing of arrays (\<open>lua/lmem.c\<close>).

  The reader of a stream is code of the application; what matters of it is the sequence of blocks
  it returns, which is the field \<open>chunks\<close>.  An empty block, like the end of the list, is the end of
  the stream.  The pointer \<open>p\<close> is the block it points into and a position in it.
\<close>

unbundle bit_operations_syntax

type_synonym size_t = "64 word"

record ZIO =
  z_n :: size_t              \<comment> \<open>bytes still unread\<close>
  z_buff :: string
  z_pos :: nat
  z_chunks :: "string list"

definition EOZ :: int where "EOZ = -1"

definition char2int :: "char \<Rightarrow> int" where
  "char2int c = int (uchar c)"

definition luaZ_init :: "string list \<Rightarrow> ZIO" where
  "luaZ_init chunks = \<lparr>z_n = 0, z_buff = [], z_pos = 0, z_chunks = chunks\<rparr>"

text \<open>\<open>*z->p\<close>.\<close>

definition deref_p :: "ZIO \<Rightarrow> char res" where
  "deref_p z = (if z_pos z < length (z_buff z) then Inr (z_buff z ! z_pos z) else Inl OutOfBounds)"

definition luaZ_fill :: "ZIO \<Rightarrow> (int \<times> ZIO) res" where
  "luaZ_fill z = (case z_chunks z of
     [] \<Rightarrow> Inr (EOZ, z)
   | buff # chunks \<Rightarrow>
      if buff = [] then Inr (EOZ, z\<lparr>z_chunks := chunks\<rparr>)
      else (let z = z\<lparr>z_chunks := chunks, z_n := word_of_nat (length buff) - 1, z_buff := buff, z_pos := 0\<rparr>
            in bindR (deref_p z) (\<lambda>c. Inr (char2int c, z\<lparr>z_pos := z_pos z + 1\<rparr>))))"

text \<open>The macro \<open>zgetc\<close>: the count is decremented before it is known that a byte is left.\<close>

definition zgetc :: "ZIO \<Rightarrow> (int \<times> ZIO) res" where
  "zgetc z =
    (let n = z_n z; z = z\<lparr>z_n := n - 1\<rparr>
     in if 0 < n then bindR (deref_p z) (\<lambda>c. Inr (char2int c, z\<lparr>z_pos := z_pos z + 1\<rparr>))
        else luaZ_fill z)"

definition put_back :: "ZIO \<Rightarrow> ZIO" where
  "put_back z = z\<lparr>z_n := z_n z + 1, z_pos := z_pos z - 1\<rparr>"

definition luaZ_lookahead :: "ZIO \<Rightarrow> (int \<times> ZIO) res" where
  "luaZ_lookahead z =
    (if z_n z = 0 then
       bindR (luaZ_fill z) (\<lambda>(c, z).
         if c = EOZ then Inr (c, z)
         else bindR (deref_p (put_back z)) (\<lambda>c. Inr (char2int c, put_back z)))
     else bindR (deref_p z) (\<lambda>c. Inr (char2int c, z)))"

text \<open>
  \<open>luaZ_read\<close>: the bytes stored to \<open>b\<close>, the number of missing bytes, and the stream.  Every round
  but the last empties a block, so one more than the number of blocks is fuel enough.
\<close>

fun luaZ_read_loop :: "nat \<Rightarrow> ZIO \<Rightarrow> string \<Rightarrow> nat \<Rightarrow> (string \<times> nat \<times> ZIO) res" where
  "luaZ_read_loop 0 z b n = (if n = 0 then Inr (b, 0, z) else Inl NoReturn)"
| "luaZ_read_loop (Suc fuel) z b n =
    (if n = 0 then Inr (b, 0, z)
     else bindR (if z_n z = 0 then
                   bindR (luaZ_fill z) (\<lambda>(c, z). if c = EOZ then Inr (True, z) else Inr (False, put_back z))
                 else Inr (False, z))
       (\<lambda>(eoz, z).
          if eoz then Inr (b, n, z)
          else (let m = (if n \<le> unat (z_n z) then n else unat (z_n z))
                in if z_pos z + m \<le> length (z_buff z) then
                     luaZ_read_loop fuel (z\<lparr>z_n := z_n z - word_of_nat m, z_pos := z_pos z + m\<rparr>)
                       (b @ take m (drop (z_pos z) (z_buff z))) (n - m)
                   else Inl OutOfBounds)))"

definition luaZ_read :: "ZIO \<Rightarrow> nat \<Rightarrow> (string \<times> nat \<times> ZIO) res" where
  "luaZ_read z n = luaZ_read_loop (length (z_chunks z) + 2) z [] n"

section \<open>Memory\<close>

text \<open>
  The allocator succeeds unless the block is too big for \<open>size_t\<close>; only the size of a block is
  modelled here.
\<close>

definition MAX_SIZET :: nat where "MAX_SIZET = 2 ^ 64 - 3"
definition LUA_MINBUFFER :: nat where "LUA_MINBUFFER = 32"
definition MINSIZEARRAY :: int where "MINSIZEARRAY = 4"

definition luaM_realloc :: "nat \<Rightarrow> nat res" where
  "luaM_realloc sz =
    (if MAX_SIZET \<le> sz then Inl (RunError ''memory allocation error: block too big'') else Inr sz)"

text \<open>The new size of the buffer.\<close>

definition luaZ_openspace :: "nat \<Rightarrow> nat \<Rightarrow> nat res" where
  "luaZ_openspace buffsize n =
    (if buffsize < n then luaM_realloc (if n < LUA_MINBUFFER then LUA_MINBUFFER else n) else Inr buffsize)"

text \<open>The new number of elements of a growing array; \<open>*size * 2\<close> is an \<open>int\<close>.\<close>

definition luaM_growaux :: "int \<Rightarrow> nat \<Rightarrow> int \<Rightarrow> string \<Rightarrow> int res" where
  "luaM_growaux sz size_elems limit errormsg =
    (let newsize = signed_take_bit 31 (sz * 2)
     in bindR (if newsize < MINSIZEARRAY then Inr MINSIZEARRAY
               else if limit div 2 \<le> sz then
                 (if sz < limit - MINSIZEARRAY then Inr limit else Inl (RunError errormsg))
               else Inr newsize)
          (\<lambda>newsize. bindR (luaM_realloc (nat newsize * size_elems)) (\<lambda>_. Inr newsize)))"

section \<open>The unread bytes\<close>

text \<open>What a reader of the stream gets: the rest of the block, and the blocks up to an empty one.\<close>

fun upto_empty :: "string list \<Rightarrow> string" where
  "upto_empty [] = []"
| "upto_empty (c # cs) = (if c = [] then [] else c @ upto_empty cs)"

definition stream :: "ZIO \<Rightarrow> string" where
  "stream z = drop (z_pos z) (z_buff z) @ upto_empty (z_chunks z)"

text \<open>All bytes that are left, those behind an empty block included.\<close>

definition unread :: "ZIO \<Rightarrow> nat" where
  "unread z = (length (z_buff z) - z_pos z) + length (concat (z_chunks z))"

text \<open>Blocks fit the address space.\<close>

definition wf_zio :: "ZIO \<Rightarrow> bool" where
  "wf_zio z \<longleftrightarrow> z_pos z \<le> length (z_buff z) \<and> unat (z_n z) = length (z_buff z) - z_pos z \<and>
     list_all (\<lambda>c. length c < 2 ^ 64) (z_chunks z)"

lemma wf_luaZ_init:
  "list_all (\<lambda>c. length c < 2 ^ 64) cs \<Longrightarrow> wf_zio (luaZ_init cs)"
  "stream (luaZ_init cs) = upto_empty cs"
  by (simp_all add: wf_zio_def stream_def luaZ_init_def)

lemma char2int_EOZ [simp]: "char2int c \<noteq> EOZ" "EOZ \<noteq> char2int c"
  by (simp_all add: char2int_def EOZ_def)

lemma wf_zio_empty_block: "wf_zio z \<Longrightarrow> z_n z = 0 \<Longrightarrow> stream z = upto_empty (z_chunks z)"
  by (simp add: wf_zio_def stream_def)

lemma unat_pred: "0 < n \<Longrightarrow> unat (n - 1 :: size_t) = unat n - 1"
  by (metis unat_minus_one word_neq_0_conv)

lemma unat_of_nat_64: "k < 2 ^ 64 \<Longrightarrow> unat (word_of_nat k :: size_t) = k"
  by (simp add: unsigned_of_nat take_bit_nat_eq_self)

lemma luaZ_fill_EOZ:
  assumes "wf_zio z" "z_n z = 0" "stream z = []"
  shows "\<exists>z'. luaZ_fill z = Inr (EOZ, z') \<and> wf_zio z' \<and> unread z' = unread z"
  using assms by (auto simp: luaZ_fill_def wf_zio_empty_block wf_zio_def unread_def Let_def split: list.split)

lemma luaZ_fill_some:
  assumes "wf_zio z" "z_n z = 0" "stream z = c # cs"
  obtains z' where "luaZ_fill z = Inr (char2int c, z')" "wf_zio z'" "stream z' = cs"
    "wf_zio (put_back z')" "stream (put_back z') = c # cs" "0 < z_n (put_back z')"
    "z_chunks z' = tl (z_chunks z)" "z_chunks z \<noteq> []"
    "unread z' + 1 = unread z" "unread (put_back z') = unread z"
proof -
  have st: "upto_empty (z_chunks z) = c # cs"
    using assms wf_zio_empty_block by simp
  then obtain b chunks where b: "z_chunks z = (c # b) # chunks" "cs = b @ upto_empty chunks"
    by (cases "z_chunks z") (auto split: if_splits simp: append_eq_Cons_conv)
  have len: "length b + 1 < 2 ^ 64" and wf': "list_all (\<lambda>c. length c < 2 ^ 64) chunks"
    using assms(1) b(1) by (simp_all add: wf_zio_def)
  define n :: size_t where "n = word_of_nat (length b)"
  have n: "unat n = length b" "n + 1 = word_of_nat (length b + 1)"
    using len by (simp_all add: n_def unat_of_nat_64)
  then have n1: "unat (n + 1) = length b + 1"
    using len unat_of_nat_64 by metis
  define z' where "z' = z\<lparr>z_chunks := chunks, z_n := n, z_buff := c # b, z_pos := 1\<rparr>"
  show ?thesis
  proof (rule that [of z'])
    show "luaZ_fill z = Inr (char2int c, z')"
      by (simp add: luaZ_fill_def b(1) deref_p_def Let_def z'_def n_def)
    show "0 < z_n (put_back z')"
      using n1 by (simp add: z'_def put_back_def unat_gt_0 [symmetric] word_neq_0_conv [symmetric] del: unat_gt_0)
    have "length (z_buff z) - z_pos z = 0"
      using assms(1,2) by (simp add: wf_zio_def)
    then show "unread z' + 1 = unread z" "unread (put_back z') = unread z"
      by (simp_all add: unread_def z'_def put_back_def b(1))
  qed (use n n1 wf' b in \<open>simp_all add: wf_zio_def stream_def z'_def put_back_def\<close>)
qed

lemma advance:
  assumes "wf_zio z" "0 < z_n z"
  obtains c where "deref_p z = Inr c" "stream z = c # tl (stream z)"
    "wf_zio (z\<lparr>z_n := z_n z - 1, z_pos := z_pos z + 1\<rparr>)"
    "stream (z\<lparr>z_n := z_n z - 1, z_pos := z_pos z + 1\<rparr>) = tl (stream z)"
    "unread (z\<lparr>z_n := z_n z - 1, z_pos := z_pos z + 1\<rparr>) + 1 = unread z"
proof -
  have "0 < unat (z_n z)"
    using assms(2) by (simp add: unat_gt_0 word_neq_0_conv)
  then have lt: "z_pos z < length (z_buff z)"
    using assms(1) by (simp add: wf_zio_def)
  show ?thesis
  proof (rule that [of "z_buff z ! z_pos z"])
    show "wf_zio (z\<lparr>z_n := z_n z - 1, z_pos := z_pos z + 1\<rparr>)"
      using assms lt by (simp add: wf_zio_def unat_pred)
  qed (use lt in \<open>simp_all add: deref_p_def stream_def unread_def Cons_nth_drop_Suc [symmetric]\<close>)
qed

lemma zgetc_some:
  assumes "wf_zio z" "stream z = c # cs"
  shows "\<exists>z'. zgetc z = Inr (char2int c, z') \<and> wf_zio z' \<and> stream z' = cs \<and> unread z' + 1 = unread z"
proof (cases "z_n z = 0")
  case True
  define y where "y = z\<lparr>z_n := 0 - 1 :: size_t\<rparr>"
  from luaZ_fill_some [OF assms(1) True assms(2)] obtain z' where z':
    "luaZ_fill z = Inr (char2int c, z')" "wf_zio z'" "stream z' = cs" "z_chunks z \<noteq> []" "unread z' + 1 = unread z"
    by metis
  have "luaZ_fill y = luaZ_fill z"
    using z'(1) by (auto simp: y_def luaZ_fill_def Let_def split: list.splits if_splits)
  then show ?thesis
    using z' True by (simp add: zgetc_def y_def)
next
  case False
  then have "0 < z_n z"
    by (simp add: word_neq_0_conv)
  then obtain d where d: "deref_p z = Inr d" "stream z = d # tl (stream z)"
    "wf_zio (z\<lparr>z_n := z_n z - 1, z_pos := z_pos z + 1\<rparr>)"
    "stream (z\<lparr>z_n := z_n z - 1, z_pos := z_pos z + 1\<rparr>) = tl (stream z)"
    "unread (z\<lparr>z_n := z_n z - 1, z_pos := z_pos z + 1\<rparr>) + 1 = unread z"
    using advance [OF assms(1)] by metis
  have "d = c" "tl (stream z) = cs"
    using d(2) assms(2) by simp_all
  moreover have "deref_p (z\<lparr>z_n := z_n z - 1\<rparr>) = Inr d"
    using d(1) by (auto simp: deref_p_def split: if_splits)
  ultimately show ?thesis
    using d(3-5) \<open>0 < z_n z\<close> by (simp add: zgetc_def)
qed

lemma zgetc_EOZ:
  assumes "wf_zio z" "stream z = []"
  shows "\<exists>z'. zgetc z = Inr (EOZ, z')"
proof -
  have n: "z_n z = 0"
    using assms by (simp add: wf_zio_def stream_def unat_eq_zero)
  then obtain z' where "luaZ_fill z = Inr (EOZ, z')"
    using luaZ_fill_EOZ assms by blast
  then have "\<exists>z'. luaZ_fill (z\<lparr>z_n := 0 - 1\<rparr>) = Inr (EOZ, z')"
    by (auto simp: luaZ_fill_def deref_p_def Let_def split: list.splits if_splits)
  then show ?thesis
    using n by (simp add: zgetc_def)
qed

lemma luaZ_lookahead_some:
  assumes "wf_zio z" "stream z = c # cs"
  shows "\<exists>z'. luaZ_lookahead z = Inr (char2int c, z') \<and> wf_zio z' \<and> stream z' = c # cs"
proof (cases "z_n z = 0")
  case True
  from luaZ_fill_some [OF assms(1) True assms(2)] obtain z' where z':
    "luaZ_fill z = Inr (char2int c, z')" "wf_zio (put_back z')" "stream (put_back z') = c # cs" "0 < z_n (put_back z')"
    by metis
  then have "deref_p (put_back z') = Inr c"
    using advance [OF z'(2,4)] by (metis list.inject)
  then show ?thesis
    using z' True by (simp add: luaZ_lookahead_def)
next
  case False
  then have "deref_p z = Inr c"
    using advance [OF assms(1)] assms(2) by (metis list.inject word_neq_0_conv)
  then show ?thesis
    using False assms by (simp add: luaZ_lookahead_def)
qed

text \<open>The state of a round of \<open>luaZ_read\<close> after the refill.\<close>

lemma read_refill:
  assumes "wf_zio z" "stream z \<noteq> []"
  obtains y where "(if z_n z = 0 then
        bindR (luaZ_fill z) (\<lambda>(c, z). if c = EOZ then Inr (True, z) else Inr (False, put_back z))
      else Inr (False, z)) = Inr (False, y)"
    "wf_zio y" "stream y = stream z" "0 < z_n y" "unread y = unread z"
    "length (z_chunks y) < length (z_chunks z) + (if z_n z = 0 then 0 else 1)"
proof (cases "z_n z = 0")
  case True
  obtain c cs where "stream z = c # cs"
    using assms(2) by (cases "stream z") auto
  from luaZ_fill_some [OF assms(1) True this] obtain z' where z':
    "luaZ_fill z = Inr (char2int c, z')" "wf_zio (put_back z')" "stream (put_back z') = c # cs" "0 < z_n (put_back z')"
    "z_chunks z' = tl (z_chunks z)" "z_chunks z \<noteq> []" "unread (put_back z') = unread z"
    by metis
  then show ?thesis
    using that [of "put_back z'"] True \<open>stream z = c # cs\<close> by (simp add: put_back_def unread_def)
next
  case False
  then show ?thesis
    using that [of z] assms by (simp add: word_gt_0)
qed

lemma read_memcpy:
  assumes "wf_zio z" "m \<le> unat (z_n z)"
  shows "z_pos z + m \<le> length (z_buff z)" "take m (drop (z_pos z) (z_buff z)) = take m (stream z)"
    "wf_zio (z\<lparr>z_n := z_n z - word_of_nat m, z_pos := z_pos z + m\<rparr>)"
    "stream (z\<lparr>z_n := z_n z - word_of_nat m, z_pos := z_pos z + m\<rparr>) = drop m (stream z)"
    "unat (z_n z - word_of_nat m) = unat (z_n z) - m"
    "unread (z\<lparr>z_n := z_n z - word_of_nat m, z_pos := z_pos z + m\<rparr>) + m = unread z"
proof -
  have m: "m \<le> length (z_buff z) - z_pos z"
    using assms by (simp add: wf_zio_def)
  have m64: "unat (word_of_nat m :: size_t) = m"
    using assms(2) unsigned_less [of "z_n z", where 'a = nat] by (intro unat_of_nat_64) simp
  then have "word_of_nat m \<le> z_n z"
    using assms(2) by (simp add: word_le_nat_alt)
  then show n: "unat (z_n z - word_of_nat m) = unat (z_n z) - m"
    by (simp add: unat_sub m64)
  show "z_pos z + m \<le> length (z_buff z)" "take m (drop (z_pos z) (z_buff z)) = take m (stream z)"
    "wf_zio (z\<lparr>z_n := z_n z - word_of_nat m, z_pos := z_pos z + m\<rparr>)"
    "stream (z\<lparr>z_n := z_n z - word_of_nat m, z_pos := z_pos z + m\<rparr>) = drop m (stream z)"
    "unread (z\<lparr>z_n := z_n z - word_of_nat m, z_pos := z_pos z + m\<rparr>) + m = unread z"
    using assms(1) m n by (auto simp: wf_zio_def stream_def unread_def ac_simps)
qed

lemma luaZ_read_loop_spec:
  assumes "wf_zio z" "length (z_chunks z) + (if z_n z = 0 then 0 else 1) < fuel"
  shows "\<exists>z'. luaZ_read_loop fuel z b n = Inr (b @ take n (stream z), n - length (stream z), z') \<and>
    wf_zio z' \<and> (n \<le> length (stream z) \<longrightarrow> stream z' = drop n (stream z)) \<and>
    unread z' + length (take n (stream z)) = unread z"
  using assms
proof (induction fuel arbitrary: z b n)
  case (Suc fuel)
  show ?case
  proof (cases "n = 0")
    case False
    show ?thesis
    proof (cases "stream z = []")
      case True
      then have "z_n z = 0"
        using Suc.prems(1) by (simp add: wf_zio_def stream_def unat_eq_zero)
      moreover then obtain z' where "luaZ_fill z = Inr (EOZ, z')" "wf_zio z'" "unread z' = unread z"
        using luaZ_fill_EOZ Suc.prems(1) True by blast
      ultimately show ?thesis
        using True False by simp
    next
      case ne: False
      obtain y where y: "(if z_n z = 0 then
            bindR (luaZ_fill z) (\<lambda>(c, z). if c = EOZ then Inr (True, z) else Inr (False, put_back z))
          else Inr (False, z)) = Inr (False, y)"
        "wf_zio y" "stream y = stream z" "0 < z_n y" "unread y = unread z"
        "length (z_chunks y) < length (z_chunks z) + (if z_n z = 0 then 0 else 1)"
        by (rule read_refill [OF Suc.prems(1) ne])
      define m where "m = (if n \<le> unat (z_n y) then n else unat (z_n y))"
      have m: "m \<le> unat (z_n y)" "m \<le> n"
        by (simp_all add: m_def)
      note cpy = read_memcpy [OF y(2) m(1)]
      define x where "x = y\<lparr>z_n := z_n y - word_of_nat m, z_pos := z_pos y + m\<rparr>"
      have step: "luaZ_read_loop (Suc fuel) z b n = luaZ_read_loop fuel x (b @ take m (stream z)) (n - m)"
        unfolding luaZ_read_loop.simps y(1) bindR_simps x_def
        using False cpy(1,2) y(3) by (simp add: Let_def flip: m_def)
      have x: "wf_zio x" "stream x = drop m (stream z)" "length (z_chunks x) < fuel" "unread x + m = unread z"
        using cpy(3,4,6) y(3,5,6) Suc.prems(2) by (simp_all add: x_def)
      have cat: "take m (stream z) @ take (n - m) (drop m (stream z)) = take n (stream z)"
        using m(2) using take_add [of m "n - m" "stream z"] by simp
      have "m \<le> length (stream y)"
        using cpy(1) by (simp add: stream_def)
      then have mlen: "m \<le> length (stream z)"
        by (simp only: y(3))
      show ?thesis
      proof (cases "n - m = 0")
        case True
        with m(2) mlen have "m = n" "n \<le> length (stream z)"
          by simp_all
        then show ?thesis
          unfolding step using x(1,2,4) by (cases fuel) simp_all
      next
        case False
        then have "unat (z_n x) = 0"
          using cpy(5) by (simp add: x_def m_def split: if_splits)
        then have "z_n x = 0"
          by (simp only: unat_eq_zero)
        then have "length (z_chunks x) + (if z_n x = 0 then 0 else 1) < fuel"
          using x(3) by simp
        from Suc.IH [OF x(1) this, of "b @ take m (stream z)" "n - m"] show ?thesis
          unfolding step x(2) using cat m(2) mlen x(4) by (auto simp: le_diff_conv min_def split: if_splits)
      qed
    qed
  qed (use Suc.prems in auto)
qed simp

lemma luaZ_read_spec:
  assumes "wf_zio z"
  shows "\<exists>z'. luaZ_read z n = Inr (take n (stream z), n - length (stream z), z') \<and>
    wf_zio z' \<and> (n \<le> length (stream z) \<longrightarrow> stream z' = drop n (stream z)) \<and>
    unread z' + length (take n (stream z)) = unread z"
  using luaZ_read_loop_spec [OF assms, of "length (z_chunks z) + 2" "[]" n] by (simp add: luaZ_read_def)

section \<open>The interface to the readers of a stream\<close>

text \<open>
  The loader of precompiled chunks and the scanner use a stream through two operations.  \<open>rest\<close> is
  what is left of it.
\<close>

locale byte_source =
  fixes ok :: "'s \<Rightarrow> bool"
    and rest :: "'s \<Rightarrow> string"
    and getc :: "'s \<Rightarrow> (int \<times> 's) res"
    and read :: "'s \<Rightarrow> nat \<Rightarrow> (string \<times> nat \<times> 's) res"
    and left :: "'s \<Rightarrow> nat"
  assumes getc_some: "ok s \<Longrightarrow> rest s = c # cs \<Longrightarrow> \<exists>s'. getc s = Inr (char2int c, s') \<and>
      ok s' \<and> rest s' = cs \<and> left s' + 1 = left s"
    and getc_EOZ: "ok s \<Longrightarrow> rest s = [] \<Longrightarrow> \<exists>s'. getc s = Inr (EOZ, s')"
    and read_some: "ok s \<Longrightarrow> \<exists>s'. read s n = Inr (take n (rest s), n - length (rest s), s') \<and>
      ok s' \<and> (n \<le> length (rest s) \<longrightarrow> rest s' = drop n (rest s)) \<and>
      left s' + length (take n (rest s)) = left s"
begin

lemma read_exact:
  assumes "ok s" "rest s = bs @ r"
  shows "\<exists>s'. read s (length bs) = Inr (bs, 0, s') \<and> ok s' \<and> rest s' = r"
  using read_some [OF assms(1), of "length bs"] assms(2) by auto

text \<open>Reading makes progress, and never fails to end.\<close>

lemma getc_cases:
  assumes "ok s"
  shows "(\<exists>c s'. getc s = Inr (char2int c, s') \<and> ok s' \<and> left s' + 1 = left s) \<or>
    (\<exists>s'. getc s = Inr (EOZ, s'))"
  using getc_some [OF assms] getc_EOZ [OF assms] by (cases "rest s") blast+

lemma read_progress:
  assumes "ok s"
  shows "\<exists>bs r s'. read s n = Inr (bs, r, s') \<and> ok s' \<and> left s' + length bs = left s"
  using read_some [OF assms, of n] by metis

end

interpretation zio: byte_source wf_zio stream zgetc luaZ_read unread
  by unfold_locales (rule zgetc_some zgetc_EOZ luaZ_read_spec; assumption)+

section \<open>Properties\<close>

text \<open>
  C30: \<open>luaZ_read\<close> copies the next \<open>n\<close> bytes of the stream, over as many blocks as they take, and
  returns how many were missing; it drops exactly the bytes it copied.
\<close>

theorem read_spec:
  assumes "wf_zio z"
  shows "\<exists>z'. luaZ_read z n = Inr (take n (stream z), n - length (stream z), z') \<and> wf_zio z' \<and>
    (n \<le> length (stream z) \<longrightarrow> stream z' = drop n (stream z))"
  using luaZ_read_spec [OF assms] by blast

lemma read_spec_witness:
  "\<exists>z'. luaZ_read (luaZ_init [''ab'', ''cde'']) 3 = Inr (''abc'', 0, z') \<and> stream z' = ''de''"
proof -
  have e: "stream (luaZ_init [''ab'', ''cde'']) = ''abcde''"
    by (simp add: stream_def luaZ_init_def)
  have "wf_zio (luaZ_init [''ab'', ''cde''])"
    by (simp add: wf_luaZ_init)
  from read_spec [OF this, of 3] e show ?thesis
    by (auto simp: numeral_3_eq_3)
qed

text \<open>
  looking ahead shows the byte that the next \<open>zgetc\<close> returns, and consumes none.
\<close>

theorem lookahead_zgetc:
  assumes "wf_zio z" "stream z = c # cs"
  shows "\<exists>z'. luaZ_lookahead z = Inr (char2int c, z') \<and> stream z' = stream z \<and>
    (\<exists>z''. zgetc z' = Inr (char2int c, z'') \<and> stream z'' = cs)"
proof -
  obtain z' where z': "luaZ_lookahead z = Inr (char2int c, z')" "wf_zio z'" "stream z' = c # cs"
    using luaZ_lookahead_some [OF assms] by blast
  with zgetc_some [of z' c cs] assms(2) show ?thesis
    by auto
qed

lemma lookahead_zgetc_witness:
  "\<exists>z'. luaZ_lookahead (luaZ_init [''ab'']) = Inr (char2int (CHR ''a''), z') \<and>
    stream z' = stream (luaZ_init [''ab'']) \<and> (\<exists>z''. zgetc z' = Inr (char2int (CHR ''a''), z'') \<and> stream z'' = ''b'')"
  by (rule lookahead_zgetc) (simp_all add: wf_luaZ_init)

end
