(* ===== verification/Opcodes.thy ===== *)
theory Opcodes
  imports LuaPrelude
begin

unbundle bit_operations_syntax

text \<open>
  Virtual-machine instructions (\<open>lua/lopcodes.h\<close>, \<open>lua/lopcodes.c\<close>): the opcodes, the
  layout of an instruction word, the macros that read and write its fields, and the table of
  instruction properties \<open>luaP_opmodes\<close>.  An \<open>Instruction\<close> is an \<open>unsigned long\<close>, 64 bits
  wide on the modelled platform, of which a compiled instruction uses the low 32.
\<close>

section \<open>Opcodes\<close>

datatype OpCode =
  OP_MOVE | OP_LOADK | OP_LOADBOOL | OP_LOADNIL | OP_GETUPVAL | OP_GETGLOBAL | OP_GETTABLE |
  OP_SETGLOBAL | OP_SETUPVAL | OP_SETTABLE | OP_NEWTABLE | OP_SELF | OP_ADD | OP_SUB | OP_MUL
  | OP_DIV | OP_POW | OP_UNM | OP_NOT | OP_CONCAT | OP_JMP | OP_EQ | OP_LT | OP_LE | OP_TEST |
  OP_CALL | OP_TAILCALL | OP_RETURN | OP_FORLOOP | OP_TFORLOOP | OP_TFORPREP | OP_SETLIST |
  OP_SETLISTO | OP_CLOSE | OP_CLOSURE

text \<open>The numbering of the enumeration, which is the contents of the opcode field.\<close>

definition opcodes :: "OpCode list" where
  "opcodes =
    [OP_MOVE, OP_LOADK, OP_LOADBOOL, OP_LOADNIL, OP_GETUPVAL, OP_GETGLOBAL, OP_GETTABLE,
     OP_SETGLOBAL, OP_SETUPVAL, OP_SETTABLE, OP_NEWTABLE, OP_SELF, OP_ADD, OP_SUB, OP_MUL,
     OP_DIV, OP_POW, OP_UNM, OP_NOT, OP_CONCAT, OP_JMP, OP_EQ, OP_LT, OP_LE, OP_TEST, OP_CALL,
     OP_TAILCALL, OP_RETURN, OP_FORLOOP, OP_TFORLOOP, OP_TFORPREP, OP_SETLIST, OP_SETLISTO,
     OP_CLOSE, OP_CLOSURE]"

definition NUM_OPCODES :: nat where
  "NUM_OPCODES = length opcodes"

fun index_of :: "'a \<Rightarrow> 'a list \<Rightarrow> nat" where
  "index_of x [] = 0"
| "index_of x (y # ys) = (if x = y then 0 else Suc (index_of x ys))"

definition op_num :: "OpCode \<Rightarrow> nat" where
  "op_num o' = index_of o' opcodes"

definition op_of :: "nat \<Rightarrow> OpCode option" where
  "op_of n = (if n < NUM_OPCODES then Some (opcodes ! n) else None)"

section \<open>Layout\<close>

type_synonym Instruction = "64 word"

definition SIZE_C :: nat where "SIZE_C = 9"
definition SIZE_B :: nat where "SIZE_B = 9"
definition SIZE_Bx :: nat where "SIZE_Bx = SIZE_C + SIZE_B"
definition SIZE_A :: nat where "SIZE_A = 8"
definition SIZE_OP :: nat where "SIZE_OP = 6"
definition POS_C :: nat where "POS_C = SIZE_OP"
definition POS_B :: nat where "POS_B = POS_C + SIZE_C"
definition POS_Bx :: nat where "POS_Bx = POS_C"
definition POS_A :: nat where "POS_A = POS_B + SIZE_B"

lemmas layout_defs [instr_simps] =
  SIZE_C_def SIZE_B_def SIZE_Bx_def SIZE_A_def SIZE_OP_def POS_C_def POS_B_def POS_Bx_def POS_A_def

definition MAXARG_Bx :: int where "MAXARG_Bx = push_bit SIZE_Bx 1 - 1"
definition MAXARG_sBx :: int where "MAXARG_sBx = drop_bit 1 MAXARG_Bx"
definition MAXARG_A :: int where "MAXARG_A = push_bit SIZE_A 1 - 1"
definition MAXARG_B :: int where "MAXARG_B = push_bit SIZE_B 1 - 1"
definition MAXARG_C :: int where "MAXARG_C = push_bit SIZE_C 1 - 1"

definition NO_REG :: int where "NO_REG = MAXARG_A"
definition LFIELDS_PER_FLUSH :: int where "LFIELDS_PER_FLUSH = 32"

text \<open>Masks: \<open>n\<close> one (zero) bits at position \<open>p\<close>.\<close>

definition MASK1 :: "nat \<Rightarrow> nat \<Rightarrow> Instruction" where
  "MASK1 n p = push_bit p (NOT (push_bit n (NOT 0)))"

definition MASK0 :: "nat \<Rightarrow> nat \<Rightarrow> Instruction" where
  "MASK0 n p = NOT (MASK1 n p)"

section \<open>Fields\<close>

definition GET_OPCODE :: "Instruction \<Rightarrow> nat" where
  "GET_OPCODE i = unat (i AND MASK1 SIZE_OP 0)"

definition SET_OPCODE :: "Instruction \<Rightarrow> nat \<Rightarrow> Instruction" where
  "SET_OPCODE i o' = (i AND MASK0 SIZE_OP 0) OR word_of_nat o'"

definition GETARG_A :: "Instruction \<Rightarrow> int" where
  "GETARG_A i = int_of_ulong (drop_bit POS_A i)"

definition SETARG_A :: "Instruction \<Rightarrow> int \<Rightarrow> Instruction" where
  "SETARG_A i u = (i AND MASK0 SIZE_A POS_A) OR
     (push_bit POS_A (word_of_int u) AND MASK1 SIZE_A POS_A)"

definition GETARG_B :: "Instruction \<Rightarrow> int" where
  "GETARG_B i = int_of_ulong (drop_bit POS_B i AND MASK1 SIZE_B 0)"

definition SETARG_B :: "Instruction \<Rightarrow> int \<Rightarrow> Instruction" where
  "SETARG_B i b = (i AND MASK0 SIZE_B POS_B) OR
     (push_bit POS_B (word_of_int b) AND MASK1 SIZE_B POS_B)"

definition GETARG_C :: "Instruction \<Rightarrow> int" where
  "GETARG_C i = int_of_ulong (drop_bit POS_C i AND MASK1 SIZE_C 0)"

definition SETARG_C :: "Instruction \<Rightarrow> int \<Rightarrow> Instruction" where
  "SETARG_C i b = (i AND MASK0 SIZE_C POS_C) OR
     (push_bit POS_C (word_of_int b) AND MASK1 SIZE_C POS_C)"

definition GETARG_Bx :: "Instruction \<Rightarrow> int" where
  "GETARG_Bx i = int_of_ulong (drop_bit POS_Bx i AND MASK1 SIZE_Bx 0)"

definition SETARG_Bx :: "Instruction \<Rightarrow> int \<Rightarrow> Instruction" where
  "SETARG_Bx i b = (i AND MASK0 SIZE_Bx POS_Bx) OR
     (push_bit POS_Bx (word_of_int b) AND MASK1 SIZE_Bx POS_Bx)"

definition GETARG_sBx :: "Instruction \<Rightarrow> int" where
  "GETARG_sBx i = GETARG_Bx i - MAXARG_sBx"

text \<open>The argument is cast to \<open>unsigned int\<close> before it is stored.\<close>

definition SETARG_sBx :: "Instruction \<Rightarrow> int \<Rightarrow> Instruction" where
  "SETARG_sBx i b = SETARG_Bx i (uint (word_of_int (b + MAXARG_sBx) :: 32 word))"

definition CREATE_ABC :: "nat \<Rightarrow> int \<Rightarrow> int \<Rightarrow> int \<Rightarrow> Instruction" where
  "CREATE_ABC o' a b c = word_of_nat o' OR push_bit POS_A (word_of_int a)
     OR push_bit POS_B (word_of_int b) OR push_bit POS_C (word_of_int c)"

definition CREATE_ABx :: "nat \<Rightarrow> int \<Rightarrow> int \<Rightarrow> Instruction" where
  "CREATE_ABx o' a bc = word_of_nat o' OR push_bit POS_A (word_of_int a)
     OR push_bit POS_Bx (word_of_int bc)"

section \<open>Instruction properties\<close>

datatype OpMode = iABC | iABx | iAsBx

fun mode_num :: "OpMode \<Rightarrow> nat" where
  "mode_num iABC = 0"
| "mode_num iABx = 1"
| "mode_num iAsBx = 2"

definition OpModeBreg :: nat where "OpModeBreg = 2"
definition OpModeBrk :: nat where "OpModeBrk = 3"
definition OpModeCrk :: nat where "OpModeCrk = 4"
definition OpModesetA :: nat where "OpModesetA = 5"
definition OpModeK :: nat where "OpModeK = 6"
definition OpModeT :: nat where "OpModeT = 7"

lemmas modemask_defs [instr_simps] =
  OpModeBreg_def OpModeBrk_def OpModeCrk_def OpModesetA_def OpModeK_def OpModeT_def

definition opmode :: "nat \<Rightarrow> nat \<Rightarrow> nat \<Rightarrow> nat \<Rightarrow> nat \<Rightarrow> nat \<Rightarrow> OpMode \<Rightarrow> nat" where
  "opmode t b bk ck sa k m = push_bit OpModeT t OR push_bit OpModeBreg b OR push_bit OpModeBrk bk
     OR push_bit OpModeCrk ck OR push_bit OpModesetA sa OR push_bit OpModeK k OR mode_num m"

definition luaP_opmodes :: "nat list" where
  "luaP_opmodes = [
     opmode 0 1 0 0 1 0 iABC,  \<comment> \<open>OP_MOVE\<close>
     opmode 0 0 0 0 1 1 iABx,  \<comment> \<open>OP_LOADK\<close>
     opmode 0 0 0 0 1 0 iABC,  \<comment> \<open>OP_LOADBOOL\<close>
     opmode 0 1 0 0 1 0 iABC,  \<comment> \<open>OP_LOADNIL\<close>
     opmode 0 0 0 0 1 0 iABC,  \<comment> \<open>OP_GETUPVAL\<close>
     opmode 0 0 0 0 1 1 iABx,  \<comment> \<open>OP_GETGLOBAL\<close>
     opmode 0 1 0 1 1 0 iABC,  \<comment> \<open>OP_GETTABLE\<close>
     opmode 0 0 0 0 0 1 iABx,  \<comment> \<open>OP_SETGLOBAL\<close>
     opmode 0 0 0 0 0 0 iABC,  \<comment> \<open>OP_SETUPVAL\<close>
     opmode 0 0 1 1 0 0 iABC,  \<comment> \<open>OP_SETTABLE\<close>
     opmode 0 0 0 0 1 0 iABC,  \<comment> \<open>OP_NEWTABLE\<close>
     opmode 0 1 0 1 1 0 iABC,  \<comment> \<open>OP_SELF\<close>
     opmode 0 0 1 1 1 0 iABC,  \<comment> \<open>OP_ADD\<close>
     opmode 0 0 1 1 1 0 iABC,  \<comment> \<open>OP_SUB\<close>
     opmode 0 0 1 1 1 0 iABC,  \<comment> \<open>OP_MUL\<close>
     opmode 0 0 1 1 1 0 iABC,  \<comment> \<open>OP_DIV\<close>
     opmode 0 0 1 1 1 0 iABC,  \<comment> \<open>OP_POW\<close>
     opmode 0 1 0 0 1 0 iABC,  \<comment> \<open>OP_UNM\<close>
     opmode 0 1 0 0 1 0 iABC,  \<comment> \<open>OP_NOT\<close>
     opmode 0 1 0 1 1 0 iABC,  \<comment> \<open>OP_CONCAT\<close>
     opmode 0 0 0 0 0 0 iAsBx,  \<comment> \<open>OP_JMP\<close>
     opmode 1 0 1 1 0 0 iABC,  \<comment> \<open>OP_EQ\<close>
     opmode 1 0 1 1 0 0 iABC,  \<comment> \<open>OP_LT\<close>
     opmode 1 0 1 1 0 0 iABC,  \<comment> \<open>OP_LE\<close>
     opmode 1 1 0 0 1 0 iABC,  \<comment> \<open>OP_TEST\<close>
     opmode 0 0 0 0 0 0 iABC,  \<comment> \<open>OP_CALL\<close>
     opmode 0 0 0 0 0 0 iABC,  \<comment> \<open>OP_TAILCALL\<close>
     opmode 0 0 0 0 0 0 iABC,  \<comment> \<open>OP_RETURN\<close>
     opmode 0 0 0 0 0 0 iAsBx,  \<comment> \<open>OP_FORLOOP\<close>
     opmode 1 0 0 0 0 0 iABC,  \<comment> \<open>OP_TFORLOOP\<close>
     opmode 0 0 0 0 0 0 iAsBx,  \<comment> \<open>OP_TFORPREP\<close>
     opmode 0 0 0 0 0 0 iABx,  \<comment> \<open>OP_SETLIST\<close>
     opmode 0 0 0 0 0 0 iABx,  \<comment> \<open>OP_SETLISTO\<close>
     opmode 0 0 0 0 0 0 iABC,  \<comment> \<open>OP_CLOSE\<close>
     opmode 0 0 0 0 1 0 iABx  \<comment> \<open>OP_CLOSURE\<close>
    ]"

text \<open>
  The table has \<open>NUM_OPCODES\<close> entries and is indexed with the 6-bit opcode field, so an opcode
  above the last one reads behind the table: \<open>None\<close>.
\<close>

definition getOpMode :: "nat \<Rightarrow> OpMode option" where
  "getOpMode m = (if m < length luaP_opmodes
     then (case (luaP_opmodes ! m) AND 3 of 0 \<Rightarrow> Some iABC | Suc 0 \<Rightarrow> Some iABx | _ \<Rightarrow> Some iAsBx)
     else None)"

definition testOpMode :: "nat \<Rightarrow> nat \<Rightarrow> bool option" where
  "testOpMode m b = (if m < length luaP_opmodes
     then Some ((luaP_opmodes ! m) AND push_bit b 1 \<noteq> 0) else None)"

definition luaP_opnames :: "string list" where
  "luaP_opnames = [
     ''MOVE'', ''LOADK'', ''LOADBOOL'', ''LOADNIL'', ''GETUPVAL'', ''GETGLOBAL'', ''GETTABLE'',
     ''SETGLOBAL'', ''SETUPVAL'', ''SETTABLE'', ''NEWTABLE'', ''SELF'', ''ADD'', ''SUB'',
     ''MUL'', ''DIV'', ''POW'', ''UNM'', ''NOT'', ''CONCAT'', ''JMP'', ''EQ'', ''LT'', ''LE'',
     ''TEST'', ''CALL'', ''TAILCALL'', ''RETURN'', ''FORLOOP'', ''TFORLOOP'', ''TFORPREP'',
     ''SETLIST'', ''SETLISTO'', ''CLOSE'', ''CLOSURE'']"

section \<open>Fields as bit fields\<close>

text \<open>A compiled instruction only uses the low 32 bits.\<close>

definition wf_instr :: "Instruction \<Rightarrow> bool" where
  "wf_instr i \<longleftrightarrow> take_bit 32 i = i"

lemma bit_MASK1 [bit_simps]: "bit (MASK1 n p) k \<longleftrightarrow> p \<le> k \<and> k < p + n \<and> k < 64"
  by (auto simp: MASK1_def bit_simps)

lemma bit_MASK0 [bit_simps]: "bit (MASK0 n p) k \<longleftrightarrow> k < 64 \<and> \<not> (p \<le> k \<and> k < p + n)"
  by (auto simp: MASK0_def bit_simps)

lemma and_MASK1: "w AND MASK1 n 0 = take_bit n (w :: Instruction)"
  by (rule bit_word_eqI) (auto simp: bit_simps)

lemma bit_lt_64: "bit (i :: Instruction) k \<Longrightarrow> k < 64"
  using bit_imp_le_length [of i k] by simp

lemma wf_instr_bit: "wf_instr i \<longleftrightarrow> (\<forall>k. bit i k \<longrightarrow> k < 32)"
  unfolding wf_instr_def bit_eq_iff bit_take_bit_iff
  by (simp, metis bit_lt_64)

lemma wf_instr_uint: "wf_instr i \<longleftrightarrow> uint i < 2 ^ 32"
proof -
  have "wf_instr i \<longleftrightarrow> take_bit 32 (uint i) = uint i"
    by (simp add: wf_instr_def flip: unsigned_take_bit_eq) (simp add: word_uint_eq_iff)
  then show ?thesis
    by (simp add: take_bit_int_eq_self_iff)
qed

lemma word_of_int_take_bit_self:
  "0 \<le> v \<Longrightarrow> v < 2 ^ n \<Longrightarrow> n < 64 \<Longrightarrow> uint (take_bit n (word_of_int v :: Instruction)) = v"
  by (simp add: unsigned_take_bit_eq uint_word_of_int_eq take_bit_int_eq_self min_def)

lemma int_of_ulong_take_bit:
  "n \<le> 31 \<Longrightarrow> int_of_ulong (take_bit n w) = uint (take_bit n w)"
proof (rule int_of_ulong_small)
  assume "n \<le> 31"
  have "uint (take_bit n w) < 2 ^ n"
    by (simp add: unsigned_take_bit_eq take_bit_int_less_exp)
  also have "\<dots> \<le> (2::int) ^ 31"
    using \<open>n \<le> 31\<close> by (intro power_increasing) auto
  finally show "uint (take_bit n w) < 2 ^ 31" .
qed

lemma GETARG_B_eq: "GETARG_B i = uint (take_bit 9 (drop_bit 15 i))"
  by (simp add: GETARG_B_def and_MASK1 int_of_ulong_take_bit instr_simps)

lemma GETARG_C_eq: "GETARG_C i = uint (take_bit 9 (drop_bit 6 i))"
  by (simp add: GETARG_C_def and_MASK1 int_of_ulong_take_bit instr_simps)

lemma GETARG_Bx_eq: "GETARG_Bx i = uint (take_bit 18 (drop_bit 6 i))"
  by (simp add: GETARG_Bx_def and_MASK1 int_of_ulong_take_bit instr_simps)

lemma GET_OPCODE_eq: "GET_OPCODE i = unat (take_bit 6 i)"
  by (simp add: GET_OPCODE_def and_MASK1 instr_simps)

lemma GETARG_A_eq: "wf_instr i \<Longrightarrow> GETARG_A i = uint (take_bit 8 (drop_bit 24 i))"
proof -
  assume "wf_instr i"
  then have "drop_bit 24 i = take_bit 8 (drop_bit 24 i)"
    by (intro bit_word_eqI) (auto simp: wf_instr_bit bit_simps)
  then have "int_of_ulong (drop_bit 24 i) = int_of_ulong (take_bit 8 (drop_bit 24 i))"
    by (rule arg_cong)
  then show ?thesis
    by (simp add: GETARG_A_def int_of_ulong_take_bit instr_simps)
qed

lemma field_get_set:
  "p + n \<le> 64 \<Longrightarrow>
   take_bit n (drop_bit p ((i AND MASK0 n p) OR (push_bit p v AND MASK1 n p))) = take_bit n v"
  by (rule bit_word_eqI) (auto simp: bit_simps)

lemma field_get_set_other:
  "q + m \<le> p \<or> p + n \<le> q \<Longrightarrow>
   take_bit m (drop_bit q ((i AND MASK0 n p) OR (push_bit p v AND MASK1 n p))) =
   take_bit m (drop_bit q i)"
  by (rule bit_word_eqI) (auto simp: bit_simps dest: bit_imp_le_length)

lemma field_set_get:
  "(i AND MASK0 n p) OR (push_bit p (take_bit n (drop_bit p i)) AND MASK1 n p) = i"
  by (rule bit_word_eqI) (auto simp: bit_simps)

lemma field_set_set:
  "(((i AND MASK0 n p) OR (push_bit p u AND MASK1 n p)) AND MASK0 n p) OR
     (push_bit p v AND MASK1 n p) =
   (i AND MASK0 n p) OR (push_bit p v AND MASK1 n p)"
  by (rule bit_word_eqI) (auto simp: bit_simps)

text \<open>
  The interface of an instruction argument: a macro \<open>get\<close> and a macro \<open>set\<close> on the \<open>n\<close> bits
  at position \<open>p\<close>.  The laws that users of the macros rely on follow once and for all.
\<close>

locale instr_field =
  fixes get' :: "Instruction \<Rightarrow> int" and set' :: "Instruction \<Rightarrow> int \<Rightarrow> Instruction"
    and n :: nat and p :: nat
  assumes get_eq: "wf_instr i \<Longrightarrow> get' i = uint (take_bit n (drop_bit p i))"
    and set_eq: "set' i v = (i AND MASK0 n p) OR (push_bit p (word_of_int v) AND MASK1 n p)"
    and fits: "p + n \<le> 32" "n < 32"
begin

lemma wf_set: "wf_instr i \<Longrightarrow> wf_instr (set' i v)"
  using fits by (auto simp: wf_instr_bit set_eq bit_simps)

lemma get_set: "wf_instr i \<Longrightarrow> 0 \<le> v \<Longrightarrow> v < 2 ^ n \<Longrightarrow> get' (set' i v) = v"
  using get_eq [OF wf_set, of i v] fits field_get_set [of p n i "word_of_int v"]
  by (simp add: set_eq word_of_int_take_bit_self)

lemma set_get: "wf_instr i \<Longrightarrow> set' i (get' i) = i"
  by (simp add: get_eq set_eq field_set_get)

lemma set_set: "set' (set' i u) v = set' i v"
  by (simp only: set_eq field_set_set)

lemma get_range: "wf_instr i \<Longrightarrow> 0 \<le> get' i \<and> get' i < 2 ^ n"
  by (simp add: get_eq unsigned_take_bit_eq take_bit_int_less_exp)

end

text \<open>Two arguments in disjoint bits do not disturb each other.\<close>

locale disjoint_fields =
  f: instr_field get1 set1 n1 p1 + g: instr_field get2 set2 n2 p2
  for get1 set1 n1 p1 and get2 set2 n2 p2 +
  assumes disjoint: "p1 + n1 \<le> p2 \<or> p2 + n2 \<le> p1"
begin

lemma get1_set2: "wf_instr i \<Longrightarrow> get1 (set2 i v) = get1 i"
  using f.get_eq [OF g.wf_set, of i v] f.get_eq [of i] field_get_set_other [OF disjoint]
  by (simp add: g.set_eq)

lemma get2_set1: "wf_instr i \<Longrightarrow> get2 (set1 i v) = get2 i"
  using g.get_eq [OF f.wf_set, of i v] g.get_eq [of i]
    field_get_set_other [OF disjoint [THEN disj_commute [THEN iffD1]]]
  by (simp add: f.set_eq)

end

interpretation A: instr_field GETARG_A SETARG_A 8 24
  by unfold_locales (simp_all add: GETARG_A_eq SETARG_A_def instr_simps)

interpretation B: instr_field GETARG_B SETARG_B 9 15
  by unfold_locales (simp_all add: GETARG_B_eq SETARG_B_def instr_simps)

interpretation C: instr_field GETARG_C SETARG_C 9 6
  by unfold_locales (simp_all add: GETARG_C_eq SETARG_C_def instr_simps)

interpretation Bx: instr_field GETARG_Bx SETARG_Bx 18 6
  by unfold_locales (simp_all add: GETARG_Bx_eq SETARG_Bx_def instr_simps)

interpretation AB: disjoint_fields GETARG_A SETARG_A 8 24 GETARG_B SETARG_B 9 15
  by unfold_locales simp

interpretation AC: disjoint_fields GETARG_A SETARG_A 8 24 GETARG_C SETARG_C 9 6
  by unfold_locales simp

interpretation BC: disjoint_fields GETARG_B SETARG_B 9 15 GETARG_C SETARG_C 9 6
  by unfold_locales simp

interpretation ABx: disjoint_fields GETARG_A SETARG_A 8 24 GETARG_Bx SETARG_Bx 18 6
  by unfold_locales simp

text \<open>The numbering of opcodes is a bijection onto \<open>0 \<dots> NUM_OPCODES - 1\<close>.\<close>

lemma NUM_OPCODES_eq: "NUM_OPCODES = 35"
  by (simp add: NUM_OPCODES_def opcodes_def)

lemma op_of_num [simp]: "op_of (op_num o') = Some o'"
  by (cases o') (simp_all add: op_of_def op_num_def NUM_OPCODES_def opcodes_def)

lemma index_of_nth: "distinct xs \<Longrightarrow> n < length xs \<Longrightarrow> index_of (xs ! n) xs = n"
  by (induction xs arbitrary: n) (auto simp: nth_Cons nth_eq_iff_index_eq split: nat.splits)

lemma op_num_of: "op_of n = Some o' \<Longrightarrow> op_num o' = n"
proof -
  have "distinct opcodes"
    by (simp add: opcodes_def)
  then show "op_of n = Some o' \<Longrightarrow> op_num o' = n"
    by (auto simp: op_of_def op_num_def NUM_OPCODES_def index_of_nth split: if_splits)
qed

lemma op_num_less [simp]: "op_num o' < 35"
  by (cases o') (simp_all add: op_num_def opcodes_def)

lemma op_num_inject [simp]: "op_num x = op_num y \<longleftrightarrow> x = y"
  by (metis op_of_num option.inject)

text \<open>
  \<open>CREATE_ABC\<close> and \<open>CREATE_ABx\<close> build well-formed instructions when the arguments are in
  range, and the field macros read back what was stored.
\<close>

lemma bit_arg:
  assumes "0 \<le> v" "v < 2 ^ n" "n \<le> k"
  shows "\<not> bit (word_of_int v :: Instruction) k"
proof
  assume "bit (word_of_int v :: Instruction) k"
  then have "bit v k"
    by (simp add: bit_simps)
  moreover have "take_bit n v = v"
    using assms by (simp add: take_bit_int_eq_self)
  ultimately show False
    using \<open>n \<le> k\<close> by (metis bit_take_bit_iff not_le)
qed

lemma bit_op: "m < 64 \<Longrightarrow> 6 \<le> k \<Longrightarrow> \<not> bit (word_of_nat m :: Instruction) k"
  using bit_arg [of "int m" 6 k] by simp

lemma bit_A: "0 \<le> a \<Longrightarrow> a \<le> MAXARG_A \<Longrightarrow> 8 \<le> k \<Longrightarrow> \<not> bit (word_of_int a :: Instruction) k"
  by (rule bit_arg [of _ 8]) (simp_all add: MAXARG_A_def instr_simps)

lemma bit_B: "0 \<le> b \<Longrightarrow> b \<le> MAXARG_B \<Longrightarrow> 9 \<le> k \<Longrightarrow> \<not> bit (word_of_int b :: Instruction) k"
  by (rule bit_arg [of _ 9]) (simp_all add: MAXARG_B_def instr_simps)

lemma bit_C: "0 \<le> c \<Longrightarrow> c \<le> MAXARG_C \<Longrightarrow> 9 \<le> k \<Longrightarrow> \<not> bit (word_of_int c :: Instruction) k"
  by (rule bit_arg [of _ 9]) (simp_all add: MAXARG_C_def instr_simps)

lemmas bit_args = bit_op bit_A bit_B bit_C

lemma bit_CREATE_ABC:
  "bit (CREATE_ABC op a b c) k \<longleftrightarrow>
   k < 64 \<and> (bit (word_of_nat op :: Instruction) k \<or>
     24 \<le> k \<and> bit (word_of_int a :: Instruction) (k - 24) \<or>
     15 \<le> k \<and> bit (word_of_int b :: Instruction) (k - 15) \<or>
     6 \<le> k \<and> bit (word_of_int c :: Instruction) (k - 6))"
  using bit_lt_64 [of "word_of_nat op" k]
  by (auto simp: CREATE_ABC_def bit_simps instr_simps simp del: of_nat_eq_iff)

lemma wf_CREATE_ABC:
  assumes "op < 64" "0 \<le> a" "a \<le> MAXARG_A" "0 \<le> b" "b \<le> MAXARG_B" "0 \<le> c" "c \<le> MAXARG_C"
  shows "wf_instr (CREATE_ABC op a b c)"
  unfolding wf_instr_bit bit_CREATE_ABC
proof (intro allI impI, elim conjE disjE)
  fix k
  show "bit (word_of_nat op :: Instruction) k \<Longrightarrow> k < 32"
    using bit_op [of op k] assms by (cases "k < 32") auto
  show "24 \<le> k \<Longrightarrow> bit (word_of_int a :: Instruction) (k - 24) \<Longrightarrow> k < 32"
    using bit_A [of a "k - 24"] assms by (cases "k < 32") auto
  show "15 \<le> k \<Longrightarrow> bit (word_of_int b :: Instruction) (k - 15) \<Longrightarrow> k < 32"
    using bit_B [of b "k - 15"] assms by (cases "k < 32") auto
  show "6 \<le> k \<Longrightarrow> bit (word_of_int c :: Instruction) (k - 6) \<Longrightarrow> k < 32"
    using bit_C [of c "k - 6"] assms by (cases "k < 32") auto
qed

lemma take_bit_arg:
  "0 \<le> v \<Longrightarrow> v < 2 ^ n \<Longrightarrow> n < 64 \<Longrightarrow> uint (take_bit n (word_of_int v :: Instruction)) = v"
  by (rule word_of_int_take_bit_self)

lemma take_bit_op: "m < 64 \<Longrightarrow> unat (take_bit 6 (word_of_nat m :: Instruction)) = m"
  by (simp add: unsigned_take_bit_eq unsigned_of_nat take_bit_nat_eq_self)

lemma GETARG_A_CREATE_ABC:
  assumes "op < 64" "0 \<le> a" "a \<le> MAXARG_A" "0 \<le> b" "b \<le> MAXARG_B" "0 \<le> c" "c \<le> MAXARG_C"
  shows "GETARG_A (CREATE_ABC op a b c) = a"
proof -
  have "take_bit 8 (drop_bit 24 (CREATE_ABC op a b c)) = take_bit 8 (word_of_int a)"
    by (rule bit_word_eqI)
      (use assms in \<open>auto simp: bit_take_bit_iff bit_drop_bit_eq bit_CREATE_ABC bit_args\<close>)
  then show ?thesis
    using assms by (simp add: GETARG_A_eq wf_CREATE_ABC take_bit_arg MAXARG_A_def instr_simps)
qed

lemma GETARG_B_CREATE_ABC:
  assumes "op < 64" "0 \<le> b" "b \<le> MAXARG_B" "0 \<le> c" "c \<le> MAXARG_C"
  shows "GETARG_B (CREATE_ABC op a b c) = b"
proof -
  have "take_bit 9 (drop_bit 15 (CREATE_ABC op a b c)) = take_bit 9 (word_of_int b)"
    by (rule bit_word_eqI)
      (use assms in \<open>auto simp: bit_take_bit_iff bit_drop_bit_eq bit_CREATE_ABC bit_args\<close>)
  then show ?thesis
    using assms by (simp add: GETARG_B_eq take_bit_arg MAXARG_B_def instr_simps)
qed

lemma GETARG_C_CREATE_ABC:
  assumes "op < 64" "0 \<le> c" "c \<le> MAXARG_C"
  shows "GETARG_C (CREATE_ABC op a b c) = c"
proof -
  have "take_bit 9 (drop_bit 6 (CREATE_ABC op a b c)) = take_bit 9 (word_of_int c)"
    by (rule bit_word_eqI)
      (use assms in \<open>auto simp: bit_take_bit_iff bit_drop_bit_eq bit_CREATE_ABC bit_args\<close>)
  then show ?thesis
    using assms by (simp add: GETARG_C_eq take_bit_arg MAXARG_C_def instr_simps)
qed

lemma GET_OPCODE_CREATE_ABC:
  assumes "op < 64"
  shows "GET_OPCODE (CREATE_ABC op a b c) = op"
proof -
  have "take_bit 6 (CREATE_ABC op a b c) = take_bit 6 (word_of_nat op)"
    by (rule bit_word_eqI) (auto simp: bit_take_bit_iff bit_CREATE_ABC)
  then show ?thesis
    using assms by (simp add: GET_OPCODE_eq take_bit_op)
qed

text \<open>Every 32-bit instruction word is built from its own fields.\<close>

lemma CREATE_ABC_fields:
  assumes "wf_instr i"
  shows "CREATE_ABC (GET_OPCODE i) (GETARG_A i) (GETARG_B i) (GETARG_C i) = i"
proof -
  have "CREATE_ABC (GET_OPCODE i) (GETARG_A i) (GETARG_B i) (GETARG_C i) =
    take_bit 6 i OR push_bit 24 (take_bit 8 (drop_bit 24 i))
      OR push_bit 15 (take_bit 9 (drop_bit 15 i)) OR push_bit 6 (take_bit 9 (drop_bit 6 i))"
    using assms
    by (simp add: CREATE_ABC_def GET_OPCODE_eq GETARG_A_eq GETARG_B_eq GETARG_C_eq instr_simps)
  also have "\<dots> = i"
  proof (rule bit_word_eqI)
    fix n
    have "n < 32" if "bit i n"
      using that assms by (simp add: wf_instr_bit)
    then show "bit (take_bit 6 i OR push_bit 24 (take_bit 8 (drop_bit 24 i))
        OR push_bit 15 (take_bit 9 (drop_bit 15 i)) OR push_bit 6 (take_bit 9 (drop_bit 6 i))) n
      = bit i n"
      by (cases "24 \<le> n"; cases "15 \<le> n"; cases "6 \<le> n")
        (auto simp: bit_simps dest: bit_lt_64)
  qed
  finally show ?thesis .
qed

text \<open>Signed arguments are stored in excess \<open>MAXARG_sBx\<close>.\<close>

lemma GETARG_sBx_SETARG_sBx:
  assumes "wf_instr i" "- MAXARG_sBx \<le> b" "b \<le> MAXARG_sBx"
  shows "GETARG_sBx (SETARG_sBx i b) = b"
proof -
  have "uint (word_of_int (b + MAXARG_sBx) :: 32 word) = b + MAXARG_sBx"
    unfolding uint_word_of_int_eq using assms
    by (intro take_bit_int_eq_self) (simp_all add: MAXARG_sBx_def MAXARG_Bx_def instr_simps)
  then show ?thesis
    using assms Bx.get_set [of i "b + MAXARG_sBx"]
    by (simp add: GETARG_sBx_def SETARG_sBx_def MAXARG_sBx_def MAXARG_Bx_def instr_simps)
qed

section \<open>Properties\<close>

text \<open>
  C33: for arguments in the ranges of their fields \<open>CREATE_ABC\<close> builds an instruction of 32 bits,
  and the \<open>GET\<close> macros read every argument back: no field disturbs another.
\<close>

theorem instruction_fields:
  assumes "m < 64" "0 \<le> a" "a \<le> MAXARG_A" "0 \<le> b" "b \<le> MAXARG_B" "0 \<le> c" "c \<le> MAXARG_C"
  shows "wf_instr (CREATE_ABC m a b c) \<and> GET_OPCODE (CREATE_ABC m a b c) = m \<and>
    GETARG_A (CREATE_ABC m a b c) = a \<and> GETARG_B (CREATE_ABC m a b c) = b \<and>
    GETARG_C (CREATE_ABC m a b c) = c"
  using assms by (simp add: wf_CREATE_ABC GET_OPCODE_CREATE_ABC GETARG_A_CREATE_ABC GETARG_B_CREATE_ABC
      GETARG_C_CREATE_ABC)

lemma instruction_fields_witness:
  "wf_instr (CREATE_ABC 34 255 511 0) \<and> GET_OPCODE (CREATE_ABC 34 255 511 0) = 34 \<and>
    GETARG_A (CREATE_ABC 34 255 511 0) = 255 \<and> GETARG_B (CREATE_ABC 34 255 511 0) = 511 \<and>
    GETARG_C (CREATE_ABC 34 255 511 0) = 0"
  by (rule instruction_fields) (simp_all add: MAXARG_A_def MAXARG_B_def MAXARG_C_def layout_defs)

text \<open>
  patching the signed argument of an instruction, as jumps are fixed, stores the argument and
  leaves the opcode and register \<open>A\<close> alone.
\<close>

theorem patch_sBx:
  assumes "wf_instr i" "- MAXARG_sBx \<le> b" "b \<le> MAXARG_sBx"
  shows "GETARG_sBx (SETARG_sBx i b) = b \<and> GETARG_A (SETARG_sBx i b) = GETARG_A i \<and>
    GET_OPCODE (SETARG_sBx i b) = GET_OPCODE i"
proof -
  have "GET_OPCODE (SETARG_Bx i v) = GET_OPCODE i" for v
  proof -
    have "take_bit 6 (SETARG_Bx i v) = take_bit 6 i"
      by (rule bit_word_eqI) (auto simp: SETARG_Bx_def bit_simps layout_defs dest: bit_lt_64)
    then show ?thesis
      by (simp add: GET_OPCODE_eq)
  qed
  then show ?thesis
    using assms GETARG_sBx_SETARG_sBx ABx.get1_set2 by (simp add: SETARG_sBx_def)
qed

lemma patch_sBx_witness:
  "GETARG_sBx (SETARG_sBx 0x14 (-3)) = -3 \<and> GETARG_A (SETARG_sBx 0x14 (-3)) = GETARG_A 0x14 \<and>
    GET_OPCODE (SETARG_sBx 0x14 (-3)) = GET_OPCODE 0x14"
  by (rule patch_sBx) (simp_all add: wf_instr_def MAXARG_sBx_def MAXARG_Bx_def layout_defs take_bit_eq_mod)

end
