(* ===== verification/Protos.thy ===== *)
theory Protos
  imports Objects Opcodes
begin

text \<open>
  Function prototypes (\<open>lua/lobject.h\<close>) and the operations of \<open>lua/lfunc.c\<close> on them.

  A pointer to a string is \<open>None\<close> for NULL and otherwise the contents of the string.  The sizes of
  the C struct (\<open>sizek\<close>, \<open>sizecode\<close>, \dots) are the lengths of the lists.
\<close>

text \<open>
  The constants of a function are of three types only.  A precompiled chunk can hold a string
  constant that is a null pointer, which no other Lua value can.
\<close>

datatype Konst = KNil | KNumber lua_Number | KString "string option"

record LocVar =
  varname :: "string option"
  startpc :: int
  endpc :: int

datatype Proto = Proto
  (f_k: "Konst list")
  (f_code: "Instruction list")
  (f_p: "Proto list")
  (f_lineinfo: "int list")
  (f_locvars: "LocVar list")
  (f_upvalues: "string option list")
  (f_source: "string option")
  (f_lineDefined: int)
  (f_nups: "8 word")
  (f_numparams: "8 word")
  (f_is_vararg: "8 word")
  (f_maxstacksize: "8 word")

definition luaF_newproto :: Proto where
  "luaF_newproto = Proto [] [] [] [] [] [] None 0 0 0 0 0"

abbreviation sizecode :: "Proto \<Rightarrow> int" where
  "sizecode pt \<equiv> int (length (f_code pt))"

abbreviation sizek :: "Proto \<Rightarrow> int" where
  "sizek pt \<equiv> int (length (f_k pt))"

abbreviation maxstack :: "Proto \<Rightarrow> int" where
  "maxstack pt \<equiv> uint (f_maxstacksize pt)"

section \<open>Names of local variables\<close>

text \<open>
  The loop of \<open>luaF_getlocalname\<close>: the \<open>n\<close>-th variable active at \<open>pc\<close>.  The variables are in the
  order of their \<open>startpc\<close>.  The result \<open>None\<close> is NULL.  \<open>getstr\<close> of a null name is a pointer to no
  string.
\<close>

definition getstr :: "string option \<Rightarrow> string option res" where
  "getstr ts = (case ts of None \<Rightarrow> Inl OutOfBounds | Some s \<Rightarrow> Inr (Some s))"

fun getlocalname_loop :: "LocVar list \<Rightarrow> int \<Rightarrow> int \<Rightarrow> string option res" where
  "getlocalname_loop [] n pc = Inr None"
| "getlocalname_loop (v # vs) n pc =
    (if startpc v \<le> pc then
       (if pc < endpc v then
          (if n - 1 = 0 then getstr (varname v) else getlocalname_loop vs (n - 1) pc)
        else getlocalname_loop vs n pc)
     else Inr None)"

definition luaF_getlocalname :: "Proto \<Rightarrow> int \<Rightarrow> int \<Rightarrow> string option res" where
  "luaF_getlocalname f local_number pc = getlocalname_loop (f_locvars f) local_number pc"

text \<open>With the variables sorted, the early exit of the loop misses none.\<close>

definition active :: "int \<Rightarrow> LocVar \<Rightarrow> bool" where
  "active pc v \<longleftrightarrow> startpc v \<le> pc \<and> pc < endpc v"

lemma getlocalname_loop_active:
  assumes "sorted (map startpc vs)" "1 \<le> n"
  shows "getlocalname_loop vs n pc =
    (let act = filter (active pc) vs
     in if nat n \<le> length act then getstr (varname (act ! (nat n - 1))) else Inr None)"
  using assms
proof (induction vs n pc rule: getlocalname_loop.induct)
  case (2 v vs n pc)
  have av: "active pc v \<longleftrightarrow> startpc v \<le> pc \<and> pc < endpc v"
    by (simp add: active_def)
  have none: "filter (active pc) vs = []" if "\<not> startpc v \<le> pc"
    using that 2(3) by (auto simp: active_def filter_empty_conv)
  show ?case
  proof (cases "startpc v \<le> pc \<and> pc < endpc v \<and> n \<noteq> 1")
    case True
    then have "nat n - Suc 0 = Suc (nat (n - 1) - Suc 0)" "1 \<le> n - 1" "nat n = Suc (nat (n - 1))"
      using 2(4) by auto
    with True 2 show ?thesis
      by (simp add: av Let_def)
  next
    case False
    with 2 none show ?thesis
      by (auto simp: av Let_def)
  qed
qed simp

end
