(* ===== verification/CodeCheck.thy ===== *)
theory CodeCheck
  imports Protos
begin

text \<open>
  The code checker and symbolic execution of \<open>lua/ldebug.c\<close>, which every precompiled chunk passes
  through before it runs, and what a chunk that passes cannot do.

  \<open>luaG_symbexec\<close> returns an instruction, 0 for a failed check.
\<close>

unbundle bit_operations_syntax

definition MAXSTACK :: int where "MAXSTACK = 250"
definition LUA_MULTRET :: int where "LUA_MULTRET = -1"

section \<open>The checks\<close>

definition code_at :: "Proto \<Rightarrow> int \<Rightarrow> Instruction res" where
  "code_at pt pc = (if 0 \<le> pc \<and> pc < sizecode pt then Inr (f_code pt ! nat pc) else Inl OutOfBounds)"

definition precheck :: "Proto \<Rightarrow> bool res" where
  "precheck pt =
    (if \<not> maxstack pt \<le> MAXSTACK then Inr False
     else if \<not> (length (f_lineinfo pt) = length (f_code pt) \<or> length (f_lineinfo pt) = 0) then Inr False
     else bindR (code_at pt (sizecode pt - 1)) (\<lambda>i. Inr (GET_OPCODE i = op_num OP_RETURN)))"

definition checkopenop :: "Proto \<Rightarrow> int \<Rightarrow> bool res" where
  "checkopenop pt pc = bindR (code_at pt (pc + 1)) (\<lambda>i. Inr
    (case op_of (GET_OPCODE i) of
       Some OP_CALL \<Rightarrow> GETARG_B i = 0
     | Some OP_TAILCALL \<Rightarrow> GETARG_B i = 0
     | Some OP_RETURN \<Rightarrow> GETARG_B i = 0
     | Some OP_SETLISTO \<Rightarrow> True
     | _ \<Rightarrow> False))"

definition checkRK :: "Proto \<Rightarrow> int \<Rightarrow> bool" where
  "checkRK pt r \<longleftrightarrow> r < maxstack pt \<or> MAXSTACK \<le> r \<and> r - MAXSTACK < sizek pt"

text \<open>The first switch: the operands \<open>b\<close> and \<open>c\<close>, or \<open>None\<close> for a failed check.\<close>

definition has_mode :: "nat \<Rightarrow> nat \<Rightarrow> bool" where
  "has_mode op' m \<longleftrightarrow> testOpMode op' m = Some True"

definition check_operands :: "Proto \<Rightarrow> Instruction \<Rightarrow> nat \<Rightarrow> OpMode \<Rightarrow> (int \<times> int) option" where
  "check_operands pt i op' mode = (case mode of
     iABC \<Rightarrow>
       (let b = GETARG_B i; c = GETARG_C i
        in if has_mode op' OpModeBreg \<and> \<not> b < maxstack pt then None
           else if \<not> has_mode op' OpModeBreg \<and> has_mode op' OpModeBrk \<and> \<not> checkRK pt b then None
           else if has_mode op' OpModeCrk \<and> \<not> checkRK pt c then None
           else Some (b, c))
   | iABx \<Rightarrow>
       (let b = GETARG_Bx i
        in if has_mode op' OpModeK \<and> \<not> b < sizek pt then None else Some (b, 0))
   | iAsBx \<Rightarrow> Some (GETARG_sBx i, 0))"

text \<open>
  The second switch, on the opcode.  The result is the new \<open>pc\<close> and \<open>last\<close>, \<open>None\<close> for a failed
  check.
\<close>

definition require :: "bool \<Rightarrow> 'a option res \<Rightarrow> 'a option res" where
  "require x k = (if x then k else Inr None)"

definition check_jump :: "Proto \<Rightarrow> int \<Rightarrow> int \<Rightarrow> int \<Rightarrow> int \<Rightarrow> int \<Rightarrow> (int \<times> int) option res" where
  "check_jump pt lastpc reg pc lst b =
    (let dest = pc + 1 + b
     in require (0 \<le> dest \<and> dest < sizecode pt)
          (Inr (Some (if reg \<noteq> NO_REG \<and> pc < dest \<and> dest \<le> lastpc then (pc + b, lst) else (pc, lst)))))"

definition check_call :: "Proto \<Rightarrow> int \<Rightarrow> int \<Rightarrow> int \<Rightarrow> int \<Rightarrow> int \<Rightarrow> int \<Rightarrow> (int \<times> int) option res" where
  "check_call pt reg pc lst a b c =
    require (b = 0 \<or> a + b - 1 < maxstack pt)
     (let c = c - 1; r = Inr (Some (pc, if a \<le> reg then pc else lst))
      in if c = LUA_MULTRET then bindR (checkopenop pt pc) (\<lambda>ok. require ok r)
         else if c \<noteq> 0 then require (a + c - 1 < maxstack pt) r
         else r)"

text \<open>The loop over the pseudo-instructions behind \<open>OP_CLOSURE\<close>.\<close>

fun check_closure_loop :: "Proto \<Rightarrow> int \<Rightarrow> nat \<Rightarrow> bool res" where
  "check_closure_loop pt pc 0 = Inr True"
| "check_closure_loop pt pc (Suc nup) =
    bindR (code_at pt (pc + int (Suc nup))) (\<lambda>i.
      if GET_OPCODE i = op_num OP_GETUPVAL \<or> GET_OPCODE i = op_num OP_MOVE
      then check_closure_loop pt pc nup else Inr False)"

definition check_opcode ::
  "Proto \<Rightarrow> int \<Rightarrow> int \<Rightarrow> int \<Rightarrow> int \<Rightarrow> OpCode \<Rightarrow> int \<Rightarrow> int \<Rightarrow> int \<Rightarrow> (int \<times> int) option res" where
  "check_opcode pt lastpc reg pc lst op' a b c = (case op' of
     OP_LOADBOOL \<Rightarrow> require (c = 0 \<or> pc + 2 < sizecode pt) (Inr (Some (pc, lst)))
   | OP_LOADNIL \<Rightarrow> Inr (Some (pc, if a \<le> reg \<and> reg \<le> b then pc else lst))
   | OP_GETUPVAL \<Rightarrow> require (b < uint (f_nups pt)) (Inr (Some (pc, lst)))
   | OP_SETUPVAL \<Rightarrow> require (b < uint (f_nups pt)) (Inr (Some (pc, lst)))
   | OP_GETGLOBAL \<Rightarrow> require (case f_k pt ! nat b of KString _ \<Rightarrow> True | _ \<Rightarrow> False) (Inr (Some (pc, lst)))
   | OP_SETGLOBAL \<Rightarrow> require (case f_k pt ! nat b of KString _ \<Rightarrow> True | _ \<Rightarrow> False) (Inr (Some (pc, lst)))
   | OP_SELF \<Rightarrow> require (a + 1 < maxstack pt) (Inr (Some (pc, if reg = a + 1 then pc else lst)))
   | OP_CONCAT \<Rightarrow> require (c < MAXSTACK \<and> b < c) (Inr (Some (pc, lst)))
   | OP_TFORLOOP \<Rightarrow> require (a + c + 5 < maxstack pt)
       (let lst = (if a \<le> reg then pc else lst)
        in require (a + 2 < maxstack pt) (check_jump pt lastpc reg pc lst b))
   | OP_FORLOOP \<Rightarrow> require (a + 2 < maxstack pt) (check_jump pt lastpc reg pc lst b)
   | OP_JMP \<Rightarrow> check_jump pt lastpc reg pc lst b
   | OP_CALL \<Rightarrow> check_call pt reg pc lst a b c
   | OP_TAILCALL \<Rightarrow> check_call pt reg pc lst a b c
   | OP_RETURN \<Rightarrow>
       (let b = b - 1 in require (b \<le> 0 \<or> a + b - 1 < maxstack pt) (Inr (Some (pc, lst))))
   | OP_SETLIST \<Rightarrow>
       require (a + (b AND (LFIELDS_PER_FLUSH - 1)) + 1 < maxstack pt) (Inr (Some (pc, lst)))
   | OP_CLOSURE \<Rightarrow> require (b < int (length (f_p pt)))
       (let nup = unat (f_nups (f_p pt ! nat b))
        in require (pc + int nup < sizecode pt)
             (bindR (check_closure_loop pt pc nup) (\<lambda>ok. require ok (Inr (Some (pc, lst))))))
   | _ \<Rightarrow> Inr (Some (pc, lst)))"

text \<open>One round of the loop.\<close>

definition symbexec_step :: "Proto \<Rightarrow> int \<Rightarrow> int \<Rightarrow> int \<Rightarrow> int \<Rightarrow> (int \<times> int) option res" where
  "symbexec_step pt lastpc reg pc lst =
    bindR (code_at pt pc) (\<lambda>i.
      (let op' = GET_OPCODE i; a = GETARG_A i
       in require (a < maxstack pt)
         (case (getOpMode op', op_of op') of
            (Some mode, Some opc) \<Rightarrow>
              (case check_operands pt i op' mode of
                 None \<Rightarrow> Inr None
               | Some (b, c) \<Rightarrow>
                   (let lst = (if has_mode op' OpModesetA \<and> a = reg then pc else lst);
                        go = check_opcode pt lastpc reg pc lst opc a b c
                    in if has_mode op' OpModeT then
                         require (pc + 2 < sizecode pt)
                           (bindR (code_at pt (pc + 1)) (\<lambda>j. require (GET_OPCODE j = op_num OP_JMP) go))
                       else go))
          | _ \<Rightarrow> Inl OutOfBounds)))"

lemma require_eq: "require x k = Inr (Some r) \<longleftrightarrow> x \<and> k = Inr (Some r)"
  by (simp add: require_def)

lemma check_jump_pc: "check_jump pt lastpc reg pc lst b = Inr (Some (pc', lst')) \<Longrightarrow> pc \<le> pc'"
  by (auto simp: check_jump_def Let_def require_eq split: if_splits)

lemma check_call_pc: "check_call pt reg pc lst a b c = Inr (Some (pc', lst')) \<Longrightarrow> pc' = pc"
  by (auto simp: check_call_def require_eq bindR_eq_Inr Let_def split: if_splits)

lemma check_jump_last: "check_jump pt lastpc reg pc lst b = Inr (Some (pc', lst')) \<Longrightarrow> lst' = lst"
  by (auto simp: check_jump_def Let_def require_eq split: if_splits)

lemma check_call_last: "check_call pt reg pc lst a b c = Inr (Some (pc', lst')) \<Longrightarrow> lst' = lst \<or> lst' = pc"
  by (auto simp: check_call_def require_eq bindR_eq_Inr Let_def split: if_splits)

lemma check_opcode_last:
  "check_opcode pt lastpc reg pc lst op' a b c = Inr (Some (pc', lst')) \<Longrightarrow> lst' = lst \<or> lst' = pc"
  by (cases op'; simp add: check_opcode_def require_eq bindR_eq_Inr Let_def)
    (auto dest!: check_jump_last check_call_last)

lemma check_opcode_pc:
  "check_opcode pt lastpc reg pc lst op' a b c = Inr (Some (pc', lst')) \<Longrightarrow> pc \<le> pc'"
  by (cases op'; simp add: check_opcode_def require_eq bindR_eq_Inr Let_def)
    (auto dest: check_jump_pc check_call_pc)

lemma symbexec_stepE:
  assumes "symbexec_step pt lastpc reg pc lst = Inr (Some r)"
  obtains i mode opc b c l where
    "code_at pt pc = Inr i" "GETARG_A i < maxstack pt" "l = lst \<or> l = pc"
    "getOpMode (GET_OPCODE i) = Some mode" "op_of (GET_OPCODE i) = Some opc"
    "check_operands pt i (GET_OPCODE i) mode = Some (b, c)"
    "check_opcode pt lastpc reg pc l opc (GETARG_A i) b c = Inr (Some r)"
    "has_mode (GET_OPCODE i) OpModeT \<Longrightarrow>
      pc + 2 < sizecode pt \<and> (\<exists>j. code_at pt (pc + 1) = Inr j \<and> GET_OPCODE j = op_num OP_JMP)"
proof -
  obtain i where i: "code_at pt pc = Inr i" "GETARG_A i < maxstack pt"
    using assms by (auto simp: symbexec_step_def bindR_eq_Inr require_eq Let_def)
  note r1 = assms [unfolded symbexec_step_def i(1) bindR_simps Let_def require_eq, THEN conjunct2]
  obtain mode opc where m: "getOpMode (GET_OPCODE i) = Some mode" "op_of (GET_OPCODE i) = Some opc"
    using r1 by (cases "getOpMode (GET_OPCODE i)"; cases "op_of (GET_OPCODE i)") auto
  obtain b c where bc: "check_operands pt i (GET_OPCODE i) mode = Some (b, c)"
    using r1 m by (cases "check_operands pt i (GET_OPCODE i) mode") auto
  show ?thesis
    using r1 that [OF i _ m bc] by (auto simp: m bc require_eq bindR_eq_Inr split: if_split_asm)
qed

lemma symbexec_step_pc:
  "symbexec_step pt lastpc reg pc lst = Inr (Some (pc', lst')) \<Longrightarrow> pc \<le> pc'"
  by (auto elim!: symbexec_stepE dest: check_opcode_pc)

lemma symbexec_step_last:
  "symbexec_step pt lastpc reg pc lst = Inr (Some (pc', lst')) \<Longrightarrow> lst' = lst \<or> lst' = pc"
  by (auto elim!: symbexec_stepE dest: check_opcode_last)

function symbexec_loop :: "Proto \<Rightarrow> int \<Rightarrow> int \<Rightarrow> int \<Rightarrow> int \<Rightarrow> Instruction res" where
  "symbexec_loop pt lastpc reg pc lst =
    (if pc < lastpc then
       bindR (symbexec_step pt lastpc reg pc lst) (\<lambda>r. case r of
           None \<Rightarrow> Inr 0
         | Some (pc, lst) \<Rightarrow> symbexec_loop pt lastpc reg (pc + 1) lst)
     else code_at pt lst)"
  by pat_completeness auto
termination
  by (relation "measure (\<lambda>(pt, lastpc, reg, pc, lst). nat (lastpc - pc))")
    (auto dest!: symbexec_step_pc)

declare symbexec_loop.simps [simp del]

definition luaG_symbexec :: "Proto \<Rightarrow> int \<Rightarrow> int \<Rightarrow> Instruction res" where
  "luaG_symbexec pt lastpc reg =
    bindR (precheck pt) (\<lambda>ok. if ok then symbexec_loop pt lastpc reg 0 (sizecode pt - 1) else Inr 0)"

definition luaG_checkcode :: "Proto \<Rightarrow> int res" where
  "luaG_checkcode pt = bindR (luaG_symbexec pt (sizecode pt) NO_REG) (\<lambda>i. Inr (int_of_ulong i))"

section \<open>What an instruction touches\<close>

text \<open>
  Read off the interpreter (\<open>luaV_execute\<close>): the registers an instruction reads or writes, the
  operands that are a register or a constant, the constants, and where control can go next.
\<close>

definition mode_of :: "OpCode \<Rightarrow> OpMode" where
  "mode_of opc = (if opc \<in> {OP_JMP, OP_FORLOOP, OP_TFORPREP} then iAsBx
     else if opc \<in> {OP_LOADK, OP_GETGLOBAL, OP_SETGLOBAL, OP_SETLIST, OP_SETLISTO, OP_CLOSURE} then iABx
     else iABC)"

definition arg_b :: "OpCode \<Rightarrow> Instruction \<Rightarrow> int" where
  "arg_b opc i = (case mode_of opc of iABC \<Rightarrow> GETARG_B i | iABx \<Rightarrow> GETARG_Bx i | iAsBx \<Rightarrow> GETARG_sBx i)"

definition arg_c :: "OpCode \<Rightarrow> Instruction \<Rightarrow> int" where
  "arg_c opc i = (case mode_of opc of iABC \<Rightarrow> GETARG_C i | _ \<Rightarrow> 0)"

definition registers :: "OpCode \<Rightarrow> int \<Rightarrow> int \<Rightarrow> int \<Rightarrow> int set" where
  "registers opc a b c = (case opc of
     OP_MOVE \<Rightarrow> {a, b} | OP_UNM \<Rightarrow> {a, b} | OP_NOT \<Rightarrow> {a, b} | OP_TEST \<Rightarrow> {a, b} | OP_GETTABLE \<Rightarrow> {a, b}
   | OP_LOADNIL \<Rightarrow> {a..b} \<union> {b}
   | OP_SELF \<Rightarrow> {a, a + 1, b}
   | OP_CONCAT \<Rightarrow> {a} \<union> {b..c}
   | OP_CALL \<Rightarrow> {a} \<union> {a..a + b - 1} \<union> {a..a + c - 2}
   | OP_TAILCALL \<Rightarrow> {a} \<union> {a..a + b - 1} \<union> {a..a + c - 2}
   | OP_RETURN \<Rightarrow> {a..a + b - 2}
   | OP_FORLOOP \<Rightarrow> {a..a + 2}
   | OP_TFORPREP \<Rightarrow> {a, a + 1}
   | OP_TFORLOOP \<Rightarrow> {a..a + c + 5}
   | OP_SETLIST \<Rightarrow> {a..a + (b AND (LFIELDS_PER_FLUSH - 1)) + 1}
   | OP_JMP \<Rightarrow> {} | OP_EQ \<Rightarrow> {} | OP_LT \<Rightarrow> {} | OP_LE \<Rightarrow> {}
   | _ \<Rightarrow> {a})"

definition rk_operands :: "OpCode \<Rightarrow> int \<Rightarrow> int \<Rightarrow> int set" where
  "rk_operands opc b c =
    (if opc \<in> {OP_SETTABLE, OP_ADD, OP_SUB, OP_MUL, OP_DIV, OP_POW, OP_EQ, OP_LT, OP_LE} then {b, c}
     else if opc \<in> {OP_GETTABLE, OP_SELF} then {c} else {})"

definition constants :: "OpCode \<Rightarrow> int \<Rightarrow> int set" where
  "constants opc b = (if opc \<in> {OP_LOADK, OP_GETGLOBAL, OP_SETGLOBAL} then {b} else {})"

definition successors :: "Proto \<Rightarrow> int \<Rightarrow> OpCode \<Rightarrow> int \<Rightarrow> int \<Rightarrow> int set" where
  "successors pt pc opc b c = (case opc of
     OP_JMP \<Rightarrow> {pc + 1 + b}
   | OP_FORLOOP \<Rightarrow> {pc + 1, pc + 1 + b}
   | OP_TFORPREP \<Rightarrow> {pc + 1 + b}
   | OP_LOADBOOL \<Rightarrow> {pc + (if c = 0 then 1 else 2)}
   | OP_EQ \<Rightarrow> {pc + 1, pc + 2} | OP_LT \<Rightarrow> {pc + 1, pc + 2} | OP_LE \<Rightarrow> {pc + 1, pc + 2}
   | OP_TEST \<Rightarrow> {pc + 1, pc + 2} | OP_TFORLOOP \<Rightarrow> {pc + 1, pc + 2}
   | OP_CLOSURE \<Rightarrow> {pc + 1 + uint (f_nups (f_p pt ! nat b))}
   | OP_RETURN \<Rightarrow> {}
   | _ \<Rightarrow> {pc + 1})"

definition rk_ok :: "Proto \<Rightarrow> int \<Rightarrow> bool" where
  "rk_ok pt x \<longleftrightarrow> (if x < MAXSTACK then x < maxstack pt else x - MAXSTACK < sizek pt)"

definition safe_instr :: "Proto \<Rightarrow> int \<Rightarrow> bool" where
  "safe_instr pt pc \<longleftrightarrow> (case op_of (GET_OPCODE (f_code pt ! nat pc)) of
     None \<Rightarrow> False
   | Some opc \<Rightarrow>
      (let i = f_code pt ! nat pc; a = GETARG_A i; b = arg_b opc i; c = arg_c opc i
       in (\<forall>r \<in> registers opc a b c. 0 \<le> r \<and> r < maxstack pt) \<and>
          (\<forall>x \<in> rk_operands opc b c. 0 \<le> x \<and> rk_ok pt x) \<and>
          (\<forall>k \<in> constants opc b. 0 \<le> k \<and> k < sizek pt) \<and>
          (opc \<in> {OP_GETGLOBAL, OP_SETGLOBAL} \<longrightarrow> (\<exists>s. f_k pt ! nat b = KString s)) \<and>
          (opc \<in> {OP_GETUPVAL, OP_SETUPVAL} \<longrightarrow> 0 \<le> b \<and> b < uint (f_nups pt)) \<and>
          (opc = OP_CLOSURE \<longrightarrow> 0 \<le> b \<and> b < int (length (f_p pt))) \<and>
          (\<forall>t \<in> successors pt pc opc b c. 0 \<le> t \<and> t < sizecode pt)))"

section \<open>Soundness of the checker\<close>

lemma opmodes_eval: "luaP_opmodes =
    [36, 97, 32, 36, 32, 97, 52, 65, 0, 24, 32, 52, 56, 56, 56, 56, 56, 36,
     36, 52, 2, 152, 152, 152, 164, 0, 0, 0, 2, 128, 2, 1, 1, 0, 33]"
  by (simp add: luaP_opmodes_def opmode_def modemask_defs push_bit_eq_mult)

lemmas mode_eval = getOpMode_def has_mode_def testOpMode_def opmodes_eval op_num_def opcodes_def modemask_defs
  push_bit_eq_mult

lemma mode_table: "getOpMode (op_num opc) = Some (mode_of opc)"
  by (induct opc) (simp_all add: mode_eval mode_of_def)

lemma breg_table: "has_mode (op_num opc) OpModeBreg \<longleftrightarrow>
    opc \<in> {OP_MOVE, OP_LOADNIL, OP_GETTABLE, OP_SELF, OP_UNM, OP_NOT, OP_CONCAT, OP_TEST}"
  by (induct opc) (simp_all add: mode_eval)

lemma brk_table: "has_mode (op_num opc) OpModeBrk \<longleftrightarrow>
    opc \<in> {OP_SETTABLE, OP_ADD, OP_SUB, OP_MUL, OP_DIV, OP_POW, OP_EQ, OP_LT, OP_LE}"
  by (induct opc) (simp_all add: mode_eval)

lemma crk_table: "has_mode (op_num opc) OpModeCrk \<longleftrightarrow>
    opc \<in> {OP_GETTABLE, OP_SELF, OP_CONCAT, OP_SETTABLE, OP_ADD, OP_SUB, OP_MUL, OP_DIV, OP_POW, OP_EQ, OP_LT, OP_LE}"
  by (induct opc) (simp_all add: mode_eval)

lemma k_table: "has_mode (op_num opc) OpModeK \<longleftrightarrow> opc \<in> {OP_LOADK, OP_GETGLOBAL, OP_SETGLOBAL}"
  by (induct opc) (simp_all add: mode_eval)

lemma t_table: "has_mode (op_num opc) OpModeT \<longleftrightarrow> opc \<in> {OP_EQ, OP_LT, OP_LE, OP_TEST, OP_TFORLOOP}"
  by (induct opc) (simp_all add: mode_eval)

lemmas mode_tables = breg_table brk_table crk_table k_table t_table

lemma arg_ranges:
  "0 \<le> GETARG_B i" "0 \<le> GETARG_C i" "0 \<le> GETARG_Bx i" "wf_instr i \<Longrightarrow> 0 \<le> GETARG_A i"
  by (simp_all add: GETARG_B_eq GETARG_C_eq GETARG_Bx_eq GETARG_A_eq)

lemma arg_b_nonneg: "mode_of opc \<noteq> iAsBx \<Longrightarrow> 0 \<le> arg_b opc i"
  using arg_ranges by (simp add: arg_b_def split: OpMode.splits)

lemma arg_c_nonneg: "0 \<le> arg_c opc i"
  using arg_ranges by (simp add: arg_c_def split: OpMode.splits)

lemma check_operandsD:
  assumes "check_operands pt i (op_num opc) (mode_of opc) = Some (b, c)"
  shows "b = arg_b opc i" "c = arg_c opc i"
    "opc \<in> {OP_MOVE, OP_LOADNIL, OP_GETTABLE, OP_SELF, OP_UNM, OP_NOT, OP_CONCAT, OP_TEST} \<Longrightarrow> b < maxstack pt"
    "opc \<in> {OP_SETTABLE, OP_ADD, OP_SUB, OP_MUL, OP_DIV, OP_POW, OP_EQ, OP_LT, OP_LE} \<Longrightarrow> checkRK pt b"
    "opc \<in> {OP_GETTABLE, OP_SELF, OP_CONCAT, OP_SETTABLE, OP_ADD, OP_SUB, OP_MUL, OP_DIV, OP_POW,
       OP_EQ, OP_LT, OP_LE} \<Longrightarrow> checkRK pt c"
    "opc \<in> {OP_LOADK, OP_GETGLOBAL, OP_SETGLOBAL} \<Longrightarrow> b < sizek pt"
  using assms
  by (auto simp: check_operands_def mode_tables mode_of_def arg_b_def arg_c_def Let_def split: if_splits)

lemma checkRK_ok: "checkRK pt x \<Longrightarrow> maxstack pt \<le> MAXSTACK \<Longrightarrow> rk_ok pt x"
  by (auto simp: checkRK_def rk_ok_def)

text \<open>The parts of \<open>safe_instr\<close>, from the checks of an instruction without a jump (\<open>NO_REG\<close>).\<close>

lemma require_Inr: "require x k = Inr (Some r) \<Longrightarrow> x \<and> k = Inr (Some r)"
  by (simp add: require_eq)

lemma check_registers:
  assumes "check_operands pt i (op_num opc) (mode_of opc) = Some (b, c)"
    "check_opcode pt lastpc reg pc l opc a b c = Inr (Some r)" "a < maxstack pt" "maxstack pt \<le> MAXSTACK"
    "x \<in> registers opc a b c" "opc \<noteq> OP_TFORPREP"
  shows "x < maxstack pt"
proof -
  note bc = check_operandsD [OF assms(1)]
  have c: "c < maxstack pt" if "opc = OP_CONCAT"
    using that assms(2) bc(5) checkRK_ok [OF _ assms(4), of c]
    by (simp add: check_opcode_def require_eq rk_ok_def)
  show ?thesis
  proof (cases opc)
    case OP_CALL
    then show ?thesis
      using assms(2,3,5)
      by (auto simp: registers_def check_opcode_def check_call_def require_eq bindR_eq_Inr Let_def
          LUA_MULTRET_def split: if_splits)
  next
    case OP_TAILCALL
    then show ?thesis
      using assms(2,3,5)
      by (auto simp: registers_def check_opcode_def check_call_def require_eq bindR_eq_Inr Let_def
          LUA_MULTRET_def split: if_splits)
  qed (use assms(2,3,5,6) bc(3) c in \<open>auto simp: registers_def check_opcode_def require_eq Let_def split: if_splits\<close>)
qed

lemma registers_nonneg:
  assumes "x \<in> registers opc a (arg_b opc i) (arg_c opc i)" "0 \<le> a"
  shows "0 \<le> x"
  using assms arg_b_nonneg [of opc i] arg_c_nonneg [of opc i]
  by (cases opc) (auto simp: registers_def mode_of_def)

lemma check_rk_operands:
  assumes "check_operands pt i (op_num opc) (mode_of opc) = Some (b, c)" "maxstack pt \<le> MAXSTACK"
    "x \<in> rk_operands opc b c"
  shows "0 \<le> x \<and> rk_ok pt x"
proof -
  note bc = check_operandsD [OF assms(1)]
  have "0 \<le> b" "0 \<le> c" if "mode_of opc \<noteq> iAsBx"
    using that bc(1,2) arg_b_nonneg arg_c_nonneg by simp_all
  then show ?thesis
    using assms(3) bc(4,5) checkRK_ok [OF _ assms(2)]
    by (auto simp: rk_operands_def mode_of_def split: if_splits)
qed

text \<open>The last instruction is a return, so the next instruction of any other is in the code.\<close>

lemma next_in_code:
  assumes "code_at pt (sizecode pt - 1) = Inr j" "GET_OPCODE j = op_num OP_RETURN"
    "code_at pt pc = Inr i" "op_of (GET_OPCODE i) \<noteq> Some OP_RETURN"
  shows "pc + 1 < sizecode pt"
proof -
  have "pc \<noteq> sizecode pt - 1"
    using assms by auto
  then show ?thesis
    using assms(3) by (auto simp: code_at_def split: if_splits)
qed

lemma check_closure_loopD:
  "check_closure_loop pt pc nup = Inr True \<Longrightarrow> 0 < nup \<Longrightarrow>
    \<exists>j. code_at pt (pc + int nup) = Inr j \<and> op_of (GET_OPCODE j) \<noteq> Some OP_RETURN"
  by (cases nup) (auto simp: bindR_eq_Inr split: if_splits)

lemma check_successors:
  assumes "check_opcode pt lastpc reg pc l opc a b c = Inr (Some r)"
    and i: "code_at pt pc = Inr i" "op_of (GET_OPCODE i) = Some opc"
    and last: "code_at pt (sizecode pt - 1) = Inr j" "GET_OPCODE j = op_num OP_RETURN"
    and t: "opc \<in> {OP_EQ, OP_LT, OP_LE, OP_TEST, OP_TFORLOOP} \<Longrightarrow> pc + 2 < sizecode pt"
    and "opc \<noteq> OP_TFORPREP" "t \<in> successors pt pc opc b c"
  shows "0 \<le> t \<and> t < sizecode pt"
proof -
  have pc: "0 \<le> pc" "opc \<noteq> OP_RETURN \<Longrightarrow> pc + 1 < sizecode pt"
    using next_in_code [OF last i(1)] i by (auto simp: code_at_def split: if_splits)
  show ?thesis
  proof (cases "opc = OP_CLOSURE")
    case True
    define nup where "nup = unat (f_nups (f_p pt ! nat b))"
    from assms(1) True have c: "pc + int nup < sizecode pt" "check_closure_loop pt pc nup = Inr True"
      by (auto simp: check_opcode_def require_eq bindR_eq_Inr Let_def nup_def)
    have "pc + int nup + 1 < sizecode pt"
    proof (cases "nup = 0")
      case False
      then obtain k where "code_at pt (pc + int nup) = Inr k" "op_of (GET_OPCODE k) \<noteq> Some OP_RETURN"
        using check_closure_loopD [OF c(2)] by auto
      then show ?thesis
        using next_in_code [OF last] by simp
    qed (use pc True in simp)
    then show ?thesis
      using True assms(8) pc(1) by (simp add: successors_def nup_def)
  next
    case False
    then show ?thesis
      using assms(1,7,8) t pc
      by (cases opc) (auto simp: successors_def check_opcode_def check_jump_def require_eq Let_def split: if_splits)
  qed
qed

lemma symbexec_step_safe:
  assumes step: "symbexec_step pt lastpc reg pc l0 = Inr (Some r)"
    and max: "maxstack pt \<le> MAXSTACK"
    and last: "code_at pt (sizecode pt - 1) = Inr j" "GET_OPCODE j = op_num OP_RETURN"
    and wf: "wf_instr (f_code pt ! nat pc)" and prep: "op_of (GET_OPCODE (f_code pt ! nat pc)) \<noteq> Some OP_TFORPREP"
  shows "safe_instr pt pc"
  using step
proof (rule symbexec_stepE)
  fix i mode opc b c l
  assume i: "code_at pt pc = Inr i" and a: "GETARG_A i < maxstack pt"
    and "l = l0 \<or> l = pc"
    and "getOpMode (GET_OPCODE i) = Some mode" and opc: "op_of (GET_OPCODE i) = Some opc"
    and "check_operands pt i (GET_OPCODE i) mode = Some (b, c)"
    and go: "check_opcode pt lastpc reg pc l opc (GETARG_A i) b c = Inr (Some r)"
    and t: "has_mode (GET_OPCODE i) OpModeT \<Longrightarrow>
      pc + 2 < sizecode pt \<and> (\<exists>j. code_at pt (pc + 1) = Inr j \<and> GET_OPCODE j = op_num OP_JMP)"
  then have num: "GET_OPCODE i = op_num opc" and mode: "mode = mode_of opc"
    and ops: "check_operands pt i (op_num opc) (mode_of opc) = Some (b, c)"
    using op_num_of [OF opc] mode_table [of opc] by auto
  note bc = check_operandsD [OF ops]
  have code: "f_code pt ! nat pc = i"
    using i by (auto simp: code_at_def split: if_splits)
  have prep: "opc \<noteq> OP_TFORPREP"
    using prep opc unfolding code by simp
  have "0 \<le> GETARG_A i"
    using wf arg_ranges(4) unfolding code by blast
  then have regs: "\<forall>x \<in> registers opc (GETARG_A i) b c. 0 \<le> x \<and> x < maxstack pt"
    using check_registers [OF ops go a max _ prep] registers_nonneg bc(1,2) by blast
  have rks: "\<forall>x \<in> rk_operands opc b c. 0 \<le> x \<and> rk_ok pt x"
    using check_rk_operands [OF ops max] by blast
  have succ: "\<forall>t \<in> successors pt pc opc b c. 0 \<le> t \<and> t < sizecode pt"
    using check_successors [OF go i opc last _ prep] t unfolding num mode_tables by blast
  have b0: "mode_of opc \<noteq> iAsBx \<Longrightarrow> 0 \<le> b"
    using arg_b_nonneg bc(1) by simp
  have rest: "(\<forall>k \<in> constants opc b. 0 \<le> k \<and> k < sizek pt) \<and>
      (opc \<in> {OP_GETGLOBAL, OP_SETGLOBAL} \<longrightarrow> (\<exists>s. f_k pt ! nat b = KString s)) \<and>
      (opc \<in> {OP_GETUPVAL, OP_SETUPVAL} \<longrightarrow> 0 \<le> b \<and> b < uint (f_nups pt)) \<and>
      (opc = OP_CLOSURE \<longrightarrow> 0 \<le> b \<and> b < int (length (f_p pt)))"
    using go b0 bc(6)
    by (auto simp: constants_def check_opcode_def require_eq mode_of_def Let_def
        split: Konst.splits if_splits)
  show "safe_instr pt pc"
    unfolding safe_instr_def code opc option.case Let_def bc(1,2) [symmetric]
    using regs rks succ rest by blast
qed

lemma check_jump_NO_REG: "check_jump pt lastpc NO_REG pc l b = Inr (Some (pc', l')) \<Longrightarrow> pc' = pc"
  by (auto simp: check_jump_def require_eq Let_def)

lemma check_opcode_NO_REG:
  "check_opcode pt lastpc NO_REG pc l op' a b c = Inr (Some (pc', l')) \<Longrightarrow> pc' = pc"
  by (cases op'; simp add: check_opcode_def require_eq bindR_eq_Inr Let_def)
    (auto dest: check_jump_NO_REG check_call_pc)

lemma symbexec_loop_steps:
  assumes "symbexec_loop pt lastpc NO_REG pc l = Inr i" "i \<noteq> 0" "pc \<le> k" "k < lastpc"
  shows "\<exists>l r. symbexec_step pt lastpc NO_REG k l = Inr (Some r)"
  using assms
proof (induction pt lastpc NO_REG pc l rule: symbexec_loop.induct)
  case (1 pt lastpc pc l)
  have lt: "pc < lastpc"
    using 1(4,5) by simp
  have "bindR (symbexec_step pt lastpc NO_REG pc l) (\<lambda>r. case r of
           None \<Rightarrow> Inr 0
         | Some (pc, lst) \<Rightarrow> symbexec_loop pt lastpc NO_REG (pc + 1) lst) = Inr i"
    using 1(2) lt by (subst (asm) symbexec_loop.simps) simp
  then obtain pc' l' where st: "symbexec_step pt lastpc NO_REG pc l = Inr (Some (pc', l'))"
    and rec: "symbexec_loop pt lastpc NO_REG (pc' + 1) l' = Inr i"
    using 1(3) by (auto simp: bindR_eq_Inr split: option.splits)
  have "pc' = pc"
    using st by (auto elim!: symbexec_stepE dest: check_opcode_NO_REG)
  then show ?case
    using 1(1) [OF lt st refl refl rec 1(3) _ 1(5)] st 1(4) by (cases "k = pc") auto
qed

lemma precheckD:
  assumes "precheck pt = Inr True"
  obtains j where "maxstack pt \<le> MAXSTACK" "code_at pt (sizecode pt - 1) = Inr j"
    "GET_OPCODE j = op_num OP_RETURN"
  using assms by (auto simp: precheck_def bindR_eq_Inr split: if_splits)

lemma luaG_checkcode_safe:
  assumes "luaG_checkcode pt = Inr r" "r \<noteq> 0" "0 \<le> pc" "pc < sizecode pt"
    "wf_instr (f_code pt ! nat pc)" "op_of (GET_OPCODE (f_code pt ! nat pc)) \<noteq> Some OP_TFORPREP"
  shows "safe_instr pt pc"
proof -
  obtain i where i: "luaG_symbexec pt (sizecode pt) NO_REG = Inr i" "int_of_ulong i = r"
    using assms(1) by (auto simp: luaG_checkcode_def bindR_eq_Inr)
  with assms(2) have "i \<noteq> 0"
    by (auto simp: int_of_ulong_def)
  note i = i(1) this
  from i have pre: "precheck pt = Inr True"
    and loop: "symbexec_loop pt (sizecode pt) NO_REG 0 (sizecode pt - 1) = Inr i"
    by (auto simp: luaG_symbexec_def bindR_eq_Inr split: if_splits)
  from pre obtain j where "maxstack pt \<le> MAXSTACK" "code_at pt (sizecode pt - 1) = Inr j"
    "GET_OPCODE j = op_num OP_RETURN"
    by (rule precheckD)
  moreover from loop obtain l r where "symbexec_step pt (sizecode pt) NO_REG pc l = Inr (Some r)"
    using symbexec_loop_steps i(2) assms(3,4) by blast
  ultimately show ?thesis
    using symbexec_step_safe assms(5,6) by blast
qed

section \<open>The checker itself stays in bounds\<close>

definition known_opcodes :: "Proto \<Rightarrow> bool" where
  "known_opcodes pt \<longleftrightarrow> (\<forall>i \<in> set (f_code pt). GET_OPCODE i < NUM_OPCODES)"

abbreviation returns :: "'a res \<Rightarrow> bool" where
  "returns x \<equiv> \<exists>r. x = Inr r"

lemma returns_require: "(x \<Longrightarrow> returns k) \<Longrightarrow> returns (require x k)"
  by (simp add: require_def)

lemma returns_bindR: "m = Inr x \<Longrightarrow> returns (f x) \<Longrightarrow> returns (bindR m f)"
  by simp

lemma returns_code_at: "0 \<le> pc \<Longrightarrow> pc < sizecode pt \<Longrightarrow> code_at pt pc = Inr (f_code pt ! nat pc)"
  by (simp add: code_at_def)

lemma returns_check_closure:
  "0 \<le> pc \<Longrightarrow> pc + int nup < sizecode pt \<Longrightarrow> returns (check_closure_loop pt pc nup)"
  by (induction nup) (auto simp: returns_code_at)

lemma returns_check_opcode:
  assumes "0 \<le> pc" "pc < sizecode pt" "opc \<in> {OP_CALL, OP_TAILCALL} \<Longrightarrow> pc + 1 < sizecode pt"
  shows "returns (check_opcode pt lastpc reg pc l opc a b c)"
proof -
  have jump: "returns (check_jump pt lastpc reg pc l b)" for l
    by (simp add: check_jump_def require_def Let_def)
  have call: "returns (check_call pt reg pc l a b c)" if "pc + 1 < sizecode pt"
    using that assms(1)
    by (auto simp: check_call_def checkopenop_def returns_code_at Let_def intro!: returns_require)
  show ?thesis
  proof (cases opc)
    case OP_CLOSURE
    show ?thesis
      unfolding check_opcode_def OP_CLOSURE OpCode.case Let_def
      by (intro returns_require) (use returns_check_closure assms(1) in \<open>fastforce simp: require_def\<close>)
  qed (use assms(3) jump call in \<open>auto simp: check_opcode_def Let_def intro!: returns_require\<close>)
qed

lemma returns_symbexec_step:
  assumes "known_opcodes pt" "0 \<le> pc" "pc < sizecode pt"
    and last: "code_at pt (sizecode pt - 1) = Inr j" "GET_OPCODE j = op_num OP_RETURN"
  shows "returns (symbexec_step pt lastpc reg pc l)"
proof -
  define i where "i = f_code pt ! nat pc"
  have i: "code_at pt pc = Inr i"
    using assms(2,3) by (simp add: i_def returns_code_at)
  have "i \<in> set (f_code pt)"
    unfolding i_def using assms(2,3) by (auto intro!: nth_mem)
  then obtain opc where opc: "op_of (GET_OPCODE i) = Some opc" "GET_OPCODE i = op_num opc"
    using assms(1) op_num_of by (fastforce simp: known_opcodes_def op_of_def)
  have next': "opc \<noteq> OP_RETURN \<Longrightarrow> pc + 1 < sizecode pt"
    using next_in_code [OF last i] opc by simp
  have go: "returns (check_opcode pt lastpc reg pc l opc a b c)" for l a b c
    by (rule returns_check_opcode) (use assms(2,3) next' in auto)
  have go': "returns (if has_mode (GET_OPCODE i) OpModeT then
      require (pc + 2 < sizecode pt) (bindR (code_at pt (pc + 1)) (\<lambda>j.
        require (GET_OPCODE j = op_num OP_JMP) (check_opcode pt lastpc reg pc l opc a b c)))
      else check_opcode pt lastpc reg pc l opc a b c)" for l a b c
    using go assms(2) by (auto simp: returns_code_at intro!: returns_require)
  show ?thesis
    unfolding symbexec_step_def i bindR_simps Let_def
    by (rule returns_require, cases "check_operands pt i (GET_OPCODE i) (mode_of opc)")
      (use go' in \<open>auto simp: opc mode_table\<close>)
qed

lemma returns_symbexec_loop:
  assumes "known_opcodes pt" "0 \<le> pc" "lastpc \<le> sizecode pt" "0 \<le> l" "l < sizecode pt"
    and "code_at pt (sizecode pt - 1) = Inr j" "GET_OPCODE j = op_num OP_RETURN"
  shows "returns (symbexec_loop pt lastpc reg pc l)"
  using assms
proof (induction pt lastpc reg pc l rule: symbexec_loop.induct)
  case (1 pt lastpc reg pc l)
  show ?case
  proof (cases "pc < lastpc")
    case True
    then obtain r where r: "symbexec_step pt lastpc reg pc l = Inr r"
      using returns_symbexec_step [OF 1(2,3) _ 1(7,8)] 1(4) by fastforce
    show ?thesis
    proof (cases r)
      case None
      then show ?thesis
        using True r by (simp add: symbexec_loop.simps)
    next
      case (Some q)
      obtain pc' l' where q: "q = (pc', l')"
        by (cases q)
      have st: "symbexec_step pt lastpc reg pc l = Inr (Some (pc', l'))"
        using r Some q by simp
      have l': "0 \<le> l'" "l' < sizecode pt"
        using symbexec_step_last [OF st] 1(3-6) True by auto
      show ?thesis
        using 1(1) [OF True r Some q [symmetric] 1(2) _ 1(4) l' 1(7,8)] symbexec_step_pc [OF st] 1(3) True r Some q
        by (subst symbexec_loop.simps) simp
    qed
  qed (use 1(5,6) in \<open>simp add: symbexec_loop.simps returns_code_at\<close>)
qed

text \<open>The loops of the checker end.\<close>

lemma code_at_NoReturn [simp]: "code_at pt pc \<noteq> Inl NoReturn"
  by (simp add: code_at_def)

lemma require_NoReturn: "require x k = Inl NoReturn \<longleftrightarrow> x \<and> k = Inl NoReturn"
  by (simp add: require_def)

lemma check_closure_NoReturn: "check_closure_loop pt pc nup \<noteq> Inl NoReturn"
  by (induction nup) (auto simp: bindR_eq_Inl)

lemma check_opcode_NoReturn: "check_opcode pt lastpc reg pc l opc a b c \<noteq> Inl NoReturn"
  by (cases opc) (auto simp: check_opcode_def check_jump_def check_call_def checkopenop_def require_NoReturn
      bindR_eq_Inl check_closure_NoReturn Let_def split: if_splits)

lemma symbexec_step_NoReturn: "symbexec_step pt lastpc reg pc l \<noteq> Inl NoReturn"
  using check_opcode_NoReturn
  by (auto simp: symbexec_step_def bindR_eq_Inl require_NoReturn Let_def split: option.splits if_splits)

lemma symbexec_loop_NoReturn: "symbexec_loop pt lastpc reg pc l \<noteq> Inl NoReturn"
proof (induction pt lastpc reg pc l rule: symbexec_loop.induct)
  case (1 pt lastpc reg pc l)
  then show ?case
    by (subst symbexec_loop.simps) (auto simp: bindR_eq_Inl symbexec_step_NoReturn split: option.splits)
qed

lemma luaG_checkcode_NoReturn: "luaG_checkcode pt \<noteq> Inl NoReturn"
  by (auto simp: luaG_checkcode_def luaG_symbexec_def precheck_def bindR_eq_Inl symbexec_loop_NoReturn split: if_splits)

section \<open>Properties\<close>

text \<open>
  C1: in a function that the checker accepts, every instruction that is a word of 32 bits and no \<open>OP_TFORPREP\<close>
  is safe: the registers it reads or writes are inside of the frame, constant operands inside of the constant
  table, global names are strings, upvalue and closure indices exist, and control stays in the code.  The two
  conditions are needed: \<open>negative_register_accepted\<close> has an instruction of more than 32 bits, and
  \<open>tforprep_jump_unchecked\<close> is about \<open>OP_TFORPREP\<close>, of which also the register \<open>R(A+1)\<close> is not checked.
\<close>

theorem checked_code_safe:
  assumes "luaG_checkcode pt = Inr r" "r \<noteq> 0" "0 \<le> pc" "pc < sizecode pt"
    "wf_instr (f_code pt ! nat pc)" "op_of (GET_OPCODE (f_code pt ! nat pc)) \<noteq> Some OP_TFORPREP"
  shows "safe_instr pt pc"
  using luaG_checkcode_safe [OF assms(1,2)] assms(3-) by blast

definition tiny :: "Instruction list \<Rightarrow> Proto" where
  "tiny code = Proto [KString (Some ''print'')] code [] [] [] [] None 0 0 0 0 2"

lemma checked_code_safe_witness:
  "safe_instr (tiny [0x5, 0x8059, 0x801B]) 0 \<and> safe_instr (tiny [0x5, 0x8059, 0x801B]) 1 \<and>
   safe_instr (tiny [0x5, 0x8059, 0x801B]) 2"
proof -
  have "luaG_checkcode (tiny [0x5, 0x8059, 0x801B]) = Inr 0x8059"
    by (simp add: luaG_checkcode_def luaG_symbexec_def precheck_def tiny_def code_at_def MAXSTACK_def
        symbexec_loop.simps symbexec_step_def require_def check_operands_def check_opcode_def check_call_def
        mode_eval op_of_def NUM_OPCODES_eq GET_OPCODE_eq GETARG_A_eq GETARG_B_eq GETARG_C_eq GETARG_Bx_eq wf_instr_def
        NO_REG_def MAXARG_A_def SIZE_A_def LUA_MULTRET_def int_of_ulong_def Let_def take_bit_eq_mod drop_bit_eq_div)
  note ok = checked_code_safe [OF this]
  show ?thesis
    by (intro conjI ok) (simp_all add: tiny_def wf_instr_def take_bit_eq_mod op_of_def GET_OPCODE_eq NUM_OPCODES_eq opcodes_def)
qed

text \<open>
  on a function with at least one instruction and only opcodes of the instruction set, the
  checker ends and reads neither beyond the code nor beyond its tables, whatever the operands are;
  the same holds for the symbolic execution that error messages use, up to any \<open>lastpc\<close>.
\<close>

theorem symbexec_in_bounds:
  assumes "known_opcodes pt" "f_code pt \<noteq> []" "lastpc \<le> sizecode pt"
  shows "\<exists>r. luaG_symbexec pt lastpc reg = Inr r"
proof -
  have n: "0 < sizecode pt"
    using assms(2) by simp
  then have "code_at pt (sizecode pt - 1) = Inr (f_code pt ! nat (sizecode pt - 1))"
    by (simp add: returns_code_at)
  then have p: "\<exists>ok. precheck pt = Inr ok"
    by (simp add: precheck_def) blast
  then obtain ok where ok: "precheck pt = Inr ok" ..
  show ?thesis
  proof (cases ok)
    case True
    with ok obtain j where "code_at pt (sizecode pt - 1) = Inr j" "GET_OPCODE j = op_num OP_RETURN"
      by (auto elim: precheckD)
    then show ?thesis
      using returns_symbexec_loop [OF assms(1) _ assms(3), of 0 "sizecode pt - 1"] n ok True
      by (simp add: luaG_symbexec_def)
  qed (simp add: ok luaG_symbexec_def)
qed

lemma symbexec_in_bounds_witness: "\<exists>r. luaG_symbexec (tiny [0x5, 0x8059, 0x801B]) 2 0 = Inr r"
  by (rule symbexec_in_bounds) (simp_all add: tiny_def known_opcodes_def GET_OPCODE_eq NUM_OPCODES_eq take_bit_eq_mod)

lemmas check_eval = luaG_checkcode_def luaG_symbexec_def precheck_def tiny_def code_at_def MAXSTACK_def
  symbexec_loop.simps symbexec_step_def require_def check_operands_def check_opcode_def check_call_def
  mode_eval op_of_def NUM_OPCODES_eq GET_OPCODE_eq GETARG_A_eq GETARG_B_eq GETARG_C_eq GETARG_Bx_eq wf_instr_def
  NO_REG_def MAXARG_A_def SIZE_A_def LUA_MULTRET_def int_of_ulong_def Let_def take_bit_eq_mod drop_bit_eq_div

text \<open>A function with another instruction at \<open>pc\<close>.\<close>

definition with_instr :: "Proto \<Rightarrow> int \<Rightarrow> Instruction \<Rightarrow> Proto" where
  "with_instr pt pc i = (case pt of Proto k code p li lv uv src ld nups np va ms \<Rightarrow>
     Proto k (code[nat pc := i]) p li lv uv src ld nups np va ms)"

lemma with_instr_simps [simp]:
  "f_k (with_instr pt pc i) = f_k pt" "f_code (with_instr pt pc i) = (f_code pt)[nat pc := i]" "f_p (with_instr pt pc i) = f_p pt"
  "f_lineinfo (with_instr pt pc i) = f_lineinfo pt" "f_nups (with_instr pt pc i) = f_nups pt"
  "f_maxstacksize (with_instr pt pc i) = f_maxstacksize pt"
  by (cases pt; simp add: with_instr_def)+

text \<open>Two instructions \<open>OP_TFORPREP\<close> that differ in their jump.\<close>

definition same_prep :: "Instruction \<Rightarrow> Instruction \<Rightarrow> bool" where
  "same_prep i i' \<longleftrightarrow> op_of (GET_OPCODE i) = Some OP_TFORPREP \<and> GET_OPCODE i' = GET_OPCODE i \<and> GETARG_A i' = GETARG_A i"

lemma code_at_with:
  assumes "0 \<le> pc" "pc < sizecode pt"
  shows "code_at (with_instr pt pc i') q = (if q = pc then Inr i' else code_at pt q)"
  using assms by (auto simp: code_at_def nth_list_update nat_eq_iff)

lemma opcode_with:
  assumes "0 \<le> pc" "pc < sizecode pt" "same_prep (f_code pt ! nat pc) i'"
  shows "bindR (code_at (with_instr pt pc i') q) (\<lambda>i. f (GET_OPCODE i)) = bindR (code_at pt q) (\<lambda>i. f (GET_OPCODE i))"
  using assms by (simp add: code_at_with returns_code_at same_prep_def)

lemma check_closure_with:
  assumes "0 \<le> pc" "pc < sizecode pt" "same_prep (f_code pt ! nat pc) i'"
  shows "check_closure_loop (with_instr pt pc i') q n = check_closure_loop pt q n"
  using assms by (induction n) (simp_all add: code_at_with returns_code_at same_prep_def cong: if_cong)

lemma checkopenop_with:
  assumes "0 \<le> pc" "pc < sizecode pt" "same_prep (f_code pt ! nat pc) i'"
  shows "checkopenop (with_instr pt pc i') q = checkopenop pt q"
  using assms by (simp add: checkopenop_def code_at_with returns_code_at same_prep_def)

lemma check_opcode_with:
  assumes "0 \<le> pc" "pc < sizecode pt" "same_prep (f_code pt ! nat pc) i'"
  shows "check_opcode (with_instr pt pc i') lastpc reg q l opc a b c = check_opcode pt lastpc reg q l opc a b c"
  by (cases opc)
    (simp_all add: check_opcode_def check_jump_def check_call_def Let_def checkopenop_with [OF assms] check_closure_with [OF assms])

lemma check_operands_with [simp]: "check_operands (with_instr pt pc i') i opn mode = check_operands pt i opn mode"
  by (cases mode) (simp_all add: check_operands_def checkRK_def Let_def)

lemma symbexec_step_with:
  assumes "0 \<le> pc" "pc < sizecode pt" "same_prep (f_code pt ! nat pc) i'"
  shows "symbexec_step (with_instr pt pc i') lastpc reg q l = symbexec_step pt lastpc reg q l"
proof (cases "q = pc")
  case True
  have prep: "op_of (GET_OPCODE i') = Some OP_TFORPREP" "GET_OPCODE (f_code pt ! nat pc) = GET_OPCODE i'"
    "GETARG_A (f_code pt ! nat pc) = GETARG_A i'"
    using assms(3) by (simp_all add: same_prep_def)
  have num: "GET_OPCODE i' = op_num OP_TFORPREP"
    using op_num_of [OF prep(1)] by simp
  show ?thesis
    using True assms
    by (simp add: symbexec_step_def code_at_with returns_code_at prep(2,3))
      (simp add: num mode_table op_of_num mode_of_def check_operands_def check_opcode_def t_table)
next
  case False
  have code: "code_at (with_instr pt pc i') q = code_at pt q"
    using False code_at_with [OF assms(1,2)] by simp
  have jump: "bindR (code_at (with_instr pt pc i') (q + 1)) (\<lambda>j. require (GET_OPCODE j = op_num OP_JMP) x) =
      bindR (code_at pt (q + 1)) (\<lambda>j. require (GET_OPCODE j = op_num OP_JMP) x)" for x :: "(int \<times> int) option res"
    by (rule opcode_with [OF assms])
  show ?thesis
    by (cases "code_at pt q")
      (simp_all add: symbexec_step_def code jump check_opcode_with [OF assms] Let_def split: option.split prod.split if_split)
qed

text \<open>\<open>last\<close> never is the position of the instruction.\<close>

lemma prep_not_last:
  assumes "symbexec_step pt lastpc NO_REG pc l = Inr (Some (pc', l'))" "op_of (GET_OPCODE (f_code pt ! nat pc)) = Some OP_TFORPREP"
  shows "l' = l"
proof -
  have "maxstack pt \<le> 255"
    using uint_lt2p [of "f_maxstacksize pt"] by simp
  moreover obtain i where i: "code_at pt pc = Inr i" "GETARG_A i < maxstack pt" "i = f_code pt ! nat pc"
    using assms(1) by (auto simp: symbexec_step_def bindR_eq_Inr require_eq Let_def code_at_def split: if_splits)
  moreover have "GET_OPCODE i = op_num OP_TFORPREP"
    using op_num_of [OF assms(2)] i(3) by simp
  ultimately show ?thesis
    using assms(1) by (simp add: symbexec_step_def mode_table op_of_num mode_of_def check_operands_def check_opcode_def t_table
        require_eq Let_def NO_REG_def MAXARG_A_def SIZE_A_def split: if_splits)
qed

lemma symbexec_loop_with:
  assumes "0 \<le> pc" "pc < sizecode pt" "same_prep (f_code pt ! nat pc) i'" "l \<noteq> pc"
  shows "symbexec_loop (with_instr pt pc i') lastpc NO_REG q l = symbexec_loop pt lastpc NO_REG q l"
  using assms
proof (induction pt lastpc NO_REG q l rule: symbexec_loop.induct)
  case (1 pt lastpc q l)
  note step = symbexec_step_with [OF 1(2-4), of lastpc NO_REG q l]
  have "symbexec_loop (with_instr pt pc i') lastpc NO_REG (pc' + 1) l' = symbexec_loop pt lastpc NO_REG (pc' + 1) l'"
    if "q < lastpc" "symbexec_step pt lastpc NO_REG q l = Inr (Some (pc', l'))" for pc' l'
  proof (rule 1(1) [OF that refl refl 1(2-4)])
    show "l' \<noteq> pc"
    proof (cases "q = pc")
      case True
      then have "op_of (GET_OPCODE (f_code pt ! nat q)) = Some OP_TFORPREP"
        using 1(4) by (simp add: same_prep_def)
      then show ?thesis
        using prep_not_last [OF that(2)] 1(5) by simp
    next
      case False
      then show ?thesis
        using symbexec_step_last [OF that(2)] 1(5) by auto
    qed
  qed
  then show ?case
    using 1(2,3,5)
    by (subst (1 2) symbexec_loop.simps)
      (auto simp: step code_at_with intro!: bindR_cong split: option.split)
qed

text \<open>
  C35: the checker does not look at the jump of \<open>OP_TFORPREP\<close>: with any other jump in its place, inside or
  outside of the code, it says the same about the function.
\<close>

theorem tforprep_jump_unchecked:
  assumes "0 \<le> pc" "pc < sizecode pt" "op_of (GET_OPCODE (f_code pt ! nat pc)) = Some OP_TFORPREP"
    "GET_OPCODE i = GET_OPCODE (f_code pt ! nat pc)" "GETARG_A i = GETARG_A (f_code pt ! nat pc)"
  shows "luaG_checkcode (with_instr pt pc i) = luaG_checkcode pt"
proof -
  have p: "same_prep (f_code pt ! nat pc) i"
    using assms(3-5) by (simp add: same_prep_def)
  have pre: "precheck (with_instr pt pc i) = precheck pt"
    using opcode_with [OF assms(1,2) p, of "sizecode pt - 1" "\<lambda>n. Inr (n = op_num OP_RETURN)"]
    by (simp add: precheck_def)
  have "symbexec_loop (with_instr pt pc i) (sizecode pt) NO_REG 0 (sizecode pt - 1) =
      symbexec_loop pt (sizecode pt) NO_REG 0 (sizecode pt - 1)" if "precheck pt = Inr True"
  proof (rule symbexec_loop_with [OF assms(1,2) p])
    from that obtain j where "maxstack pt \<le> MAXSTACK" "code_at pt (sizecode pt - 1) = Inr j"
      "GET_OPCODE j = op_num OP_RETURN"
      by (rule precheckD)
    then have "op_of (GET_OPCODE (f_code pt ! nat (sizecode pt - 1))) = Some OP_RETURN"
      by (auto simp: code_at_def op_of_num split: if_splits)
    then show "sizecode pt - 1 \<noteq> pc"
      using assms(3) by auto
  qed
  then have "luaG_symbexec (with_instr pt pc i) (sizecode pt) NO_REG = luaG_symbexec pt (sizecode pt) NO_REG"
    by (cases "precheck pt") (auto simp: luaG_symbexec_def pre)
  then show ?thesis
    by (simp add: luaG_checkcode_def)
qed

text \<open>A jump to the instruction 1001 of two is accepted.\<close>

lemma tforprep_jump_unchecked_witness:
  "luaG_checkcode (with_instr (tiny [0x1E, 0x801B]) 0 0x80F9DE) = luaG_checkcode (tiny [0x1E, 0x801B]) \<and>
   luaG_checkcode (tiny [0x1E, 0x801B]) = Inr 0x801B \<and>
   successors (tiny [0x80F9DE, 0x801B]) 0 OP_TFORPREP (arg_b OP_TFORPREP 0x80F9DE) 0 = {1001}"
proof (intro conjI)
  show "luaG_checkcode (with_instr (tiny [0x1E, 0x801B]) 0 0x80F9DE) = luaG_checkcode (tiny [0x1E, 0x801B])"
    by (rule tforprep_jump_unchecked)
      (simp_all add: tiny_def op_of_def NUM_OPCODES_eq GET_OPCODE_eq GETARG_A_eq opcodes_def wf_instr_def take_bit_eq_mod drop_bit_eq_div)
  show "luaG_checkcode (tiny [0x1E, 0x801B]) = Inr 0x801B"
    by (simp add: check_eval)
  show "successors (tiny [0x80F9DE, 0x801B]) 0 OP_TFORPREP (arg_b OP_TFORPREP 0x80F9DE) 0 = {1001}"
    by (simp add: successors_def arg_b_def mode_of_def GETARG_sBx_def GETARG_Bx_eq MAXARG_sBx_def MAXARG_Bx_def layout_defs
        push_bit_eq_mult take_bit_eq_mod drop_bit_eq_div)
qed

text \<open>
  on a 64-bit machine the field \<open>A\<close> is not masked, so an instruction with bits above the 32nd
  has a negative \<open>A\<close>, which the checker takes for a register of the frame.
\<close>

theorem negative_register_accepted:
  "luaG_checkcode (tiny [0x80000000000000, 0x801B]) = Inr 0x801B \<and> GETARG_A 0x80000000000000 = - (2 ^ 31)"
  by (simp add: check_eval GETARG_A_def POS_A_def layout_defs op_of_def nth_Cons')

text \<open>
  C34: an instruction with an opcode above the last one, of the 64 that fit the field, makes the
  checker read its table of instruction modes out of bounds.
\<close>

theorem unknown_opcode_overread:
  assumes "NUM_OPCODES \<le> GET_OPCODE i" "GETARG_A i < 2"
  shows "luaG_checkcode (tiny [i, 0x801B]) = Inl OutOfBounds"
  using assms by (simp add: check_eval)

lemma unknown_opcode_overread_witness: "luaG_checkcode (tiny [0x3F, 0x801B]) = Inl OutOfBounds"
  by (rule unknown_opcode_overread) (simp_all add: NUM_OPCODES_eq GET_OPCODE_eq GETARG_A_eq wf_instr_def take_bit_eq_mod drop_bit_eq_div)

text \<open>
  a function without code makes the checker read the instruction before the first.
\<close>

theorem empty_code_overread:
  "luaG_checkcode (tiny []) = Inl OutOfBounds"
  by (simp add: check_eval)

end
