(* ===== verification/Undump.thy ===== *)
theory Undump
  imports Streams CodeCheck
begin

text \<open>
  Precompiled chunks: the writer \<open>lua/ldump.c\<close> and the loader \<open>lua/lundump.c\<close>.

  Both copy values between memory and the file, so they depend on the byte order of the machine:
  \<open>le\<close> says that it is little-endian.  The writer is the sequence of blocks it passes to the
  application's \<open>lua_Chunkwriter\<close>.
\<close>

unbundle bit_operations_syntax

section \<open>Values in memory\<close>

fun le_bytes :: "nat \<Rightarrow> nat \<Rightarrow> string" where
  "le_bytes 0 v = []"
| "le_bytes (Suc k) v = char_of (v mod 256) # le_bytes k (v div 256)"

fun le_value :: "string \<Rightarrow> nat" where
  "le_value [] = 0"
| "le_value (c # cs) = uchar c + 256 * le_value cs"

text \<open>The \<open>k\<close> bytes of an object, in the order of their addresses, and back.\<close>

definition memory_of :: "bool \<Rightarrow> nat \<Rightarrow> nat \<Rightarrow> string" where
  "memory_of le k v = (if le then le_bytes k v else rev (le_bytes k v))"

definition value_of :: "bool \<Rightarrow> string \<Rightarrow> nat" where
  "value_of le bs = le_value (if le then bs else rev bs)"

definition int_mem :: "bool \<Rightarrow> int \<Rightarrow> string" where
  "int_mem le x = memory_of le 4 (unat (word_of_int x :: 32 word))"

definition int_val :: "bool \<Rightarrow> string \<Rightarrow> int" where
  "int_val le bs = sint (word_of_nat (value_of le bs) :: 32 word)"

text \<open>\<open>luaU_endianness\<close>: the first byte of the \<open>int\<close> 1.\<close>

definition luaU_endianness :: "bool \<Rightarrow> int" where
  "luaU_endianness le = char2int (hd (int_mem le 1))"

definition LUA_SIGNATURE :: string where "LUA_SIGNATURE = [CHR 0x1B] @ ''Lua''"
definition VERSION :: int where "VERSION = 0x50"
definition VERSION0 :: int where "VERSION0 = 0x50"
definition TEST_NUMBER :: lua_Number where "TEST_NUMBER = 0x417DF5E7689309B6"

section \<open>The writer\<close>

definition DumpBlock :: "string \<Rightarrow> string list" where
  "DumpBlock b = [b]"

definition DumpByte :: "int \<Rightarrow> string list" where
  "DumpByte y = DumpBlock [char_of (nat (y mod 256))]"

definition DumpInt :: "bool \<Rightarrow> int \<Rightarrow> string list" where
  "DumpInt le x = DumpBlock (int_mem le x)"

definition DumpSize :: "bool \<Rightarrow> nat \<Rightarrow> string list" where
  "DumpSize le x = DumpBlock (memory_of le 8 x)"

definition DumpNumber :: "bool \<Rightarrow> lua_Number \<Rightarrow> string list" where
  "DumpNumber le x = DumpBlock (memory_of le 8 (unat x))"

definition DumpString :: "bool \<Rightarrow> string option \<Rightarrow> string list" where
  "DumpString le s = (case s of
     None \<Rightarrow> DumpSize le 0
   | Some s \<Rightarrow> (let sz = length s + 1 in DumpSize le sz @ DumpBlock (s @ [NUL])))"

definition DumpCode :: "bool \<Rightarrow> Instruction list \<Rightarrow> string list" where
  "DumpCode le code =
    DumpInt le (int (length code)) @ DumpBlock (concat (map (\<lambda>i. memory_of le 8 (unat i)) code))"

definition DumpLocals :: "bool \<Rightarrow> LocVar list \<Rightarrow> string list" where
  "DumpLocals le vs = DumpInt le (int (length vs)) @
    concat (map (\<lambda>v. DumpString le (varname v) @ DumpInt le (startpc v) @ DumpInt le (endpc v)) vs)"

definition DumpLines :: "bool \<Rightarrow> int list \<Rightarrow> string list" where
  "DumpLines le ls = DumpInt le (int (length ls)) @ DumpBlock (concat (map (int_mem le) ls))"

definition DumpUpvalues :: "bool \<Rightarrow> string option list \<Rightarrow> string list" where
  "DumpUpvalues le us = DumpInt le (int (length us)) @ concat (map (DumpString le) us)"

definition DumpConstant :: "bool \<Rightarrow> Konst \<Rightarrow> string list" where
  "DumpConstant le k = (case k of
     KNil \<Rightarrow> DumpByte 0
   | KNumber n \<Rightarrow> DumpByte 3 @ DumpNumber le n
   | KString s \<Rightarrow> DumpByte 4 @ DumpString le s)"

text \<open>\<open>DumpFunction\<close>, with \<open>DumpConstants\<close> written out at its place.\<close>

fun DumpFunction :: "bool \<Rightarrow> Proto \<Rightarrow> string option \<Rightarrow> string list" where
  "DumpFunction le (Proto k code ps lineinfo locvars upvalues source lineDefined nups numparams is_vararg maxstacksize) p =
     DumpString le (if source = p then None else source) @
     DumpInt le lineDefined @ DumpByte (uint nups) @ DumpByte (uint numparams) @
     DumpByte (uint is_vararg) @ DumpByte (uint maxstacksize) @
     DumpLines le lineinfo @ DumpLocals le locvars @ DumpUpvalues le upvalues @
     (DumpInt le (int (length k)) @ concat (map (DumpConstant le) k) @
      DumpInt le (int (length ps)) @ concat (map (\<lambda>g. DumpFunction le g source) ps)) @
     DumpCode le code"

definition DumpHeader :: "bool \<Rightarrow> string list" where
  "DumpHeader le =
    DumpBlock LUA_SIGNATURE @ DumpByte VERSION @ DumpByte (luaU_endianness le) @
    DumpByte 4 @ DumpByte 8 @ DumpByte 8 @
    DumpByte (int SIZE_OP) @ DumpByte (int SIZE_A) @ DumpByte (int SIZE_B) @ DumpByte (int SIZE_C) @
    DumpByte 8 @ DumpNumber le TEST_NUMBER"

definition luaU_dump :: "bool \<Rightarrow> Proto \<Rightarrow> string list" where
  "luaU_dump le Main = DumpHeader le @ DumpFunction le Main None"

section \<open>The loader\<close>

record LoadState =
  Z :: ZIO
  buffsize :: nat
  swap :: bool
  chunkname :: string
  little :: bool

type_synonym 'a loader = "LoadState \<Rightarrow> ('a \<times> LoadState) res"

definition ret :: "'a \<Rightarrow> 'a loader" where
  "ret x S = Inr (x, S)"

definition ldbind :: "'a loader \<Rightarrow> ('a \<Rightarrow> 'b loader) \<Rightarrow> 'b loader" where
  "ldbind m f S = bindR (m S) (\<lambda>(x, S). f x S)"

text \<open>\<open>luaG_runerror\<close>; the position that \<open>addinfo\<close> puts in front of the message is left out.\<close>

definition luaG_runerror :: "string \<Rightarrow> fmtarg list \<Rightarrow> 'a res" where
  "luaG_runerror fmt args =
    (case luaO_pushvfstring fmt args of Some m \<Rightarrow> Inl (RunError m) | None \<Rightarrow> Inl OutOfBounds)"

definition unexpectedEOZ :: "'a loader" where
  "unexpectedEOZ S = luaG_runerror ''unexpected end of file in %s'' [FmtS (chunkname S)]"

definition ezgetc :: "int loader" where
  "ezgetc S = bindR (zgetc (Z S)) (\<lambda>(c, z).
    (let S = S\<lparr>Z := z\<rparr> in if c = EOZ then unexpectedEOZ S else Inr (c, S)))"

text \<open>
  \<open>ezread\<close> takes the number of bytes as an \<open>int\<close> and compares the missing bytes as an \<open>int\<close>, so a
  size above \<open>INT_MAX\<close> reads another number of bytes: more than the buffer has, or fewer, and then
  it reports success all the same.  The bytes it has put into the buffer are the result; the rest of the buffer is
  not initialised, and \<open>initialised\<close> is what the callers do with it: a use of the first \<open>n\<close> bytes of a
  buffer where fewer were written is an access outside of what was written.
\<close>

definition ezread :: "nat \<Rightarrow> string loader" where
  "ezread n S =
    (let k = nat (signed_take_bit 31 (int n) mod 2 ^ 64)
     in bindR (luaZ_read (Z S) k) (\<lambda>(bs, r, z).
          if n < length bs then Inl OutOfBounds
          else if signed_take_bit 31 (int r) \<noteq> 0 then unexpectedEOZ (S\<lparr>Z := z\<rparr>)
          else Inr (bs, S\<lparr>Z := z\<rparr>)))"

definition initialised :: "nat \<Rightarrow> string \<Rightarrow> string loader" where
  "initialised n bs S = (if length bs < n then Inl OutOfBounds else Inr (bs, S))"

text \<open>\<open>while (n--) *p-- = (char) ezgetc(S)\<close>: the bytes in the order of their addresses.\<close>

fun read_backwards :: "nat \<Rightarrow> string \<Rightarrow> string loader" where
  "read_backwards 0 mem = ret mem"
| "read_backwards (Suc n) mem = ldbind ezgetc (\<lambda>c. read_backwards n (char_of (nat c) # mem))"

definition LoadBlock :: "nat \<Rightarrow> string loader" where
  "LoadBlock sz S = (if swap S then read_backwards sz [] S else ldbind (ezread sz) (initialised sz) S)"

text \<open>The elements of the vector.\<close>

fun load_many :: "nat \<Rightarrow> 'a loader \<Rightarrow> 'a list loader" where
  "load_many 0 ld = ret []"
| "load_many (Suc n) ld = ldbind ld (\<lambda>x. ldbind (load_many n ld) (\<lambda>xs. ret (x # xs)))"

fun split_vector :: "nat \<Rightarrow> nat \<Rightarrow> string \<Rightarrow> string list" where
  "split_vector 0 sz bs = []"
| "split_vector (Suc m) sz bs = take sz bs # split_vector m sz (drop sz bs)"

definition LoadVector :: "nat \<Rightarrow> nat \<Rightarrow> string list loader" where
  "LoadVector m sz S =
    (if swap S then load_many m (read_backwards sz []) S
     else ldbind (ldbind (ezread (m * sz)) (initialised (m * sz))) (\<lambda>bs. ret (split_vector m sz bs)) S)"

definition LoadByte :: "8 word loader" where
  "LoadByte = ldbind ezgetc (\<lambda>c. ret (word_of_int c))"

definition LoadInt :: "int loader" where
  "LoadInt = ldbind (LoadBlock 4) (\<lambda>bs S.
    (let x = int_val (little S) bs
     in if x < 0 then luaG_runerror ''bad integer in %s'' [FmtS (chunkname S)] else Inr (x, S)))"

definition LoadSize :: "nat loader" where
  "LoadSize = ldbind (LoadBlock 8) (\<lambda>bs S. Inr (value_of (little S) bs, S))"

definition LoadNumber :: "lua_Number loader" where
  "LoadNumber = ldbind (LoadBlock 8) (\<lambda>bs S. Inr (word_of_nat (value_of (little S) bs), S))"

definition LoadString :: "string option loader" where
  "LoadString = ldbind LoadSize (\<lambda>sz.
    if sz = 0 then ret None
    else (\<lambda>S. bindR (luaZ_openspace (buffsize S) sz) (\<lambda>n.
           ldbind (ldbind (ezread sz) (initialised (sz - 1))) (\<lambda>s. ret (Some (take (sz - 1) s))) (S\<lparr>buffsize := n\<rparr>))))"

definition LoadCode :: "Instruction list loader" where
  "LoadCode = ldbind LoadInt (\<lambda>n. ldbind (LoadVector (nat n) 8) (\<lambda>v S.
    Inr (map (\<lambda>bs. word_of_nat (value_of (little S) bs)) v, S)))"

definition LoadLocal :: "LocVar loader" where
  "LoadLocal = ldbind LoadString (\<lambda>s. ldbind LoadInt (\<lambda>a. ldbind LoadInt (\<lambda>b.
    ret \<lparr>varname = s, startpc = a, endpc = b\<rparr>)))"

definition LoadLocals :: "LocVar list loader" where
  "LoadLocals = ldbind LoadInt (\<lambda>n. load_many (nat n) LoadLocal)"

definition LoadLines :: "int list loader" where
  "LoadLines = ldbind LoadInt (\<lambda>n. ldbind (LoadVector (nat n) 4) (\<lambda>v S.
    Inr (map (int_val (little S)) v, S)))"

definition LoadUpvalues :: "8 word \<Rightarrow> string option list loader" where
  "LoadUpvalues nups = ldbind LoadInt (\<lambda>n S.
    if n \<noteq> 0 \<and> n \<noteq> uint nups then
      luaG_runerror ''bad nupvalues in %s: read %d; expected %d''
        [FmtS (chunkname S), FmtD n, FmtD (uint nups)]
    else load_many (nat n) LoadString S)"

definition LoadConstant :: "Konst loader" where
  "LoadConstant = ldbind LoadByte (\<lambda>t.
    if t = 3 then ldbind LoadNumber (\<lambda>n. ret (KNumber n))
    else if t = 4 then ldbind LoadString (\<lambda>s. ret (KString s))
    else if t = 0 then ret KNil
    else (\<lambda>S. luaG_runerror ''bad constant type (%d) in %s'' [FmtD (uint t), FmtS (chunkname S)]))"

text \<open>\<open>LoadConstants\<close>, given \<open>LoadFunction\<close>: the constants and the inner functions.\<close>

definition LoadConstants_with :: "Proto loader \<Rightarrow> (Konst list \<times> Proto list) loader" where
  "LoadConstants_with lf = ldbind LoadInt (\<lambda>n. ldbind (load_many (nat n) LoadConstant) (\<lambda>k.
     ldbind LoadInt (\<lambda>n. ldbind (load_many (nat n) lf) (\<lambda>ps. ret (k, ps)))))"

text \<open>
  \<open>LoadFunction\<close>.  The fuel bounds the nesting of functions; a function takes at least a byte, so
  the number of bytes left is enough.
\<close>

definition check_loaded :: "Proto \<Rightarrow> Proto loader" where
  "check_loaded f S = bindR (luaG_checkcode f) (\<lambda>r.
     if r = 0 then luaG_runerror ''bad code in %s'' [FmtS (chunkname S)] else Inr (f, S))"

fun LoadFunction :: "nat \<Rightarrow> string option \<Rightarrow> Proto loader" where
  "LoadFunction 0 p = (\<lambda>S. Inl NoReturn)"
| "LoadFunction (Suc fuel) p =
    ldbind LoadString (\<lambda>s.
    (let source = (if s = None then p else s) in
     ldbind LoadInt (\<lambda>lineDefined.
     ldbind LoadByte (\<lambda>nups.
     ldbind LoadByte (\<lambda>numparams.
     ldbind LoadByte (\<lambda>is_vararg.
     ldbind LoadByte (\<lambda>maxstacksize.
     ldbind LoadLines (\<lambda>lineinfo.
     ldbind LoadLocals (\<lambda>locvars.
     ldbind (LoadUpvalues nups) (\<lambda>upvalues.
     ldbind (LoadConstants_with (LoadFunction fuel source)) (\<lambda>(k, ps).
     ldbind LoadCode (\<lambda>code.
       check_loaded (Proto k code ps lineinfo locvars upvalues source lineDefined nups
         numparams is_vararg maxstacksize)))))))))))))"

fun LoadSignature_loop :: "string \<Rightarrow> unit loader" where
  "LoadSignature_loop [] = ret ()"
| "LoadSignature_loop (c # s) = ldbind ezgetc (\<lambda>k.
     if k = char2int c then LoadSignature_loop s
     else (\<lambda>S. luaG_runerror ''bad signature in %s'' [FmtS (chunkname S)]))"

definition LoadSignature :: "unit loader" where
  "LoadSignature = LoadSignature_loop LUA_SIGNATURE"

definition TestSize :: "int \<Rightarrow> string \<Rightarrow> unit loader" where
  "TestSize s what = ldbind LoadByte (\<lambda>r S.
     if uint r \<noteq> s then
       luaG_runerror ''virtual machine mismatch in %s: size of %s is %d but read %d''
         [FmtS (chunkname S), FmtS what, FmtD s, FmtD (uint r)]
     else Inr ((), S))"

text \<open>\<open>(long) x\<close>; out of range it is undefined, and \<open>LONG_MIN\<close> on x86-64.\<close>

definition num_to_long :: "lua_Number \<Rightarrow> int" where
  "num_to_long x =
    (if num_isnan x \<or> num_isinf x then - (2 ^ 63)
     else let k = sgn (num_val x) * (\<bar>num_val x\<bar> div 2 ^ 1074)
       in if - (2 ^ 63) \<le> k \<and> k < 2 ^ 63 then k else - (2 ^ 63))"

text \<open>\<open>LoadHeader\<close>; the checks behind the byte order, which come last, have a name of their own.\<close>

definition LoadFormat :: "unit loader" where
  "LoadFormat =
    ldbind (TestSize 4 ''int'') (\<lambda>_. ldbind (TestSize 8 ''size_t'') (\<lambda>_.
    ldbind (TestSize 8 ''Instruction'') (\<lambda>_. ldbind (TestSize (int SIZE_OP) ''OP'') (\<lambda>_.
    ldbind (TestSize (int SIZE_A) ''A'') (\<lambda>_. ldbind (TestSize (int SIZE_B) ''B'') (\<lambda>_.
    ldbind (TestSize (int SIZE_C) ''C'') (\<lambda>_. ldbind (TestSize 8 ''number'') (\<lambda>_.
    ldbind LoadNumber (\<lambda>x S.
      if num_to_long x \<noteq> num_to_long TEST_NUMBER then
        luaG_runerror ''unknown number format in %s'' [FmtS (chunkname S)]
      else Inr ((), S))))))))))"

definition LoadHeader :: "unit loader" where
  "LoadHeader =
    ldbind LoadSignature (\<lambda>_. ldbind LoadByte (\<lambda>version S.
      (let version = uint version in
       if VERSION < version then
         luaG_runerror ''%s too new: read version %d.%d; expected at most %d.%d''
           [FmtS (chunkname S), FmtD (version div 16), FmtD (version mod 16),
            FmtD (VERSION div 16), FmtD (VERSION mod 16)]
       else if version < VERSION0 then
         luaG_runerror ''%s too old: read version %d.%d; expected at least %d.%d''
           [FmtS (chunkname S), FmtD (version div 16), FmtD (version mod 16),
            FmtD (VERSION0 div 16), FmtD (VERSION0 mod 16)]
       else
         ldbind LoadByte (\<lambda>e S.
           LoadFormat (S\<lparr>swap := (luaU_endianness (little S) \<noteq> uint e)\<rparr>)) S)))"

definition LoadChunk :: "nat \<Rightarrow> Proto loader" where
  "LoadChunk fuel = ldbind LoadHeader (\<lambda>_. LoadFunction fuel None)"

definition bytes_left :: "ZIO \<Rightarrow> nat" where
  "bytes_left z = length (z_buff z) + length (concat (z_chunks z))"

text \<open>\<open>name\<close> is \<open>zname(Z)\<close>.  The result is the function and the stream behind it.\<close>

definition luaU_undump :: "bool \<Rightarrow> ZIO \<Rightarrow> nat \<Rightarrow> string \<Rightarrow> (Proto \<times> ZIO) res" where
  "luaU_undump le z buff name =
    (let s = cstr name;
         nm = (if s \<noteq> [] \<and> (hd s = CHR ''@'' \<or> hd s = CHR ''='') then tl s
               else if s \<noteq> [] \<and> hd s = hd LUA_SIGNATURE then ''binary string''
               else s);
         S = \<lparr>Z = z, buffsize = buff, swap = False, chunkname = nm, little = le\<rparr>
     in bindR (LoadChunk (Suc (bytes_left z)) S) (\<lambda>(f, S). Inr (f, Z S)))"

section \<open>Byte order\<close>

lemma uchar_char_of: "uchar (char_of n) = n mod 256"
  by (simp add: uchar_def)

lemma length_le_bytes [simp]: "length (le_bytes k v) = k"
  by (induction k arbitrary: v) simp_all

lemma le_value_le_bytes: "le_value (le_bytes k v) = v mod 256 ^ k"
  by (induction k arbitrary: v) (simp_all add: uchar_char_of mod_mult2_eq)

lemma length_memory_of [simp]: "length (memory_of le k v) = k"
  by (simp add: memory_of_def)

lemma value_of_memory_of: "value_of le (memory_of le k v) = v mod 256 ^ k"
  by (simp add: value_of_def memory_of_def le_value_le_bytes)

lemma memory_of_swap: "le \<noteq> le' \<Longrightarrow> rev (memory_of le k v) = memory_of le' k v"
  by (auto simp: memory_of_def)

lemma value_word:
  "word_of_nat (value_of le (memory_of le 8 (unat (w :: 64 word)))) = w"
  "int_val le (int_mem le x) = signed_take_bit 31 x"
proof -
  have "unat w < 256 ^ 8" for w :: "64 word"
    using unsigned_less [of w, where 'a = nat] by simp
  then show "word_of_nat (value_of le (memory_of le 8 (unat w))) = w"
    by (simp add: value_of_memory_of)
  have "unat w < 256 ^ 4" for w :: "32 word"
    using unsigned_less [of w, where 'a = nat] by simp
  then show "int_val le (int_mem le x) = signed_take_bit 31 x"
    by (simp add: int_val_def int_mem_def value_of_memory_of sint_sbintrunc')
qed

lemma luaU_endianness_eq: "luaU_endianness le = (if le then 1 else 0)"
proof -
  have four: "(4 :: nat) = Suc (Suc (Suc (Suc 0)))"
    by simp
  have "le_bytes 4 1 = [char_of (1 :: nat), char_of (0 :: nat), char_of (0 :: nat), char_of (0 :: nat)]"
    unfolding four by simp
  then have "int_mem le 1 = (if le then [char_of (1 :: nat), char_of (0 :: nat), char_of (0 :: nat), char_of (0 :: nat)]
      else [char_of (0 :: nat), char_of (0 :: nat), char_of (0 :: nat), char_of (1 :: nat)])"
    by (simp add: int_mem_def memory_of_def)
  then show ?thesis
    by (simp add: luaU_endianness_def char2int_def uchar_char_of)
qed

section \<open>What a loader reads\<close>

text \<open>
  On a stream that starts with the bytes \<open>bs\<close>, written on a machine with byte order \<open>fst e\<close>, the
  loader on a machine with byte order \<open>snd e\<close> returns \<open>x\<close> and leaves the bytes behind them.
\<close>

definition ready :: "bool \<times> bool \<Rightarrow> LoadState \<Rightarrow> bool" where
  "ready e S \<longleftrightarrow> wf_zio (Z S) \<and> little S = snd e \<and> swap S = (snd e \<noteq> fst e)"

definition reads :: "bool \<times> bool \<Rightarrow> 'a loader \<Rightarrow> string \<Rightarrow> 'a \<Rightarrow> bool" where
  "reads e ld bs x \<longleftrightarrow> (\<forall>S r. ready e S \<and> stream (Z S) = bs @ r \<longrightarrow>
     (\<exists>S'. ld S = Inr (x, S') \<and> ready e S' \<and> stream (Z S') = r))"

lemma readsI:
  "(\<And>S r. ready e S \<Longrightarrow> stream (Z S) = bs @ r \<Longrightarrow>
     \<exists>S'. ld S = Inr (x, S') \<and> ready e S' \<and> stream (Z S') = r) \<Longrightarrow> reads e ld bs x"
  by (simp add: reads_def)

lemma readsD:
  "reads e ld bs x \<Longrightarrow> ready e S \<Longrightarrow> stream (Z S) = bs @ r \<Longrightarrow>
     \<exists>S'. ld S = Inr (x, S') \<and> ready e S' \<and> stream (Z S') = r"
  by (simp add: reads_def)

lemma reads_ret: "reads e (ret x) [] x"
  by (simp add: reads_def ret_def)

lemma reads_bind:
  assumes "reads e m bs x" "reads e (f x) cs y"
  shows "reads e (ldbind m f) (bs @ cs) y"
proof (rule readsI)
  fix S r
  assume "ready e S" "stream (Z S) = (bs @ cs) @ r"
  then obtain S' where S': "m S = Inr (x, S')" "ready e S'" "stream (Z S') = cs @ r"
    using readsD [OF assms(1), of S "cs @ r"] by auto
  then show "\<exists>S'. ldbind m f S = Inr (y, S') \<and> ready e S' \<and> stream (Z S') = r"
    using readsD [OF assms(2) S'(2,3)] by (simp add: ldbind_def)
qed

lemma reads_bind_ret: "reads e m bs x \<Longrightarrow> f x = ret y \<Longrightarrow> reads e (ldbind m f) bs y"
  using reads_bind [of e m bs x f "[]" y] reads_ret [of e y] by simp

lemma reads_map: "reads e m bs x \<Longrightarrow> reads e (ldbind m (\<lambda>x. ret (f x))) bs (f x)"
  by (rule reads_bind_ret) (assumption, rule refl)

lemma reads_ezgetc: "reads e ezgetc [c] (char2int c)"
proof (rule readsI)
  fix S r
  assume S: "ready e S" "stream (Z S) = [c] @ r"
  then obtain z where "zgetc (Z S) = Inr (char2int c, z)" "wf_zio z" "stream z = r"
    using zio.getc_some [of "Z S" c r] by (auto simp: ready_def)
  then show "\<exists>S'. ezgetc S = Inr (char2int c, S') \<and> ready e S' \<and> stream (Z S') = r"
    using S(1) by (simp add: ezgetc_def ready_def)
qed

lemma reads_backwards: "reads e (read_backwards (length bs) mem) bs (rev bs @ mem)"
proof (induction bs arbitrary: mem)
  case (Cons c bs)
  have "char_of (nat (char2int c)) = c"
    by (simp add: char2int_def uchar_def)
  then show ?case
    using reads_bind [of e ezgetc "[c]" "char2int c" "\<lambda>c. read_backwards (length bs) (char_of (nat c) # mem)" bs]
      reads_ezgetc [of e c] Cons [of "c # mem"] by simp
qed (simp add: reads_ret)

lemma reads_ezread:
  assumes "length bs < 2 ^ 31"
  shows "reads e (ezread (length bs)) bs bs"
proof (rule readsI)
  fix S r
  assume S: "ready e S" "stream (Z S) = bs @ r"
  then obtain z where z: "luaZ_read (Z S) (length bs) = Inr (bs, 0, z)" "wf_zio z" "stream z = r"
    using zio.read_exact [of "Z S" bs r] by (auto simp: ready_def)
  have "signed_take_bit 31 (int (length bs)) = int (length bs)"
    using assms by (intro signed_take_bit_int_eq_self) auto
  then have "nat (signed_take_bit 31 (int (length bs)) mod 2 ^ 64) = length bs"
    using assms by simp
  then show "\<exists>S'. ezread (length bs) S = Inr (bs, S') \<and> ready e S' \<and> stream (Z S') = r"
    using S(1) z by (simp add: ezread_def ready_def)
qed

lemma reads_initialised:
  assumes "length bs < 2 ^ 31" "n \<le> length bs"
  shows "reads e (ldbind (ezread (length bs)) (initialised n)) bs bs"
  by (rule reads_bind_ret [OF reads_ezread [OF assms(1)]])
    (use assms(2) in \<open>simp add: initialised_def [abs_def] ret_def [abs_def] fun_eq_iff\<close>)

text \<open>A value in a block, and the values of a vector.\<close>

lemma reads_LoadBlock:
  assumes "\<And>S. little S = snd e \<Longrightarrow> g (memory_of (snd e) k v) S = Inr (x, S)" "k < 2 ^ 31"
  shows "reads e (ldbind (LoadBlock k) g) (memory_of (fst e) k v) x"
proof (rule readsI)
  fix S r
  assume S: "ready e S" "stream (Z S) = memory_of (fst e) k v @ r"
  have "reads e (if swap S then read_backwards k [] else ldbind (ezread k) (initialised k)) (memory_of (fst e) k v) (memory_of (snd e) k v)"
    using reads_backwards [of e "memory_of (fst e) k v" "[]"] reads_initialised [of "memory_of (fst e) k v" k e] assms(2) S(1)
      memory_of_swap [of "fst e" "snd e" k v]
    by (cases "swap S") (auto simp: ready_def)
  from readsD [OF this S] obtain S' where
    "LoadBlock k S = Inr (memory_of (snd e) k v, S')" "ready e S'" "stream (Z S') = r"
    by (auto simp: LoadBlock_def split: if_splits)
  then show "\<exists>S'. ldbind (LoadBlock k) g S = Inr (x, S') \<and> ready e S' \<and> stream (Z S') = r"
    using assms(1) [of S'] by (simp add: ldbind_def ready_def)
qed

lemma reads_load_many:
  assumes "\<And>x. x \<in> set xs \<Longrightarrow> reads e ld (img x) (res x)"
  shows "reads e (load_many (length xs) ld) (concat (map img xs)) (map res xs)"
  using assms
proof (induction xs)
  case (Cons x xs)
  then have "reads e ld (img x) (res x)"
    and rest: "reads e (load_many (length xs) ld) (concat (map img xs)) (map res xs)"
    by simp_all
  from this(1) have "reads e (ldbind ld (\<lambda>x. ldbind (load_many (length xs) ld) (\<lambda>xs. ret (x # xs))))
      (img x @ concat (map img xs)) (res x # map res xs)"
    by (rule reads_bind) (rule reads_map [OF rest])
  then show ?case
    by simp
qed (simp add: reads_ret)

lemma split_vector_concat:
  "list_all (\<lambda>b. length b = sz) bss \<Longrightarrow> split_vector (length bss) sz (concat bss) = bss"
  by (induction bss) simp_all

lemma length_concat_const: "list_all (\<lambda>b. length b = sz) bss \<Longrightarrow> length (concat bss) = length bss * sz"
  by (induction bss) simp_all

lemma reads_LoadVector:
  assumes "\<And>S. little S = snd e \<Longrightarrow> g (map (memory_of (snd e) k) vs) S = Inr (x, S)" "length vs * k < 2 ^ 31"
  shows "reads e (ldbind (LoadVector (length vs) k) g) (concat (map (memory_of (fst e) k) vs)) x"
proof (rule readsI)
  fix S r
  let ?bs = "concat (map (memory_of (fst e) k) vs)"
  assume S: "ready e S" "stream (Z S) = ?bs @ r"
  have len: "length ?bs = length vs * k"
    using length_concat_const [of k "map (memory_of (fst e) k) vs"] by (simp add: list_all_iff)
  have "reads e (if swap S then load_many (length vs) (read_backwards k [])
      else ldbind (ldbind (ezread (length vs * k)) (initialised (length vs * k))) (\<lambda>bs. ret (split_vector (length vs) k bs))) ?bs (map (memory_of (snd e) k) vs)"
  proof (cases "swap S")
    case True
    then have "snd e \<noteq> fst e"
      using S(1) by (simp add: ready_def)
    then have "reads e (read_backwards k []) (memory_of (fst e) k v) (memory_of (snd e) k v)" for v
      using reads_backwards [of e "memory_of (fst e) k v" "[]"] memory_of_swap [of "fst e" "snd e" k v] by simp
    then show ?thesis
      using True reads_load_many [of vs e "read_backwards k []"] by simp
  next
    case False
    then have eq: "memory_of (snd e) k = memory_of (fst e) k"
      using S(1) by (simp add: ready_def)
    have "split_vector (length vs) k ?bs = map (memory_of (fst e) k) vs"
      using split_vector_concat [of k "map (memory_of (fst e) k) vs"] by (simp add: list_all_iff)
    then show ?thesis
      using False reads_map [OF reads_initialised [of ?bs "length vs * k" e], of "split_vector (length vs) k"] assms(2) len
      by (simp add: eq)
  qed
  from readsD [OF this S] obtain S' where
    "LoadVector (length vs) k S = Inr (map (memory_of (snd e) k) vs, S')" "ready e S'" "stream (Z S') = r"
    by (auto simp: LoadVector_def split: if_splits)
  then show "\<exists>S'. ldbind (LoadVector (length vs) k) g S = Inr (x, S') \<and> ready e S' \<and> stream (Z S') = r"
    using assms(1) [of S'] by (simp add: ldbind_def ready_def)
qed

section \<open>Reading back what was written\<close>

abbreviation flat :: "string list \<Rightarrow> string" where
  "flat \<equiv> concat"

lemma reads_LoadByte: "reads e LoadByte (flat (DumpByte (uint w))) w"
proof -
  have "char2int (char_of (nat (uint w mod 256))) = uint w"
    using unsigned_less [of w, where 'a = nat] uint_lt2p [of w]
    by (simp add: char2int_def uchar_char_of nat_mod_distrib mod_pos_pos_trivial)
  then show ?thesis
    unfolding LoadByte_def DumpByte_def DumpBlock_def
    using reads_map [OF reads_ezgetc, of e "word_of_int :: int \<Rightarrow> 8 word" "char_of (nat (uint w mod 256))"] by simp
qed

lemma int_range_bits: "- (2 ^ 31) \<le> x \<Longrightarrow> x < 2 ^ 31 \<Longrightarrow> signed_take_bit 31 x = (x :: int)"
  by (rule signed_take_bit_int_eq_self) simp_all

lemma reads_LoadInt:
  assumes "0 \<le> x" "x < 2 ^ 31"
  shows "reads e LoadInt (flat (DumpInt (fst e) x)) x"
proof -
  have "int_val (snd e) (int_mem (snd e) x) = x"
    using assms by (simp add: value_word int_range_bits)
  then show ?thesis
    unfolding LoadInt_def DumpInt_def DumpBlock_def concat.simps append_Nil2 int_mem_def
    using assms(1) by (intro reads_LoadBlock) (simp_all add: int_mem_def Let_def)
qed

lemma reads_LoadSize:
  assumes "v < 2 ^ 64"
  shows "reads e LoadSize (flat (DumpSize (fst e) v)) v"
  unfolding LoadSize_def DumpSize_def DumpBlock_def concat.simps append_Nil2
  using assms by (intro reads_LoadBlock) (simp_all add: value_of_memory_of)

lemma reads_LoadNumber: "reads e LoadNumber (flat (DumpNumber (fst e) x)) x"
  unfolding LoadNumber_def DumpNumber_def DumpBlock_def concat.simps append_Nil2
  by (intro reads_LoadBlock) (simp_all add: value_word)

definition wf_str :: "string option \<Rightarrow> bool" where
  "wf_str s \<longleftrightarrow> (\<forall>t. s = Some t \<longrightarrow> length t + 1 < 2 ^ 31)"

lemma reads_LoadString:
  assumes "wf_str s"
  shows "reads e LoadString (flat (DumpString (fst e) s)) s"
proof (cases s)
  case None
  have "reads e LoadSize (flat (DumpSize (fst e) 0)) 0"
    by (rule reads_LoadSize) simp
  then show ?thesis
    unfolding LoadString_def DumpString_def None option.case by (rule reads_bind_ret) simp
next
  case (Some t)
  let ?n = "length t + 1"
  have n: "?n < 2 ^ 31"
    using assms Some by (simp add: wf_str_def)
  have sz: "reads e LoadSize (flat (DumpSize (fst e) ?n)) ?n"
    using n by (intro reads_LoadSize) simp
  have open': "\<exists>m. luaZ_openspace b ?n = Inr m" for b
    using n by (auto simp: luaZ_openspace_def luaM_realloc_def MAX_SIZET_def LUA_MINBUFFER_def)
  have ld: "reads e (ldbind (ldbind (ezread ?n) (initialised (?n - 1))) (\<lambda>s. ret (Some (take (?n - 1) s)))) (t @ [NUL]) (Some t)"
    using reads_map [OF reads_initialised [of "t @ [NUL]" "?n - 1" e], of "\<lambda>s. Some (take (?n - 1) s)"] n by simp
  have rd: "reads e (\<lambda>S. bindR (luaZ_openspace (buffsize S) ?n) (\<lambda>n.
           ldbind (ldbind (ezread ?n) (initialised (?n - 1))) (\<lambda>s. ret (Some (take (?n - 1) s))) (S\<lparr>buffsize := n\<rparr>))) (t @ [NUL]) (Some t)"
  proof (rule readsI)
    fix S r
    assume S: "ready e S" "stream (Z S) = (t @ [NUL]) @ r"
    obtain m where m: "luaZ_openspace (buffsize S) ?n = Inr m"
      using open' by blast
    show "\<exists>S'. bindR (luaZ_openspace (buffsize S) ?n) (\<lambda>n.
        ldbind (ldbind (ezread ?n) (initialised (?n - 1))) (\<lambda>s. ret (Some (take (?n - 1) s))) (S\<lparr>buffsize := n\<rparr>)) = Inr (Some t, S') \<and>
        ready e S' \<and> stream (Z S') = r"
      unfolding m bindR_simps by (rule readsD [OF ld]) (use S in \<open>simp_all add: ready_def\<close>)
  qed
  show ?thesis
    unfolding LoadString_def DumpString_def Some option.case Let_def DumpBlock_def concat_append concat.simps append_Nil2
    by (rule reads_bind [OF sz]) (use rd in simp)
qed

lemma flat_concat_map: "flat (concat (map f xs)) = flat (map (\<lambda>x. flat (f x)) xs)"
  by (induction xs) simp_all

lemma reads_many_flat:
  assumes "\<And>x. x \<in> set xs \<Longrightarrow> reads e ld (flat (dump x)) x"
  shows "reads e (load_many (length xs) ld) (flat (concat (map dump xs))) xs"
  using reads_load_many [of xs e ld "\<lambda>x. flat (dump x)" "\<lambda>x. x"] assms by (simp add: comp_def flat_concat_map)

lemma reads_LoadCode:
  assumes "length code < 2 ^ 28"
  shows "reads e LoadCode (flat (DumpCode (fst e) code)) code"
proof -
  have n: "reads e LoadInt (flat (DumpInt (fst e) (int (length code)))) (int (length code))"
    using assms by (intro reads_LoadInt) simp_all
  have v: "reads e (ldbind (LoadVector (length code) 8) (\<lambda>v S. Inr (map (\<lambda>bs. word_of_nat (value_of (little S) bs)) v, S)))
      (concat (map (\<lambda>i. memory_of (fst e) 8 (unat i)) code)) code"
    using reads_LoadVector [of e "\<lambda>v S. Inr (map (\<lambda>bs. word_of_nat (value_of (little S) bs)) v, S)" 8 "map unat code" code]
      assms by (simp add: value_word comp_def)
  show ?thesis
    unfolding LoadCode_def DumpCode_def DumpBlock_def concat_append concat.simps append_Nil2
    by (rule reads_bind [OF n]) (use v in simp)
qed

lemma reads_LoadLines:
  assumes "length ls < 2 ^ 29" "list_all (\<lambda>l. - (2 ^ 31) \<le> l \<and> l < 2 ^ 31) ls"
  shows "reads e LoadLines (flat (DumpLines (fst e) ls)) ls"
proof -
  have n: "reads e LoadInt (flat (DumpInt (fst e) (int (length ls)))) (int (length ls))"
    using assms by (intro reads_LoadInt) simp_all
  have val: "map (\<lambda>x. int_val (snd e) (int_mem (snd e) x)) ls = ls"
    using assms(2) by (auto simp: value_word int_range_bits list_all_iff intro!: map_idI)
  have v: "reads e (ldbind (LoadVector (length ls) 4) (\<lambda>v S. Inr (map (int_val (little S)) v, S)))
      (concat (map (int_mem (fst e)) ls)) ls"
    using reads_LoadVector [of e "\<lambda>v S. Inr (map (int_val (little S)) v, S)" 4
        "map (\<lambda>x. unat (word_of_int x :: 32 word)) ls" ls] assms(1) val
    by (simp add: int_mem_def [abs_def] comp_def)
  show ?thesis
    unfolding LoadLines_def DumpLines_def DumpBlock_def concat_append concat.simps append_Nil2
    by (rule reads_bind [OF n]) (use v in simp)
qed

definition wf_locvar :: "LocVar \<Rightarrow> bool" where
  "wf_locvar v \<longleftrightarrow> wf_str (varname v) \<and> 0 \<le> startpc v \<and> startpc v < 2 ^ 31 \<and> 0 \<le> endpc v \<and> endpc v < 2 ^ 31"

lemma reads_LoadLocal:
  assumes "wf_locvar v"
  shows "reads e LoadLocal (flat (DumpString (fst e) (varname v) @ DumpInt (fst e) (startpc v) @ DumpInt (fst e) (endpc v))) v"
proof -
  have "reads e LoadString (flat (DumpString (fst e) (varname v))) (varname v)"
    "reads e LoadInt (flat (DumpInt (fst e) (startpc v))) (startpc v)"
    "reads e LoadInt (flat (DumpInt (fst e) (endpc v))) (endpc v)"
    using assms by (auto simp: wf_locvar_def intro: reads_LoadString reads_LoadInt)
  then show ?thesis
    unfolding LoadLocal_def concat_append
    by (intro reads_bind [where x = "varname v"] reads_bind [where x = "startpc v"] reads_bind_ret [where x = "endpc v"])
      (cases v; simp)+
qed

lemma reads_counted:
  assumes "length xs < 2 ^ 31" "\<And>x. x \<in> set xs \<Longrightarrow> reads e ld (flat (dump x)) x"
    "f (int (length xs)) = load_many (length xs) ld"
  shows "reads e (ldbind LoadInt f) (flat (DumpInt (fst e) (int (length xs)) @ concat (map dump xs))) xs"
  unfolding concat_append
  by (rule reads_bind [OF reads_LoadInt]) (use assms reads_many_flat [of xs e ld dump] in simp_all)

lemma reads_LoadLocals:
  assumes "length vs < 2 ^ 31" "list_all wf_locvar vs"
  shows "reads e LoadLocals (flat (DumpLocals (fst e) vs)) vs"
  unfolding LoadLocals_def DumpLocals_def
  by (rule reads_counted) (use assms reads_LoadLocal in \<open>auto simp: list_all_iff simp del: concat_append\<close>)

lemma reads_LoadUpvalues:
  assumes "us = [] \<or> int (length us) = uint nups" "list_all wf_str us"
  shows "reads e (LoadUpvalues nups) (flat (DumpUpvalues (fst e) us)) us"
proof -
  have len: "length us < 2 ^ 31"
    using assms(1) uint_lt2p [of nups] by auto
  show ?thesis
    unfolding LoadUpvalues_def DumpUpvalues_def
    by (rule reads_counted [OF len, where ld = LoadString])
      (use assms reads_LoadString nat_int [of "length us"] in \<open>auto simp: list_all_iff simp del: nat_int\<close>)
qed

lemma reads_LoadConstant:
  assumes "case k of KString s \<Rightarrow> wf_str s | _ \<Rightarrow> True"
  shows "reads e LoadConstant (flat (DumpConstant (fst e) k)) k"
proof -
  have b: "reads e LoadByte (flat (DumpByte 0)) 0" "reads e LoadByte (flat (DumpByte 3)) 3"
    "reads e LoadByte (flat (DumpByte 4)) 4"
    using reads_LoadByte [of e 0] reads_LoadByte [of e 3] reads_LoadByte [of e 4] by simp_all
  show ?thesis
  proof (cases k)
    case KNil
    then show ?thesis
      unfolding LoadConstant_def DumpConstant_def by (auto intro!: reads_bind_ret [OF b(1)])
  next
    case (KNumber n)
    then show ?thesis
      unfolding LoadConstant_def DumpConstant_def
      by (auto intro!: reads_bind [OF b(2)] reads_map [OF reads_LoadNumber])
  next
    case (KString s)
    then show ?thesis
      unfolding LoadConstant_def DumpConstant_def
      using assms by (auto intro!: reads_bind [OF b(3)] reads_map [OF reads_LoadString])
  qed
qed

text \<open>
  The functions that fit the format, inside of a function with source \<open>p\<close>: sizes and lines fit an
  \<open>int\<close>, and the source is only left out where the outer function has none.
\<close>

fun wf_proto :: "string option \<Rightarrow> Proto \<Rightarrow> bool" where
  "wf_proto p (Proto k code ps lineinfo locvars upvalues source lineDefined nups numparams is_vararg maxstacksize) \<longleftrightarrow>
     list_all (\<lambda>k. case k of KString s \<Rightarrow> wf_str s | _ \<Rightarrow> True) k \<and> length k < 2 ^ 31 \<and>
     length code < 2 ^ 28 \<and> length ps < 2 ^ 31 \<and>
     length lineinfo < 2 ^ 29 \<and> list_all (\<lambda>l. - (2 ^ 31) \<le> l \<and> l < 2 ^ 31) lineinfo \<and>
     length locvars < 2 ^ 31 \<and> list_all wf_locvar locvars \<and>
     (upvalues = [] \<or> int (length upvalues) = uint nups) \<and> list_all wf_str upvalues \<and>
     wf_str source \<and> (source = None \<longrightarrow> p = None) \<and> 0 \<le> lineDefined \<and> lineDefined < 2 ^ 31 \<and>
     list_all (wf_proto source) ps"

text \<open>The checker accepts the function and all functions inside of it.\<close>

fun accepted :: "Proto \<Rightarrow> bool" where
  "accepted (Proto k code ps lineinfo locvars upvalues source lineDefined nups numparams is_vararg maxstacksize) \<longleftrightarrow>
     (\<exists>r. luaG_checkcode (Proto k code ps lineinfo locvars upvalues source lineDefined nups numparams is_vararg maxstacksize)
       = Inr r \<and> r \<noteq> 0) \<and> list_all accepted ps"

lemma reads_check_loaded: "luaG_checkcode f = Inr r \<Longrightarrow> r \<noteq> 0 \<Longrightarrow> reads e (check_loaded f) [] f"
  by (simp add: reads_def check_loaded_def)

lemma flat_DumpInt_length: "length (flat (DumpInt le x)) = 4"
  by (simp add: DumpInt_def DumpBlock_def int_mem_def)

lemma reads_LoadConstants:
  assumes "list_all (\<lambda>k. case k of KString s \<Rightarrow> wf_str s | _ \<Rightarrow> True) k" "length k < 2 ^ 31" "length ps < 2 ^ 31"
    "\<And>g. g \<in> set ps \<Longrightarrow> reads e lf (flat (dump g)) g"
  shows "reads e (LoadConstants_with lf)
    (flat (DumpInt (fst e) (int (length k)) @ concat (map (DumpConstant (fst e)) k) @
      DumpInt (fst e) (int (length ps)) @ concat (map dump ps))) (k, ps)"
proof -
  have n: "reads e LoadInt (flat (DumpInt (fst e) (int (length k)))) (int (length k))"
    "reads e LoadInt (flat (DumpInt (fst e) (int (length ps)))) (int (length ps))"
    using assms by (simp_all add: reads_LoadInt)
  have k: "reads e (load_many (length k) LoadConstant) (flat (concat (map (DumpConstant (fst e)) k))) k"
    using assms(1) by (intro reads_many_flat reads_LoadConstant) (auto simp: list_all_iff)
  have ps: "reads e (load_many (length ps) lf) (flat (concat (map dump ps))) ps"
    using assms(4) by (rule reads_many_flat)
  show ?thesis
    unfolding LoadConstants_with_def concat_append
    by (rule reads_bind [OF n(1)], unfold nat_int, rule reads_bind [OF k], rule reads_bind [OF n(2)], unfold nat_int)
      (rule reads_map [OF ps])
qed

lemma reads_LoadFunction:
  assumes "wf_proto p f" "accepted f" "length (flat (DumpFunction (fst e) f p)) \<le> fuel"
  shows "reads e (LoadFunction fuel p) (flat (DumpFunction (fst e) f p)) f"
  using assms
proof (induction "fst e" f p arbitrary: fuel rule: DumpFunction.induct)
  case (1 k code ps lineinfo locvars upvalues source lineDefined nups numparams is_vararg maxstacksize p)
  let ?f = "Proto k code ps lineinfo locvars upvalues source lineDefined nups numparams is_vararg maxstacksize"
  note wf = 1(2) [unfolded wf_proto.simps]
  obtain r where r: "luaG_checkcode ?f = Inr r" "r \<noteq> 0" and acc: "list_all accepted ps"
    using 1(3) by auto
  obtain fuel' where fuel: "fuel = Suc fuel'"
    using 1(4) by (cases fuel) (simp_all add: flat_DumpInt_length)
  have inner: "reads e (LoadFunction fuel' source) (flat (DumpFunction (fst e) g source)) g" if "g \<in> set ps" for g
  proof (rule 1(1) [OF that])
    show "wf_proto source g" "accepted g"
      using wf acc that by (auto simp: list_all_iff)
    have "length (flat (DumpFunction (fst e) g source)) \<le> length (flat (concat (map (\<lambda>g. DumpFunction (fst e) g source) ps)))"
      using that by (induction ps) auto
    then show "length (flat (DumpFunction (fst e) g source)) \<le> fuel'"
      using 1(4) by (simp add: fuel flat_DumpInt_length)
  qed
  have src: "reads e LoadString (flat (DumpString (fst e) (if source = p then None else source)))
      (if source = p then None else source)"
    using wf by (intro reads_LoadString) (auto simp: wf_str_def)
  have src': "(if (if source = p then None else source) = None then p else (if source = p then None else source)) = source"
    using wf by auto
  have kst: "reads e (LoadConstants_with (LoadFunction fuel' source))
      (flat (DumpInt (fst e) (int (length k)) @ concat (map (DumpConstant (fst e)) k) @
        DumpInt (fst e) (int (length ps)) @ concat (map (\<lambda>g. DumpFunction (fst e) g source) ps))) (k, ps)"
    by (rule reads_LoadConstants) (use wf inner in auto)
  have line: "reads e LoadInt (flat (DumpInt (fst e) lineDefined)) lineDefined"
    using wf by (intro reads_LoadInt) auto
  have "reads e LoadLines (flat (DumpLines (fst e) lineinfo)) lineinfo"
    "reads e LoadLocals (flat (DumpLocals (fst e) locvars)) locvars"
    "reads e (LoadUpvalues nups) (flat (DumpUpvalues (fst e) upvalues)) upvalues"
    "reads e LoadCode (flat (DumpCode (fst e) code)) code"
    using wf by (auto intro!: reads_LoadLines reads_LoadLocals reads_LoadUpvalues reads_LoadCode)
  note parts = this
  have code: "reads e (ldbind LoadCode (\<lambda>code. check_loaded (Proto k code ps lineinfo locvars upvalues source lineDefined
      nups numparams is_vararg maxstacksize))) (flat (DumpCode (fst e) code)) ?f"
    using reads_bind [OF parts(4), of "\<lambda>code. check_loaded (Proto k code ps lineinfo locvars upvalues source
      lineDefined nups numparams is_vararg maxstacksize)" "[]" ?f] reads_check_loaded [OF r] by simp
  show ?case
    unfolding fuel LoadFunction.simps DumpFunction.simps concat_append Let_def
    by (rule reads_bind [OF src], unfold src', rule reads_bind [OF line], rule reads_bind [OF reads_LoadByte],
        rule reads_bind [OF reads_LoadByte], rule reads_bind [OF reads_LoadByte], rule reads_bind [OF reads_LoadByte],
        rule reads_bind [OF parts(1)], rule reads_bind [OF parts(2)], rule reads_bind [OF parts(3)],
        rule reads_bind [OF kst [unfolded concat_append]], unfold prod.case, rule code)
qed

lemma reads_bind_stop: "reads e m bs x \<Longrightarrow> (\<And>S. f x S = Inr (y, S)) \<Longrightarrow> reads e (ldbind m f) bs y"
  using reads_bind [of e m bs x f "[]" y] by (simp add: reads_def)

lemma reads_TestSize:
  fixes w :: "8 word"
  assumes "s = uint w"
  shows "reads e (TestSize s what) (flat (DumpByte s)) ()"
  unfolding TestSize_def assms by (rule reads_bind_stop [OF reads_LoadByte]) simp

lemma reads_LoadSignature_loop: "reads e (LoadSignature_loop s) s ()"
proof (induction s)
  case (Cons c s)
  have "reads e (ldbind ezgetc (\<lambda>k. if k = char2int c then LoadSignature_loop s
     else (\<lambda>S. luaG_runerror ''bad signature in %s'' [FmtS (chunkname S)]))) ([c] @ s) ()"
    by (rule reads_bind [OF reads_ezgetc]) (simp add: Cons)
  then show ?case
    by simp
qed (simp add: reads_ret)

lemma reads_LoadFormat:
  "reads e LoadFormat (flat (DumpByte 4 @ DumpByte 8 @ DumpByte 8 @ DumpByte (int SIZE_OP) @
    DumpByte (int SIZE_A) @ DumpByte (int SIZE_B) @ DumpByte (int SIZE_C) @ DumpByte 8 @
    DumpNumber (fst e) TEST_NUMBER)) ()"
proof -
  have sizes: "4 = uint (4 :: 8 word)" "8 = uint (8 :: 8 word)" "int SIZE_OP = uint (6 :: 8 word)"
    "int SIZE_A = uint (8 :: 8 word)" "int SIZE_B = uint (9 :: 8 word)" "int SIZE_C = uint (9 :: 8 word)"
    by (simp_all add: layout_defs)
  note test = sizes [THEN reads_TestSize, THEN reads_bind]
  show ?thesis
    unfolding LoadFormat_def concat_append
    by (rule test(1), rule test(2), rule test(2), rule test(3), rule test(4), rule test(5), rule test(6), rule test(2),
        rule reads_bind_stop [OF reads_LoadNumber]) simp
qed

lemma reads_LoadHeader:
  assumes "ready (rd, rd) S" "stream (Z S) = flat (DumpHeader w) @ r"
  shows "\<exists>S'. LoadHeader S = Inr ((), S') \<and> ready (w, rd) S' \<and> stream (Z S') = r"
proof -
  let ?e = "(rd, rd)" and ?e' = "(w, rd)"
  define tail where "tail = flat (DumpByte 4 @ DumpByte 8 @ DumpByte 8 @ DumpByte (int SIZE_OP) @
    DumpByte (int SIZE_A) @ DumpByte (int SIZE_B) @ DumpByte (int SIZE_C) @ DumpByte 8 @
    DumpNumber w TEST_NUMBER)"
  have sg: "stream (Z S) = LUA_SIGNATURE @ flat (DumpByte VERSION) @ flat (DumpByte (luaU_endianness w)) @ tail @ r"
    using assms(2) by (simp add: DumpHeader_def tail_def DumpBlock_def)
  obtain S1 where S1: "LoadSignature S = Inr ((), S1)" "ready ?e S1"
    "stream (Z S1) = flat (DumpByte VERSION) @ flat (DumpByte (luaU_endianness w)) @ tail @ r"
    using readsD [OF reads_LoadSignature_loop assms(1) sg] by (auto simp: LoadSignature_def)
  have v: "VERSION = uint (0x50 :: 8 word)" "VERSION0 = uint (0x50 :: 8 word)"
    by (simp_all add: VERSION_def VERSION0_def)
  have en: "luaU_endianness b = uint (if b then 1 else 0 :: 8 word)" for b
    by (simp add: luaU_endianness_eq)
  obtain S2 where S2: "LoadByte S1 = Inr (0x50, S2)" "ready ?e S2"
    "stream (Z S2) = flat (DumpByte (luaU_endianness w)) @ tail @ r"
    using readsD [OF reads_LoadByte [of ?e "0x50", folded v] S1(2,3)] by blast
  obtain S3 where S3: "LoadByte S2 = Inr (if w then 1 else 0, S3)" "ready ?e S3" "stream (Z S3) = tail @ r"
    using readsD [OF reads_LoadByte [of ?e "if w then 1 else 0", folded en] S2(2,3)] by blast
  define S4 where "S4 = S3\<lparr>swap := (luaU_endianness (little S3) \<noteq> uint (if w then 1 else 0 :: 8 word))\<rparr>"
  have S4: "ready ?e' S4" "stream (Z S4) = tail @ r"
    using S3(2,3) by (auto simp: S4_def ready_def luaU_endianness_eq)
  have "LoadHeader S = LoadFormat S4"
    by (simp add: LoadHeader_def ldbind_def S1(1) S2(1) S3(1) S4_def VERSION_def VERSION0_def)
  then show ?thesis
    using readsD [OF reads_LoadFormat [of ?e'] S4(1), of r] S4(2) by (simp add: tail_def)
qed

lemma length_upto_empty: "length (upto_empty cs) \<le> length (concat cs)"
  by (induction cs) auto

lemma length_stream: "length (stream z) \<le> bytes_left z"
  using length_upto_empty [of "z_chunks z"] by (simp add: stream_def bytes_left_def)

lemma luaU_undump_dump:
  assumes "wf_proto None f" "accepted f" "wf_zio z" "stream z = flat (luaU_dump w f) @ r"
  shows "\<exists>z'. luaU_undump rd z buff name = Inr (f, z') \<and> wf_zio z' \<and> stream z' = r"
proof -
  define nm where "nm = (let s = cstr name in
      if s \<noteq> [] \<and> (hd s = CHR ''@'' \<or> hd s = CHR ''='') then tl s
      else if s \<noteq> [] \<and> hd s = hd LUA_SIGNATURE then ''binary string'' else s)"
  define S where "S = \<lparr>Z = z, buffsize = buff, swap = False, chunkname = nm, little = rd\<rparr>"
  have S: "ready (rd, rd) S" "stream (Z S) = flat (DumpHeader w) @ (flat (DumpFunction w f None) @ r)"
    using assms(3,4) by (simp_all add: ready_def S_def luaU_dump_def)
  obtain S' where S': "LoadHeader S = Inr ((), S')" "ready (w, rd) S'" "stream (Z S') = flat (DumpFunction w f None) @ r"
    using reads_LoadHeader [OF S] by blast
  have "length (flat (DumpFunction w f None)) \<le> Suc (bytes_left z)"
    using length_stream [of z] assms(4) by (simp add: luaU_dump_def)
  then have "reads (w, rd) (LoadFunction (Suc (bytes_left z)) None) (flat (DumpFunction w f None)) f"
    using reads_LoadFunction [of None f "(w, rd)"] assms(1,2) by (simp del: LoadFunction.simps)
  from readsD [OF this S'(2,3)] obtain S'' where
    "LoadFunction (Suc (bytes_left z)) None S' = Inr (f, S'')" "ready (w, rd) S''" "stream (Z S'') = r"
    by blast
  then have "LoadChunk (Suc (bytes_left z)) S = Inr (f, S'')" "wf_zio (Z S'')" "stream (Z S'') = r"
    by (simp_all add: LoadChunk_def ldbind_def S'(1) ready_def del: LoadFunction.simps)
  then show ?thesis
    unfolding luaU_undump_def Let_def nm_def [unfolded Let_def, symmetric] S_def [symmetric] by simp
qed

section \<open>Loading ends\<close>

text \<open>
  On any stream a loader fails with an error of the language, or consumes at least \<open>k\<close> bytes.
\<close>

definition progress :: "nat \<Rightarrow> 'a loader \<Rightarrow> bool" where
  "progress k ld \<longleftrightarrow> (\<forall>S. wf_zio (Z S) \<longrightarrow> (case ld S of
       Inl err \<Rightarrow> err \<noteq> NoReturn
     | Inr (x, S') \<Rightarrow> wf_zio (Z S') \<and> unread (Z S') + k \<le> unread (Z S)))"

lemma progress_bind:
  assumes "progress k m" "\<And>x. progress l (f x)"
  shows "progress (k + l) (ldbind m f)"
proof -
  have "case ldbind m f S of Inl err \<Rightarrow> err \<noteq> NoReturn
      | Inr (y, S') \<Rightarrow> wf_zio (Z S') \<and> unread (Z S') + (k + l) \<le> unread (Z S)" if "wf_zio (Z S)" for S
  proof (cases "m S")
    case (Inr r)
    obtain x S1 where r: "r = (x, S1)"
      by (cases r)
    have "wf_zio (Z S1)" "unread (Z S1) + k \<le> unread (Z S)"
      using assms(1) that Inr r by (auto simp: progress_def)
    then show ?thesis
      using assms(2) [of x] Inr r by (auto simp: progress_def ldbind_def split: sum.splits)
  qed (use assms(1) that in \<open>auto simp: progress_def ldbind_def\<close>)
  then show ?thesis
    by (simp add: progress_def)
qed

lemma progress_mono: "progress k ld \<Longrightarrow> l \<le> k \<Longrightarrow> progress l ld"
  by (fastforce simp: progress_def split: sum.splits)

lemma progress_bind0 [intro]: "progress 0 m \<Longrightarrow> (\<And>x. progress 0 (f x)) \<Longrightarrow> progress 0 (ldbind m f)"
  using progress_bind [of 0 m 0 f] by simp

lemma progress_ret [intro]: "progress 0 (ret x)" "progress 0 (\<lambda>S. Inr (f S, S))"
  by (simp_all add: progress_def ret_def)

lemma runerror_progress [simp]:
  "case luaG_runerror fmt args of Inl err \<Rightarrow> err \<noteq> NoReturn | Inr x \<Rightarrow> Q x"
  by (simp add: luaG_runerror_def split: option.split)

lemma progress_runerror [intro]: "progress k (\<lambda>S. luaG_runerror fmt (args S))"
  by (simp add: progress_def)

lemma progress_if_state [intro]:
  "progress k ld \<Longrightarrow> progress k ld' \<Longrightarrow> progress k (\<lambda>S. if P S then ld S else ld' S)"
  by (simp add: progress_def)

lemma progress_ezgetc: "progress 1 ezgetc"
  unfolding progress_def
proof (intro allI impI)
  fix S :: LoadState
  assume "wf_zio (Z S)"
  from zio.getc_cases [OF this] show "case ezgetc S of Inl err \<Rightarrow> err \<noteq> NoReturn
      | Inr (x, S') \<Rightarrow> wf_zio (Z S') \<and> unread (Z S') + 1 \<le> unread (Z S)"
    by (auto simp: ezgetc_def unexpectedEOZ_def)
qed

lemma progress_ezread: "progress 0 (ezread n)"
  unfolding progress_def
proof (intro allI impI)
  fix S :: LoadState
  assume "wf_zio (Z S)"
  from zio.read_progress [OF this, of "nat (signed_take_bit 31 (int n) mod 2 ^ 64)"] obtain bs r z where
    "luaZ_read (Z S) (nat (signed_take_bit 31 (int n) mod 2 ^ 64)) = Inr (bs, r, z)" "wf_zio z"
    "unread z + length bs = unread (Z S)"
    by blast
  then show "case ezread n S of Inl err \<Rightarrow> err \<noteq> NoReturn
      | Inr (x, S') \<Rightarrow> wf_zio (Z S') \<and> unread (Z S') + 0 \<le> unread (Z S)"
    by (auto simp: ezread_def unexpectedEOZ_def Let_def)
qed

lemma progress_initialised: "progress 0 (initialised n bs)"
  by (simp add: progress_def initialised_def)

lemmas progress_checked = progress_bind0 [OF progress_ezread progress_initialised]

lemma progress_backwards: "progress 0 (read_backwards n mem)"
  by (induction n arbitrary: mem) (auto intro: progress_mono [OF progress_ezgetc])

lemma progress_LoadBlock: "progress 0 (LoadBlock n)"
  unfolding LoadBlock_def [abs_def] by (intro progress_if_state progress_backwards progress_checked)

lemma progress_load_many: "progress 0 ld \<Longrightarrow> progress 0 (load_many n ld)"
  by (induction n) (auto intro!: progress_bind0)

lemma progress_LoadVector: "progress 0 (LoadVector m n)"
  unfolding LoadVector_def [abs_def]
  by (intro progress_if_state progress_load_many progress_backwards progress_bind0 [OF progress_checked] progress_ret)

lemma progress_LoadByte: "progress 1 LoadByte"
  unfolding LoadByte_def
  using progress_bind [OF progress_ezgetc, of 0 "\<lambda>c. ret (word_of_int c :: 8 word)"] by (simp add: progress_ret)

lemma progress_LoadInt: "progress 0 LoadInt"
  unfolding LoadInt_def Let_def
  by (intro progress_bind0 progress_LoadBlock progress_if_state progress_runerror progress_ret)

lemma progress_LoadSize: "progress 0 LoadSize" "progress 0 LoadNumber"
  unfolding LoadSize_def LoadNumber_def by (intro progress_bind0 progress_LoadBlock progress_ret)+

lemma progress_openspace:
  assumes "progress 0 ld"
  shows "progress 0 (\<lambda>S. bindR (luaZ_openspace (buffsize S) n) (\<lambda>m. ld (S\<lparr>buffsize := m\<rparr>)))"
  unfolding progress_def
proof (intro allI impI)
  fix S :: LoadState
  assume S: "wf_zio (Z S)"
  show "case bindR (luaZ_openspace (buffsize S) n) (\<lambda>m. ld (S\<lparr>buffsize := m\<rparr>)) of Inl err \<Rightarrow> err \<noteq> NoReturn
      | Inr (x, S') \<Rightarrow> wf_zio (Z S') \<and> unread (Z S') + 0 \<le> unread (Z S)"
  proof (cases "luaZ_openspace (buffsize S) n")
    case (Inl err)
    then show ?thesis
      by (auto simp: luaZ_openspace_def luaM_realloc_def split: if_splits)
  next
    case (Inr m)
    then show ?thesis
      using assms [unfolded progress_def, rule_format, of "S\<lparr>buffsize := m\<rparr>"] S by (auto split: sum.splits)
  qed
qed

lemma progress_LoadString: "progress 0 LoadString"
proof -
  have "progress 0 (if sz = 0 then ret None
    else (\<lambda>S. bindR (luaZ_openspace (buffsize S) sz) (\<lambda>n.
           ldbind (ldbind (ezread sz) (initialised (sz - 1))) (\<lambda>s. ret (Some (take (sz - 1) s))) (S\<lparr>buffsize := n\<rparr>))))" for sz
    by (auto intro!: progress_openspace progress_bind0 progress_checked)
  then show ?thesis
    unfolding LoadString_def by (intro progress_bind0 progress_LoadSize)
qed

lemmas progress_intros = progress_bind0 progress_LoadInt progress_LoadSize progress_LoadString progress_load_many
  progress_LoadVector progress_if_state progress_runerror progress_ret progress_mono [OF progress_LoadByte, simplified]

lemma progress_LoadParts:
  "progress 0 LoadCode" "progress 0 LoadLocals" "progress 0 LoadLines" "progress 0 (LoadUpvalues nups)"
  unfolding LoadCode_def LoadLocals_def LoadLocal_def LoadLines_def LoadUpvalues_def
  by (intro progress_intros)+

lemma progress_LoadConstant: "progress 0 LoadConstant"
  unfolding LoadConstant_def by (auto intro!: progress_intros)

lemma progress_LoadConstants_with: "progress 0 lf \<Longrightarrow> progress 0 (LoadConstants_with lf)"
  unfolding LoadConstants_with_def by (intro progress_intros progress_LoadConstant)

lemma progress_check_loaded: "progress 0 (check_loaded f)"
  using luaG_checkcode_NoReturn [of f]
  by (cases "luaG_checkcode f") (auto simp: progress_def check_loaded_def [abs_def])

text \<open>\<open>LoadFunction\<close> reads at least the byte of \<open>nups\<close> before it reads an inner function.\<close>

definition progress_below :: "nat \<Rightarrow> 'a loader \<Rightarrow> bool" where
  "progress_below n ld \<longleftrightarrow> (\<forall>S. wf_zio (Z S) \<and> unread (Z S) < n \<longrightarrow> (case ld S of
       Inl err \<Rightarrow> err \<noteq> NoReturn
     | Inr (x, S') \<Rightarrow> wf_zio (Z S') \<and> unread (Z S') \<le> unread (Z S)))"

lemma progress_below_of: "progress 0 ld \<Longrightarrow> progress_below n ld"
  unfolding progress_def progress_below_def add_0_right by blast

lemma progress_below_bind:
  assumes "progress k m" "\<And>x. progress_below (n - k) (f x)"
  shows "progress_below n (ldbind m f)"
  unfolding progress_below_def
proof (intro allI impI)
  fix S :: LoadState
  assume S: "wf_zio (Z S) \<and> unread (Z S) < n"
  show "case ldbind m f S of Inl err \<Rightarrow> err \<noteq> NoReturn
      | Inr (x, S') \<Rightarrow> wf_zio (Z S') \<and> unread (Z S') \<le> unread (Z S)"
  proof (cases "m S")
    case (Inl err)
    then show ?thesis
      using assms(1) S by (auto simp: progress_def ldbind_def split: sum.splits)
  next
    case (Inr r)
    obtain x S1 where r: "r = (x, S1)"
      by (cases r)
    have S1: "wf_zio (Z S1)" "unread (Z S1) + k \<le> unread (Z S)"
      using assms(1) [unfolded progress_def, rule_format, of S] S Inr r by auto
    then have "wf_zio (Z S1) \<and> unread (Z S1) < n - k"
      using S by linarith
    from assms(2) [of x, unfolded progress_below_def, rule_format, OF this] show ?thesis
      using S1 Inr r by (auto simp: ldbind_def split: sum.splits)
  qed
qed

lemma progress_below_bind':
  assumes "progress_below n m" "\<And>x. progress_below n (f x)"
  shows "progress_below n (ldbind m f)"
  unfolding progress_below_def
proof (intro allI impI)
  fix S :: LoadState
  assume S: "wf_zio (Z S) \<and> unread (Z S) < n"
  note m = assms(1) [unfolded progress_below_def, rule_format, OF S]
  show "case ldbind m f S of Inl err \<Rightarrow> err \<noteq> NoReturn
      | Inr (x, S') \<Rightarrow> wf_zio (Z S') \<and> unread (Z S') \<le> unread (Z S)"
  proof (cases "m S")
    case (Inr r)
    obtain x S1 where r: "r = (x, S1)"
      by (cases r)
    then show ?thesis
      using m assms(2) [of x, unfolded progress_below_def, rule_format, of S1] S Inr
      by (auto simp: ldbind_def split: sum.splits)
  qed (use m in \<open>simp add: ldbind_def\<close>)
qed

lemma progress_below_load_many: "progress_below n ld \<Longrightarrow> progress_below n (load_many m ld)"
  by (induction m) (simp_all, (intro progress_below_bind' progress_below_of [OF progress_ret(1)]; assumption)+)

lemma progress_below_LoadConstants:
  assumes "progress_below n lf"
  shows "progress_below n (LoadConstants_with lf)"
  unfolding LoadConstants_with_def
  by (intro progress_below_bind' progress_below_load_many assms progress_below_of [OF progress_LoadInt]
      progress_below_of [OF progress_load_many] progress_LoadConstant progress_below_of [OF progress_ret(1)])

lemma progress_below_LoadFunction: "progress_below fuel (LoadFunction fuel p)"
proof (induction fuel arbitrary: p)
  case 0
  then show ?case
    by (simp add: progress_below_def)
next
  case (Suc fuel)
  note b0 = progress_mono [OF progress_LoadByte, of 0, simplified]
  have tl: "progress_below fuel (case kps of (k, ps) \<Rightarrow> ldbind LoadCode (\<lambda>code. check_loaded (mk k ps code)))"
    for kps :: "Konst list \<times> Proto list" and mk
    by (cases kps) (auto intro!: progress_below_of progress_bind0 progress_LoadParts progress_check_loaded)
  have rest: "progress_below fuel (ldbind LoadLines (\<lambda>lineinfo. ldbind LoadLocals (\<lambda>locvars.
      ldbind (LoadUpvalues nups) (\<lambda>upvalues. ldbind (LoadConstants_with (LoadFunction fuel source)) (\<lambda>(k, ps).
      ldbind LoadCode (\<lambda>code. check_loaded (mk lineinfo locvars upvalues k ps code)))))))" for nups source mk
    by (intro progress_below_bind' progress_below_of [OF progress_LoadParts(2)] progress_below_of [OF progress_LoadParts(3)]
        progress_below_of [OF progress_LoadParts(4)] progress_below_LoadConstants Suc.IH tl)
  show ?case
    unfolding LoadFunction.simps Let_def
    by (rule progress_below_bind [OF progress_LoadString], rule progress_below_bind [OF progress_LoadInt],
        rule progress_below_bind [OF progress_LoadByte], rule progress_below_bind [OF b0],
        rule progress_below_bind [OF b0], rule progress_below_bind [OF b0], simp only: minus_nat.diff_0 diff_Suc_1, rule rest)
qed

lemma progress_LoadHeader: "progress 0 LoadHeader"
proof -
  have sig: "progress 0 (LoadSignature_loop s)" for s
  proof (induction s)
    case (Cons c s)
    then show ?case
      by (auto intro!: progress_bind0 progress_mono [OF progress_ezgetc])
  qed (simp add: progress_ret)
  note b0 = progress_mono [OF progress_LoadByte, of 0, simplified]
  have test: "progress 0 (TestSize s what)" for s what
    unfolding TestSize_def by (intro progress_bind0 b0 progress_if_state progress_runerror progress_ret)
  have fmt: "progress 0 LoadFormat"
    unfolding LoadFormat_def
    by (intro progress_bind0 test progress_LoadSize progress_if_state progress_runerror progress_ret)
  have "progress 0 (\<lambda>S. LoadFormat (S\<lparr>swap := f S\<rparr>))" for f
    unfolding progress_def
  proof (intro allI impI)
    fix S :: LoadState
    assume "wf_zio (Z S)"
    then show "case LoadFormat (S\<lparr>swap := f S\<rparr>) of Inl err \<Rightarrow> err \<noteq> NoReturn
        | Inr (x, S') \<Rightarrow> wf_zio (Z S') \<and> unread (Z S') + 0 \<le> unread (Z S)"
      using fmt [unfolded progress_def, rule_format, of "S\<lparr>swap := f S\<rparr>"] by (auto split: sum.splits)
  qed
  then show ?thesis
    unfolding LoadHeader_def LoadSignature_def Let_def
    by (intro progress_bind0 sig b0 progress_if_state progress_runerror)
qed

lemma luaU_undump_ends:
  assumes "wf_zio z"
  shows "luaU_undump le z buff name \<noteq> Inl NoReturn"
proof -
  define S where "S = (\<lambda>nm. \<lparr>Z = z, buffsize = buff, swap = False, chunkname = nm, little = le\<rparr>)"
  have "unread z < Suc (bytes_left z)"
    by (simp add: unread_def bytes_left_def)
  moreover have "progress_below (Suc (bytes_left z)) (LoadChunk (Suc (bytes_left z)))"
    unfolding LoadChunk_def
    by (intro progress_below_bind' progress_below_of [OF progress_LoadHeader] progress_below_LoadFunction)
  ultimately have "LoadChunk (Suc (bytes_left z)) (S nm) \<noteq> Inl NoReturn" for nm
    using assms unfolding progress_below_def by (auto simp: S_def dest!: spec [of _ "S nm"])
  then show ?thesis
    unfolding luaU_undump_def Let_def S_def by (auto simp: bindR_eq_Inl)
qed

section \<open>What a loader returns\<close>

text \<open>A function comes out of the loader through \<open>check_loaded\<close> only.\<close>

definition loads_only :: "('a \<Rightarrow> bool) \<Rightarrow> 'a loader \<Rightarrow> bool" where
  "loads_only Q ld \<longleftrightarrow> (\<forall>S x S'. ld S = Inr (x, S') \<longrightarrow> Q x)"

lemma loads_only_trivial: "loads_only (\<lambda>_. True) ld"
  by (simp add: loads_only_def)

lemma loads_only_bind:
  assumes "loads_only P m" "\<And>x. P x \<Longrightarrow> loads_only Q (f x)"
  shows "loads_only Q (ldbind m f)"
  unfolding loads_only_def
proof (intro allI impI)
  fix S y S'
  assume "ldbind m f S = Inr (y, S')"
  then obtain x S1 where "m S = Inr (x, S1)" "f x S1 = Inr (y, S')"
    by (auto simp: ldbind_def bindR_def split: sum.splits)
  then show "Q y"
    using assms unfolding loads_only_def by blast
qed

lemmas loads_only_after = loads_only_bind [OF loads_only_trivial]

lemma loads_only_ret: "Q x \<Longrightarrow> loads_only Q (ret x)"
  by (simp add: loads_only_def ret_def)

lemma loads_only_load_many: "loads_only Q ld \<Longrightarrow> loads_only (list_all Q) (load_many n ld)"
  by (induction n) (auto intro!: loads_only_ret loads_only_bind [of Q] loads_only_bind [of "list_all Q"])

lemma loads_only_LoadConstants:
  assumes "loads_only Q lf"
  shows "loads_only (\<lambda>(k, ps). list_all Q ps) (LoadConstants_with lf)"
  unfolding LoadConstants_with_def
  by (rule loads_only_after, rule loads_only_after, rule loads_only_after, rule loads_only_bind [OF loads_only_load_many [OF assms]])
    (rule loads_only_ret, simp)

lemma loads_only_check_loaded:
  assumes "list_all accepted ps"
  shows "loads_only accepted (check_loaded (Proto k code ps lineinfo locvars upvalues source lineDefined nups numparams is_vararg maxstacksize))"
  unfolding loads_only_def check_loaded_def luaG_runerror_def
  using assms by (auto simp: bindR_def split: sum.splits option.splits if_splits)

lemma loads_only_LoadFunction: "loads_only accepted (LoadFunction fuel p)"
proof (induction fuel arbitrary: p)
  case 0
  show ?case
    by (simp add: loads_only_def)
next
  case (Suc fuel)
  show ?case
    unfolding LoadFunction.simps Let_def
    by (intro loads_only_after loads_only_bind [OF loads_only_LoadConstants [OF Suc.IH]])
      (auto intro!: loads_only_after loads_only_check_loaded simp del: accepted.simps)
qed

lemma loads_only_LoadChunk: "loads_only accepted (LoadChunk fuel)"
  unfolding LoadChunk_def by (rule loads_only_after) (rule loads_only_LoadFunction)

lemma luaU_undump_accepted:
  assumes "luaU_undump le z buff name = Inr (f, z')"
  shows "accepted f"
proof -
  from assms obtain S S' where "LoadChunk (Suc (bytes_left z)) S = Inr (f, S')"
    unfolding luaU_undump_def Let_def by (auto simp: bindR_def split: sum.splits simp del: LoadFunction.simps)
  then show ?thesis
    using loads_only_LoadChunk unfolding loads_only_def by blast
qed

section \<open>Properties\<close>

text \<open>
  C8: a function that is dumped and loaded again, on the same machine or on one of the other byte
  order, through a stream that is cut into blocks in any way, comes back equal, and the bytes behind
  it are left in the stream.  The function fits the format (sizes are \<open>int\<close>s) and passes the code
  checker.
\<close>

theorem undump_dump:
  assumes "wf_proto None f" "accepted f" "wf_zio z" "stream z = concat (luaU_dump w f) @ r"
  shows "\<exists>z'. luaU_undump rd z buff name = Inr (f, z') \<and> wf_zio z' \<and> stream z' = r"
  using assms by (rule luaU_undump_dump)

lemma undump_dump_witness:
  "\<exists>z'. luaU_undump True (luaZ_init [concat (luaU_dump False (tiny [0x801B]))]) 0 ''=x'' = Inr (tiny [0x801B], z')
    \<and> wf_zio z' \<and> stream z' = []"
proof (rule undump_dump)
  show "wf_proto None (tiny [0x801B])"
    by (simp add: tiny_def wf_str_def)
  have "luaG_checkcode (tiny [0x801B]) = Inr 0x801B"
    by (simp add: check_eval)
  then show "accepted (tiny [0x801B])"
    by (simp add: tiny_def)
  have len: "length (concat (luaU_dump False (tiny [0x801B]))) = 85" and
    "concat (luaU_dump False (tiny [0x801B])) \<noteq> []"
    by (simp_all add: luaU_dump_def DumpHeader_def tiny_def DumpBlock_def DumpByte_def DumpInt_def DumpSize_def
        DumpNumber_def DumpString_def DumpCode_def DumpLocals_def DumpLines_def DumpUpvalues_def DumpConstant_def
        LUA_SIGNATURE_def int_mem_def)
  then show "wf_zio (luaZ_init [concat (luaU_dump False (tiny [0x801B]))])"
    "stream (luaZ_init [concat (luaU_dump False (tiny [0x801B]))]) = concat (luaU_dump False (tiny [0x801B])) @ []"
    by (simp_all add: wf_luaZ_init)
qed

text \<open>
  C9: whatever the stream holds, loading a precompiled chunk does not run forever: neither the loops over the parts
  nor the recursion over the inner functions lack an end.  It ends with an error, with an access out of bounds (on
  the streams of C34 and C37, for example, which this does not exclude), or with a function; and a function is only
  returned when the code checker has accepted it and every function inside of it.
\<close>

theorem undump_ends:
  assumes "wf_zio z"
  shows "luaU_undump le z buff name \<noteq> Inl NoReturn \<and>
    (\<forall>f z'. luaU_undump le z buff name = Inr (f, z') \<longrightarrow> accepted f)"
  using luaU_undump_ends [OF assms] luaU_undump_accepted by blast

lemma undump_ends_witness: "luaU_undump True (luaZ_init [''xyz'']) 0 ''=x'' \<noteq> Inl NoReturn"
  using undump_ends [of "luaZ_init [''xyz'']" True 0 "''=x''"] by (simp add: wf_luaZ_init)

text \<open>
  C37: \<open>ezread\<close> takes a \<open>size_t\<close> for an \<open>int\<close>: asked for \<open>k\<close> bytes more than a multiple of four
  gigabytes (the size of a string is read from the file) it reads only the \<open>k\<close> bytes --- none at all for the multiple
  itself --- and reports success, whatever the stream holds behind them.
\<close>

theorem ezread_truncates:
  assumes "wf_zio (Z S)" "k < 2 ^ 31" "k \<le> length (stream (Z S))"
  shows "\<exists>z. ezread (m * 2 ^ 32 + k) S = Inr (take k (stream (Z S)), S\<lparr>Z := z\<rparr>) \<and>
    stream z = drop k (stream (Z S))"
proof -
  have "(int m * 4294967296 + (int k + 2147483648)) mod 4294967296 = int k + 2147483648"
    using assms(2) by (simp add: mod_pos_pos_trivial)
  then have "signed_take_bit 31 (int (m * 2 ^ 32 + k)) = int k"
    by (simp add: signed_take_bit_eq_take_bit_shift take_bit_eq_mod add.assoc)
  moreover obtain z where "luaZ_read (Z S) k = Inr (take k (stream (Z S)), 0, z)" "stream z = drop k (stream (Z S))"
    using zio.read_some [OF assms(1), of k] assms(3) by auto
  ultimately show ?thesis
    using assms(2) by (auto simp: ezread_def)
qed

lemma ezread_truncates_witness:
  "\<exists>z. ezread (1 * 2 ^ 32 + 0) \<lparr>Z = luaZ_init [''xyz''], buffsize = 0, swap = False, chunkname = ''x'', little = True\<rparr> =
    Inr ([], \<lparr>Z = z, buffsize = 0, swap = False, chunkname = ''x'', little = True\<rparr>) \<and> stream z = ''xyz''"
proof -
  have "stream (luaZ_init [''xyz'']) = ''xyz''"
    by (simp add: stream_def luaZ_init_def)
  with ezread_truncates [of "\<lparr>Z = luaZ_init [''xyz''], buffsize = 0, swap = False, chunkname = ''x'', little = True\<rparr>" 0 1]
  show ?thesis
    by (simp add: wf_luaZ_init)
qed

end
