(* ===== verification/ModeMuncher.thy ===== *)
theory ModeMuncher
  imports CLib
begin

text \<open>
  The file mode parser of the POSIX library (\<open>lua/modemuncher.h\<close>), behind \<open>posix.chmod\<close>,
  \<open>posix.umask\<close> and \<open>posix.stat\<close>.

  A \<open>const char *\<close> argument is the bytes from the pointer to the end of the object it points
  into, the terminating NUL included; reading at the empty list is a read outside of the object.
  \<open>mode_munch\<close> returns the new \<open>*mode\<close> and the C result, 0 or a negative code.  The numbers are
  the octal constants of the code: \<open>0x9C0\<close> is \<open>04700\<close>, \<open>0x438\<close> is \<open>02070\<close>, \<open>0x207\<close> is \<open>01007\<close>,
  \<open>0xFFF\<close> is \<open>07777\<close>, \<open>0x124\<close> is \<open>00444\<close>, \<open>0x92\<close> is \<open>00222\<close>, \<open>0x49\<close> is \<open>00111\<close>, \<open>0xC00\<close> is \<open>06000\<close>.
\<close>

unbundle bit_operations_syntax

type_synonym mode_t = "32 word"

section \<open>The code\<close>

definition S_ISUID :: mode_t where "S_ISUID = 0x800"
definition S_ISGID :: mode_t where "S_ISGID = 0x400"
definition S_IXUSR :: mode_t where "S_IXUSR = 0x40"
definition S_IXGRP :: mode_t where "S_IXGRP = 0x08"

definition modesel :: "(char \<times> mode_t) list" where
  "modesel =
    [(CHR ''r'', 0x100), (CHR ''w'', 0x80), (CHR ''x'', S_IXUSR),
     (CHR ''r'', 0x20), (CHR ''w'', 0x10), (CHR ''x'', S_IXGRP),
     (CHR ''r'', 0x4), (CHR ''w'', 0x2), (CHR ''x'', 0x1)]"

text \<open>The loop of \<open>rwxrwxrwx\<close>, for the entries of \<open>modesel\<close> from \<open>count\<close> on.\<close>

fun rwx_loop :: "(char \<times> mode_t) list \<Rightarrow> nat \<Rightarrow> string \<Rightarrow> mode_t \<Rightarrow> (mode_t \<times> int) res" where
  "rwx_loop [] cnt p tmp = Inr (tmp, 0)"
| "rwx_loop ((rwx, bits) # sel) cnt [] tmp = Inl OutOfBounds"
| "rwx_loop ((rwx, bits) # sel) cnt (c # p) tmp =
    (if c = rwx then rwx_loop sel (cnt + 1) p (tmp OR bits)
     else if c = CHR ''-'' then rwx_loop sel (cnt + 1) p (tmp AND NOT bits)
     else if c = CHR ''s'' then
       (if cnt = 2 then rwx_loop sel (cnt + 1) p (tmp OR (S_ISUID OR S_IXUSR))
        else if cnt = 5 then rwx_loop sel (cnt + 1) p (tmp OR (S_ISGID OR S_IXGRP))
        else Inr (tmp, -4))
     else rwx_loop sel (cnt + 1) p tmp)"

definition rwxrwxrwx :: "mode_t \<Rightarrow> string \<Rightarrow> (mode_t \<times> int) res" where
  "rwxrwxrwx mode p =
    bindR (rwx_loop modesel 0 p (mode AND NOT (S_ISUID OR S_ISGID)))
      (\<lambda>(tmp, r). Inr (if r = 0 then tmp else mode, r))"

text \<open>The ten bytes \<open>modechopper\<close> writes.\<close>

definition modechopper :: "mode_t \<Rightarrow> string" where
  "modechopper mode =
    (let p = map (\<lambda>(rwx, bits). if mode AND bits \<noteq> 0 then rwx else CHR ''-'') modesel @ [NUL];
         p = (if mode AND S_ISUID \<noteq> 0
              then p[2 := (if mode AND S_IXUSR \<noteq> 0 then CHR ''s'' else CHR ''S'')] else p)
     in if mode AND S_ISGID \<noteq> 0
        then p[5 := (if mode AND S_IXGRP \<noteq> 0 then CHR ''s'' else CHR ''S'')] else p)"

text \<open>Step 1, the classes the clause affects, and step 3, the permissions it names.\<close>

fun who_loop :: "string \<Rightarrow> mode_t \<Rightarrow> (mode_t \<times> string) res" where
  "who_loop [] affected = Inl OutOfBounds"
| "who_loop (c # p) affected =
    (if c = CHR ''u'' then who_loop p (affected OR 0x9C0)
     else if c = CHR ''g'' then who_loop p (affected OR 0x438)
     else if c = CHR ''o'' then who_loop p (affected OR 0x207)
     else if c = CHR ''a'' then who_loop p (affected OR 0xFFF)
     else if c = CHR '' '' then who_loop p affected
     else Inr (affected, c # p))"

fun perm_loop :: "string \<Rightarrow> mode_t \<Rightarrow> (mode_t \<times> string) res" where
  "perm_loop [] ch_mode = Inl OutOfBounds"
| "perm_loop (c # p) ch_mode =
    (if c = CHR ''r'' then perm_loop p (ch_mode OR 0x124)
     else if c = CHR ''w'' then perm_loop p (ch_mode OR 0x92)
     else if c = CHR ''x'' then perm_loop p (ch_mode OR 0x49)
     else if c = CHR ''s'' then perm_loop p (ch_mode OR 0xC00)
     else if c = CHR '' '' then perm_loop p ch_mode
     else Inr (ch_mode, c # p))"

text \<open>Step 4.\<close>

definition apply_op :: "char \<Rightarrow> mode_t \<Rightarrow> mode_t \<Rightarrow> mode_t \<Rightarrow> mode_t option" where
  "apply_op op' ch_mode affected mode =
    (if ch_mode = 0 then Some mode
     else if op' = CHR ''+'' then Some (mode OR (ch_mode AND affected))
     else if op' = CHR ''-'' then Some (mode AND NOT (ch_mode AND affected))
     else if op' = CHR ''='' then Some (ch_mode AND affected)
     else None)"

lemma who_loop_length: "who_loop p a = Inr (a', q) \<Longrightarrow> length q \<le> length p"
  by (induction p a rule: who_loop.induct) (auto split: if_splits)

lemma perm_loop_length: "perm_loop p a = Inr (a', q) \<Longrightarrow> length q \<le> length p"
  by (induction p a rule: perm_loop.induct) (auto split: if_splits)

text \<open>
  The main loop.  \<open>op\<close> is the operator of the last clause that had one.
\<close>

function munch_loop :: "char \<Rightarrow> mode_t \<Rightarrow> string \<Rightarrow> (mode_t \<times> int) res" where
  "munch_loop op' mode p =
    (case p of
       [] \<Rightarrow> Inl OutOfBounds
     | c # _ \<Rightarrow>
        if c = CHR ''r'' \<or> c = CHR ''-'' then rwxrwxrwx mode p
        else bindR (who_loop p 0) (\<lambda>(affected, p).
          (let affected = (if affected = 0 then 0xFFF else affected)
           in case p of
                [] \<Rightarrow> Inl OutOfBounds
              | c # p \<Rightarrow>
                 if c \<in> {CHR ''+'', CHR ''-'', CHR ''='', CHR '' ''} then
                   (let op' = (if c = CHR '' '' then op' else c)
                    in bindR (perm_loop p 0) (\<lambda>(ch_mode, p).
                         case p of
                           [] \<Rightarrow> Inl OutOfBounds
                         | c # p \<Rightarrow>
                            if c \<noteq> NUL \<and> c \<noteq> CHR '' '' \<and> c \<noteq> CHR '','' then Inr (mode, -2)
                            else (case apply_op op' ch_mode affected mode of
                                None \<Rightarrow> Inr (mode, -3)
                              | Some mode \<Rightarrow>
                                  if c \<noteq> CHR '','' then Inr (mode, 0) else munch_loop op' mode p)))
                 else Inr (mode, -1))))"
  by pat_completeness auto
termination
  by (relation "measure (\<lambda>(op', mode, p). length p)")
    (auto simp del: who_loop.simps perm_loop.simps dest!: who_loop_length perm_loop_length)

declare munch_loop.simps [simp del]

definition mode_munch :: "mode_t \<Rightarrow> string \<Rightarrow> (mode_t \<times> int) res" where
  "mode_munch mode p = munch_loop NUL mode p"

section \<open>Round trip of the nine letter form\<close>

text \<open>The bits of \<open>m\<close> at the positions of \<open>b\<close>, those of \<open>t\<close> elsewhere.\<close>

definition merge_bits :: "mode_t \<Rightarrow> mode_t \<Rightarrow> mode_t \<Rightarrow> mode_t" where
  "merge_bits b t m = (t AND NOT b) OR (m AND b)"

lemma merge_merge: "merge_bits b (merge_bits a t m) m = merge_bits (a OR b) t m"
  by (rule bit_word_eqI) (auto simp: merge_bits_def bit_simps)

lemma merge_clear:
  "m AND (a AND NOT b) = 0 \<Longrightarrow> merge_bits b (t AND NOT a) m = merge_bits (a OR b) t m"
proof (rule bit_word_eqI)
  fix n
  assume z: "m AND (a AND NOT b) = 0" and n: "n < LENGTH(32)"
  from z have "\<not> bit (m AND (a AND NOT b)) n"
    by simp
  with n show "bit (merge_bits b (t AND NOT a) m) n = bit (merge_bits (a OR b) t m) n"
    by (auto simp: merge_bits_def bit_simps)
qed

lemma merge_all: "m AND b = b \<Longrightarrow> t OR b = merge_bits b t m"
proof (rule bit_word_eqI)
  fix n
  assume "m AND b = b" and n: "n < LENGTH(32)"
  then have "bit (m AND b) n \<longleftrightarrow> bit b n"
    by simp
  with n show "bit (t OR b) n = bit (merge_bits b t m) n"
    by (auto simp: merge_bits_def bit_simps)
qed

lemma and_pow2_cases: "m AND 2 ^ k = (if bit m k then 2 ^ k else (0 :: mode_t))"
  by (rule bit_word_eqI) (auto simp: bit_simps)

lemma rwx_step:
  assumes "rwx \<noteq> CHR ''-''" "bits = 2 ^ k"
  shows "rwx_loop ((rwx, bits) # sel) cnt ((if m AND bits \<noteq> 0 then rwx else CHR ''-'') # p) t =
    rwx_loop sel (cnt + 1) p (merge_bits bits t m)"
  using assms and_pow2_cases [of m k] merge_all [of m bits t]
  by (auto simp: merge_bits_def)

lemma rwx_step_s:
  assumes "rwx \<noteq> CHR ''s''" "cnt = 2 \<and> b = S_ISUID OR S_IXUSR \<or> cnt = 5 \<and> b = S_ISGID OR S_IXGRP"
    "m AND b = b"
  shows "rwx_loop ((rwx, bits) # sel) cnt (CHR ''s'' # p) t = rwx_loop sel (cnt + 1) p (merge_bits b t m)"
  using assms merge_all [of m b t] by auto

lemma modesel_bits:
  "S_ISUID = 2 ^ 11" "S_ISGID = 2 ^ 10" "S_IXUSR = 2 ^ 6" "S_IXGRP = 2 ^ 3"
  by (simp_all add: S_ISUID_def S_ISGID_def S_IXUSR_def S_IXGRP_def)

definition chopped :: "mode_t \<Rightarrow> char \<Rightarrow> mode_t \<Rightarrow> char" where
  "chopped m c bits = (if m AND bits \<noteq> 0 then c else CHR ''-'')"

lemma modechopper_eq:
  assumes "m AND S_ISUID \<noteq> 0 \<longrightarrow> m AND S_IXUSR \<noteq> 0" "m AND S_ISGID \<noteq> 0 \<longrightarrow> m AND S_IXGRP \<noteq> 0"
  shows "modechopper m =
    [chopped m (CHR ''r'') 0x100, chopped m (CHR ''w'') 0x80,
     if m AND S_ISUID \<noteq> 0 then CHR ''s'' else chopped m (CHR ''x'') S_IXUSR,
     chopped m (CHR ''r'') 0x20, chopped m (CHR ''w'') 0x10,
     if m AND S_ISGID \<noteq> 0 then CHR ''s'' else chopped m (CHR ''x'') S_IXGRP,
     chopped m (CHR ''r'') 0x4, chopped m (CHR ''w'') 0x2, chopped m (CHR ''x'') 0x1, NUL]"
  using assms by (simp add: modechopper_def modesel_def chopped_def Let_def)

lemma modechopper_length: "length (modechopper m) = 10" "modechopper m ! 9 = NUL"
  by (auto simp: modechopper_def modesel_def Let_def)

lemma both_bits: "m AND a \<noteq> 0 \<Longrightarrow> m AND b \<noteq> 0 \<Longrightarrow> a = 2 ^ i \<Longrightarrow> b = 2 ^ j \<Longrightarrow> m AND (a OR b) = (a OR b :: mode_t)"
  using and_pow2_cases [of m i] and_pow2_cases [of m j]
  by (auto simp: bit.conj_disj_distrib split: if_splits)

text \<open>One step of the loop on a character of \<open>modechopper\<close>, the three \<open>x\<close> positions apart.\<close>

lemma rwx_chopped:
  "rwx_loop ((CHR ''r'', 0x100) # sel) cnt (chopped m (CHR ''r'') 0x100 # p) t = rwx_loop sel (cnt + 1) p (merge_bits 0x100 t m)"
  "rwx_loop ((CHR ''w'', 0x80) # sel) cnt (chopped m (CHR ''w'') 0x80 # p) t = rwx_loop sel (cnt + 1) p (merge_bits 0x80 t m)"
  "rwx_loop ((CHR ''r'', 0x20) # sel) cnt (chopped m (CHR ''r'') 0x20 # p) t = rwx_loop sel (cnt + 1) p (merge_bits 0x20 t m)"
  "rwx_loop ((CHR ''w'', 0x10) # sel) cnt (chopped m (CHR ''w'') 0x10 # p) t = rwx_loop sel (cnt + 1) p (merge_bits 0x10 t m)"
  "rwx_loop ((CHR ''r'', 0x4) # sel) cnt (chopped m (CHR ''r'') 0x4 # p) t = rwx_loop sel (cnt + 1) p (merge_bits 0x4 t m)"
  "rwx_loop ((CHR ''w'', 0x2) # sel) cnt (chopped m (CHR ''w'') 0x2 # p) t = rwx_loop sel (cnt + 1) p (merge_bits 0x2 t m)"
  "rwx_loop ((CHR ''x'', 0x1) # sel) cnt (chopped m (CHR ''x'') 0x1 # p) t = rwx_loop sel (cnt + 1) p (merge_bits 0x1 t m)"
  "rwx_loop ((CHR ''x'', S_IXUSR) # sel) cnt (chopped m (CHR ''x'') S_IXUSR # p) t = rwx_loop sel (cnt + 1) p (merge_bits S_IXUSR t m)"
  "rwx_loop ((CHR ''x'', S_IXGRP) # sel) cnt (chopped m (CHR ''x'') S_IXGRP # p) t = rwx_loop sel (cnt + 1) p (merge_bits S_IXGRP t m)"
  unfolding chopped_def modesel_bits
  by (rule rwx_step [where k = 8] rwx_step [where k = 7] rwx_step [where k = 6] rwx_step [where k = 5]
      rwx_step [where k = 4] rwx_step [where k = 3] rwx_step [where k = 2] rwx_step [where k = 1]
      rwx_step [where k = 0]; simp; fail)+

definition perm_bits :: "mode_t \<Rightarrow> mode_t" where
  "perm_bits m = 0x1FF OR (m AND (S_ISUID OR S_ISGID))"

lemma rwx_loop_modechopper:
  assumes "m AND S_ISUID \<noteq> 0 \<longrightarrow> m AND S_IXUSR \<noteq> 0" "m AND S_ISGID \<noteq> 0 \<longrightarrow> m AND S_IXGRP \<noteq> 0"
  shows "rwx_loop modesel 0 (modechopper m) t = Inr (merge_bits (perm_bits m) t m, 0)"
proof -
  have su: "rwx_loop ((CHR ''x'', S_IXUSR) # sel) 2
      ((if m AND S_ISUID \<noteq> 0 then CHR ''s'' else chopped m (CHR ''x'') S_IXUSR) # p) t =
    rwx_loop sel 3 p (merge_bits (S_IXUSR OR (m AND S_ISUID)) t m)" for sel p t
  proof (cases "m AND S_ISUID = 0")
    case True
    with rwx_chopped(8) [of sel 2 m p t] show ?thesis
      by simp
  next
    case False
    then have b: "m AND (S_ISUID OR S_IXUSR) = S_ISUID OR S_IXUSR" "m AND S_ISUID = S_ISUID"
      using assms(1) both_bits [of m S_ISUID S_IXUSR 11 6] and_pow2_cases [of m 11]
      by (auto simp: modesel_bits split: if_splits)
    with False rwx_step_s [of "CHR ''x''" 2 "S_ISUID OR S_IXUSR" m S_IXUSR sel p t] show ?thesis
      by (simp add: or.commute)
  qed
  have sg: "rwx_loop ((CHR ''x'', S_IXGRP) # sel) 5
      ((if m AND S_ISGID \<noteq> 0 then CHR ''s'' else chopped m (CHR ''x'') S_IXGRP) # p) t =
    rwx_loop sel 6 p (merge_bits (S_IXGRP OR (m AND S_ISGID)) t m)" for sel p t
  proof (cases "m AND S_ISGID = 0")
    case True
    with rwx_chopped(9) [of sel 5 m p t] show ?thesis
      by simp
  next
    case False
    then have b: "m AND (S_ISGID OR S_IXGRP) = S_ISGID OR S_IXGRP" "m AND S_ISGID = S_ISGID"
      using assms(2) both_bits [of m S_ISGID S_IXGRP 10 3] and_pow2_cases [of m 10]
      by (auto simp: modesel_bits split: if_splits)
    with False rwx_step_s [of "CHR ''x''" 5 "S_ISGID OR S_IXGRP" m S_IXGRP sel p t] show ?thesis
      by (simp add: or.commute)
  qed
  have perm: "perm_bits m = 0x100 OR 0x80 OR (S_IXUSR OR (m AND S_ISUID)) OR 0x20 OR 0x10 OR
      (S_IXGRP OR (m AND S_ISGID)) OR 0x4 OR 0x2 OR 0x1"
  proof -
    have "(0x1FF :: mode_t) = 0x100 OR 0x80 OR S_IXUSR OR 0x20 OR 0x10 OR S_IXGRP OR 0x4 OR 0x2 OR 0x1"
      by (simp add: S_IXUSR_def S_IXGRP_def)
    then show ?thesis
      by (simp only: perm_bits_def bit.conj_disj_distrib or.assoc or.commute or.left_commute)
  qed
  show ?thesis
    unfolding modechopper_eq [OF assms] modesel_def perm
    by (simp only: rwx_chopped su sg merge_merge or.assoc rwx_loop.simps(1)
        add_0 one_add_one numeral_plus_one add_num_simps)
qed

lemma rwxrwxrwx_modechopper:
  assumes "m AND S_ISUID \<noteq> 0 \<longrightarrow> m AND S_IXUSR \<noteq> 0" "m AND S_ISGID \<noteq> 0 \<longrightarrow> m AND S_IXGRP \<noteq> 0"
  shows "rwxrwxrwx old (modechopper m) = Inr ((old AND NOT 0xDFF) OR (m AND 0xDFF), 0)"
proof -
  have "m AND ((S_ISUID OR S_ISGID) AND NOT (perm_bits m)) = 0"
    by (rule bit_word_eqI) (auto simp: perm_bits_def bit_simps)
  then have "merge_bits (perm_bits m) (old AND NOT (S_ISUID OR S_ISGID)) m =
      merge_bits ((S_ISUID OR S_ISGID) OR perm_bits m) old m"
    by (rule merge_clear)
  also have "(S_ISUID OR S_ISGID) OR perm_bits m = 0x1FF OR (S_ISUID OR S_ISGID)"
    unfolding perm_bits_def by (rule bit_word_eqI) (auto simp: bit_simps)
  also have "\<dots> = 0xDFF"
    by (simp add: S_ISUID_def S_ISGID_def)
  finally show ?thesis
    unfolding rwxrwxrwx_def rwx_loop_modechopper [OF assms] by (simp add: merge_bits_def)
qed

lemma modechopper_hd: "\<exists>p. modechopper m = CHR ''r'' # p \<or> modechopper m = CHR ''-'' # p"
  by (auto simp: modechopper_def modesel_def Let_def)

section \<open>The symbolic form against its meaning\<close>

text \<open>
  A symbolic mode is a list of clauses \<open>who op perms\<close>, joined by commas.  Its meaning is stated on
  the set of the bits that are set, without a mask: bit \<open>k\<close> belongs to the classes and to the
  permissions below.
\<close>

datatype clause = Clause (who: string) (operator: char) (perms: string)

definition class_bits :: "char \<Rightarrow> nat set" where
  "class_bits c =
    (if c = CHR ''u'' then {11, 8, 7, 6} else if c = CHR ''g'' then {10, 5, 4, 3}
     else if c = CHR ''o'' then {9, 2, 1, 0} else if c = CHR ''a'' then {0..11} else {})"

definition kind_bits :: "char \<Rightarrow> nat set" where
  "kind_bits c =
    (if c = CHR ''r'' then {8, 5, 2} else if c = CHR ''w'' then {7, 4, 1}
     else if c = CHR ''x'' then {6, 3, 0} else if c = CHR ''s'' then {11, 10} else {})"

definition class_of :: "string \<Rightarrow> nat set" where
  "class_of w = (if \<Union>(class_bits ` set w) = {} then {0..11} else \<Union>(class_bits ` set w))"

definition kinds_of :: "string \<Rightarrow> nat set" where
  "kinds_of ps = \<Union>(kind_bits ` set ps)"

definition apply_clause :: "clause \<Rightarrow> nat set \<Rightarrow> nat set" where
  "apply_clause cl M =
    (let sel = kinds_of (perms cl) \<inter> class_of (who cl)
     in if kinds_of (perms cl) = {} then M
        else if operator cl = CHR ''+'' then M \<union> sel
        else if operator cl = CHR ''-'' then M - sel
        else sel)"

definition wf_clause :: "clause \<Rightarrow> bool" where
  "wf_clause cl \<longleftrightarrow> set (who cl) \<subseteq> set ''ugoa '' \<and> set (perms cl) \<subseteq> set ''rwxs '' \<and>
    operator cl \<in> set ''+-='' \<and> (who cl = [] \<longrightarrow> operator cl \<noteq> CHR ''-'')"

definition render_clause :: "clause \<Rightarrow> string" where
  "render_clause cl = who cl @ [operator cl] @ perms cl"

fun render :: "clause list \<Rightarrow> string" where
  "render [] = []"
| "render [cl] = render_clause cl"
| "render (cl # cls) = render_clause cl @ [CHR '',''] @ render cls"

definition set_bits_of :: "mode_t \<Rightarrow> nat set" where
  "set_bits_of m = {k. bit m k}"

lemma set_bits_of_ops:
  "set_bits_of 0 = {}" "set_bits_of (a OR b) = set_bits_of a \<union> set_bits_of b"
  "set_bits_of (a AND b) = set_bits_of a \<inter> set_bits_of b"
  "set_bits_of (a AND NOT b) = set_bits_of a - set_bits_of b"
  by (auto simp: set_bits_of_def bit_simps dest: bit_imp_le_length)

lemma set_bits_of_empty: "set_bits_of a = {} \<longleftrightarrow> a = 0"
  by (auto simp: set_bits_of_def intro: bit_word_eqI)

definition pow2 :: "nat \<Rightarrow> mode_t" where
  "pow2 k = 2 ^ k"

lemma set_bits_of_pow2: "k < 32 \<Longrightarrow> set_bits_of (pow2 k) = {k}"
  by (auto simp: set_bits_of_def pow2_def bit_simps)

lemma numerals_pow2:
  "0x9C0 = pow2 11 OR (pow2 8 OR (pow2 7 OR pow2 6))"
  "0x438 = pow2 10 OR (pow2 5 OR (pow2 4 OR pow2 3))"
  "0x207 = pow2 9 OR (pow2 2 OR (pow2 1 OR pow2 0))"
  "0x124 = pow2 8 OR (pow2 5 OR pow2 2)"
  "0x92 = pow2 7 OR (pow2 4 OR pow2 1)"
  "0x49 = pow2 6 OR (pow2 3 OR pow2 0)"
  "0xC00 = pow2 11 OR pow2 10"
  by (simp_all add: pow2_def)

lemma numerals_all: "(0xFFF :: mode_t) = (0xC00 OR 0x207) OR (0x124 OR (0x92 OR 0x49))"
  by simp

lemma numeral_bits:
  "set_bits_of 0x9C0 = {11, 8, 7, 6}" "set_bits_of 0x438 = {10, 5, 4, 3}" "set_bits_of 0x207 = {9, 2, 1, 0}"
  "set_bits_of 0x124 = {8, 5, 2}" "set_bits_of 0x92 = {7, 4, 1}"
  "set_bits_of 0x49 = {6, 3, 0}" "set_bits_of 0xC00 = {11, 10}"
  unfolding numerals_pow2 by (auto simp: set_bits_of_ops set_bits_of_pow2)

lemma numeral_bits_all: "set_bits_of 0xFFF = {0..11}"
proof -
  have "{0..11} = set [0..<12]"
    by auto
  also have "\<dots> = set_bits_of 0xFFF"
    unfolding numerals_all set_bits_of_ops numeral_bits by (auto simp: upt_conv_Cons)
  finally show ?thesis ..
qed

lemma who_loop_step:
  assumes "d \<in> set ''ugoa ''"
  shows "\<exists>b. (\<forall>p. who_loop (d # p) a = who_loop p b) \<and> set_bits_of b = set_bits_of a \<union> class_bits d"
proof -
  from assms consider "d = CHR ''u''" | "d = CHR ''g''" | "d = CHR ''o''" | "d = CHR ''a''" | "d = CHR '' ''"
    by auto
  then show ?thesis
    by cases (rule exI, rule conjI, rule allI, simp, simp add: set_bits_of_ops numeral_bits numeral_bits_all class_bits_def)+
qed

lemma perm_loop_step:
  assumes "d \<in> set ''rwxs ''"
  shows "\<exists>b. (\<forall>p. perm_loop (d # p) a = perm_loop p b) \<and> set_bits_of b = set_bits_of a \<union> kind_bits d"
proof -
  from assms consider "d = CHR ''r''" | "d = CHR ''w''" | "d = CHR ''x''" | "d = CHR ''s''" | "d = CHR '' ''"
    by auto
  then show ?thesis
    by cases (rule exI, rule conjI, rule allI, simp, simp add: set_bits_of_ops numeral_bits kind_bits_def)+
qed

lemma who_loop_render:
  assumes "set w \<subseteq> set ''ugoa ''" "c \<notin> set ''ugoa ''"
  shows "\<exists>a'. (\<forall>q. who_loop (w @ c # q) a = Inr (a', c # q)) \<and>
    set_bits_of a' = set_bits_of a \<union> \<Union>(class_bits ` set w)"
  using assms(1)
proof (induction w arbitrary: a)
  case Nil
  then show ?case using assms(2) by simp
next
  case (Cons d w)
  then obtain b where b: "\<And>p. who_loop (d # p) a = who_loop p b"
    "set_bits_of b = set_bits_of a \<union> class_bits d"
    using who_loop_step [of d a] by auto
  then show ?case
    using Cons.IH [of b] Cons.prems by (auto simp del: who_loop.simps simp: Un_assoc)
qed

lemma perm_loop_render:
  assumes "set w \<subseteq> set ''rwxs ''" "c \<notin> set ''rwxs ''"
  shows "\<exists>a'. (\<forall>q. perm_loop (w @ c # q) a = Inr (a', c # q)) \<and>
    set_bits_of a' = set_bits_of a \<union> \<Union>(kind_bits ` set w)"
  using assms(1)
proof (induction w arbitrary: a)
  case Nil
  then show ?case using assms(2) by simp
next
  case (Cons d w)
  then obtain b where b: "\<And>p. perm_loop (d # p) a = perm_loop p b"
    "set_bits_of b = set_bits_of a \<union> kind_bits d"
    using perm_loop_step [of d a] by auto
  then show ?case
    using Cons.IH [of b] Cons.prems by (auto simp del: perm_loop.simps simp: Un_assoc)
qed

lemma munch_loop_step:
  assumes "d \<noteq> CHR ''r''" "d \<noteq> CHR ''-''" "who_loop (d # r) 0 = Inr (a, o' # q)" "o' \<in> set ''+-=''"
    "perm_loop q 0 = Inr (b, c # q')" "c = NUL \<or> c = CHR '',''"
    "apply_op o' b (if a = 0 then 0xFFF else a) m = Some m'"
  shows "munch_loop op' m (d # r) = (if c = NUL then Inr (m', 0) else munch_loop o' m' q')"
proof -
  have o': "o' \<in> {CHR ''+'', CHR ''-'', CHR ''='', CHR '' ''}" "o' \<noteq> CHR '' ''"
    using assms(4) by auto
  show ?thesis
    unfolding munch_loop.simps [of op' m "d # r"] list.case assms(3) bindR_simps(2) prod.case
    using assms(1,2,5-7) o' by (auto simp: Let_def NUL_def simp del: insert_iff)
qed

text \<open>One clause, before the end of the string or a comma.\<close>

lemma munch_clause:
  assumes "wf_clause cl" "c = NUL \<or> c = CHR '',''"
  obtains m' where "set_bits_of m' = apply_clause cl (set_bits_of m)"
    "\<And>op' q. munch_loop op' m (render_clause cl @ c # q) =
      (if c = NUL then Inr (m', 0) else munch_loop (operator cl) m' q)"
proof -
  obtain w o' ps where cl: "cl = Clause w o' ps"
    by (cases cl)
  have wf: "set w \<subseteq> set ''ugoa ''" "set ps \<subseteq> set ''rwxs ''" "o' \<in> set ''+-=''" "w = [] \<longrightarrow> o' \<noteq> CHR ''-''"
    using assms(1) by (simp_all add: wf_clause_def cl)
  have "o' \<notin> set ''ugoa ''" "c \<notin> set ''rwxs ''"
    using wf(3) assms(2) by (auto simp: NUL_def)
  then obtain a b where a: "\<And>q. who_loop (w @ o' # q) 0 = Inr (a, o' # q)" "set_bits_of a = \<Union>(class_bits ` set w)"
    and b: "\<And>q. perm_loop (ps @ c # q) 0 = Inr (b, c # q)" "set_bits_of b = kinds_of ps"
    using who_loop_render [OF wf(1), of o' 0] perm_loop_render [OF wf(2), of c 0]
    by (auto simp: set_bits_of_ops kinds_of_def)
  define a' where "a' = (if a = 0 then 0xFFF else a)"
  have a': "set_bits_of a' = class_of w"
    using a(2) set_bits_of_empty [of a] by (simp add: a'_def class_of_def numeral_bits_all)
  have "apply_op o' b a' m \<noteq> None"
    using wf(3) by (auto simp: apply_op_def)
  then obtain m' where m': "apply_op o' b a' m = Some m'"
    by blast
  have "set_bits_of m' = apply_clause cl (set_bits_of m)"
    using m' wf(3) a' b(2) set_bits_of_empty [of b] set_bits_of_ops(2) [of m "b AND a'"]
      set_bits_of_ops(3) [of b a'] set_bits_of_ops(4) [of m "b AND a'"]
    by (auto simp: apply_op_def apply_clause_def cl simp del: bit.de_Morgan_conj split: if_splits)
  moreover have "munch_loop op' m (render_clause cl @ c # q) =
      (if c = NUL then Inr (m', 0) else munch_loop (operator cl) m' q)" for op' q
  proof -
    obtain d r where d: "w @ o' # ps @ c # q = d # r" "d \<noteq> CHR ''r''" "d \<noteq> CHR ''-''"
      using wf by (cases w) auto
    have "render_clause cl @ c # q = w @ o' # ps @ c # q"
      by (simp add: render_clause_def cl)
    then show ?thesis
      using munch_loop_step [of d r a o' "ps @ c # q" b c q m m' op'] d m' wf(3) assms(2) a(1) [of "ps @ c # q"] b(1) [of q]
      by (simp add: a'_def cl del: who_loop.simps)
  qed
  ultimately show ?thesis
    by (rule that)
qed

lemma munch_render:
  assumes "\<forall>cl \<in> set cls. wf_clause cl" "cls \<noteq> []"
  shows "\<exists>m'. munch_loop op' m (render cls @ [NUL]) = Inr (m', 0) \<and>
    set_bits_of m' = foldl (\<lambda>M cl. apply_clause cl M) (set_bits_of m) cls"
  using assms
proof (induction cls arbitrary: op' m rule: render.induct)
  case (2 cl)
  then show ?case
    using munch_clause [of cl NUL m] by (metis foldl_Cons foldl_Nil list.set_intros(1) render.simps(2))
next
  case (3 cl cl' cls)
  then obtain m' where m': "set_bits_of m' = apply_clause cl (set_bits_of m)"
    "\<And>op' q. munch_loop op' m (render_clause cl @ CHR '','' # q) = munch_loop (operator cl) m' q"
    using munch_clause [of cl "CHR '',''" m thesis] by (simp add: NUL_def)
  show ?case
    using 3(1) [of "operator cl" m'] 3(2) m' by simp
qed simp

section \<open>Two forms the code does not handle\<close>

text \<open>The nine letter form reads nine characters, however long the string is.\<close>

lemma rwx_loop_short:
  assumes "length p < length sel" "CHR ''s'' \<notin> set p"
  shows "rwx_loop sel cnt p t = Inl OutOfBounds"
  using assms
  by (induction sel cnt p t rule: rwx_loop.induct) auto

section \<open>Properties\<close>

text \<open>
  C27: a symbolic mode, any list of well-formed clauses joined by commas, is parsed completely and
  changes exactly the bits its meaning says: a clause selects the bits of its permissions within its
  classes (all classes when it names none) and adds, removes or assigns them.
\<close>

theorem mode_munch_symbolic:
  assumes "\<forall>cl \<in> set cls. wf_clause cl" "cls \<noteq> []"
  shows "\<exists>m'. mode_munch m (render cls @ [NUL]) = Inr (m', 0) \<and>
    set_bits_of m' = foldl (\<lambda>M cl. apply_clause cl M) (set_bits_of m) cls"
  unfolding mode_munch_def using assms by (rule munch_render)

lemma mode_munch_symbolic_witness:
  "\<exists>m'. mode_munch 0 (render [Clause ''ug'' (CHR ''+'') ''rw'', Clause ''o'' (CHR ''='') ''x''] @ [NUL]) = Inr (m', 0) \<and>
    set_bits_of m' = foldl (\<lambda>M cl. apply_clause cl M) (set_bits_of 0)
      [Clause ''ug'' (CHR ''+'') ''rw'', Clause ''o'' (CHR ''='') ''x'']"
  by (rule mode_munch_symbolic) (simp_all add: wf_clause_def)

text \<open>
  C28: what \<open>modechopper\<close> prints (\<open>posix.stat\<close>), \<open>mode_munch\<close> reads back (\<open>posix.chmod\<close>): the
  twelve permission bits but the sticky one become those of the printed mode, whatever the old mode,
  and all other bits stay; unless a set-id bit is set without its execute bit.
\<close>

theorem mode_munch_modechopper:
  assumes "m AND S_ISUID \<noteq> 0 \<longrightarrow> m AND S_IXUSR \<noteq> 0" "m AND S_ISGID \<noteq> 0 \<longrightarrow> m AND S_IXGRP \<noteq> 0"
  shows "mode_munch old (modechopper m) = Inr ((old AND NOT 0xDFF) OR (m AND 0xDFF), 0)"
proof -
  have "mode_munch old (modechopper m) = rwxrwxrwx old (modechopper m)"
    using modechopper_hd [of m] by (auto simp: mode_munch_def munch_loop.simps)
  then show ?thesis
    using rwxrwxrwx_modechopper [OF assms] by simp
qed

lemma mode_munch_modechopper_witness:
  "mode_munch 0x8124 (modechopper 0x81ED) = Inr ((0x8124 AND NOT 0xDFF) OR (0x81ED AND 0xDFF), 0)"
  by (rule mode_munch_modechopper) (simp_all add: S_ISUID_def S_ISGID_def)

text \<open>
  a mode string that starts with \<open>r\<close> or \<open>-\<close>, has no \<open>s\<close> and is shorter than eight characters
  (such as \<open>-w\<close>) is taken for the nine letter form and read beyond its terminating NUL.
\<close>

theorem mode_munch_short_overread:
  assumes "c = CHR ''r'' \<or> c = CHR ''-''" "length s < 7" "CHR ''s'' \<notin> set s"
  shows "mode_munch m (c # s @ [NUL]) = Inl OutOfBounds"
proof -
  have "rwx_loop modesel 0 (c # s @ [NUL]) t = Inl OutOfBounds" for t
    by (rule rwx_loop_short) (use assms in \<open>auto simp: modesel_def NUL_def\<close>)
  then show ?thesis
    using assms(1) by (auto simp: mode_munch_def munch_loop.simps rwxrwxrwx_def)
qed

lemma mode_munch_short_overread_witness: "mode_munch 0x81A4 (''-w'' @ [NUL]) = Inl OutOfBounds"
  using mode_munch_short_overread [of "CHR ''-''" "''w''" "0x81A4"] by simp

text \<open>
  an assignment to one class also takes the permissions of the other classes away: \<open>u=rwx\<close> gives
  \<open>0700\<close> whatever the mode was.
\<close>

theorem mode_munch_assign_forgets: "mode_munch m (''u=rwx'' @ [NUL]) = Inr (0x1C0, 0)"
  by (simp add: mode_munch_def munch_loop.simps apply_op_def Let_def NUL_def)

end
