(* ===== verification/StringTable.thy ===== *)
theory StringTable
  imports Objects
begin

text \<open>
  The string table (\<open>lua/lstring.c\<close>): hashing, interning and resizing.  Every string of a Lua
  state is kept once, in the chain of its hash, so that pointers to strings can be compared in
  place of their contents.
\<close>

unbundle bit_operations_syntax

section \<open>State\<close>

type_synonym lu_hash = "32 word"

text \<open>\<open>ts_addr\<close> is the address of the header; the model keeps \<open>len\<close> as the length of the bytes.\<close>

record TString =
  ts_addr :: addr
  ts_hash :: lu_hash
  ts_chars :: string

text \<open>\<open>hash\<close> is the array of chains, each the list linked by \<open>gch.next\<close>.\<close>

record stringtable =
  st_hash :: "TString list list"
  st_nuse :: int
  st_size :: nat

definition MAX_INT :: int where "MAX_INT = INT_MAX - 2"

definition lmod :: "lu_hash \<Rightarrow> nat \<Rightarrow> nat" where
  "lmod s sz = (unat s) AND (sz - 1)"

section \<open>Operations\<close>

text \<open>The hash loop visits every \<open>step\<close>-th byte, from the last one down.\<close>

function hash_loop :: "string \<Rightarrow> nat \<Rightarrow> nat \<Rightarrow> lu_hash \<Rightarrow> lu_hash" where
  "hash_loop str step l1 h =
    (if step \<le> l1 \<and> 0 < step then
       hash_loop str step (l1 - step)
         (h XOR (push_bit 5 h + drop_bit 2 h + word_of_nat (uchar (str ! (l1 - 1)))))
     else h)"
  by pat_completeness auto
termination
  by (relation "measure (\<lambda>(str, step, l1, h). l1)") auto

declare hash_loop.simps [simp del]

definition luaS_hash :: "string \<Rightarrow> lu_hash" where
  "luaS_hash str =
    (let l = length str in hash_loop str (drop_bit 5 l + 1) l (word_of_nat l))"

text \<open>\<open>luaS_resize\<close>: the nodes of the old chains are pushed in order on the new ones.\<close>

definition chain_push :: "nat \<Rightarrow> TString list list \<Rightarrow> TString \<Rightarrow> TString list list" where
  "chain_push newsize newhash p =
    (let h1 = lmod (ts_hash p) newsize in newhash[h1 := p # newhash ! h1])"

definition luaS_resize :: "stringtable \<Rightarrow> nat \<Rightarrow> stringtable" where
  "luaS_resize tb newsize =
    (let newhash = foldl (chain_push newsize) (replicate newsize []) (concat (st_hash tb))
     in tb\<lparr>st_size := newsize, st_hash := newhash\<rparr>)"

text \<open>\<open>newlstr\<close> with the address of the fresh block.\<close>

definition newlstr :: "stringtable \<Rightarrow> addr \<Rightarrow> string \<Rightarrow> lu_hash \<Rightarrow> TString \<times> stringtable" where
  "newlstr tb new str h =
    (let ts = \<lparr>ts_addr = new, ts_hash = h, ts_chars = str\<rparr>;
         i = lmod h (st_size tb);
         tb = tb\<lparr>st_hash := (st_hash tb)[i := ts # st_hash tb ! i], st_nuse := st_nuse tb + 1\<rparr>;
         tb = (if st_nuse tb > int (st_size tb) \<and> int (st_size tb) \<le> MAX_INT div 2
               then luaS_resize tb (st_size tb * 2) else tb)
     in (ts, tb))"

definition luaS_newlstr :: "stringtable \<Rightarrow> addr \<Rightarrow> string \<Rightarrow> TString \<times> stringtable" where
  "luaS_newlstr tb new str =
    (let h = luaS_hash str
     in case find (\<lambda>ts. length (ts_chars ts) = length str \<and> ts_chars ts = str)
            (st_hash tb ! lmod h (st_size tb)) of
          Some ts \<Rightarrow> (ts, tb)
        | None \<Rightarrow> newlstr tb new str h)"

section \<open>Sweeping\<close>

text \<open>
  The sweep of \<open>lua/lgc.c\<close>.  \<open>sweeplist\<close> goes through a list linked by \<open>gch.next\<close> and takes out what is not
  marked above the limit; the others lose their mark.  \<open>m\<close> is the field \<open>marked\<close> of the objects.  The limit is 0,
  or 256 to take out all objects.
\<close>

definition unmark :: "'o \<Rightarrow> ('o \<Rightarrow> 8 word) \<Rightarrow> 'o \<Rightarrow> 8 word" where
  "unmark x m = m(x := m x AND NOT 1)"

fun sweeplist :: "nat \<Rightarrow> 'o list \<Rightarrow> ('o \<Rightarrow> 8 word) \<Rightarrow> 'o list \<times> int \<times> ('o \<Rightarrow> 8 word)" where
  "sweeplist limit [] m = ([], 0, m)"
| "sweeplist limit (x # rest) m =
    (if limit < unat (m x) then
       (case sweeplist limit rest (unmark x m) of (kept, collected, m) \<Rightarrow> (x # kept, collected, m))
     else
       (case sweeplist limit rest m of (kept, collected, m) \<Rightarrow> (kept, collected + 1, m)))"

fun sweep_chains :: "nat \<Rightarrow> 'o list list \<Rightarrow> int \<Rightarrow> ('o \<Rightarrow> 8 word) \<Rightarrow> 'o list list \<times> int \<times> ('o \<Rightarrow> 8 word)" where
  "sweep_chains limit [] nuse m = ([], nuse, m)"
| "sweep_chains limit (chain # hs) nuse m =
    (case sweeplist limit chain m of (kept, collected, m) \<Rightarrow>
       (case sweep_chains limit hs (nuse - collected) m of (hs, nuse, m) \<Rightarrow> (kept # hs, nuse, m)))"

definition sweepstrings :: "nat \<Rightarrow> stringtable \<Rightarrow> (TString \<Rightarrow> 8 word) \<Rightarrow> stringtable \<times> (TString \<Rightarrow> 8 word)" where
  "sweepstrings limit tb m =
    (case sweep_chains limit (st_hash tb) (st_nuse tb) m of (hs, nuse, m) \<Rightarrow>
       (tb\<lparr>st_hash := hs, st_nuse := nuse\<rparr>, m))"

section \<open>Invariant\<close>

definition strings :: "stringtable \<Rightarrow> TString list" where
  "strings tb = concat (st_hash tb)"

definition contents :: "stringtable \<Rightarrow> addr \<Rightarrow> string option" where
  "contents tb a = map_of (map (\<lambda>ts. (ts_addr ts, ts_chars ts)) (strings tb)) a"

definition in_chains :: "nat \<Rightarrow> TString list list \<Rightarrow> bool" where
  "in_chains sz hs \<longleftrightarrow> length hs = sz \<and>
     (\<forall>i < sz. \<forall>ts \<in> set (hs ! i). ts_hash ts = luaS_hash (ts_chars ts) \<and>
        lmod (luaS_hash (ts_chars ts)) sz = i)"

definition wf_strt :: "stringtable \<Rightarrow> bool" where
  "wf_strt tb \<longleftrightarrow>
     (\<exists>k. st_size tb = 2 ^ k) \<and> in_chains (st_size tb) (st_hash tb) \<and>
     distinct (map ts_chars (strings tb)) \<and> distinct (map ts_addr (strings tb)) \<and>
     st_nuse tb = int (length (strings tb))"

lemma lmod_less: "0 < sz \<Longrightarrow> lmod h sz < sz"
  using and_nat_less [of sz "unat h"] by (simp add: lmod_def)

lemma lmod_pow2: "lmod h (2 ^ k) = unat h mod 2 ^ k"
  using and_pow2_mod [of "unat h" k] by (simp add: lmod_def)

lemma wf_strtD:
  assumes "wf_strt tb"
  shows "0 < st_size tb" "length (st_hash tb) = st_size tb" "in_chains (st_size tb) (st_hash tb)"
    "distinct (map ts_chars (strings tb))" "distinct (map ts_addr (strings tb))"
    "st_nuse tb = int (length (strings tb))"
  using assms by (auto simp: wf_strt_def) (auto simp: in_chains_def)

lemma contents_Some:
  "distinct (map ts_addr (strings tb)) \<Longrightarrow>
   contents tb a = Some s \<longleftrightarrow> (\<exists>ts \<in> set (strings tb). ts_addr ts = a \<and> ts_chars ts = s)"
  unfolding contents_def
  by (subst map_of_eq_Some_iff) (auto simp: comp_def)

lemma contents_None:
  "contents tb a = None \<longleftrightarrow> a \<notin> ts_addr ` set (strings tb)"
  by (auto simp: contents_def map_of_eq_None_iff image_image)

section \<open>Resizing\<close>

lemma chain_push_length [simp]: "length (chain_push n hs p) = length hs"
  by (simp add: chain_push_def Let_def)

lemma foldl_chain_push_length [simp]: "length (foldl (chain_push n) hs ps) = length hs"
  by (induction ps arbitrary: hs) auto

lemma mset_foldl_chain_push:
  "0 < n \<Longrightarrow> length hs = n \<Longrightarrow>
   mset (concat (foldl (chain_push n) hs ps)) = mset (concat hs) + mset ps"
proof (induction ps arbitrary: hs)
  case (Cons p ps)
  then show ?case
    by (simp add: chain_push_def Let_def mset_concat_push lmod_less)
qed simp

lemma in_chains_push:
  "in_chains n hs \<Longrightarrow> ts_hash p = luaS_hash (ts_chars p) \<Longrightarrow> in_chains n (chain_push n hs p)"
  by (auto simp: in_chains_def chain_push_def Let_def nth_list_update_iff split: if_splits)

lemma in_chains_foldl:
  "in_chains n hs \<Longrightarrow> \<forall>p \<in> set ps. ts_hash p = luaS_hash (ts_chars p) \<Longrightarrow>
   in_chains n (foldl (chain_push n) hs ps)"
  by (induction ps arbitrary: hs) (auto simp: in_chains_push)

lemma strings_hash:
  "in_chains n (st_hash tb) \<Longrightarrow> ts \<in> set (strings tb) \<Longrightarrow> ts_hash ts = luaS_hash (ts_chars ts)"
  by (fastforce simp: strings_def in_chains_def in_set_conv_nth)

lemma mset_strings_resize: "0 < n \<Longrightarrow> mset (strings (luaS_resize tb n)) = mset (strings tb)"
  by (simp add: strings_def luaS_resize_def mset_foldl_chain_push)

lemma wf_strt_cong:
  "mset (strings tb') = mset (strings tb) \<Longrightarrow> wf_strt tb \<Longrightarrow> in_chains (st_size tb') (st_hash tb') \<Longrightarrow>
   \<exists>k. st_size tb' = 2 ^ k \<Longrightarrow> st_nuse tb' = st_nuse tb \<Longrightarrow> wf_strt tb'"
  by (simp add: wf_strt_def distinct_map_mset_cong [of "strings tb'" "strings tb"])
    (metis size_mset)

lemma wf_luaS_resize:
  assumes "wf_strt tb"
  shows "wf_strt (luaS_resize tb (2 ^ k))"
proof (rule wf_strt_cong [OF mset_strings_resize assms])
  have "in_chains (2 ^ k) (replicate (2 ^ k) [])"
    by (simp add: in_chains_def)
  moreover have "\<forall>p \<in> set (concat (st_hash tb)). ts_hash p = luaS_hash (ts_chars p)"
    using strings_hash [OF wf_strtD(3) [OF assms]] by (simp add: strings_def)
  ultimately show "in_chains (st_size (luaS_resize tb (2 ^ k))) (st_hash (luaS_resize tb (2 ^ k)))"
    by (simp add: luaS_resize_def in_chains_foldl)
qed (auto simp: luaS_resize_def)

section \<open>Interning\<close>

text \<open>A string is in the chain of its hash.\<close>

lemma find_string:
  assumes "wf_strt tb"
  shows "find (\<lambda>ts. length (ts_chars ts) = length str \<and> ts_chars ts = str)
      (st_hash tb ! lmod (luaS_hash str) (st_size tb)) = Some ts \<Longrightarrow>
      ts \<in> set (strings tb) \<and> ts_chars ts = str"
    and "find (\<lambda>ts. length (ts_chars ts) = length str \<and> ts_chars ts = str)
      (st_hash tb ! lmod (luaS_hash str) (st_size tb)) = None \<Longrightarrow>
      str \<notin> ts_chars ` set (strings tb)"
proof -
  note wf = wf_strtD [OF assms]
  have i: "lmod (luaS_hash str) (st_size tb) < length (st_hash tb)"
    using wf lmod_less by simp
  show "find (\<lambda>ts. length (ts_chars ts) = length str \<and> ts_chars ts = str)
      (st_hash tb ! lmod (luaS_hash str) (st_size tb)) = Some ts \<Longrightarrow>
      ts \<in> set (strings tb) \<and> ts_chars ts = str"
    using nth_mem [OF i] by (auto simp: strings_def find_Some_iff intro!: bexI nth_mem)
  assume none: "find (\<lambda>ts. length (ts_chars ts) = length str \<and> ts_chars ts = str)
      (st_hash tb ! lmod (luaS_hash str) (st_size tb)) = None"
  show "str \<notin> ts_chars ` set (strings tb)"
  proof
    assume "str \<in> ts_chars ` set (strings tb)"
    then obtain j ts where j: "j < length (st_hash tb)" "ts \<in> set (st_hash tb ! j)" "ts_chars ts = str"
      unfolding strings_def by (metis (no_types, lifting) concat_eq_concat_iff imageE in_set_conv_nth
          set_concat UN_E)
    with wf have "lmod (luaS_hash str) (st_size tb) = j"
      by (auto simp: in_chains_def)
    with j none show False
      by (auto simp: find_None_iff)
  qed
qed

lemma strings_push:
  "wf_strt tb \<Longrightarrow>
   mset (concat ((st_hash tb)[lmod h (st_size tb) := ts # st_hash tb ! lmod h (st_size tb)])) =
   add_mset ts (mset (strings tb))"
  using wf_strtD [of tb] by (simp add: mset_concat_push lmod_less strings_def)

lemma newlstr_spec:
  assumes wf: "wf_strt tb" and new: "new \<notin> ts_addr ` set (strings tb)"
    and fresh: "str \<notin> ts_chars ` set (strings tb)"
    and eq: "newlstr tb new str (luaS_hash str) = (ts, tb')"
  shows "wf_strt tb'" "ts = \<lparr>ts_addr = new, ts_hash = luaS_hash str, ts_chars = str\<rparr>"
    "mset (strings tb') = add_mset ts (mset (strings tb))"
proof -
  define i where "i = lmod (luaS_hash str) (st_size tb)"
  define t1 where "t1 = tb\<lparr>st_hash := (st_hash tb)[i := ts # st_hash tb ! i], st_nuse := st_nuse tb + 1\<rparr>"
  show ts: "ts = \<lparr>ts_addr = new, ts_hash = luaS_hash str, ts_chars = str\<rparr>"
    using eq by (simp add: newlstr_def Let_def)
  have tb': "tb' = (if st_nuse t1 > int (st_size t1) \<and> int (st_size t1) \<le> MAX_INT div 2
      then luaS_resize t1 (st_size t1 * 2) else t1)"
    using eq unfolding newlstr_def Let_def ts t1_def i_def by (simp only: prod.inject)
  obtain k where k: "st_size tb = 2 ^ k"
    using wf by (auto simp: wf_strt_def)
  have m1: "mset (strings t1) = add_mset ts (mset (strings tb))"
    using strings_push [OF wf, of "luaS_hash str" ts] by (simp add: t1_def i_def strings_def)
  then have d: "distinct (map f (strings t1)) \<longleftrightarrow> f ts \<notin> f ` set (strings tb) \<and> distinct (map f (strings tb))"
    for f :: "TString \<Rightarrow> 'b"
    using distinct_map_mset_cong [of "strings t1" "ts # strings tb" f] by simp
  have l: "length (strings t1) = Suc (length (strings tb))"
    using arg_cong [OF m1, of size] by simp
  have "in_chains (st_size t1) (st_hash t1)"
    using in_chains_push [of "st_size tb" "st_hash tb" ts] wf_strtD [OF wf]
    by (simp add: ts chain_push_def Let_def t1_def i_def)
  then have wf1: "wf_strt t1"
    using wf_strtD [OF wf] new fresh k l d [of ts_addr] d [of ts_chars]
    by (auto simp: wf_strt_def t1_def ts)
  have s2: "st_size t1 * 2 = 2 ^ Suc k"
    by (simp add: t1_def k)
  show "wf_strt tb'"
    unfolding tb' s2 using wf1 wf_luaS_resize [OF wf1, of "Suc k"] by simp
  show "mset (strings tb') = add_mset ts (mset (strings tb))"
    unfolding tb' s2 using m1 mset_strings_resize [of "2 ^ Suc k" t1] by simp
qed

lemma luaS_newlstr_spec:
  assumes wf: "wf_strt tb" and new: "new \<notin> ts_addr ` set (strings tb)"
    and eq: "luaS_newlstr tb new str = (ts, tb')"
  shows "wf_strt tb' \<and> ts \<in> set (strings tb') \<and> ts_chars ts = str \<and>
    (if str \<in> ts_chars ` set (strings tb) then tb' = tb
     else ts_addr ts = new \<and> mset (strings tb') = add_mset ts (mset (strings tb)))"
proof (cases "find (\<lambda>ts. length (ts_chars ts) = length str \<and> ts_chars ts = str)
    (st_hash tb ! lmod (luaS_hash str) (st_size tb))")
  case None
  with eq have n: "newlstr tb new str (luaS_hash str) = (ts, tb')"
    by (simp add: luaS_newlstr_def Let_def)
  have f: "str \<notin> ts_chars ` set (strings tb)"
    by (rule find_string(2) [OF wf None])
  from newlstr_spec [OF wf new f n] have "ts \<in> set (strings tb')"
    by (metis set_mset_mset union_single_eq_member)
  with newlstr_spec [OF wf new f n] f show ?thesis by simp
next
  case (Some ts')
  with eq find_string(1) [OF wf Some] wf show ?thesis
    by (auto simp: luaS_newlstr_def Let_def)
qed

section \<open>The interface of interning\<close>

text \<open>
  What the rest of the interpreter relies on: \<open>intern st new s\<close> returns a pointer to the string
  \<open>s\<close>, \<open>new\<close> being the address of a fresh block in case one is needed; pointers stay valid; no
  two pointers have the same contents.
\<close>

locale interning =
  fixes invar :: "'st \<Rightarrow> bool" and deref :: "'st \<Rightarrow> 'p \<Rightarrow> string option"
    and intern :: "'st \<Rightarrow> 'p \<Rightarrow> string \<Rightarrow> 'p \<times> 'st"
  assumes deref_inj: "invar st \<Longrightarrow> deref st p = Some s \<Longrightarrow> deref st q = Some s \<Longrightarrow> p = q"
    and intern_invar:
      "invar st \<Longrightarrow> deref st new = None \<Longrightarrow> intern st new s = (p, st') \<Longrightarrow> invar st'"
    and intern_deref:
      "invar st \<Longrightarrow> deref st new = None \<Longrightarrow> intern st new s = (p, st') \<Longrightarrow> deref st' p = Some s"
    and intern_keeps:
      "invar st \<Longrightarrow> deref st new = None \<Longrightarrow> intern st new s = (p, st') \<Longrightarrow>
       deref st q = Some t \<Longrightarrow> deref st' q = Some t"
begin

lemma pointer_eq_iff: "invar st \<Longrightarrow> deref st p = Some s \<Longrightarrow> deref st q = Some t \<Longrightarrow> p = q \<longleftrightarrow> s = t"
  using deref_inj by auto

text \<open>Interning a string a second time gives the pointer of the first time.\<close>

lemma intern_again:
  assumes "invar st" "deref st n1 = None" "intern st n1 s = (p, st1)"
    "deref st1 n2 = None" "intern st1 n2 t = (q, st2)"
  shows "p = q \<longleftrightarrow> s = t"
proof -
  have 1: "invar st1" "deref st1 p = Some s"
    using assms intern_invar intern_deref by blast+
  then have "invar st2" "deref st2 q = Some t" "deref st2 p = Some s"
    using assms intern_invar intern_deref intern_keeps by blast+
  then show ?thesis
    using pointer_eq_iff by blast
qed

end

definition intern_addr :: "stringtable \<Rightarrow> addr \<Rightarrow> string \<Rightarrow> addr \<times> stringtable" where
  "intern_addr tb new str = (case luaS_newlstr tb new str of (ts, tb') \<Rightarrow> (ts_addr ts, tb'))"

lemma contents_mono:
  assumes "wf_strt tb" "wf_strt tb'" "set (strings tb) \<subseteq> set (strings tb')" "contents tb q = Some t"
  shows "contents tb' q = Some t"
  using assms wf_strtD(5) [of tb] wf_strtD(5) [of tb'] by (auto simp: contents_Some)

interpretation st: interning wf_strt contents intern_addr
proof
  fix st :: stringtable and p q s
  assume "wf_strt st" "contents st p = Some s" "contents st q = Some s"
  then show "p = q"
    using wf_strtD(4,5) [of st] by (auto simp: contents_Some distinct_map dest: inj_onD)
next
  fix st st' :: stringtable and new p q s t
  assume wf: "wf_strt st" and new: "contents st new = None" and eq: "intern_addr st new s = (p, st')"
  obtain ts where ts: "luaS_newlstr st new s = (ts, st')" "p = ts_addr ts"
    using eq by (auto simp: intern_addr_def split: prod.splits)
  note sp = luaS_newlstr_spec [OF wf new [unfolded contents_None] ts(1)]
  show "wf_strt st'"
    using sp by simp
  show "contents st' p = Some s"
    using sp ts(2) wf_strtD(5) [of st'] by (auto simp: contents_Some)
  have "set (strings st) \<subseteq> set (strings st')"
    using sp by (metis set_mset_add_mset_insert set_mset_mset subset_insertI subset_refl)
  then show "contents st q = Some t \<Longrightarrow> contents st' q = Some t"
    using contents_mono [OF wf] sp by blast
qed

section \<open>What a sweep leaves\<close>

text \<open>The survivors, and their marks; an object is in one list only, and there once.\<close>

definition survives :: "nat \<Rightarrow> ('o \<Rightarrow> 8 word) \<Rightarrow> 'o \<Rightarrow> bool" where
  "survives limit m x \<longleftrightarrow> limit < unat (m x)"

definition swept_marks :: "nat \<Rightarrow> 'o set \<Rightarrow> ('o \<Rightarrow> 8 word) \<Rightarrow> 'o \<Rightarrow> 8 word" where
  "swept_marks limit A m x = (if x \<in> A \<and> survives limit m x then m x AND NOT 1 else m x)"

lemma swept_marks_other: "x \<notin> A \<Longrightarrow> swept_marks limit A m x = m x"
  by (simp add: swept_marks_def)

lemma filter_survives_cong:
  "(\<And>x. x \<in> set xs \<Longrightarrow> m' x = m x) \<Longrightarrow> filter (survives limit m') xs = filter (survives limit m) xs"
  by (rule filter_cong) (simp_all add: survives_def)

lemma sweeplist_spec:
  assumes "distinct xs"
  shows "sweeplist limit xs m =
    (filter (survives limit m) xs, int (length xs) - int (length (filter (survives limit m) xs)), swept_marks limit (set xs) m)"
  using assms
proof (induction xs arbitrary: m)
  case Nil
  show ?case
    by (simp add: swept_marks_def fun_eq_iff)
next
  case (Cons x xs)
  have keep: "filter (survives limit (unmark x m)) xs = filter (survives limit m) xs"
    using Cons.prems by (intro filter_survives_cong) (auto simp: unmark_def)
  have marks: "swept_marks limit (set xs) (unmark x m) = swept_marks limit (set (x # xs)) m" if "survives limit m x"
    using that Cons.prems by (auto simp: swept_marks_def unmark_def survives_def fun_eq_iff)
  have skip: "swept_marks limit (set (x # xs)) m = swept_marks limit (set xs) m" if "\<not> survives limit m x"
    using that by (auto simp: swept_marks_def fun_eq_iff)
  show ?case
  proof (cases "survives limit m x")
    case True
    then have "sweeplist limit (x # xs) m = (case sweeplist limit xs (unmark x m) of (kept, collected, m) \<Rightarrow> (x # kept, collected, m))"
      by (simp add: survives_def)
    also have "\<dots> = (x # filter (survives limit m) xs, int (length xs) - int (length (filter (survives limit m) xs)),
        swept_marks limit (set (x # xs)) m)"
      using Cons.IH [of "unmark x m"] Cons.prems keep marks [OF True] by simp
    finally show ?thesis
      using True by simp
  next
    case False
    then have "sweeplist limit (x # xs) m = (case sweeplist limit xs m of (kept, collected, m) \<Rightarrow> (kept, collected + 1, m))"
      by (simp add: survives_def)
    also have "\<dots> = (filter (survives limit m) xs, int (length xs) - int (length (filter (survives limit m) xs)) + 1,
        swept_marks limit (set (x # xs)) m)"
      using Cons.IH [of m] Cons.prems skip [OF False] by simp
    finally show ?thesis
      using False by simp
  qed
qed

lemma sweep_chains_spec:
  assumes "distinct (concat hs)"
  shows "sweep_chains limit hs nuse m =
    (map (filter (survives limit m)) hs,
     nuse - (int (length (concat hs)) - int (length (filter (survives limit m) (concat hs)))),
     swept_marks limit (set (concat hs)) m)"
  using assms
proof (induction hs arbitrary: nuse m)
  case Nil
  show ?case
    by (simp add: swept_marks_def fun_eq_iff)
next
  case (Cons xs hs)
  let ?m = "swept_marks limit (set xs) m"
  have d: "distinct xs" "distinct (concat hs)" "set xs \<inter> set (concat hs) = {}"
    using Cons.prems by simp_all
  have same: "?m x = m x" if "x \<in> set (concat hs)" for x
    using that d(3) by (intro swept_marks_other) blast
  have "filter (survives limit ?m) ys = filter (survives limit m) ys" if "ys \<in> set hs" for ys
    using that same by (intro filter_survives_cong) auto
  then have keep: "map (filter (survives limit ?m)) hs = map (filter (survives limit m)) hs"
    by (rule map_cong [OF refl])
  have cat: "filter (survives limit ?m) (concat hs) = filter (survives limit m) (concat hs)"
    using same by (rule filter_survives_cong)
  have marks: "swept_marks limit (set (concat hs)) ?m = swept_marks limit (set (concat (xs # hs))) m"
    using d(3) by (auto simp: swept_marks_def survives_def fun_eq_iff)
  show ?case
    unfolding sweep_chains.simps sweeplist_spec [OF d(1)] prod.case Cons.IH [OF d(2)] keep cat marks by simp
qed

lemma sweepstrings_spec:
  assumes "wf_strt tb" "sweepstrings limit tb m = (tb', m')"
  shows "strings tb' = filter (survives limit m) (strings tb)" "wf_strt tb'" "m' = swept_marks limit (set (strings tb)) m"
proof -
  have "distinct (concat (st_hash tb))"
    using wf_strtD(5) [OF assms(1)] by (simp add: strings_def distinct_map)
  from sweep_chains_spec [OF this, of limit "st_nuse tb" m] assms(2)
  have t: "tb' = tb\<lparr>st_hash := map (filter (survives limit m)) (st_hash tb),
      st_nuse := st_nuse tb - (int (length (strings tb)) - int (length (filter (survives limit m) (strings tb))))\<rparr>"
    "m' = swept_marks limit (set (strings tb)) m"
    by (simp_all add: sweepstrings_def strings_def)
  show s: "strings tb' = filter (survives limit m) (strings tb)"
    by (simp add: t(1) strings_def filter_concat)
  have "st_nuse tb' = int (length (strings tb'))"
    unfolding s using wf_strtD(6) [OF assms(1)] by (simp add: t(1))
  moreover have "in_chains (st_size tb) (map (filter (survives limit m)) (st_hash tb))"
    using wf_strtD(3) [OF assms(1)] by (auto simp: in_chains_def)
  ultimately show "wf_strt tb'"
    using assms(1) unfolding wf_strt_def s by (auto simp: t(1) distinct_map_filter)
  show "m' = swept_marks limit (set (strings tb)) m"
    by (rule t(2))
qed

section \<open>Properties\<close>

text \<open>
  C13: interning keeps the invariant of the string table, returns a string with the given contents
  that is in the table, and adds one node exactly when no string had these contents; rehashing to
  twice the size loses none.
\<close>

theorem newlstr_interns:
  assumes "wf_strt tb" "new \<notin> ts_addr ` set (strings tb)" "luaS_newlstr tb new str = (ts, tb')"
  shows "wf_strt tb' \<and> ts \<in> set (strings tb') \<and> ts_chars ts = str \<and>
    (if str \<in> ts_chars ` set (strings tb) then tb' = tb
     else ts_addr ts = new \<and> mset (strings tb') = add_mset ts (mset (strings tb)))"
  using assms by (rule luaS_newlstr_spec)

definition strt_init :: "stringtable" where
  "strt_init = luaS_resize \<lparr>st_hash = [], st_nuse = 0, st_size = 0\<rparr> 32"

lemma wf_strt_init: "wf_strt strt_init"
proof -
  have "\<exists>k. (32 :: nat) = 2 ^ k"
    by (rule exI [of _ 5]) simp
  then show ?thesis
    by (auto simp: strt_init_def luaS_resize_def wf_strt_def in_chains_def strings_def concat_eq_Nil_conv)
qed

lemma strings_strt_init [simp]: "strings strt_init = []"
  by (simp add: strt_init_def luaS_resize_def strings_def)

lemma newlstr_interns_witness:
  "\<exists>ts tb'. luaS_newlstr strt_init 64 ''abc'' = (ts, tb') \<and> wf_strt tb' \<and> strings tb' = [ts] \<and>
    ts_chars ts = ''abc'' \<and> ts_addr ts = 64"
proof -
  obtain ts tb' where eq: "luaS_newlstr strt_init 64 ''abc'' = (ts, tb')"
    by fastforce
  from newlstr_interns [OF wf_strt_init _ eq] eq show ?thesis
    by auto
qed

text \<open>
  C14: strings are equal exactly when their pointers are: two strings interned one after the other
  get the same address if and only if they have the same bytes.
\<close>

theorem intern_pointer_eq:
  assumes "wf_strt tb" "contents tb n1 = None" "intern_addr tb n1 s = (p, tb1)"
    "contents tb1 n2 = None" "intern_addr tb1 n2 t = (q, tb2)"
  shows "p = q \<longleftrightarrow> s = t"
  using assms by (rule st.intern_again)

lemma intern_pointer_eq_witness:
  "\<exists>tb'. intern_addr strt_init 64 ''a'' = (64, tb') \<and> intern_addr tb' 128 ''a'' = (64, tb') \<and>
    (64 = (64 :: addr) \<longleftrightarrow> ''a'' = ''a'')"
proof -
  obtain ts tb' where n: "luaS_newlstr strt_init 64 ''a'' = (ts, tb')"
    by fastforce
  from luaS_newlstr_spec [OF wf_strt_init _ n] have sp: "wf_strt tb'" "ts_chars ts = ''a''" "ts_addr ts = 64"
    "mset (strings tb') = {#ts#}"
    by simp_all
  then have strs: "strings tb' = [ts]"
    by simp
  have i1: "intern_addr strt_init 64 ''a'' = (64, tb')"
    using n sp by (simp add: intern_addr_def)
  obtain ts2 tb2 where n2: "luaS_newlstr tb' 128 ''a'' = (ts2, tb2)"
    by fastforce
  from luaS_newlstr_spec [OF sp(1) _ n2] strs sp have "tb2 = tb'" "ts2 = ts"
    by auto
  then have i2: "intern_addr tb' 128 ''a'' = (64, tb')"
    using n2 sp by (simp add: intern_addr_def)
  have "64 = (64 :: addr) \<longleftrightarrow> ''a'' = ''a''"
    by (rule intern_pointer_eq [OF wf_strt_init _ i1 _ i2])
      (use strs sp in \<open>simp_all add: contents_def\<close>)
  with i1 i2 show ?thesis
    by blast
qed

text \<open>
  C15: a sweep takes exactly the strings out of the table whose field \<open>marked\<close> is not above the limit --- all of
  them when the state is closed, with the limit 256 ---, in every chain, counts them off, and leaves the table
  well-formed with the others in their order.  The survivors lose their mark for the next collection but keep the
  other bits, such as that of fixed strings; nothing else is touched.
\<close>

theorem sweepstrings_keeps:
  assumes "wf_strt tb" "sweepstrings limit tb m = (tb', m')"
  shows "wf_strt tb' \<and> strings tb' = filter (\<lambda>ts. limit < unat (m ts)) (strings tb) \<and>
    st_nuse tb' = int (length (strings tb')) \<and> (256 \<le> limit \<longrightarrow> strings tb' = []) \<and>
    m' = (\<lambda>ts. if ts \<in> set (strings tb') then m ts AND NOT 1 else m ts)"
proof -
  note s = sweepstrings_spec [OF assms]
  have f: "strings tb' = filter (\<lambda>ts. limit < unat (m ts)) (strings tb)"
    unfolding s(1) by (rule filter_cong) (simp_all add: survives_def)
  have "unat (m ts) < 256" for ts
    using unsigned_less [of "m ts"] by simp
  then have "256 \<le> limit \<Longrightarrow> \<not> limit < unat (m ts)" for ts
    by (meson less_le_trans not_less_iff_gr_or_eq)
  then show ?thesis
    using s(2,3) wf_strtD(6) [OF s(2)] f by (auto simp: swept_marks_def survives_def fun_eq_iff)
qed

lemma sweepstrings_keeps_witness:
  "\<exists>ts tb'. luaS_newlstr strt_init 64 ''abc'' = (ts, tb') \<and>
    strings (fst (sweepstrings 0 tb' (\<lambda>_. 17))) = [ts] \<and> snd (sweepstrings 0 tb' (\<lambda>_. 17)) ts = 16 \<and>
    strings (fst (sweepstrings 0 tb' (\<lambda>_. 0))) = [] \<and> strings (fst (sweepstrings 256 tb' (\<lambda>_. 17))) = []"
proof -
  obtain ts tb' where eq: "luaS_newlstr strt_init 64 ''abc'' = (ts, tb')"
    by fastforce
  from luaS_newlstr_spec [OF wf_strt_init _ eq] have w: "wf_strt tb'" "strings tb' = [ts]"
    by auto
  note k = sweepstrings_keeps [OF w(1) surjective_pairing]
  have "strings (fst (sweepstrings 0 tb' (\<lambda>_. 17))) = [ts] \<and> snd (sweepstrings 0 tb' (\<lambda>_. 17)) ts = 16"
    using k [of 0 "\<lambda>_. 17"] w(2) by simp
  moreover have "strings (fst (sweepstrings 0 tb' (\<lambda>_. 0))) = []"
    using k [of 0 "\<lambda>_. 0"] w(2) by simp
  moreover have "strings (fst (sweepstrings 256 tb' (\<lambda>_. 17))) = []"
    using k [of 256 "\<lambda>_. 17"] by simp
  ultimately show ?thesis
    using eq by blast
qed

end
