(* ===== verification/Lexer.thy ===== *)
theory Lexer
  imports Streams StringTable
begin

text \<open>
  The scanner (\<open>lua/llex.c\<close>, \<open>lua/llex.h\<close>): from the bytes of a stream to tokens, one byte ahead.

  \<open>lex_buff\<close> holds the bytes saved for the token being read, in the first positions of the buffer of
  \<open>lex_buffsize\<close> bytes; the local variable \<open>l\<close> of the reading functions is its length.  A store
  beyond the buffer is \<open>OutOfBounds\<close>.  A string value is the contents of the interned string, and
  the byte \<open>reserved\<close> of an interned string is a function of its contents, set by \<open>luaX_init\<close>.
\<close>

section \<open>Tokens and state\<close>

definition token2string :: "string list" where
  "token2string =
    [''and'', ''break'', ''do'', ''else'', ''elseif'', ''end'', ''false'', ''for'', ''function'', ''if'',
     ''in'', ''local'', ''nil'', ''not'', ''or'', ''repeat'', ''return'', ''then'', ''true'', ''until'',
     ''while'', ''*name'', ''..'', ''...'', ''=='', ''>='', ''<='', ''~='', ''*number'', ''*string'', ''<eof>'']"

definition FIRST_RESERVED :: int where "FIRST_RESERVED = 257"

definition TK_WHILE :: int where "TK_WHILE = FIRST_RESERVED + 20"
definition TK_NAME :: int where "TK_NAME = FIRST_RESERVED + 21"
definition TK_CONCAT :: int where "TK_CONCAT = FIRST_RESERVED + 22"
definition TK_DOTS :: int where "TK_DOTS = FIRST_RESERVED + 23"
definition TK_EQ :: int where "TK_EQ = FIRST_RESERVED + 24"
definition TK_GE :: int where "TK_GE = FIRST_RESERVED + 25"
definition TK_LE :: int where "TK_LE = FIRST_RESERVED + 26"
definition TK_NE :: int where "TK_NE = FIRST_RESERVED + 27"
definition TK_NUMBER :: int where "TK_NUMBER = FIRST_RESERVED + 28"
definition TK_STRING :: int where "TK_STRING = FIRST_RESERVED + 29"
definition TK_EOS :: int where "TK_EOS = FIRST_RESERVED + 30"

lemmas token_defs = FIRST_RESERVED_def TK_WHILE_def TK_NAME_def TK_CONCAT_def TK_DOTS_def TK_EQ_def
  TK_GE_def TK_LE_def TK_NE_def TK_NUMBER_def TK_STRING_def TK_EOS_def

definition NUM_RESERVED :: nat where
  "NUM_RESERVED = nat (TK_WHILE - FIRST_RESERVED + 1)"

text \<open>The reserved words and the number each gets in its string.\<close>

definition luaX_init :: "(string \<times> nat) list" where
  "luaX_init = map (\<lambda>i. (token2string ! i, i + 1)) [0..<NUM_RESERVED]"

definition reserved :: "string \<Rightarrow> nat" where
  "reserved s = (case map_of luaX_init s of None \<Rightarrow> 0 | Some r \<Rightarrow> r)"

datatype SemInfo =
    SemNone                \<comment> \<open>not set yet\<close>
  | SemR lua_Number
  | SemTs string

record Token =
  token :: int
  seminfo :: SemInfo

record LexState =
  current :: int
  linenumber :: int
  lastline :: int
  tok :: Token             \<comment> \<open>\<open>t\<close>\<close>
  lookahead :: Token
  lex_z :: ZIO
  lex_buff :: string
  lex_buffsize :: nat
  lex_source :: string
  nestlevel :: int

text \<open>A test of the C library on a \<open>charint\<close>: it fails at \<open>EOZ\<close>.\<close>

definition is_char :: "(char \<Rightarrow> bool) \<Rightarrow> int \<Rightarrow> bool" where
  "is_char p k \<longleftrightarrow> 0 \<le> k \<and> p (char_of (nat k))"

abbreviation at :: "LexState \<Rightarrow> char \<Rightarrow> bool" where
  "at ls c \<equiv> current ls = char2int c"

abbreviation NL :: char where "NL \<equiv> CHR 0x0A"

section \<open>Errors\<close>

definition MAXSRC :: int where "MAXSRC = 80"

definition luaX_token2str :: "int \<Rightarrow> string res" where
  "luaX_token2str token' =
    (if token' < FIRST_RESERVED then
       (case luaO_pushvfstring ''%c'' [FmtC token'] of Some s \<Rightarrow> Inr s | None \<Rightarrow> Inl OutOfBounds)
     else if nat (token' - FIRST_RESERVED) < length token2string
       then Inr (token2string ! nat (token' - FIRST_RESERVED)) else Inl OutOfBounds)"

definition luaX_errorline :: "LexState \<Rightarrow> string \<Rightarrow> string \<Rightarrow> int \<Rightarrow> 'a res" where
  "luaX_errorline ls s token' line =
    (case luaO_pushvfstring (''%s:%d: %s near `%s'' @ [CHR 0x27])
            [FmtS (luaO_chunkid (lex_source ls) MAXSRC), FmtD line, FmtS s, FmtS token'] of
       Some m \<Rightarrow> Inl (SyntaxError m)
     | None \<Rightarrow> Inl OutOfBounds)"

definition luaX_error :: "LexState \<Rightarrow> string \<Rightarrow> string \<Rightarrow> 'a res" where
  "luaX_error ls s token' = luaX_errorline ls s token' (linenumber ls)"

definition luaX_syntaxerror :: "LexState \<Rightarrow> string \<Rightarrow> 'a res" where
  "luaX_syntaxerror ls msg =
    bindR (if token (tok ls) = TK_NAME then
             (case seminfo (tok ls) of SemTs s \<Rightarrow> Inr s | _ \<Rightarrow> Inl OutOfBounds)
           else if token (tok ls) = TK_STRING \<or> token (tok ls) = TK_NUMBER then Inr (lex_buff ls)
           else luaX_token2str (token (tok ls)))
      (\<lambda>lasttoken. luaX_error ls msg lasttoken)"

definition luaX_lexerror :: "LexState \<Rightarrow> string \<Rightarrow> int \<Rightarrow> 'a res" where
  "luaX_lexerror ls s token' =
    (if token' = TK_EOS then bindR (luaX_token2str token') (luaX_error ls s)
     else luaX_error ls s (lex_buff ls))"

definition luaX_checklimit :: "LexState \<Rightarrow> int \<Rightarrow> int \<Rightarrow> string \<Rightarrow> unit res" where
  "luaX_checklimit ls val limit msg =
    (if limit < val then
       (case luaO_pushvfstring ''too many %s (limit=%d)'' [FmtS msg, FmtD limit] of
          Some m \<Rightarrow> luaX_syntaxerror ls m
        | None \<Rightarrow> Inl OutOfBounds)
     else Inr ())"

section \<open>Input and buffer\<close>

text \<open>The macro \<open>next\<close>.\<close>

definition lex_next :: "LexState \<Rightarrow> LexState res" where
  "lex_next ls = bindR (zgetc (lex_z ls)) (\<lambda>(c, z). Inr (ls\<lparr>current := c, lex_z := z\<rparr>))"

definition inclinenumber :: "LexState \<Rightarrow> LexState res" where
  "inclinenumber ls =
    bindR (lex_next ls) (\<lambda>ls.
      (let ls = ls\<lparr>linenumber := linenumber ls + 1\<rparr>
       in bindR (luaX_checklimit ls (linenumber ls) MAX_INT ''lines in a chunk'') (\<lambda>_. Inr ls)))"

definition EXTRABUFF :: nat where "EXTRABUFF = 32"
definition MAXNOCHECK :: nat where "MAXNOCHECK = 5"

definition checkbuffer :: "LexState \<Rightarrow> LexState res" where
  "checkbuffer ls =
    (let len = length (lex_buff ls)
     in if lex_buffsize ls < len + MAXNOCHECK then
          bindR (luaZ_openspace (lex_buffsize ls) (len + EXTRABUFF)) (\<lambda>n. Inr (ls\<lparr>lex_buffsize := n\<rparr>))
        else Inr ls)"

definition save :: "int \<Rightarrow> LexState \<Rightarrow> LexState res" where
  "save c ls =
    (if length (lex_buff ls) < lex_buffsize ls
     then Inr (ls\<lparr>lex_buff := lex_buff ls @ [char_of (nat (c mod 256))]\<rparr>) else Inl OutOfBounds)"

definition save_and_next :: "LexState \<Rightarrow> LexState res" where
  "save_and_next ls = bindR (save (current ls) ls) lex_next"

text \<open>What is left to read.  Every step of the scanner takes some of it, up to \<open>EOZ\<close>.\<close>

definition lex_left :: "LexState \<Rightarrow> nat" where
  "lex_left ls = unread (lex_z ls) + (if current ls = EOZ then 0 else 1)"

lemma zgetc_left:
  "zgetc z = Inr (c, z') \<Longrightarrow> unread z' + (if c = EOZ then 0 else 1) \<le> unread z"
  by (auto simp: zgetc_def Let_def bindR_eq_Inr deref_p_def luaZ_fill_def unread_def split: if_splits list.splits)

lemma lex_next_left:
  "lex_next ls = Inr ls' \<Longrightarrow> current ls \<noteq> EOZ \<Longrightarrow> lex_left ls' < lex_left ls"
  using zgetc_left by (fastforce simp: lex_next_def bindR_eq_Inr lex_left_def)

lemma save_left: "save c ls = Inr ls' \<Longrightarrow> lex_left ls' = lex_left ls \<and> current ls' = current ls"
  by (auto simp: save_def lex_left_def split: if_splits)

lemma save_and_next_left:
  "save_and_next ls = Inr ls' \<Longrightarrow> current ls \<noteq> EOZ \<Longrightarrow> lex_left ls' < lex_left ls"
  by (auto simp: save_and_next_def bindR_eq_Inr dest!: save_left lex_next_left)

lemma checkbuffer_left: "checkbuffer ls = Inr ls' \<Longrightarrow> lex_left ls' = lex_left ls \<and> current ls' = current ls"
  by (auto simp: checkbuffer_def Let_def bindR_eq_Inr lex_left_def split: if_splits)

lemma inclinenumber_left:
  "inclinenumber ls = Inr ls' \<Longrightarrow> current ls \<noteq> EOZ \<Longrightarrow> lex_left ls' < lex_left ls"
  by (auto simp: inclinenumber_def Let_def bindR_eq_Inr dest!: lex_next_left) (auto simp: lex_left_def)

lemma yields_lex_next: "current ls \<noteq> EOZ \<Longrightarrow> yields (lex_next ls) (\<lambda>l. lex_left l < lex_left ls)"
  by (simp add: yields_def lex_next_left)

lemma yields_save: "yields (save c ls) (\<lambda>l. lex_left l = lex_left ls \<and> current l = current ls)"
  by (auto simp: yields_def dest: save_left)

lemma yields_save_and_next:
  "current ls \<noteq> EOZ \<Longrightarrow> yields (save_and_next ls) (\<lambda>l. lex_left l < lex_left ls)"
  by (simp add: yields_def save_and_next_left)

lemma yields_checkbuffer:
  "yields (checkbuffer ls) (\<lambda>l. lex_left l = lex_left ls \<and> current l = current ls)"
  by (auto simp: yields_def dest: checkbuffer_left)

lemma yields_inclinenumber:
  "current ls \<noteq> EOZ \<Longrightarrow> yields (inclinenumber ls) (\<lambda>l. lex_left l < lex_left ls)"
  by (simp add: yields_def inclinenumber_left)

lemma is_char_EOZ [simp]: "\<not> is_char p EOZ"
  by (simp add: is_char_def EOZ_def)

lemma is_char_char [simp]: "is_char p (char2int c) = p c"
  by (simp add: is_char_def char2int_def uchar_def)

lemma current_save [simp]: "save c ls = Inr ls' \<Longrightarrow> current ls' = current ls"
  by (simp add: save_left)

section \<open>Names and numerals\<close>

text \<open>The loops \<open>while (p(LS->current)) { checkbuffer(LS, l); save_and_next(LS, l); }\<close>.\<close>

function save_while :: "(char \<Rightarrow> bool) \<Rightarrow> LexState \<Rightarrow> LexState res" where
  "save_while p ls =
    (if is_char p (current ls)
     then bindR (bindR (checkbuffer ls) save_and_next) (\<lambda>ls. save_while p ls)
     else Inr ls)"
  by pat_completeness auto
termination
  by (relation "measure (\<lambda>(p, ls). lex_left ls)")
    (auto simp: bindR_eq_Inr is_char_def EOZ_def dest!: checkbuffer_left save_and_next_left)

declare save_while.simps [simp del]

definition name_char :: "char \<Rightarrow> bool" where
  "name_char c \<longleftrightarrow> isalnum c \<or> c = CHR ''_''"

text \<open>The name is in the buffer, behind it a NUL.\<close>

definition readname :: "LexState \<Rightarrow> LexState res" where
  "readname ls =
    bindR (checkbuffer (ls\<lparr>lex_buff := []\<rparr>)) (\<lambda>ls.
    bindR (bindR (checkbuffer ls) save_and_next) (\<lambda>ls.
    bindR (save_while name_char ls) (\<lambda>ls.
    save 0 ls)))"

definition read_numeral :: "LexState \<Rightarrow> bool \<Rightarrow> (lua_Number \<times> LexState) res" where
  "read_numeral ls comma =
    bindR (checkbuffer (ls\<lparr>lex_buff := []\<rparr>)) (\<lambda>ls.
    bindR (if comma then save (char2int CHR ''.'') ls else Inr ls) (\<lambda>ls.
    bindR (save_while isdigit ls) (\<lambda>ls.
    bindR (if at ls CHR ''.'' then
             bindR (save_and_next ls) (\<lambda>ls.
               if at ls CHR ''.'' then
                 bindR (save_and_next ls) (\<lambda>ls. bindR (save 0 ls) (\<lambda>ls.
                   luaX_lexerror ls ''ambiguous syntax (decimal point x string concatenation)'' TK_NUMBER))
               else Inr ls)
           else Inr ls) (\<lambda>ls.
    bindR (save_while isdigit ls) (\<lambda>ls.
    bindR (if at ls CHR ''e'' \<or> at ls CHR ''E'' then
             bindR (save_and_next ls) (\<lambda>ls.
             bindR (if at ls CHR ''+'' \<or> at ls CHR ''-'' then save_and_next ls else Inr ls) (\<lambda>ls.
             save_while isdigit ls))
           else Inr ls) (\<lambda>ls.
    bindR (save 0 ls) (\<lambda>ls.
      case luaO_str2d (lex_buff ls) of
        Some r \<Rightarrow> Inr (r, ls)
      | None \<Rightarrow> luaX_lexerror ls ''malformed number'' TK_NUMBER)))))))"

section \<open>Strings\<close>

lemma lex_left_buff [simp]: "lex_left (ls\<lparr>lex_buff := b\<rparr>) = lex_left ls"
  by (simp add: lex_left_def)

text \<open>
  The loop of \<open>read_long_string\<close>; \<open>keep\<close> is \<open>seminfo != NULL\<close>.  It ends at the second of the
  closing brackets.
\<close>

function long_string_loop :: "bool \<Rightarrow> int \<Rightarrow> LexState \<Rightarrow> LexState res" where
  "long_string_loop keep cont ls =
    bindR (checkbuffer ls) (\<lambda>ls.
      if current ls = EOZ then
        bindR (save 0 ls) (\<lambda>ls.
          luaX_lexerror ls (if keep then ''unfinished long string'' else ''unfinished long comment'') TK_EOS)
      else if at ls CHR ''['' then
        bindR (save_and_next ls) (\<lambda>ls.
          if at ls CHR ''[''
          then bindR (save_and_next ls) (\<lambda>ls. long_string_loop keep (cont + 1) ls)
          else long_string_loop keep cont ls)
      else if at ls CHR '']'' then
        bindR (save_and_next ls) (\<lambda>ls.
          if at ls CHR '']'' then
            (if cont = 0 then Inr ls
             else bindR (save_and_next ls) (\<lambda>ls. long_string_loop keep (cont - 1) ls))
          else long_string_loop keep cont ls)
      else if at ls NL then
        bindR (bindR (save (char2int NL) ls) inclinenumber) (\<lambda>ls.
          long_string_loop keep cont (if keep then ls else ls\<lparr>lex_buff := []\<rparr>))
      else bindR (save_and_next ls) (\<lambda>ls. long_string_loop keep cont ls))"
  by pat_completeness auto

termination
proof (relation "measure (\<lambda>(keep, cont, ls). lex_left ls)", goal_cases)
  case (2 keep cont ls ls1 ls2 ls3)
  then show ?case
    by (auto dest!: checkbuffer_left save_and_next_left)
next
  case (4 keep cont ls ls1 ls2 ls3)
  then show ?case
    by (auto dest!: checkbuffer_left save_and_next_left)
next
  case (6 keep cont ls ls1 ls2)
  then show ?case
    by (auto simp: bindR_eq_Inr dest!: checkbuffer_left save_left inclinenumber_left)
qed (auto dest!: checkbuffer_left save_and_next_left)

declare long_string_loop.simps [simp del]

text \<open>The contents of a long string, \<open>None\<close> for a comment.\<close>

definition read_long_string :: "LexState \<Rightarrow> bool \<Rightarrow> (string option \<times> LexState) res" where
  "read_long_string ls keep =
    bindR (checkbuffer (ls\<lparr>lex_buff := []\<rparr>)) (\<lambda>ls.
    bindR (save (char2int CHR ''['') ls) (\<lambda>ls.
    bindR (save_and_next ls) (\<lambda>ls.
    bindR (if at ls NL then inclinenumber ls else Inr ls) (\<lambda>ls.
    bindR (long_string_loop keep 0 ls) (\<lambda>ls.
    bindR (save_and_next ls) (\<lambda>ls.
    bindR (save 0 ls) (\<lambda>ls.
      Inr (if keep then Some (take (length (lex_buff ls) - 5) (drop 2 (lex_buff ls))) else None, ls))))))))"

text \<open>The loop of an escape \<open>\xxx\<close>: up to three digits, \<open>c\<close> the value and \<open>i\<close> the number so far.\<close>

function decimal_escape :: "int \<Rightarrow> nat \<Rightarrow> LexState \<Rightarrow> (int \<times> LexState) res" where
  "decimal_escape c i ls =
    (let c = 10 * c + (current ls - 48)
     in bindR (lex_next ls) (\<lambda>ls.
          if i + 1 < 3 \<and> is_char isdigit (current ls) then decimal_escape c (i + 1) ls else Inr (c, ls)))"
  by pat_completeness auto
termination
  by (relation "measure (\<lambda>(c, i, ls). 3 - i)") auto

declare decimal_escape.simps [simp del]

lemma decimal_escape_left:
  "decimal_escape c i ls = Inr (c', ls') \<Longrightarrow> current ls \<noteq> EOZ \<Longrightarrow> lex_left ls' < lex_left ls"
proof (induction c i ls rule: decimal_escape.induct)
  case (1 c i ls)
  obtain l1 where l1: "lex_next ls = Inr l1"
    and r: "(if i + 1 < 3 \<and> is_char isdigit (current l1)
      then decimal_escape (10 * c + (current ls - 48)) (i + 1) l1
      else Inr (10 * c + (current ls - 48), l1)) = Inr (c', ls')"
    using 1(2) by (subst (asm) decimal_escape.simps) (auto simp: Let_def bindR_eq_Inr)
  note lt = lex_next_left [OF l1 1(3)]
  show ?case
  proof (cases "i + 1 < 3 \<and> is_char isdigit (current l1)")
    case True
    then have "current l1 \<noteq> EOZ" "decimal_escape (10 * c + (current ls - 48)) (i + 1) l1 = Inr (c', ls')"
      using r by auto
    from 1(1) [OF refl l1 True this(2,1)] lt show ?thesis
      by simp
  next
    case False
    then have "ls' = l1"
      using r unfolding if_not_P [OF False] by simp
    with lt show ?thesis
      by simp
  qed
qed

definition UCHAR_MAX :: int where "UCHAR_MAX = 255"

text \<open>The \<open>switch\<close> behind a backslash.\<close>

definition read_escape :: "LexState \<Rightarrow> LexState res" where
  "read_escape ls =
    (if at ls CHR ''a'' then bindR (save 7 ls) lex_next
     else if at ls CHR ''b'' then bindR (save 8 ls) lex_next
     else if at ls CHR ''f'' then bindR (save 12 ls) lex_next
     else if at ls CHR ''n'' then bindR (save 10 ls) lex_next
     else if at ls CHR ''r'' then bindR (save 13 ls) lex_next
     else if at ls CHR ''t'' then bindR (save 9 ls) lex_next
     else if at ls CHR ''v'' then bindR (save 11 ls) lex_next
     else if at ls NL then bindR (save 10 ls) inclinenumber
     else if current ls = EOZ then Inr ls
     else if \<not> is_char isdigit (current ls) then save_and_next ls
     else bindR (decimal_escape 0 0 ls) (\<lambda>(c, ls).
            if UCHAR_MAX < c then
              bindR (save 0 ls) (\<lambda>ls. luaX_lexerror ls ''escape sequence too large'' TK_STRING)
            else save c ls))"

lemma read_escape_left: "read_escape ls = Inr ls' \<Longrightarrow> lex_left ls' \<le> lex_left ls"
  by (auto simp: read_escape_def bindR_eq_Inr luaX_lexerror_def luaX_error_def luaX_errorline_def
      split: if_splits option.splits
      dest!: save_left lex_next_left inclinenumber_left save_and_next_left decimal_escape_left)

text \<open>The main loop of \<open>read_string\<close>; it ends at the delimiter.\<close>

function string_loop :: "char \<Rightarrow> LexState \<Rightarrow> LexState res" where
  "string_loop del ls =
    (if at ls del then Inr ls
     else bindR (checkbuffer ls) (\<lambda>ls.
       if current ls = EOZ then
         bindR (save 0 ls) (\<lambda>ls. luaX_lexerror ls ''unfinished string'' TK_EOS)
       else if at ls NL then
         bindR (save 0 ls) (\<lambda>ls. luaX_lexerror ls ''unfinished string'' TK_STRING)
       else if at ls CHR 0x5C then
         bindR (bindR (lex_next ls) read_escape) (\<lambda>ls. string_loop del ls)
       else bindR (save_and_next ls) (\<lambda>ls. string_loop del ls)))"
  by pat_completeness auto
termination
  by (relation "measure (\<lambda>(del, ls). lex_left ls)")
    (auto simp: bindR_eq_Inr
      dest!: checkbuffer_left save_and_next_left lex_next_left read_escape_left)

declare string_loop.simps [simp del]

definition read_string :: "LexState \<Rightarrow> char \<Rightarrow> (string \<times> LexState) res" where
  "read_string ls del =
    bindR (checkbuffer (ls\<lparr>lex_buff := []\<rparr>)) (\<lambda>ls.
    bindR (save_and_next ls) (\<lambda>ls.
    bindR (string_loop del ls) (\<lambda>ls.
    bindR (save_and_next ls) (\<lambda>ls.
    bindR (save 0 ls) (\<lambda>ls.
      Inr (take (length (lex_buff ls) - 3) (drop 1 (lex_buff ls)), ls))))))"

section \<open>Tokens\<close>

text \<open>The loops \<open>while (LS->current != '\n' && LS->current != EOZ) next(LS);\<close>.\<close>

function skip_line :: "LexState \<Rightarrow> LexState res" where
  "skip_line ls = (if \<not> at ls NL \<and> current ls \<noteq> EOZ then bindR (lex_next ls) skip_line else Inr ls)"
  by pat_completeness auto
termination
  by (relation "measure lex_left") (auto dest!: lex_next_left)

declare skip_line.simps [simp del]

lemma yields_skip_line: "yields (skip_line ls) (\<lambda>l. lex_left l \<le> lex_left ls)"
proof (induction "lex_left ls" arbitrary: ls rule: less_induct)
  case less
  show ?case
  proof (cases "\<not> at ls NL \<and> current ls \<noteq> EOZ")
    case True
    have "yields (bindR (lex_next ls) skip_line) (\<lambda>l. lex_left l \<le> lex_left ls)"
      using True by (intro yields_bind [OF yields_lex_next])
        (auto intro: yields_mono [OF less.hyps] less_imp_le order.trans)
    with True show ?thesis
      by (subst skip_line.simps) simp
  qed (subst skip_line.simps, auto)
qed

lemma yields_luaX_error [simp]:
  "yields (luaX_error ls s tk) Q" "yields (luaX_lexerror ls s k) Q"
  by (auto simp: luaX_lexerror_def luaX_error_def luaX_errorline_def bindR_def split: option.split sum.split)

lemma yields_save_newline:
  "current ls \<noteq> EOZ \<Longrightarrow> yields (bindR (save c ls) inclinenumber) (\<lambda>l. lex_left l < lex_left ls)"
  by (rule yields_bind [OF yields_save]) (metis yields_inclinenumber)

lemma yields_long_string_loop:
  "yields (long_string_loop keep cont ls) (\<lambda>l. lex_left l \<le> lex_left ls \<and> current l \<noteq> EOZ)"
proof (induction "lex_left ls" arbitrary: ls cont rule: less_induct)
  case less
  have IH: "yields (long_string_loop keep k l) (\<lambda>l. lex_left l \<le> lex_left ls \<and> current l \<noteq> EOZ)"
    if "lex_left l < lex_left ls" for k l
    using that by (auto intro: yields_mono [OF less.hyps])
  show ?case
    by (subst long_string_loop.simps)
      (intro yields_bind [OF yields_checkbuffer] yields_if yields_bind [OF yields_save_and_next]
        yields_bind [OF yields_save_newline] yields_bind [OF yields_save] IH;
       simp)
qed

lemma yields_read_long_string:
  "current ls \<noteq> EOZ \<Longrightarrow> yields (read_long_string ls keep) (\<lambda>(s, l). lex_left l < lex_left ls)"
  unfolding read_long_string_def
  by (intro yields_bind [OF yields_checkbuffer] yields_bind [OF yields_save] yields_bind [OF yields_save_and_next]
      yields_bind [OF yields_long_string_loop]
      yields_bind [where P = "\<lambda>l. lex_left l < lex_left ls" and m = "if _ then _ else _"] yields_if;
      fastforce intro: yields_mono [OF yields_inclinenumber])

text \<open>A comment, from its second hyphen on.\<close>

definition skip_comment :: "LexState \<Rightarrow> LexState res" where
  "skip_comment ls =
    bindR (lex_next ls) (\<lambda>ls.
      if at ls CHR ''['' then
        bindR (lex_next ls) (\<lambda>ls.
          if at ls CHR ''['' then bindR (read_long_string ls False) (\<lambda>(_, ls). Inr ls)
          else skip_line ls)
      else skip_line ls)"

lemma yields_skip_comment: "current ls \<noteq> EOZ \<Longrightarrow> yields (skip_comment ls) (\<lambda>l. lex_left l < lex_left ls)"
  unfolding skip_comment_def
  by (intro yields_bind [OF yields_lex_next] yields_if yields_bind [OF yields_read_long_string];
      fastforce intro: yields_mono [OF yields_skip_line])

lemma skip_comment_left: "skip_comment ls = Inr ls' \<Longrightarrow> current ls \<noteq> EOZ \<Longrightarrow> lex_left ls' < lex_left ls"
  using yieldsD [OF yields_skip_comment] .

text \<open>The tokens of one or two characters.\<close>

definition one_or_two :: "LexState \<Rightarrow> char \<Rightarrow> int \<Rightarrow> (int \<times> LexState) res" where
  "one_or_two ls second two =
    (let first = current ls
     in bindR (lex_next ls) (\<lambda>ls.
          if \<not> at ls second then Inr (first, ls) else bindR (lex_next ls) (\<lambda>ls. Inr (two, ls))))"

text \<open>
  \<open>luaX_lex\<close>: the token, what it stores to \<open>seminfo\<close> (which is left as it was for most tokens),
  and the state.
\<close>

function luaX_lex :: "LexState \<Rightarrow> SemInfo \<Rightarrow> (int \<times> SemInfo \<times> LexState) res" where
  "luaX_lex ls si =
    (if at ls NL then bindR (inclinenumber ls) (\<lambda>ls. luaX_lex ls si)
     else if at ls CHR ''-'' then
       bindR (lex_next ls) (\<lambda>ls.
         if \<not> at ls CHR ''-'' then Inr (char2int CHR ''-'', si, ls)
         else bindR (skip_comment ls) (\<lambda>ls. luaX_lex ls si))
     else if at ls CHR ''['' then
       bindR (lex_next ls) (\<lambda>ls.
         if \<not> at ls CHR ''['' then Inr (char2int CHR ''['', si, ls)
         else bindR (read_long_string ls True) (\<lambda>(s, ls). Inr (TK_STRING, SemTs (the s), ls)))
     else if at ls CHR ''='' then bindR (one_or_two ls CHR ''='' TK_EQ) (\<lambda>(k, ls). Inr (k, si, ls))
     else if at ls CHR ''<'' then bindR (one_or_two ls CHR ''='' TK_LE) (\<lambda>(k, ls). Inr (k, si, ls))
     else if at ls CHR ''>'' then bindR (one_or_two ls CHR ''='' TK_GE) (\<lambda>(k, ls). Inr (k, si, ls))
     else if at ls CHR ''~'' then bindR (one_or_two ls CHR ''='' TK_NE) (\<lambda>(k, ls). Inr (k, si, ls))
     else if at ls CHR 0x22 \<or> at ls CHR 0x27 then
       bindR (read_string ls (char_of (nat (current ls)))) (\<lambda>(s, ls). Inr (TK_STRING, SemTs s, ls))
     else if at ls CHR ''.'' then
       bindR (lex_next ls) (\<lambda>ls.
         if at ls CHR ''.'' then
           bindR (lex_next ls) (\<lambda>ls.
             if at ls CHR ''.'' then bindR (lex_next ls) (\<lambda>ls. Inr (TK_DOTS, si, ls))
             else Inr (TK_CONCAT, si, ls))
         else if \<not> is_char isdigit (current ls) then Inr (char2int CHR ''.'', si, ls)
         else bindR (read_numeral ls True) (\<lambda>(r, ls). Inr (TK_NUMBER, SemR r, ls)))
     else if current ls = EOZ then Inr (TK_EOS, si, ls)
     else if is_char isspace (current ls) then bindR (lex_next ls) (\<lambda>ls. luaX_lex ls si)
     else if is_char isdigit (current ls) then
       bindR (read_numeral ls False) (\<lambda>(r, ls). Inr (TK_NUMBER, SemR r, ls))
     else if is_char isalpha (current ls) \<or> at ls CHR ''_'' then
       bindR (readname ls) (\<lambda>ls.
         (let ts = take (length (lex_buff ls) - 1) (lex_buff ls)
          in if 0 < reserved ts then Inr (int (reserved ts) - 1 + FIRST_RESERVED, si, ls)
             else Inr (TK_NAME, SemTs ts, ls)))
     else if is_char iscntrl (current ls) then
       (case luaO_pushvfstring ''char(%d)'' [FmtD (current ls)] of
          Some s \<Rightarrow> luaX_error ls ''invalid control char'' s
        | None \<Rightarrow> Inl OutOfBounds)
     else bindR (lex_next ls) (\<lambda>ls'. Inr (current ls, si, ls')))"
  by pat_completeness auto
termination
  by (relation "measure (\<lambda>(ls, si). lex_left ls)")
    (auto dest!: inclinenumber_left lex_next_left skip_comment_left)

declare luaX_lex.simps [simp del]

text \<open>\<open>luaX_setinput\<close>; \<open>t\<close>, \<open>buff\<close> and \<open>nestlevel\<close> are set by the parser.\<close>

definition luaX_setinput :: "LexState \<Rightarrow> ZIO \<Rightarrow> string \<Rightarrow> LexState res" where
  "luaX_setinput ls z source =
    bindR (lex_next (ls\<lparr>lookahead := \<lparr>token = TK_EOS, seminfo = seminfo (lookahead ls)\<rparr>, lex_z := z,
                        linenumber := 1, lastline := 1, lex_source := source\<rparr>)) (\<lambda>ls.
      if at ls CHR ''#'' then bindR (lex_next ls) skip_line else Inr ls)"

section \<open>No overflow of the buffer, no read past the end\<close>

definition wf_tok :: "Token \<Rightarrow> bool" where
  "wf_tok t \<longleftrightarrow> token t \<le> TK_EOS \<and> (token t = TK_NAME \<longrightarrow> (\<exists>s. seminfo t = SemTs s))"

text \<open>At \<open>EOZ\<close> the stream is not to be used any more.\<close>

definition wf_lex :: "LexState \<Rightarrow> bool" where
  "wf_lex ls \<longleftrightarrow> (current ls = EOZ \<or> (\<exists>c. current ls = char2int c) \<and> wf_zio (lex_z ls)) \<and> wf_tok (tok ls)"

definition room :: "nat \<Rightarrow> LexState \<Rightarrow> bool" where
  "room n ls \<longleftrightarrow> length (lex_buff ls) + n \<le> lex_buffsize ls"

text \<open>
  The scanner between two calls: \<open>n\<close> bytes of the buffer are free, and some of the input that was
  left in the state \<open>s\<close> is read (if \<open>b\<close>).
\<close>

definition scan :: "bool \<Rightarrow> LexState \<Rightarrow> nat \<Rightarrow> LexState \<Rightarrow> bool" where
  "scan b s n l \<longleftrightarrow> wf_lex l \<and> room n l \<and> lex_left l + (if b then 1 else 0) \<le> lex_left s"

lemma room_mono: "room n ls \<Longrightarrow> m \<le> n \<Longrightarrow> room m ls"
  by (simp add: room_def)

lemma wf_lex_buff [simp]: "wf_lex (ls\<lparr>lex_buff := b\<rparr>) = wf_lex ls"
  by (simp add: wf_lex_def)

lemma char2int_range: "0 \<le> char2int c" "char2int c < 256"
proof -
  have "uchar c < 256"
    unfolding uchar_def using of_char_of [of "of_char c :: nat"] of_char_mod_256 [of c]
    by (metis mod_less_divisor zero_less_numeral)
  then show "0 \<le> char2int c" "char2int c < 256"
    by (simp_all add: char2int_def)
qed

lemma lex_next_safe:
  assumes "wf_lex ls" "current ls \<noteq> EOZ"
  shows "ensures (lex_next ls) (\<lambda>l. wf_lex l \<and> lex_left l < lex_left ls \<and> lex_buff l = lex_buff ls \<and>
    lex_buffsize l = lex_buffsize ls)"
proof -
  have w: "wf_zio (lex_z ls)" "wf_tok (tok ls)"
    using assms by (auto simp: wf_lex_def)
  obtain c z where g: "zgetc (lex_z ls) = Inr (c, z)" "c = EOZ \<or> (\<exists>d. c = char2int d) \<and> wf_zio z"
    using zio.getc_cases [OF w(1)] by blast
  have n: "lex_next ls = Inr (ls\<lparr>current := c, lex_z := z\<rparr>)"
    using g(1) by (simp add: lex_next_def)
  then show ?thesis
    using lex_next_left [OF n assms(2)] g(2) w(2) by (simp add: n wf_lex_def)
qed

lemma checkbuffer_safe:
  "wf_lex ls \<Longrightarrow>
   ensures (checkbuffer ls) (\<lambda>l. wf_lex l \<and> lex_left l = lex_left ls \<and> current l = current ls \<and> room 5 l)"
  by (auto simp: checkbuffer_def Let_def luaZ_openspace_def luaM_realloc_def MAXNOCHECK_def EXTRABUFF_def
      LUA_MINBUFFER_def room_def wf_lex_def lex_left_def)

lemma save_room:
  assumes "room (Suc n) ls"
  shows "save c ls = Inr (ls\<lparr>lex_buff := lex_buff ls @ [char_of (nat (c mod 256))]\<rparr>)"
proof -
  have "length (lex_buff ls) < lex_buffsize ls"
    using assms by (simp add: room_def)
  then show ?thesis
    unfolding save_def by (rule if_P)
qed

lemma room_append: "room n (ls\<lparr>lex_buff := lex_buff ls @ [x]\<rparr>) = room (Suc n) ls"
  by (simp add: room_def)

lemma save_safe:
  "wf_lex ls \<Longrightarrow> room (Suc n) ls \<Longrightarrow>
   ensures (save c ls) (\<lambda>l. wf_lex l \<and> lex_left l = lex_left ls \<and> current l = current ls \<and> room n l)"
  by (simp only: save_room ensures_simps room_append) simp

lemma fmt_plain:
  "c \<noteq> CHR ''%'' \<Longrightarrow> luaO_pushvfstring (c # cs) args = map_option (Cons c) (luaO_pushvfstring cs args)"
  by (subst luaO_pushvfstring.simps(2)) (simp only: if_True not_False_eq_True)

lemma fmt_steps:
  "luaO_pushvfstring (CHR ''%'' # CHR ''s'' # cs) (FmtS s # args) = map_option ((@) (cstr s)) (luaO_pushvfstring cs args)"
  "luaO_pushvfstring (CHR ''%'' # CHR ''d'' # cs) (FmtD k # args) =
    map_option ((@) (lua_number2str (num_of_int k))) (luaO_pushvfstring cs args)"
  "luaO_pushvfstring (CHR ''%'' # CHR ''c'' # cs) (FmtC k # args) =
    map_option ((@) (cstr [char_of (nat (k mod 256))])) (luaO_pushvfstring cs args)"
  by (subst luaO_pushvfstring.simps(2), simp del: luaO_pushvfstring.simps)+

lemma fmt_total:
  "\<exists>m. luaO_pushvfstring (''%s:%d: %s near `%s'' @ [CHR 0x27]) [FmtS a, FmtD b, FmtS c, FmtS d] = Some m"
  "\<exists>m. luaO_pushvfstring ''too many %s (limit=%d)'' [FmtS a, FmtD b] = Some m"
  "\<exists>m. luaO_pushvfstring ''%c'' [FmtC b] = Some m"
  "\<exists>m. luaO_pushvfstring ''char(%d)'' [FmtD b] = Some m"
  by (simp_all add: fmt_plain fmt_steps del: luaO_pushvfstring.simps(2))

lemma luaX_error_safe [simp]: "ensures (luaX_error ls s tk) Q"
  using fmt_total(1) [of "luaO_chunkid (lex_source ls) MAXSRC" "linenumber ls" s tk]
  by (auto simp: luaX_error_def luaX_errorline_def simp del: luaO_pushvfstring.simps)

lemma token2str_safe: "k \<le> TK_EOS \<Longrightarrow> ensures (luaX_token2str k) (\<lambda>_. True)"
  using fmt_total(3) [of k]
  by (auto simp: luaX_token2str_def token2string_def token_defs nat_less_iff simp del: luaO_pushvfstring.simps)

lemma luaX_lexerror_safe [simp]: "k \<le> TK_EOS \<Longrightarrow> ensures (luaX_lexerror ls s k) Q"
  by (auto simp: luaX_lexerror_def intro: ensures_bind [OF token2str_safe])

lemma luaX_syntaxerror_safe: "wf_tok (tok ls) \<Longrightarrow> ensures (luaX_syntaxerror ls msg) Q"
  unfolding luaX_syntaxerror_def
  by (intro ensures_bind [where P = "\<lambda>_. True"] ensures_if)
    (auto simp: wf_tok_def intro: token2str_safe)

text \<open>
  One rule for each call; the proofs below apply them in the order of the calls.
\<close>

named_theorems scan_rules "rules for the calls of the scanner"

lemma scan_bind:
  "ensures m P \<Longrightarrow> (\<And>l. P l \<Longrightarrow> ensures (f l) Q) \<Longrightarrow> ensures (bindR m f) Q"
  by (rule ensures_bind)

lemma scan_weaken: "scan b s n l \<Longrightarrow> m \<le> n \<Longrightarrow> b \<or> \<not> c \<Longrightarrow> scan c s m l"
  by (auto simp: scan_def room_def)

lemma scan_start: "wf_lex ls \<Longrightarrow> scan False ls 0 (ls\<lparr>lex_buff := []\<rparr>)"
  by (simp add: scan_def room_def)

lemma next_scan:
  assumes "scan b s n ls" "current ls \<noteq> EOZ"
  shows "ensures (lex_next ls) (scan True s n)"
  by (rule ensures_mono [OF lex_next_safe]) (use assms in \<open>auto simp: scan_def room_def\<close>)

lemma save_scan:
  assumes "scan b s n ls" "0 < n"
  shows "ensures (save c ls) (\<lambda>l. scan b s (n - 1) l \<and> current l = current ls)"
  by (rule ensures_mono [OF save_safe [where n = "n - 1"]]) (use assms in \<open>auto simp: scan_def\<close>)

lemma save_and_next_scan:
  assumes "scan b s n ls" "current ls \<noteq> EOZ" "0 < n"
  shows "ensures (save_and_next ls) (scan True s (n - 1))"
  unfolding save_and_next_def
  by (rule ensures_bind [OF save_scan [OF assms(1,3)]]) (use assms in \<open>auto intro: next_scan\<close>)

lemma check_scan:
  assumes "scan b s n ls"
  shows "ensures (checkbuffer ls) (\<lambda>l. scan b s 5 l \<and> current l = current ls)"
  by (rule ensures_mono [OF checkbuffer_safe]) (use assms in \<open>auto simp: scan_def\<close>)

lemma inclinenumber_scan:
  assumes "scan b s n ls" "current ls \<noteq> EOZ"
  shows "ensures (inclinenumber ls) (scan True s n)"
  unfolding inclinenumber_def
proof (rule ensures_bind [OF next_scan [OF assms]])
  fix l
  assume l: "scan True s n l"
  define m where "m = l\<lparr>linenumber := linenumber l + 1\<rparr>"
  have m: "scan True s n m" "wf_tok (tok m)"
    using l by (simp_all add: m_def scan_def wf_lex_def room_def lex_left_def)
  have "ensures (luaX_checklimit m (linenumber m) MAX_INT ''lines in a chunk'') (\<lambda>_. True)"
    using luaX_syntaxerror_safe [OF m(2)] fmt_total(2) [of "''lines in a chunk''" MAX_INT]
    by (auto simp: luaX_checklimit_def simp del: luaO_pushvfstring.simps)
  then show "ensures (let ls = l\<lparr>linenumber := linenumber l + 1\<rparr>
      in bindR (luaX_checklimit ls (linenumber ls) MAX_INT ''lines in a chunk'') (\<lambda>_. Inr ls)) (scan True s n)"
    using m(1) by (simp add: Let_def flip: m_def) (erule ensures_bind, simp)
qed

lemma scan_rules_calls [scan_rules]:
  "scan b s n ls \<Longrightarrow> current ls \<noteq> EOZ \<Longrightarrow> (\<And>l. scan True s n l \<Longrightarrow> ensures (f l) Q) \<Longrightarrow>
   ensures (bindR (lex_next ls) f) Q"
  "scan b s n ls \<Longrightarrow> 0 < n \<Longrightarrow> (\<And>l. scan b s (n - 1) l \<Longrightarrow> current l = current ls \<Longrightarrow> ensures (f l) Q) \<Longrightarrow>
   ensures (bindR (save c ls) f) Q"
  "scan b s n ls \<Longrightarrow> current ls \<noteq> EOZ \<Longrightarrow> 0 < n \<Longrightarrow> (\<And>l. scan True s (n - 1) l \<Longrightarrow> ensures (f l) Q) \<Longrightarrow>
   ensures (bindR (save_and_next ls) f) Q"
  "scan b s n ls \<Longrightarrow> (\<And>l. scan b s 5 l \<Longrightarrow> current l = current ls \<Longrightarrow> ensures (f l) Q) \<Longrightarrow>
   ensures (bindR (checkbuffer ls) f) Q"
  "scan b s n ls \<Longrightarrow> current ls \<noteq> EOZ \<Longrightarrow> (\<And>l. scan True s n l \<Longrightarrow> ensures (f l) Q) \<Longrightarrow>
   ensures (bindR (inclinenumber ls) f) Q"
  by (rule ensures_bind, (rule next_scan save_scan save_and_next_scan check_scan inclinenumber_scan; assumption),
      blast)+

lemma is_char_nonEOZ: "is_char p k \<Longrightarrow> k \<noteq> EOZ"
  by auto

lemma scan_refl: "wf_lex ls \<Longrightarrow> room n ls \<Longrightarrow> scan False ls n ls"
  by (simp add: scan_def)

lemma scan_wf: "scan b s n ls \<Longrightarrow> wf_lex ls" "scan b s n ls \<Longrightarrow> room n ls"
  by (simp_all add: scan_def)

lemma scan_trans: "scan b s n ls \<Longrightarrow> scan c ls m l \<Longrightarrow> scan (b \<or> c) s m l"
  by (auto simp: scan_def split: if_splits)

lemma scan_less: "scan True ls n l \<Longrightarrow> lex_left l < lex_left ls"
  by (simp add: scan_def)

text \<open>A loop can be specified from its own first state.\<close>

lemma scan_transfer:
  assumes "\<And>ls. wf_lex ls \<Longrightarrow> room n ls \<Longrightarrow> ensures (f ls) (scan (c ls) ls m)" "scan b s n ls"
  shows "ensures (f ls) (scan (b \<or> c ls) s m)"
  by (rule ensures_mono [OF assms(1) [OF scan_wf [OF assms(2)]]]) (rule scan_trans [OF assms(2)])

lemma save_while_safe:
  "wf_lex ls \<Longrightarrow> room n ls \<Longrightarrow> n \<le> 4 \<Longrightarrow> ensures (save_while p ls) (scan (is_char p (current ls)) ls n)"
proof (induction "lex_left ls" arbitrary: ls rule: less_induct)
  case less
  show ?case
  proof (cases "is_char p (current ls)")
    case True
    have IH: "ensures (save_while p l) (scan True ls n)" if l: "scan True ls (5 - 1) l" for l
      using less.hyps [OF scan_less [OF l] scan_wf(1) [OF l] room_mono [OF scan_wf(2) [OF l]] less.prems(3)]
        less.prems(3) scan_trans [OF l] by (fastforce elim: ensures_mono)
    have "ensures (bindR (checkbuffer ls) save_and_next) (scan True ls (5 - 1))"
      by (rule scan_rules_calls(4) [OF scan_refl [OF less.prems(1,2)]])
        (use is_char_nonEOZ [OF True] in \<open>auto intro!: save_and_next_scan [where n = 5, simplified]\<close>)
    from ensures_bind [OF this IH] True show ?thesis
      by (subst save_while.simps) simp
  qed (use less.prems in \<open>simp add: save_while.simps scan_refl\<close>)
qed

lemma save_while_scan:
  "scan b s n ls \<Longrightarrow> n \<le> 4 \<Longrightarrow> ensures (save_while p ls) (scan (b \<or> is_char p (current ls)) s n)"
  by (rule scan_transfer [where n = n]) (simp_all add: save_while_safe)

lemma check_save_scan:
  assumes "scan b s n ls" "current ls \<noteq> EOZ"
  shows "ensures (bindR (checkbuffer ls) save_and_next) (scan True s 4)"
  by (rule scan_rules_calls(4) [OF assms(1)])
    (use assms(2) in \<open>auto intro!: save_and_next_scan [where n = 5, simplified]\<close>)

lemma save_while_bind [scan_rules]:
  "scan b s n ls \<Longrightarrow> n \<le> 4 \<Longrightarrow> (\<And>l. scan (b \<or> is_char p (current ls)) s n l \<Longrightarrow> ensures (f l) Q) \<Longrightarrow>
   ensures (bindR (save_while p ls) f) Q"
  by (rule ensures_bind [OF save_while_scan])

lemma check_save_bind [scan_rules]:
  "scan b s n ls \<Longrightarrow> current ls \<noteq> EOZ \<Longrightarrow> (\<And>l. scan True s 4 l \<Longrightarrow> ensures (f l) Q) \<Longrightarrow>
   ensures (bindR (bindR (checkbuffer ls) save_and_next) f) Q"
  by (rule ensures_bind [OF check_save_scan])

text \<open>The last call of a function.\<close>

lemma scan_ends [scan_rules]:
  "scan b s n ls \<Longrightarrow> m < n \<Longrightarrow> c \<longrightarrow> b \<Longrightarrow> ensures (save k ls) (scan c s m)"
  "scan b s n ls \<Longrightarrow> m \<le> n \<Longrightarrow> current ls \<noteq> EOZ \<Longrightarrow> ensures (lex_next ls) (scan c s m)"
  "scan b s n ls \<Longrightarrow> m < n \<Longrightarrow> current ls \<noteq> EOZ \<Longrightarrow> ensures (save_and_next ls) (scan c s m)"
  "scan b s n ls \<Longrightarrow> m \<le> n \<Longrightarrow> current ls \<noteq> EOZ \<Longrightarrow> ensures (inclinenumber ls) (scan c s m)"
     apply (rule ensures_mono [OF save_scan [of b s n ls]]; auto elim!: scan_weaken)
    apply (rule ensures_mono [OF next_scan [of b s n ls]]; auto elim!: scan_weaken)
   apply (rule ensures_mono [OF save_and_next_scan [of b s n ls]]; auto elim!: scan_weaken)
  apply (rule ensures_mono [OF inclinenumber_scan [of b s n ls]]; auto elim!: scan_weaken)
  done

lemma readname_safe:
  assumes "wf_lex ls" "current ls \<noteq> EOZ"
  shows "ensures (readname ls) (scan True ls 3)"
  unfolding readname_def
  by (insert assms(2), rule scan_rules [OF scan_start [OF assms(1)]])
    (rule scan_rules | assumption | simp; fail)+

lemma scan_if [scan_rules]:
  "(c \<Longrightarrow> ensures m Q) \<Longrightarrow> (\<not> c \<Longrightarrow> ensures n Q) \<Longrightarrow> ensures (if c then m else n) Q"
  by simp

lemma scan_Inr [scan_rules]: "scan b s n l \<Longrightarrow> m \<le> n \<Longrightarrow> c \<longrightarrow> b \<Longrightarrow> ensures (Inr l) (scan c s m)"
  by (auto elim: scan_weaken)

lemma save_while_end [scan_rules]:
  "scan b s n ls \<Longrightarrow> m \<le> n \<Longrightarrow> n \<le> 4 \<Longrightarrow> c \<longrightarrow> b \<Longrightarrow> ensures (save_while p ls) (scan c s m)"
  by (rule ensures_mono [OF save_while_scan]) (auto elim: scan_weaken)

lemma lexerror_end [scan_rules]: "k \<le> TK_EOS \<Longrightarrow> ensures (luaX_lexerror ls m k) Q"
  by (rule luaX_lexerror_safe)

lemma TK_le [simp]: "TK_NUMBER \<le> TK_EOS" "TK_STRING \<le> TK_EOS"
  by (simp_all add: token_defs)

text \<open>The optional parts of a numeral.\<close>

lemma numeral_point:
  "scan True s 4 l \<Longrightarrow>
   ensures (if at l CHR ''.'' then
              bindR (save_and_next l) (\<lambda>ls.
                if at ls CHR ''.'' then
                  bindR (save_and_next ls) (\<lambda>ls. bindR (save 0 ls) (\<lambda>ls. luaX_lexerror ls m TK_NUMBER))
                else Inr ls)
            else Inr l) (scan True s 3)"
  by (rule scan_rules | assumption | simp; fail)+

lemma numeral_exponent:
  "scan True s 3 l \<Longrightarrow>
   ensures (if at l CHR ''e'' \<or> at l CHR ''E'' then
             bindR (save_and_next l) (\<lambda>ls.
             bindR (if at ls CHR ''+'' \<or> at ls CHR ''-'' then save_and_next ls else Inr ls) (\<lambda>ls.
             save_while isdigit ls))
           else Inr l) (scan True s 1)"
  by (rule ensures_bind [where P = "scan True s 1" and m = "if _ then _ else _"] scan_rules | assumption
      | (auto; fail))+

lemma read_numeral_safe:
  assumes "wf_lex ls" "is_char isdigit (current ls)"
  shows "ensures (read_numeral ls comma) (\<lambda>(r, l). scan True ls 0 l)"
proof -
  have comma: "ensures (if comma then save (char2int CHR ''.'') l else Inr l)
      (\<lambda>k. scan False ls 4 k \<and> current k = current ls)" if "scan False ls 5 l" "current l = current ls" for l
    using that by (auto intro!: ensures_mono [OF save_scan [where n = 5]] elim: scan_weaken)
  have digits: "ensures (save_while isdigit k) (scan True ls 4)"
    if "scan False ls 4 k \<and> current k = current ls" for k
    using save_while_scan [of False ls 4 k isdigit] that assms(2) by simp
  have last: "ensures (bindR (save 0 l) (\<lambda>ls. case luaO_str2d (lex_buff ls) of
        Some r \<Rightarrow> Inr (r, ls)
      | None \<Rightarrow> luaX_lexerror ls ''malformed number'' TK_NUMBER)) (\<lambda>(r, l). scan True ls 0 l)"
    if "scan True ls 1 l" for l
    by (rule scan_rules_calls(2) [OF that]) (auto split: option.split)
  show ?thesis
    unfolding read_numeral_def
    by (rule scan_rules_calls(4) [OF scan_start [OF assms(1)]] ensures_bind [OF comma] ensures_bind [OF digits]
        ensures_bind [OF numeral_point] ensures_bind [OF numeral_exponent] last
        save_while_bind | assumption | simp; fail)+
qed

lemma save_newline_bind [scan_rules]:
  assumes "scan b s n ls" "0 < n" "current ls \<noteq> EOZ" "\<And>l. scan True s (n - 1) l \<Longrightarrow> ensures (f l) Q"
  shows "ensures (bindR (bindR (save c ls) inclinenumber) f) Q"
proof (rule ensures_bind)
  show "ensures (bindR (save c ls) inclinenumber) (scan True s (n - 1))"
    by (rule ensures_bind [OF save_scan [OF assms(1,2)]]) (use assms(3) in \<open>auto intro: inclinenumber_scan\<close>)
qed (rule assms(4))

lemma scan_loop_end [scan_rules]:
  "scan b s n l \<Longrightarrow> m \<le> n \<Longrightarrow> current l \<noteq> EOZ \<Longrightarrow> ensures (Inr l) (\<lambda>l. scan False s m l \<and> current l \<noteq> EOZ)"
  by (auto elim: scan_weaken)

lemma long_string_loop_safe:
  "wf_lex ls \<Longrightarrow> ensures (long_string_loop keep cont ls) (\<lambda>l. scan False ls 4 l \<and> current l \<noteq> EOZ)"
proof (induction "lex_left ls" arbitrary: ls cont rule: less_induct)
  case less
  have IH: "ensures (long_string_loop keep k l) (\<lambda>l. scan False ls 4 l \<and> current l \<noteq> EOZ)"
    if l: "scan True ls n l" for k l n
    by (rule ensures_mono [OF less.hyps [OF scan_less [OF l] scan_wf(1) [OF l]]])
      (auto dest: scan_trans [OF l] elim: scan_weaken)
  have reset: "scan True ls 0 (if keep then l else l\<lparr>lex_buff := []\<rparr>)" if "scan True ls n l" for l n
    using that by (auto simp: scan_def room_def)
  have check: "ensures (checkbuffer ls) (\<lambda>l. scan False ls 5 l \<and> current l = current ls)"
    by (rule ensures_mono [OF checkbuffer_safe [OF less.prems]]) (auto simp: scan_def)
  show ?case
    unfolding long_string_loop.simps [of keep cont ls]
    by (rule ensures_bind [OF check], erule conjE)
      (rule scan_rules IH IH [OF reset] | assumption | simp; fail)+
qed

lemma read_long_string_safe:
  assumes "wf_lex ls" "current ls \<noteq> EOZ"
  shows "ensures (read_long_string ls keep) (\<lambda>(_, l). scan True ls 2 l)"
proof -
  have newline: "ensures (if at l NL then inclinenumber l else Inr l) (scan True ls 3)" if "scan True ls 3 l" for l
    using that by (auto intro: inclinenumber_scan)
  have loop: "ensures (long_string_loop keep 0 l) (\<lambda>l. scan True ls 4 l \<and> current l \<noteq> EOZ)" if "scan True ls 3 l" for l
    by (rule ensures_mono [OF long_string_loop_safe [OF scan_wf(1) [OF that]]])
      (use scan_trans [OF that, of False 4] in auto)
  show ?thesis
    unfolding read_long_string_def
    by (insert assms(2))
      (rule scan_rules_calls(4) [OF scan_start [OF assms(1)]] ensures_bind [OF newline] ensures_bind [OF loop]
        scan_rules | assumption | erule conjE | simp; fail)+
qed

lemma decimal_escape_safe:
  "wf_lex ls \<Longrightarrow> current ls \<noteq> EOZ \<Longrightarrow> room n ls \<Longrightarrow> ensures (decimal_escape c i ls) (\<lambda>(_, l). scan True ls n l)"
proof (induction "3 - i" arbitrary: c i ls rule: less_induct)
  case less
  have IH: "ensures (decimal_escape c' (i + 1) l) (\<lambda>(_, k). scan True ls n k)"
    if l: "scan True ls n l" "i + 1 < 3 \<and> is_char isdigit (current l)" for l c'
  proof (rule ensures_mono [OF less.hyps [of "i + 1" l c']])
    show "3 - (i + 1) < 3 - i" "wf_lex l" "current l \<noteq> EOZ" "room n l"
      using l scan_wf [OF l(1)] is_char_nonEOZ by auto
  qed (use scan_trans [OF l(1)] in auto)
  show ?case
    by (subst decimal_escape.simps, simp only: Let_def)
      (rule scan_rules_calls(1) [OF scan_refl [OF less.prems(1,3)] less.prems(2)], rule scan_if,
       erule (1) IH, simp)
qed

lemma decimal_escape_bind [scan_rules]:
  "scan b s n ls \<Longrightarrow> current ls \<noteq> EOZ \<Longrightarrow> (\<And>k l. scan True s n l \<Longrightarrow> ensures (f (k, l)) Q) \<Longrightarrow>
   ensures (bindR (decimal_escape c i ls) f) Q"
  by (rule ensures_bind [OF decimal_escape_safe [of ls n]])
    (auto dest: scan_wf scan_trans)

lemma read_escape_scan:
  "scan b s 5 ls \<Longrightarrow> ensures (read_escape ls) (scan b s 4)"
  unfolding read_escape_def
  by (simp only: prod.case | rule scan_rules | assumption | simp; fail)+

lemma string_loop_safe:
  "wf_lex ls \<Longrightarrow> room 4 ls \<Longrightarrow> ensures (string_loop del ls) (\<lambda>l. scan False ls 4 l \<and> current l \<noteq> EOZ)"
proof (induction "lex_left ls" arbitrary: ls rule: less_induct)
  case less
  have IH: "ensures (string_loop del l) (\<lambda>l. scan False ls 4 l \<and> current l \<noteq> EOZ)"
    if l: "scan True ls 4 l" for l
    by (rule ensures_mono [OF less.hyps [OF scan_less [OF l] scan_wf [OF l]]])
      (auto dest: scan_trans [OF l] elim: scan_weaken)
  have escape: "ensures (bindR (lex_next l) read_escape) (scan True ls 4)" if "scan False ls 5 l" "current l \<noteq> EOZ" for l
    by (rule scan_rules_calls(1) [OF that read_escape_scan])
  show ?case
    by (subst string_loop.simps)
      (rule scan_rules scan_rules_calls(4) [OF scan_refl [OF less.prems]] ensures_bind [OF escape] IH
        scan_loop_end [OF scan_refl [OF less.prems]] | assumption | simp; fail)+
qed

lemma read_string_safe:
  assumes "wf_lex ls" "current ls \<noteq> EOZ"
  shows "ensures (read_string ls del) (\<lambda>(_, l). scan True ls 2 l)"
proof -
  have loop: "ensures (string_loop del l) (\<lambda>l. scan True ls 4 l \<and> current l \<noteq> EOZ)" if "scan True ls (5 - 1) l" for l
    by (rule ensures_mono [OF string_loop_safe])
      (use scan_wf [OF that] scan_trans [OF that, of False 4] in auto)
  show ?thesis
    unfolding read_string_def
    by (insert assms(2))
      (rule scan_rules_calls(4) [OF scan_start [OF assms(1)]] ensures_bind [OF loop]
        scan_rules | assumption | erule conjE | simp; fail)+
qed

lemma skip_line_safe: "wf_lex ls \<Longrightarrow> room n ls \<Longrightarrow> ensures (skip_line ls) (scan False ls n)"
proof (induction "lex_left ls" arbitrary: ls rule: less_induct)
  case less
  have IH: "ensures (skip_line l) (scan False ls n)" if l: "scan True ls n l" for l
    by (rule ensures_mono [OF less.hyps [OF scan_less [OF l] scan_wf [OF l]]])
      (auto dest: scan_trans [OF l] elim: scan_weaken)
  show ?case
    by (subst skip_line.simps)
      (rule scan_if scan_rules_calls(1) [OF scan_refl [OF less.prems]] IH scan_Inr [OF scan_refl [OF less.prems]]
        | assumption | simp; fail)+
qed

lemma skip_line_scan [scan_rules]: "scan True s n ls \<Longrightarrow> m \<le> n \<Longrightarrow> ensures (skip_line ls) (scan True s m)"
  by (rule ensures_mono [OF skip_line_safe [where n = n]])
    (use scan_wf scan_trans [of True s n ls False n] in \<open>simp_all, blast intro: scan_weaken\<close>)

lemma read_long_string_bind [scan_rules]:
  "scan True s n ls \<Longrightarrow> current ls \<noteq> EOZ \<Longrightarrow> (\<And>x l. scan True s 2 l \<Longrightarrow> ensures (f (x, l)) Q) \<Longrightarrow>
   ensures (bindR (read_long_string ls keep) f) Q"
  by (rule ensures_bind [OF read_long_string_safe]) (auto dest: scan_wf scan_trans)

lemma skip_comment_scan: "scan True s n ls \<Longrightarrow> current ls \<noteq> EOZ \<Longrightarrow> ensures (skip_comment ls) (scan True s 0)"
  unfolding skip_comment_def
  by (simp only: prod.case | rule scan_rules | assumption | simp; fail)+

text \<open>
  The result of the scanner: a token other than \<open>TK_EOS\<close> has taken some of the input, and
  \<open>TK_EOS\<close> is the end of it.
\<close>

definition scanned :: "LexState \<Rightarrow> int \<times> SemInfo \<times> LexState \<Rightarrow> bool" where
  "scanned ls r = (case r of (k, si, l) \<Rightarrow> wf_lex l \<and> room 0 l \<and> 0 \<le> k \<and> wf_tok \<lparr>token = k, seminfo = si\<rparr> \<and>
     lex_left l \<le> lex_left ls \<and> (if k = TK_EOS then current l = EOZ else lex_left l < lex_left ls))"

lemma scanned_end:
  "scan True ls n l \<Longrightarrow> 0 \<le> k \<Longrightarrow> k < TK_EOS \<Longrightarrow> k = TK_NAME \<longrightarrow> (\<exists>s. si = SemTs s) \<Longrightarrow>
   ensures (Inr (k, si, l)) (scanned ls)"
  by (auto simp: scan_def scanned_def wf_tok_def room_def)

lemma char_below_tokens [simp]: "char2int c < TK_EOS" "char2int c \<noteq> TK_NAME"
  using char2int_range [of c] by (simp_all add: token_defs)

lemma scanned_char: "scan True ls n l \<Longrightarrow> ensures (Inr (char2int c, si, l)) (scanned ls)"
  by (rule scanned_end) (simp_all add: char2int_range)

lemma one_or_two_scanned:
  assumes "wf_lex ls" "room 0 ls" "at ls c" "two \<in> {TK_EQ, TK_LE, TK_GE, TK_NE}"
  shows "ensures (bindR (one_or_two ls second two) (\<lambda>(k, l). Inr (k, si, l))) (scanned ls)"
proof -
  have "two \<noteq> TK_NAME" "0 \<le> two" "two < TK_EOS"
    using assms(4) by (auto simp: token_defs)
  then show ?thesis
    using assms(3)
    by (simp only: one_or_two_def Let_def bindR_assoc if_distribR)
      (rule scan_rules_calls(1) [OF scan_refl [OF assms(1,2)]], simp, subst if_distrib [of "\<lambda>m. bindR m _"],
       simp only: bindR_simps prod.case bindR_assoc,
       (rule scan_rules scanned_char scanned_end | assumption | simp; fail)+)
qed

lemma scanned_current:
  assumes "wf_lex ls" "current ls \<noteq> EOZ" "scan True ls n l"
  shows "ensures (Inr (current ls, si, l)) (scanned ls)"
proof -
  obtain c where "current ls = char2int c"
    using assms(1,2) by (auto simp: wf_lex_def)
  then show ?thesis
    using scanned_char [OF assms(3)] by simp
qed

lemma reserved_le: "reserved s \<le> 21"
proof (cases "map_of luaX_init s")
  case (Some r)
  then have "(s, r) \<in> set luaX_init"
    by (rule map_of_SomeD)
  then show ?thesis
    using Some by (auto simp: reserved_def luaX_init_def NUM_RESERVED_def token_defs)
qed (simp add: reserved_def)

lemma char_token: "is_char (\<lambda>_. True) (current ls) \<Longrightarrow> wf_lex ls \<Longrightarrow> 0 \<le> current ls \<and> current ls < 256"
  using char2int_range by (auto simp: wf_lex_def EOZ_def is_char_def)

lemma token_order [simp]:
  "0 \<le> TK_CONCAT" "0 \<le> TK_DOTS" "0 \<le> TK_NUMBER" "0 \<le> TK_STRING" "0 \<le> TK_NAME"
  "TK_CONCAT < TK_EOS" "TK_DOTS < TK_EOS" "TK_NUMBER < TK_EOS" "TK_STRING < TK_EOS" "TK_NAME < TK_EOS"
  "TK_CONCAT \<noteq> TK_NAME" "TK_DOTS \<noteq> TK_NAME" "TK_NUMBER \<noteq> TK_NAME" "TK_STRING \<noteq> TK_NAME"
  by (simp_all add: token_defs)

lemma scan_rules_values [scan_rules]:
  "wf_lex ls \<Longrightarrow> current ls \<noteq> EOZ \<Longrightarrow> (\<And>x l. scan True ls 2 l \<Longrightarrow> ensures (f (x, l)) Q) \<Longrightarrow>
   ensures (bindR (read_string ls del) f) Q"
  "scan True s n ls \<Longrightarrow> is_char isdigit (current ls) \<Longrightarrow> (\<And>x l. scan True s 0 l \<Longrightarrow> ensures (g (x, l)) R) \<Longrightarrow>
   ensures (bindR (read_numeral ls True) g) R"
  "wf_lex ls \<Longrightarrow> is_char isdigit (current ls) \<Longrightarrow> (\<And>x l. scan True ls 0 l \<Longrightarrow> ensures (g (x, l)) R) \<Longrightarrow>
   ensures (bindR (read_numeral ls False) g) R"
  by (rule ensures_bind [OF read_string_safe]; auto)
    (rule ensures_bind [OF read_numeral_safe]; auto dest: scan_wf scan_trans)+

lemma name_scanned:
  assumes "wf_lex ls" "is_char isalpha (current ls) \<or> at ls CHR ''_''"
  shows "ensures (bindR (readname ls) (\<lambda>ls.
      let ts = take (length (lex_buff ls) - 1) (lex_buff ls)
      in if 0 < reserved ts then Inr (int (reserved ts) - 1 + FIRST_RESERVED, si, ls)
         else Inr (TK_NAME, SemTs ts, ls))) (scanned ls)"
proof (rule ensures_bind [OF readname_safe [OF assms(1)]])
  show "current ls \<noteq> EOZ"
    using assms(2) by auto
  fix l
  assume l: "scan True ls 3 l"
  define ts where "ts = take (length (lex_buff l) - 1) (lex_buff l)"
  have "int (reserved ts) - 1 + FIRST_RESERVED < TK_NAME" "0 < reserved ts \<Longrightarrow> 0 \<le> int (reserved ts) - 1 + FIRST_RESERVED"
    using reserved_le [of ts] by (simp_all add: token_defs)
  then show "ensures (let ts = take (length (lex_buff l) - 1) (lex_buff l)
      in if 0 < reserved ts then Inr (int (reserved ts) - 1 + FIRST_RESERVED, si, l)
         else Inr (TK_NAME, SemTs ts, l)) (scanned ls)"
    unfolding Let_def ts_def [symmetric]
    by (intro scan_if; intro scanned_end [OF l]) (auto simp: order.strict_trans [OF _ token_order(10)])
qed

lemma control_char_safe:
  "ensures (case luaO_pushvfstring ''char(%d)'' [FmtD k] of
      Some s \<Rightarrow> luaX_error ls m s | None \<Rightarrow> Inl OutOfBounds) Q"
  using fmt_total(4) [of k] by (auto simp del: luaO_pushvfstring.simps)

lemma scanned_EOZ: "wf_lex ls \<Longrightarrow> room 0 ls \<Longrightarrow> current ls = EOZ \<Longrightarrow> ensures (Inr (TK_EOS, si, ls)) (scanned ls)"
  by (simp add: scanned_def wf_tok_def) (simp add: token_defs)

lemma at_either_EOZ: "at ls c \<or> at ls d \<Longrightarrow> current ls \<noteq> EOZ"
  by auto

lemma luaX_lex_safe: "wf_lex ls \<Longrightarrow> room 0 ls \<Longrightarrow> ensures (luaX_lex ls si) (scanned ls)"
proof (induction "lex_left ls" arbitrary: ls rule: less_induct)
  case less
  have IH: "ensures (luaX_lex l si) (scanned ls)" if l: "scan True ls n l" for l n
    by (rule ensures_mono [OF less.hyps [OF scan_less [OF l] scan_wf(1) [OF l]]])
      (use scan_less [OF l] room_mono [OF scan_wf(2) [OF l]] in \<open>auto simp: scanned_def\<close>)
  note start = scan_refl [OF less.prems]
  show ?case
    by (insert less.prems(1), subst luaX_lex.simps)
      (rule scan_rules_calls [OF start] IH scanned_char scanned_EOZ [OF less.prems] scanned_end
        scanned_current [OF less.prems(1)] scan_rules name_scanned control_char_safe
        ensures_bind [OF skip_comment_scan] one_or_two_scanned [OF less.prems]
      | assumption | erule at_either_EOZ | (simp; fail) | simp only: prod.case not_not)+
qed

section \<open>What is scanned\<close>

text \<open>The bytes from the current one on.\<close>

definition input :: "LexState \<Rightarrow> string" where
  "input ls = (if current ls = EOZ then [] else char_of (nat (current ls)) # stream (lex_z ls))"

lemma char_of_char2int [simp]: "char_of (nat (char2int c)) = c"
  by (simp add: char2int_def uchar_def)

lemma input_Cons:
  assumes "wf_lex ls" "input ls = c # cs"
  shows "at ls c" "stream (lex_z ls) = cs" "wf_zio (lex_z ls)"
  using assms by (auto simp: input_def wf_lex_def split: if_splits)

lemma input_Nil: "input ls = [] \<longleftrightarrow> current ls = EOZ"
  by (simp add: input_def)

lemma lex_next_input:
  assumes "wf_lex ls" "input ls = c # cs"
  shows "\<exists>l. lex_next ls = Inr l \<and> wf_lex l \<and> input l = cs \<and> lex_buff l = lex_buff ls \<and>
    lex_buffsize l = lex_buffsize ls"
proof -
  note i = input_Cons [OF assms]
  show ?thesis
  proof (cases cs)
    case Nil
    then obtain z where "zgetc (lex_z ls) = Inr (EOZ, z)"
      using zio.getc_EOZ [OF i(3)] i(2) by blast
    then show ?thesis
      using assms(1) Nil by (simp add: lex_next_def wf_lex_def input_def)
  next
    case (Cons d ds)
    then obtain z where "zgetc (lex_z ls) = Inr (char2int d, z)" "wf_zio z" "stream z = ds"
      using zio.getc_some [OF i(3)] i(2) by blast
    then show ?thesis
      using assms(1) Cons by (auto simp: lex_next_def wf_lex_def input_def)
  qed
qed

lemma input_buff [simp]: "input (ls\<lparr>lex_buff := b\<rparr>) = input ls" "input (ls\<lparr>lex_buffsize := n\<rparr>) = input ls"
  "wf_lex (ls\<lparr>lex_buffsize := n\<rparr>) = wf_lex ls"
  by (simp_all add: input_def wf_lex_def)

lemma checkbuffer_ok:
  "length (lex_buff ls) + 40 < MAX_SIZET \<Longrightarrow>
   \<exists>n. checkbuffer ls = Inr (ls\<lparr>lex_buffsize := n\<rparr>) \<and> length (lex_buff ls) + 5 \<le> n"
  by (cases "lex_buffsize ls < length (lex_buff ls) + 5")
    (auto simp: checkbuffer_def luaZ_openspace_def luaM_realloc_def MAXNOCHECK_def EXTRABUFF_def LUA_MINBUFFER_def
      intro: exI [of _ "lex_buffsize ls"])

lemma save_and_next_input:
  assumes "wf_lex ls" "input ls = c # cs" "room (Suc n) ls"
  shows "\<exists>l. save_and_next ls = Inr l \<and> wf_lex l \<and> input l = cs \<and> lex_buff l = lex_buff ls @ [c] \<and> room n l"
proof -
  have "save (current ls) ls = Inr (ls\<lparr>lex_buff := lex_buff ls @ [c]\<rparr>)"
    using char2int_range [of c] by (simp add: save_room [OF assms(3)] input_Cons [OF assms(1,2)])
  then show ?thesis
    using lex_next_input [of "ls\<lparr>lex_buff := lex_buff ls @ [c]\<rparr>" c cs] assms
    by (auto simp: save_and_next_def room_def)
qed

lemma check_save_input:
  assumes "wf_lex ls" "input ls = c # cs" "length (lex_buff ls) + 40 < MAX_SIZET"
  shows "\<exists>l. bindR (checkbuffer ls) save_and_next = Inr l \<and> wf_lex l \<and> input l = cs \<and>
    lex_buff l = lex_buff ls @ [c] \<and> room 4 l"
proof -
  obtain n where n: "checkbuffer ls = Inr (ls\<lparr>lex_buffsize := n\<rparr>)" "length (lex_buff ls) + 5 \<le> n"
    using checkbuffer_ok [OF assms(3)] by blast
  have "room (Suc 4) (ls\<lparr>lex_buffsize := n\<rparr>)"
    using n(2) by (simp add: room_def)
  from save_and_next_input [OF _ _ this, of c cs] n(1) assms(1,2) show ?thesis
    by auto
qed

lemma room_4: "room 4 l \<Longrightarrow> room (Suc 0) l"
  by (simp add: room_def)

lemma char_of_zero: "char_of (0 :: nat) = NUL"
  by (simp add: char_of_def NUL_def)

lemma save_while_input:
  assumes "wf_lex ls" "input ls = w @ r" "list_all p w" "r = [] \<or> \<not> p (hd r)"
    "length (lex_buff ls) + length w + 40 < MAX_SIZET" "room 1 ls"
  shows "\<exists>l. save_while p ls = Inr l \<and> wf_lex l \<and> input l = r \<and> lex_buff l = lex_buff ls @ w \<and> room 1 l"
  using assms
proof (induction w arbitrary: ls)
  case Nil
  then have "\<not> is_char p (current ls)"
    by (cases r) (auto simp: input_Nil dest: input_Cons)
  then show ?case
    using Nil by (auto simp: save_while.simps)
next
  case (Cons c w)
  from Cons.prems have "is_char p (current ls)"
    using input_Cons(1) [OF Cons.prems(1), of c] by auto
  moreover obtain l where l: "bindR (checkbuffer ls) save_and_next = Inr l" "wf_lex l" "input l = w @ r"
    "lex_buff l = lex_buff ls @ [c]" "room 1 l"
    using check_save_input [of ls c "w @ r"] Cons.prems by (auto intro: room_4)
  ultimately show ?case
    using Cons.IH [OF l(2,3) _ Cons.prems(4) _ l(5)] Cons.prems l(1,4) by (subst save_while.simps) auto
qed

lemma readname_input:
  assumes "wf_lex ls" "input ls = c # w @ r" "list_all name_char w" "r = [] \<or> \<not> name_char (hd r)"
    "length w + 50 < MAX_SIZET"
  shows "\<exists>l. readname ls = Inr l \<and> wf_lex l \<and> input l = r \<and> lex_buff l = c # w @ [NUL] \<and> room 0 l"
proof -
  obtain n where n: "checkbuffer (ls\<lparr>lex_buff := []\<rparr>) = Inr (ls\<lparr>lex_buff := [], lex_buffsize := n\<rparr>)"
    using checkbuffer_ok [of "ls\<lparr>lex_buff := []\<rparr>"] assms(5) by auto
  obtain l1 where l1: "bindR (checkbuffer (ls\<lparr>lex_buff := [], lex_buffsize := n\<rparr>)) save_and_next = Inr l1"
    "wf_lex l1" "input l1 = w @ r" "lex_buff l1 = [c]" "room 4 l1"
    using check_save_input [of "ls\<lparr>lex_buff := [], lex_buffsize := n\<rparr>" c "w @ r"] assms by auto
  obtain l2 where l2: "save_while name_char l1 = Inr l2" "wf_lex l2" "input l2 = r" "lex_buff l2 = c # w" "room (Suc 0) l2"
    using save_while_input [OF l1(2,3) assms(3,4)] l1(4,5) assms(5) by (auto intro: room_4)
  show ?thesis
    using n l1(1) l2 by (auto simp: readname_def save_room [OF l2(5)] char_of_zero room_def)
qed

lemma name_start_chars:
  assumes "isalpha c \<or> c = CHR ''_''"
  shows "c \<notin> {NL, CHR ''-'', CHR ''['', CHR ''='', CHR ''<'', CHR ''>'', CHR ''~'', CHR 0x22, CHR 0x27, CHR ''.''}"
    "\<not> isspace c" "\<not> isdigit c"
  using assms by (auto simp: ctype_defs)

lemma luaX_lex_name:
  assumes "wf_lex ls" "input ls = c # w @ r" "isalpha c \<or> c = CHR ''_''" "list_all name_char w"
    "r = [] \<or> \<not> name_char (hd r)" "length w + 50 < MAX_SIZET"
  shows "\<exists>l. luaX_lex ls si =
      Inr (if 0 < reserved (c # w) then (int (reserved (c # w)) - 1 + FIRST_RESERVED, si, l)
           else (TK_NAME, SemTs (c # w), l)) \<and>
    wf_lex l \<and> input l = r"
proof -
  note cur = input_Cons(1) [OF assms(1,2)]
  note no = name_start_chars [OF assms(3)]
  obtain l where l: "readname ls = Inr l" "wf_lex l" "input l = r" "lex_buff l = c # w @ [NUL]"
    using readname_input [OF assms(1,2,4,5,6)] by blast
  have inj: "char2int a = char2int b \<longleftrightarrow> a = b" for a b
    by (simp add: char2int_def uchar_def)
  have "luaX_lex ls si = bindR (readname ls) (\<lambda>ls.
         (let ts = take (length (lex_buff ls) - 1) (lex_buff ls)
          in if 0 < reserved ts then Inr (int (reserved ts) - 1 + FIRST_RESERVED, si, ls)
             else Inr (TK_NAME, SemTs ts, ls)))"
    using no assms(3) by (subst luaX_lex.simps) (simp add: cur inj)
  then show ?thesis
    using l by (simp add: Let_def)
qed

section \<open>Properties\<close>

text \<open>
  C10: the scanner is memory safe and makes progress.  From a well-formed state every call ends; it
  neither stores beyond the token buffer (the five bytes that \<open>MAXNOCHECK\<close> reserves are enough) nor
  reads past the end of the stream; and a token other than \<open>TK_EOS\<close> takes at least one byte, so a
  chunk has finitely many tokens.  Otherwise it raises a Lua error.
\<close>

theorem luaX_lex_ensures:
  assumes "wf_lex ls" "room 0 ls"
  shows "ensures (luaX_lex ls si) (scanned ls)"
  using assms by (rule luaX_lex_safe)

definition lex_start :: "char \<Rightarrow> string \<Rightarrow> LexState" where
  "lex_start c rest = \<lparr>current = char2int c, linenumber = 1, lastline = 1,
     tok = \<lparr>token = TK_EOS, seminfo = SemNone\<rparr>, lookahead = \<lparr>token = TK_EOS, seminfo = SemNone\<rparr>,
     lex_z = luaZ_init [rest], lex_buff = [], lex_buffsize = 0, lex_source = ''@pmfile'', nestlevel = 0\<rparr>"

lemma wf_lex_start: "length rest < 2 ^ 64 \<Longrightarrow> wf_lex (lex_start c rest) \<and> room 0 (lex_start c rest)"
  by (auto simp: lex_start_def wf_lex_def wf_tok_def room_def wf_luaZ_init) (simp add: token_defs)

lemma luaX_lex_ensures_witness:
  "ensures (luaX_lex (lex_start (CHR ''x'') ''=1'') SemNone) (scanned (lex_start (CHR ''x'') ''=1''))"
  by (rule luaX_lex_ensures) (use wf_lex_start [of "''=1''" "CHR ''x''"] in simp_all)

text \<open>
  C29: an identifier is scanned as a whole, up to the first character that cannot continue it, and
  becomes a reserved word if its text is one and a name with its text otherwise.
\<close>

theorem luaX_lex_identifier:
  assumes "wf_lex ls" "input ls = c # w @ r" "isalpha c \<or> c = CHR ''_''" "list_all name_char w"
    "r = [] \<or> \<not> name_char (hd r)" "length w + 50 < MAX_SIZET"
  shows "\<exists>l. luaX_lex ls si =
      Inr (if 0 < reserved (c # w) then (int (reserved (c # w)) - 1 + FIRST_RESERVED, si, l)
           else (TK_NAME, SemTs (c # w), l)) \<and>
    wf_lex l \<and> input l = r"
  using assms by (rule luaX_lex_name)

lemma luaX_lex_identifier_witness:
  "\<exists>l. luaX_lex (lex_start (CHR ''d'') ''one = 1'') SemNone = Inr (TK_NAME, SemTs ''done'', l) \<and> wf_lex l \<and>
    input l = '' = 1''"
proof -
  have r: "reserved ''done'' = 0"
    by (simp add: reserved_def luaX_init_def NUM_RESERVED_def token_defs token2string_def upt_rec)
  have i: "input (lex_start (CHR ''d'') ''one = 1'') = CHR ''d'' # ''one'' @ '' = 1''"
    by (simp add: input_def lex_start_def wf_luaZ_init)
  show ?thesis
    using luaX_lex_identifier [OF _ i, of SemNone] wf_lex_start [of "''one = 1''" "CHR ''d''"] r
    by (simp add: name_char_def isalnum_def isalpha_def islower_def isupper_def isdigit_def between_def uchar_def
        MAX_SIZET_def)
qed

end
