(* ===== verification/Tables.thy ===== *)
theory Tables
  imports StringTable
begin

text \<open>
  Lua tables (\<open>lua/ltable.c\<close>): an array part and a chained scatter table with Brent's variation.
  This theory has the state and every operation on it.

  Nodes are numbered from 0 in the array \<open>node\<close>; the pointers \<open>next\<close> and \<open>firstfree\<close> are such
  numbers.  An empty hash part is one node.  In C all empty tables share the node \<open>dummynode\<close>,
  which only a running insertion ever changes and which is restored before it ends, so each
  model table has its own.
\<close>

unbundle bit_operations_syntax

section \<open>State\<close>

record Node =
  i_key :: TObject
  i_val :: TObject
  nxt :: "nat option"

record Table =
  flags :: "8 word"
  lsizenode :: nat
  metatable :: addr
  array :: "TObject list"
  node :: "Node list"
  firstfree :: nat

definition sizenode :: "Table \<Rightarrow> nat" where
  "sizenode t = push_bit (lsizenode t) 1"

definition sizearray :: "Table \<Rightarrow> nat" where
  "sizearray t = length (array t)"

text \<open>A position where a value lives: the result of the lookup functions.\<close>

datatype slot =
    SNil             \<comment> \<open>\<open>&luaO_nilobject\<close>\<close>
  | SArr nat         \<comment> \<open>\<open>&t->array[i]\<close>\<close>
  | SNode nat        \<comment> \<open>\<open>gval(gnode(t, i))\<close>\<close>

fun slot_get :: "Table \<Rightarrow> slot \<Rightarrow> TObject" where
  "slot_get t SNil = LNil"
| "slot_get t (SArr i) = array t ! i"
| "slot_get t (SNode i) = i_val (node t ! i)"

text \<open>\<open>setobj2t(slot, v)\<close>.\<close>

fun slot_set :: "Table \<Rightarrow> slot \<Rightarrow> TObject \<Rightarrow> Table" where
  "slot_set t SNil v = t"
| "slot_set t (SArr i) v = t\<lparr>array := (array t)[i := v]\<rparr>"
| "slot_set t (SNode i) v = t\<lparr>node := (node t)[i := (node t ! i)\<lparr>i_val := v\<rparr>]\<rparr>"

section \<open>Main positions\<close>

definition MAXBITS :: nat where "MAXBITS = 24"

definition toobig :: "int \<Rightarrow> bool" where
  "toobig x \<longleftrightarrow> drop_bit MAXBITS (x - 1) \<noteq> 0"

definition hashpow2 :: "Table \<Rightarrow> lu_hash \<Rightarrow> nat" where
  "hashpow2 t n = lmod n (sizenode t)"

definition hashmod :: "Table \<Rightarrow> lu_hash \<Rightarrow> nat" where
  "hashmod t n = unat n mod ((sizenode t - 1) OR 1)"

text \<open>The two 32-bit halves of \<open>n + 1\<close>, in the order of a little-endian machine, are added.\<close>

definition hashnum :: "Table \<Rightarrow> lua_Number \<Rightarrow> nat" where
  "hashnum t n =
    (let n' = num_add n (num_of_int 1);
         a0 = ucast n' :: lu_hash; a1 = ucast (drop_bit 32 n') :: lu_hash
     in hashmod t (a0 + a1))"

definition IntPoint :: "addr \<Rightarrow> lu_hash" where
  "IntPoint p = ucast p"

text \<open>
  A nil or dead key has no pointer to hash; the code never asks for its position, and the model
  gives 0.
\<close>

fun luaH_mainposition :: "Table \<Rightarrow> TObject \<Rightarrow> nat" where
  "luaH_mainposition t (LNumber n) = hashnum t n"
| "luaH_mainposition t (LString s) = hashpow2 t (luaS_hash s)"
| "luaH_mainposition t (LBoolean b) = hashpow2 t (word_of_int b)"
| "luaH_mainposition t (LLightUserdata p) = hashmod t (IntPoint p)"
| "luaH_mainposition t (LTable p) = hashmod t (IntPoint p)"
| "luaH_mainposition t (LFunction p) = hashmod t (IntPoint p)"
| "luaH_mainposition t (LUserdata p) = hashmod t (IntPoint p)"
| "luaH_mainposition t (LThread p) = hashmod t (IntPoint p)"
| "luaH_mainposition t LNil = 0"
| "luaH_mainposition t LNone = 0"

definition arrayindex :: "TObject \<Rightarrow> int" where
  "arrayindex key = (case key of
     LNumber n \<Rightarrow>
       (let k = lua_number2int n
        in if num_eq (num_of_int k) n \<and> 1 \<le> k \<and> \<not> toobig k then k else -1)
   | _ \<Rightarrow> -1)"

section \<open>Search\<close>

text \<open>
  The loop \<open>do { if (found(n)) return gval(n); else n = n->next; } while (n)\<close>.  Its fuel is the
  number of nodes; on a chain longer than that the loop would not end: \<open>NoReturn\<close>.
\<close>

fun chain_search :: "nat \<Rightarrow> Node list \<Rightarrow> (TObject \<Rightarrow> bool) \<Rightarrow> nat \<Rightarrow> slot res" where
  "chain_search 0 ns found n = Inl NoReturn"
| "chain_search (Suc fuel) ns found n =
    (if found (i_key (ns ! n)) then Inr (SNode n)
     else case nxt (ns ! n) of None \<Rightarrow> Inr SNil | Some m \<Rightarrow> chain_search fuel ns found m)"

definition search :: "Table \<Rightarrow> (TObject \<Rightarrow> bool) \<Rightarrow> nat \<Rightarrow> slot res" where
  "search t found n = chain_search (length (node t)) (node t) found n"

definition luaH_getany :: "Table \<Rightarrow> TObject \<Rightarrow> slot res" where
  "luaH_getany t key =
    (if key = LNil then Inr SNil
     else search t (\<lambda>k. luaO_rawequalObj k key) (luaH_mainposition t key))"

definition luaH_getnum :: "Table \<Rightarrow> int \<Rightarrow> slot res" where
  "luaH_getnum t key =
    (if 1 \<le> key \<and> key \<le> int (sizearray t) then Inr (SArr (nat (key - 1)))
     else let nk = num_of_int key
       in search t (\<lambda>k. case k of LNumber n \<Rightarrow> num_eq n nk | _ \<Rightarrow> False) (hashnum t nk))"

definition luaH_getstr :: "Table \<Rightarrow> string \<Rightarrow> slot res" where
  "luaH_getstr t key =
    search t (\<lambda>k. case k of LString s \<Rightarrow> s = key | _ \<Rightarrow> False) (hashpow2 t (luaS_hash key))"

definition luaH_get :: "Table \<Rightarrow> TObject \<Rightarrow> slot res" where
  "luaH_get t key = (case key of
     LString s \<Rightarrow> luaH_getstr t s
   | LNumber n \<Rightarrow>
       (let k = lua_number2int n
        in if num_eq (num_of_int k) n then luaH_getnum t k else luaH_getany t key)
   | _ \<Rightarrow> luaH_getany t key)"

section \<open>Traversal\<close>

definition luaH_index :: "Table \<Rightarrow> TObject \<Rightarrow> int res" where
  "luaH_index t key =
    (if key = LNil then Inr (-1)
     else let i = arrayindex key
       in if 0 \<le> i \<and> i \<le> int (sizearray t) then Inr (i - 1)
          else bindR (luaH_get t key) (\<lambda>v. case v of
              SNil \<Rightarrow> Inl (RunError (''invalid key for `next'' @ [CHR 0x27]))
            | SArr i \<Rightarrow> Inl OutOfBounds
            | SNode i \<Rightarrow> Inr (int i + int (sizearray t))))"

text \<open>The first position from \<open>i\<close> on that satisfies \<open>p\<close>, below \<open>n\<close>.\<close>

definition first_from :: "nat \<Rightarrow> nat \<Rightarrow> (nat \<Rightarrow> bool) \<Rightarrow> nat option" where
  "first_from i n p = find p [i..<n]"

text \<open>\<open>luaH_next\<close>: the next key and value, or \<open>None\<close> at the end.\<close>

definition luaH_next :: "Table \<Rightarrow> TObject \<Rightarrow> (TObject \<times> TObject) option res" where
  "luaH_next t key =
    bindR (luaH_index t key) (\<lambda>i0.
      (let i = nat (i0 + 1)
       in case first_from i (sizearray t) (\<lambda>i. array t ! i \<noteq> LNil) of
            Some i \<Rightarrow> Inr (Some (LNumber (num_of_int (int i + 1)), array t ! i))
          | None \<Rightarrow>
             (case first_from (max i (sizearray t) - sizearray t) (sizenode t)
                  (\<lambda>i. i_val (node t ! i) \<noteq> LNil) of
                Some i \<Rightarrow> Inr (Some (i_key (node t ! i), i_val (node t ! i)))
              | None \<Rightarrow> Inr None)))"

section \<open>Sizes\<close>

text \<open>
  \<open>computesizes\<close>: \<open>nums ! i\<close> is the number of integer keys in the slice \<open>(2 ^ (i - 1), 2 ^ i]\<close>,
  \<open>a\<close> the number of those up to \<open>2 ^ i\<close>; \<open>n\<close> is \<open>None\<close> for \<open>-1\<close>.
\<close>

lemma less_pow2_pred: "2 ^ (i - 1) \<le> (n :: nat) \<Longrightarrow> i \<le> n"
proof (cases i)
  case (Suc j)
  then show "2 ^ (i - 1) \<le> n \<Longrightarrow> i \<le> n"
    using order.strict_trans2 [OF less_exp, of j n] by simp
qed simp

function computesizes_loop ::
  "nat list \<Rightarrow> nat \<Rightarrow> nat \<Rightarrow> nat \<Rightarrow> nat \<Rightarrow> nat option \<Rightarrow> nat \<times> nat option" where
  "computesizes_loop nums narray i a na n =
    (if a < narray \<and> 2 ^ (i - 1) \<le> narray then
       (if 0 < nums ! i then
          (let a = a + nums ! i
           in if 2 ^ (i - 1) \<le> a then computesizes_loop nums narray (i + 1) a a (Some i)
              else computesizes_loop nums narray (i + 1) a na n)
        else computesizes_loop nums narray (i + 1) a na n)
     else (na, n))"
  by pat_completeness auto

termination
  by (relation "measure (\<lambda>(nums, narray, i, _). narray + 1 - i)")
    (auto dest!: less_pow2_pred [simplified])

declare computesizes_loop.simps [simp del]

text \<open>The sizes of the array part and of the hash part.\<close>

definition computesizes :: "nat list \<Rightarrow> nat \<Rightarrow> nat \<Rightarrow> nat \<times> nat" where
  "computesizes nums ntotal narray =
    (let a = nums ! 0;
         (na, n) = computesizes_loop nums narray 1 a a (if a = 0 then None else Some 0)
     in ((case n of None \<Rightarrow> 0 | Some n \<Rightarrow> 2 ^ n), ntotal - na))"

definition count_used :: "TObject list \<Rightarrow> nat \<Rightarrow> nat \<Rightarrow> nat" where
  "count_used arr i j = length (filter (\<lambda>i. arr ! i \<noteq> LNil) [i..<j])"

text \<open>The first loop of \<open>numuse\<close>: the counts of the slices of the array part from \<open>lg\<close> on.\<close>

function numuse_array :: "TObject list \<Rightarrow> nat \<Rightarrow> nat \<Rightarrow> nat list" where
  "numuse_array arr lg i =
    (if lg \<le> MAXBITS then
       (let ttlg = 2 ^ lg; sz = length arr
        in if sz < ttlg then
             (if sz \<le> i then replicate (MAXBITS + 1 - lg) 0
              else count_used arr i sz # numuse_array arr (lg + 1) sz)
           else count_used arr i ttlg # numuse_array arr (lg + 1) ttlg)
     else [])"
  by pat_completeness auto
termination
  by (relation "measure (\<lambda>(arr, lg, i). MAXBITS + 1 - lg)") auto

declare numuse_array.simps [simp del]

text \<open>The second loop, over the nodes from the last one down; the state is \<open>nums\<close>, \<open>narray\<close> and
  \<open>totaluse\<close>.\<close>

fun numuse_node :: "Node \<Rightarrow> nat list \<times> nat \<times> nat \<Rightarrow> nat list \<times> nat \<times> nat" where
  "numuse_node n (nums, narray, totaluse) =
    (if i_val n = LNil then (nums, narray, totaluse)
     else let k = arrayindex (i_key n)
       in if 0 \<le> k then
            (let j = nat (luaO_log2 (word_of_int (k - 1)) + 1)
             in (nums[j := nums ! j + 1], narray + 1, totaluse + 1))
          else (nums, narray, totaluse + 1))"

definition numuse :: "Table \<Rightarrow> nat \<times> nat" where
  "numuse t =
    (let nums = numuse_array (array t) 0 0; totaluse = sum_list nums;
         (nums, narray, totaluse) = foldr numuse_node (node t) (nums, totaluse, totaluse)
     in computesizes nums totaluse narray)"

section \<open>Insertion and resizing\<close>

definition setarrayvector :: "Table \<Rightarrow> nat \<Rightarrow> Table" where
  "setarrayvector t sz = t\<lparr>array := array t @ replicate (sz - sizearray t) LNil\<rparr>"

definition free_node :: Node where
  "free_node = \<lparr>i_key = LNil, i_val = LNil, nxt = None\<rparr>"

definition setnodevector :: "Table \<Rightarrow> nat \<Rightarrow> Table res" where
  "setnodevector t lsize =
    (let sz = push_bit lsize 1
     in if MAXBITS < lsize then Inl (RunError ''table overflow'')
        else Inr (t\<lparr>node := replicate sz free_node, lsizenode := lsize, firstfree := sz - 1\<rparr>))"

text \<open>The loop \<open>while (othern->next != mp) othern = othern->next\<close>.\<close>

fun find_previous :: "nat \<Rightarrow> Node list \<Rightarrow> nat \<Rightarrow> nat \<Rightarrow> nat res" where
  "find_previous 0 ns mp othern = Inl NoReturn"
| "find_previous (Suc fuel) ns mp othern =
    (case nxt (ns ! othern) of
       None \<Rightarrow> Inl OutOfBounds
     | Some m \<Rightarrow> if m = mp then Inr othern else find_previous fuel ns mp m)"

text \<open>The first half of \<open>newkey\<close>: make room for \<open>key\<close> and store it.  The result is its node.\<close>

definition place_key :: "Table \<Rightarrow> TObject \<Rightarrow> (Table \<times> nat) res" where
  "place_key t key =
    (let ns = node t; mp = luaH_mainposition t key
     in if i_val (ns ! mp) \<noteq> LNil then
          (let othern = luaH_mainposition t (i_key (ns ! mp)); n = firstfree t
           in if othern \<noteq> mp then
                bindR (find_previous (length ns) ns mp othern) (\<lambda>prev.
                  (let ns = ns[prev := (ns ! prev)\<lparr>nxt := Some n\<rparr>];
                       ns = ns[n := ns ! mp];
                       ns = ns[mp := (ns ! mp)\<lparr>nxt := None, i_val := LNil\<rparr>];
                       ns = ns[mp := (ns ! mp)\<lparr>i_key := key\<rparr>]
                   in Inr (t\<lparr>node := ns\<rparr>, mp)))
              else
                (let ns = ns[n := (ns ! n)\<lparr>nxt := nxt (ns ! mp)\<rparr>];
                     ns = ns[mp := (ns ! mp)\<lparr>nxt := Some n\<rparr>];
                     ns = ns[n := (ns ! n)\<lparr>i_key := key\<rparr>]
                 in Inr (t\<lparr>node := ns\<rparr>, n)))
        else Inr (t\<lparr>node := ns[mp := (ns ! mp)\<lparr>i_key := key\<rparr>]\<rparr>, mp))"

text \<open>The loop that corrects \<open>firstfree\<close>: \<open>None\<close> when no node is free.\<close>

fun correct_firstfree :: "Node list \<Rightarrow> nat \<Rightarrow> nat option" where
  "correct_firstfree ns 0 = (if i_key (ns ! 0) = LNil then Some 0 else None)"
| "correct_firstfree ns (Suc i) =
    (if i_key (ns ! Suc i) = LNil then Some (Suc i) else correct_firstfree ns i)"

text \<open>
  Insertion and resizing call each other.  The functions below take the \<open>newkey\<close> they call as
  their first argument; \<open>newkey\<close> then spends fuel for each rehash.
\<close>

type_synonym inserter = "Table \<Rightarrow> TObject \<Rightarrow> (Table \<times> slot) res"

definition luaH_set_with :: "inserter \<Rightarrow> Table \<Rightarrow> TObject \<Rightarrow> (Table \<times> slot) res" where
  "luaH_set_with nk t key =
    bindR (luaH_get t key) (\<lambda>p.
      (let t = t\<lparr>flags := 0\<rparr>
       in if p \<noteq> SNil then Inr (t, p)
          else if key = LNil then Inl (RunError ''table index is nil'')
          else if (case key of LNumber n \<Rightarrow> \<not> num_eq n n | _ \<Rightarrow> False)
            then Inl (RunError ''table index is NaN'')
          else nk t key))"

definition luaH_setnum_with :: "inserter \<Rightarrow> Table \<Rightarrow> int \<Rightarrow> (Table \<times> slot) res" where
  "luaH_setnum_with nk t key =
    bindR (luaH_getnum t key) (\<lambda>p.
      if p \<noteq> SNil then Inr (t, p) else nk t (LNumber (num_of_int key)))"

text \<open>The two loops of \<open>resize\<close> that insert again what has lost its place.\<close>

fun reinsert_array :: "inserter \<Rightarrow> Table \<Rightarrow> nat \<Rightarrow> TObject list \<Rightarrow> Table res" where
  "reinsert_array nk t i [] = Inr t"
| "reinsert_array nk t i (v # vs) =
    (if v \<noteq> LNil then
       bindR (luaH_setnum_with nk t (int i + 1)) (\<lambda>(t, p). reinsert_array nk (slot_set t p v) (i + 1) vs)
     else reinsert_array nk t (i + 1) vs)"

fun reinsert_nodes :: "inserter \<Rightarrow> Table \<Rightarrow> Node list \<Rightarrow> Table res" where
  "reinsert_nodes nk t [] = Inr t"
| "reinsert_nodes nk t (old # olds) =
    (if i_val old \<noteq> LNil then
       bindR (luaH_set_with nk t (i_key old)) (\<lambda>(t, p). reinsert_nodes nk (slot_set t p (i_val old)) olds)
     else reinsert_nodes nk t olds)"

definition resize_with :: "inserter \<Rightarrow> Table \<Rightarrow> nat \<Rightarrow> nat \<Rightarrow> Table res" where
  "resize_with nk t nasize nhsize =
    (let oldasize = sizearray t; nold = node t;
         t = (if oldasize < nasize then setarrayvector t nasize else t)
     in bindR (setnodevector t nhsize) (\<lambda>t.
          bindR (if nasize < oldasize
                 then reinsert_array nk (t\<lparr>array := take nasize (array t)\<rparr>) nasize (drop nasize (array t))
                 else Inr t) (\<lambda>t.
            reinsert_nodes nk t (rev nold))))"

definition rehash_with :: "inserter \<Rightarrow> Table \<Rightarrow> Table res" where
  "rehash_with nk t =
    (let (nasize, nhsize) = numuse t
     in resize_with nk t nasize (nat (luaO_log2 (word_of_nat nhsize) + 1)))"

fun newkey :: "nat \<Rightarrow> inserter" where
  "newkey 0 t key = Inl NoReturn"
| "newkey (Suc fuel) t key =
    bindR (place_key t key) (\<lambda>(t, mp).
      case correct_firstfree (node t) (firstfree t) of
        Some ff \<Rightarrow> Inr (t\<lparr>firstfree := ff\<rparr>, SNode mp)
      | None \<Rightarrow>
          (let t = slot_set t (SNode mp) (LBoolean 0)
           in bindR (rehash_with (newkey fuel) t) (\<lambda>t.
                bindR (luaH_get t key) (\<lambda>val. Inr (slot_set t val LNil, val)))))"

text \<open>
  A rehash inserts into a hash part with room for everything, so the insertions it makes do not
  rehash again: depth 2 is enough.
\<close>

definition luaH_set :: "Table \<Rightarrow> TObject \<Rightarrow> (Table \<times> slot) res" where
  "luaH_set t key = luaH_set_with (newkey 2) t key"

definition luaH_setnum :: "Table \<Rightarrow> int \<Rightarrow> (Table \<times> slot) res" where
  "luaH_setnum t key = luaH_setnum_with (newkey 2) t key"

definition rehash :: "Table \<Rightarrow> Table res" where
  "rehash t = rehash_with (newkey 1) t"

definition luaH_new :: "addr \<Rightarrow> nat \<Rightarrow> nat \<Rightarrow> Table res" where
  "luaH_new meta narray lnhash =
    (let t = \<lparr>flags = NOT 0, lsizenode = 0, metatable = meta, array = [], node = [], firstfree = 0\<rparr>
     in setnodevector (setarrayvector t narray) lnhash)"

text \<open>\<open>removekey\<close> of \<open>lua/lgc.c\<close>: what the collector does to an entry of a weak table.\<close>

definition removekey :: "Node \<Rightarrow> Node" where
  "removekey n = (let n = n\<lparr>i_val := LNil\<rparr>
     in if iscollectable (i_key n) then n\<lparr>i_key := LNone\<rparr> else n)"

text \<open>An assignment \<open>t[key] = v\<close>, as every caller of \<open>luaH_set\<close> makes it.\<close>

definition table_store :: "Table \<Rightarrow> TObject \<Rightarrow> TObject \<Rightarrow> Table res" where
  "table_store t key v = bindR (luaH_set t key) (\<lambda>(t, p). Inr (slot_set t p v))"

definition table_lookup :: "Table \<Rightarrow> TObject \<Rightarrow> TObject res" where
  "table_lookup t key = bindR (luaH_get t key) (\<lambda>p. Inr (slot_get t p))"

end
