(* ===== verification/Closures.thy ===== *)
theory Closures
  imports Protos
begin

text \<open>
  Closures and their upvalues (\<open>lua/lfunc.c\<close>), and the stack they live on.

  \<open>Frames\<close> is the part of \<open>lua_State\<close> that calls and closures work on: the stack with the indices that
  stand for the pointers into it, the \<open>CallInfo\<close>s in use, the current one first, the list of open upvalues, and
  the closures and upvalues in the heap.  The next object is allocated at \<open>fr_next\<close>, which is any address that
  is not in use.
\<close>

section \<open>State\<close>

datatype Closure =
    CClosure (cl_f: nat) (cl_upvalue: "TObject list")           \<comment> \<open>a C function has a number\<close>
  | LClosure (cl_p: Proto) (cl_g: TObject) (cl_upvals: "addr list")

text \<open>\<open>v\<close> points to the stack, or (\<open>None\<close>) to the own value.\<close>

record UpVal =
  uv_v :: "nat option"
  uv_value :: TObject

text \<open>
  The flags \<open>CI_C\<close> and \<open>CI_CALLING\<close> of the state; the others say whether \<open>pc\<close> is in a variable of
  \<open>luaV_execute\<close> or in \<open>savedpc\<close>, which is one here.
\<close>

record CallInfo =
  ci_base :: nat
  ci_top :: nat
  ci_C :: bool
  ci_calling :: bool
  savedpc :: int
  tailcalls :: int

record Frames =
  fr_stack :: "TObject list"
  fr_base :: nat
  fr_top :: nat
  fr_ci :: "CallInfo list"
  fr_size_ci :: nat
  fr_nCcalls :: int
  fr_openupval :: "addr list"
  fr_upvs :: "addr \<Rightarrow> UpVal"
  fr_funcs :: "addr \<Rightarrow> Closure"
  fr_next :: addr

definition no_frames :: Frames where
  "no_frames = \<lparr>fr_stack = [], fr_base = 0, fr_top = 0, fr_ci = [], fr_size_ci = 0, fr_nCcalls = 0,
     fr_openupval = [], fr_upvs = (\<lambda>_. \<lparr>uv_v = None, uv_value = LNil\<rparr>),
     fr_funcs = (\<lambda>_. CClosure 0 []), fr_next = 64\<rparr>"

definition get_stack :: "nat \<Rightarrow> Frames \<Rightarrow> TObject res" where
  "get_stack i F = (if i < length (fr_stack F) then Inr (fr_stack F ! i) else Inl OutOfBounds)"

definition set_stack :: "nat \<Rightarrow> TObject \<Rightarrow> Frames \<Rightarrow> Frames res" where
  "set_stack i v F =
    (if i < length (fr_stack F) then Inr (F\<lparr>fr_stack := (fr_stack F)[i := v]\<rparr>) else Inl OutOfBounds)"

text \<open>Access to an upvalue, wherever it is.\<close>

definition get_upval :: "addr \<Rightarrow> Frames \<Rightarrow> TObject res" where
  "get_upval a F = (case uv_v (fr_upvs F a) of None \<Rightarrow> Inr (uv_value (fr_upvs F a)) | Some i \<Rightarrow> get_stack i F)"

definition set_upval :: "addr \<Rightarrow> TObject \<Rightarrow> Frames \<Rightarrow> Frames res" where
  "set_upval a v F = (case uv_v (fr_upvs F a) of
     None \<Rightarrow> Inr (F\<lparr>fr_upvs := (fr_upvs F)(a := (fr_upvs F a)\<lparr>uv_value := v\<rparr>)\<rparr>)
   | Some i \<Rightarrow> set_stack i v F)"

section \<open>Closures\<close>

text \<open>The elements of \<open>upvals\<close> are filled in by the instruction \<open>OP_CLOSURE\<close>.\<close>

definition luaF_newLclosure :: "Proto \<Rightarrow> TObject \<Rightarrow> addr list \<Rightarrow> Frames \<Rightarrow> addr \<times> Frames" where
  "luaF_newLclosure p e us F =
    (fr_next F, F\<lparr>fr_funcs := (fr_funcs F)(fr_next F := LClosure p e us), fr_next := fr_next F + 64\<rparr>)"

definition luaF_newCclosure :: "nat \<Rightarrow> TObject list \<Rightarrow> Frames \<Rightarrow> addr \<times> Frames" where
  "luaF_newCclosure f us F =
    (fr_next F, F\<lparr>fr_funcs := (fr_funcs F)(fr_next F := CClosure f us), fr_next := fr_next F + 64\<rparr>)"

section \<open>Open upvalues\<close>

text \<open>
  The loop of \<open>luaF_findupval\<close>: the upvalue of the level, if there is one, and the list before and behind the
  place of \<open>pp\<close>.  A closed upvalue in the list of open ones has no place in the stack.
\<close>

fun findupval_loop :: "(addr \<Rightarrow> UpVal) \<Rightarrow> nat \<Rightarrow> addr list \<Rightarrow> (addr option \<times> addr list \<times> addr list) res" where
  "findupval_loop us level [] = Inr (None, [], [])"
| "findupval_loop us level (p # ps) = (case uv_v (us p) of
     None \<Rightarrow> Inl OutOfBounds
   | Some v \<Rightarrow>
       if level \<le> v then
         (if v = level then Inr (Some p, [], p # ps)
          else bindR (findupval_loop us level ps) (\<lambda>(r, before, behind). Inr (r, p # before, behind)))
       else Inr (None, [], p # ps))"

definition luaF_findupval :: "nat \<Rightarrow> Frames \<Rightarrow> (addr \<times> Frames) res" where
  "luaF_findupval level F =
    bindR (findupval_loop (fr_upvs F) level (fr_openupval F)) (\<lambda>(r, before, behind). case r of
        Some p \<Rightarrow> Inr (p, F)
      | None \<Rightarrow>
          (let v = fr_next F
           in Inr (v, F\<lparr>fr_upvs := (fr_upvs F)(v := \<lparr>uv_v = Some level, uv_value = LNil\<rparr>),
                        fr_openupval := before @ v # behind, fr_next := v + 64\<rparr>)))"

fun close_loop :: "nat \<Rightarrow> addr list \<Rightarrow> Frames \<Rightarrow> Frames res" where
  "close_loop level [] F = Inr (F\<lparr>fr_openupval := []\<rparr>)"
| "close_loop level (p # ps) F = (case uv_v (fr_upvs F p) of
     None \<Rightarrow> Inl OutOfBounds
   | Some v \<Rightarrow>
       if level \<le> v then
         bindR (get_stack v F) (\<lambda>x.
           close_loop level ps (F\<lparr>fr_upvs := (fr_upvs F)(p := \<lparr>uv_v = None, uv_value = x\<rparr>)\<rparr>))
       else Inr (F\<lparr>fr_openupval := p # ps\<rparr>))"

definition luaF_close :: "nat \<Rightarrow> Frames \<Rightarrow> Frames res" where
  "luaF_close level F = close_loop level (fr_openupval F) F"

section \<open>The list of open upvalues\<close>

definition uv_level :: "(addr \<Rightarrow> UpVal) \<Rightarrow> addr \<Rightarrow> nat" where
  "uv_level us a = the (uv_v (us a))"

text \<open>
  The list has exactly the upvalues that point into the stack, in the order of the stack from the top, one
  for a place.
\<close>

definition open_list :: "(addr \<Rightarrow> UpVal) \<Rightarrow> addr list \<Rightarrow> bool" where
  "open_list us ps \<longleftrightarrow> sorted_wrt (\<lambda>p q. uv_level us q < uv_level us p) ps \<and> (\<forall>a. uv_v (us a) \<noteq> None \<longleftrightarrow> a \<in> set ps)"

definition wf_upvals :: "Frames \<Rightarrow> bool" where
  "wf_upvals F \<longleftrightarrow> open_list (fr_upvs F) (fr_openupval F) \<and>
     (\<forall>a v. uv_v (fr_upvs F a) = Some v \<longrightarrow> v < length (fr_stack F))"

lemma findupval_loop_spec:
  assumes "sorted_wrt (\<lambda>p q. uv_level us q < uv_level us p) ps" "\<forall>p \<in> set ps. uv_v (us p) \<noteq> None"
  obtains (found) p before behind where "findupval_loop us lv ps = Inr (Some p, before, behind)" "p \<in> set ps"
      "uv_v (us p) = Some lv"
    | (absent) before behind where "findupval_loop us lv ps = Inr (None, before, behind)" "ps = before @ behind"
      "\<forall>p \<in> set before. lv < uv_level us p" "\<forall>p \<in> set behind. uv_level us p < lv"
  using assms
proof (induction ps arbitrary: thesis)
  case Nil
  show ?case
    by (rule Nil.prems(2) [of "[]" "[]"]) simp_all
next
  case (Cons p ps)
  obtain v where v: "uv_v (us p) = Some v"
    using Cons.prems(4) by auto
  have ps: "sorted_wrt (\<lambda>p q. uv_level us q < uv_level us p) ps" "\<forall>p \<in> set ps. uv_v (us p) \<noteq> None"
    "\<forall>q \<in> set ps. uv_level us q < v"
    using Cons.prems(3,4) v by (auto simp: uv_level_def)
  consider "v = lv" | "v < lv" | "lv < v"
    by linarith
  then show ?case
  proof cases
    case 1
    then show ?thesis
      using v by (intro Cons.prems(1) [of p "[]" "p # ps"]) simp_all
  next
    case 2
    then show ?thesis
      using v ps(3) by (intro Cons.prems(2) [of "[]" "p # ps"]) (auto simp: uv_level_def)
  next
    case 3
    show ?thesis
    proof (rule Cons.IH [OF _ _ ps(1,2)])
      fix q before behind
      assume "findupval_loop us lv ps = Inr (Some q, before, behind)" "q \<in> set ps" "uv_v (us q) = Some lv"
      then show ?thesis
        using 3 v by (intro Cons.prems(1) [of q "p # before" behind]) simp_all
    next
      fix before behind
      assume "findupval_loop us lv ps = Inr (None, before, behind)" "ps = before @ behind"
        "\<forall>p \<in> set before. lv < uv_level us p" "\<forall>p \<in> set behind. uv_level us p < lv"
      then show ?thesis
        using 3 v by (intro Cons.prems(2) [of "p # before" behind]) (simp_all add: uv_level_def)
    qed
  qed
qed

lemma open_listD:
  assumes "open_list us ps"
  shows "sorted_wrt (\<lambda>p q. uv_level us q < uv_level us p) ps" "\<forall>p \<in> set ps. uv_v (us p) \<noteq> None"
    "uv_v (us a) = Some v \<Longrightarrow> a \<in> set ps"
  using assms by (auto simp: open_list_def)

lemma sorted_level_cong:
  "(\<And>p. p \<in> set ps \<Longrightarrow> us' p = us p) \<Longrightarrow>
    sorted_wrt (\<lambda>p q. uv_level us' q < uv_level us' p) ps = sorted_wrt (\<lambda>p q. uv_level us q < uv_level us p) ps"
  by (induction ps) (simp_all add: uv_level_def)

lemma open_list_insert:
  assumes "open_list us (before @ behind)" "uv_v (us a) = None"
    "\<forall>p \<in> set before. lv < uv_level us p" "\<forall>p \<in> set behind. uv_level us p < lv"
  shows "open_list (us(a := \<lparr>uv_v = Some lv, uv_value = x\<rparr>)) (before @ a # behind)" (is "open_list ?us _")
proof -
  have a: "a \<notin> set (before @ behind)"
    using open_listD(2) [OF assms(1)] assms(2) by blast
  have "sorted_wrt (\<lambda>p q. uv_level ?us q < uv_level ?us p) (before @ behind)"
    using open_listD(1) [OF assms(1)] a by (subst sorted_level_cong [of _ ?us us]) auto
  moreover have "uv_level ?us p = uv_level us p" if "p \<noteq> a" for p
    using that by (simp add: uv_level_def)
  moreover have "uv_level ?us a = lv"
    by (simp add: uv_level_def)
  ultimately show ?thesis
    using a assms(1,3,4) by (fastforce simp: open_list_def sorted_wrt_append)
qed

lemma sorted_level_inj:
  "sorted_wrt (\<lambda>p q. uv_level us q < uv_level us p) ps \<Longrightarrow> p \<in> set ps \<Longrightarrow> q \<in> set ps \<Longrightarrow>
    uv_level us p = uv_level us q \<Longrightarrow> p = q"
  by (induction ps) auto

lemma open_upval_found:
  assumes "wf_upvals F" "uv_v (fr_upvs F p) = Some lv"
  shows "luaF_findupval lv F = Inr (p, F)"
proof -
  let ?us = "fr_upvs F" and ?ps = "fr_openupval F"
  have o: "open_list ?us ?ps"
    using assms(1) by (simp add: wf_upvals_def)
  have p: "p \<in> set ?ps" "uv_level ?us p = lv"
    using open_listD(3) [OF o assms(2)] assms(2) by (simp_all add: uv_level_def)
  show ?thesis
  proof (rule findupval_loop_spec [OF open_listD(1,2) [OF o], of lv])
    fix q before behind
    assume q: "findupval_loop ?us lv ?ps = Inr (Some q, before, behind)" "q \<in> set ?ps" "uv_v (?us q) = Some lv"
    have "q = p"
      using sorted_level_inj [OF open_listD(1) [OF o] q(2) p(1)] p(2) q(3) by (simp add: uv_level_def)
    then show ?thesis
      using q(1) by (simp add: luaF_findupval_def)
  next
    fix before behind
    assume "?ps = before @ behind" "\<forall>p \<in> set before. lv < uv_level ?us p" "\<forall>p \<in> set behind. uv_level ?us p < lv"
    then show ?thesis
      using p by auto
  qed
qed

text \<open>
  C4: the upvalue that \<open>luaF_findupval\<close> gives for a place in the stack points to that place, and is the only one:
  all closures that capture the variable get the same upvalue.  No other upvalue, and nothing on the stack,
  changes.
\<close>

theorem findupval_shares:
  assumes "wf_upvals F" "lv < length (fr_stack F)" "uv_v (fr_upvs F (fr_next F)) = None"
  shows "\<exists>a F'. luaF_findupval lv F = Inr (a, F') \<and> wf_upvals F' \<and> uv_v (fr_upvs F' a) = Some lv \<and>
    (\<forall>b. uv_v (fr_upvs F' b) = Some lv \<longrightarrow> b = a) \<and> (\<forall>b. b \<noteq> a \<longrightarrow> fr_upvs F' b = fr_upvs F b) \<and>
    fr_stack F' = fr_stack F \<and> luaF_findupval lv F' = Inr (a, F')"
proof -
  let ?us = "fr_upvs F" and ?ps = "fr_openupval F"
  have one: "b = a" if "wf_upvals G" "uv_v (fr_upvs G a) = Some lv" "uv_v (fr_upvs G b) = Some lv" for a b G
    using open_upval_found [OF that(1,2)] open_upval_found [OF that(1,3)] by simp
  show ?thesis
  proof (cases "\<exists>a. uv_v (?us a) = Some lv")
    case True
    then obtain a where True_a: "uv_v (?us a) = Some lv" ..
    then have a: "luaF_findupval lv F = Inr (a, F)" "\<forall>b. uv_v (?us b) = Some lv \<longrightarrow> b = a"
      using open_upval_found [OF assms(1)] one [OF assms(1)] by blast+
    show ?thesis
      by (intro exI [of _ a] exI [of _ F] conjI a assms(1) True_a) simp_all
  next
    case False
    have o: "open_list ?us ?ps"
      using assms(1) by (simp add: wf_upvals_def)
    obtain before behind where l: "findupval_loop ?us lv ?ps = Inr (None, before, behind)" "?ps = before @ behind"
        "\<forall>p \<in> set before. lv < uv_level ?us p" "\<forall>p \<in> set behind. uv_level ?us p < lv"
      using findupval_loop_spec [OF open_listD(1,2) [OF o], of lv] False by metis
    define F' where "F' = F\<lparr>fr_upvs := ?us(fr_next F := \<lparr>uv_v = Some lv, uv_value = LNil\<rparr>),
      fr_openupval := before @ fr_next F # behind, fr_next := fr_next F + 64\<rparr>"
    have "luaF_findupval lv F = Inr (fr_next F, F')"
      using l(1) by (simp add: luaF_findupval_def Let_def F'_def)
    moreover have w: "wf_upvals F'"
      using open_list_insert [OF o [unfolded l(2)] assms(3) l(3,4)] assms(1,2) by (simp add: wf_upvals_def F'_def)
    moreover have a: "uv_v (fr_upvs F' (fr_next F)) = Some lv"
      by (simp add: F'_def)
    moreover have "\<forall>b. b \<noteq> fr_next F \<longrightarrow> fr_upvs F' b = ?us b" "fr_stack F' = fr_stack F"
      by (simp_all add: F'_def)
    moreover have "\<forall>b. uv_v (fr_upvs F' b) = Some lv \<longrightarrow> b = fr_next F"
      using one [OF w a] by blast
    ultimately show ?thesis
      using open_upval_found [OF w a] by (intro exI [of _ "fr_next F"] exI [of _ F'] conjI)
  qed
qed

text \<open>What is left of a pointer to the stack when the places from \<open>lv\<close> on are closed.\<close>

definition below :: "nat \<Rightarrow> nat option \<Rightarrow> nat option" where
  "below lv v = (case v of Some i \<Rightarrow> if lv \<le> i then None else Some i | None \<Rightarrow> None)"

lemma close_loop_spec:
  assumes "open_list (fr_upvs F) ps" "\<forall>a v. uv_v (fr_upvs F a) = Some v \<longrightarrow> v < length (fr_stack F)"
  shows "\<exists>us qs. close_loop lv ps F = Inr (F\<lparr>fr_upvs := us, fr_openupval := qs\<rparr>) \<and> open_list us qs \<and>
    (\<forall>a. get_upval a (F\<lparr>fr_upvs := us\<rparr>) = get_upval a F \<and> uv_v (us a) = below lv (uv_v (fr_upvs F a)))"
  using assms
proof (induction ps arbitrary: F)
  case Nil
  then have "uv_v (fr_upvs F a) = None" for a
    by (simp add: open_list_def)
  with Nil.prems(1) show ?case
    by (intro exI [of _ "fr_upvs F"] exI [of _ "[]"]) (simp add: below_def)
next
  case (Cons p ps)
  let ?us = "fr_upvs F"
  obtain v where v: "uv_v (?us p) = Some v"
    using open_listD(2) [OF Cons.prems(1)] by auto
  then have len: "v < length (fr_stack F)"
    using Cons.prems(2) by blast
  have p: "p \<notin> set ps" "\<forall>q \<in> set ps. uv_level ?us q < v"
    using open_listD(1) [OF Cons.prems(1)] v by (auto simp: uv_level_def)
  show ?case
  proof (cases "lv \<le> v")
    case True
    let ?F = "F\<lparr>fr_upvs := ?us(p := \<lparr>uv_v = None, uv_value = fr_stack F ! v\<rparr>)\<rparr>"
    have "sorted_wrt (\<lambda>p q. uv_level (fr_upvs ?F) q < uv_level (fr_upvs ?F) p) ps"
      using open_listD(1) [OF Cons.prems(1)] p(1) by (subst sorted_level_cong [of ps _ ?us]) auto
    then have "open_list (fr_upvs ?F) ps"
      using Cons.prems(1) p(1) v by (auto simp: open_list_def)
    moreover have "\<forall>a v. uv_v (fr_upvs ?F a) = Some v \<longrightarrow> v < length (fr_stack ?F)"
      using Cons.prems(2) by simp
    ultimately obtain us qs where IH: "close_loop lv ps ?F = Inr (?F\<lparr>fr_upvs := us, fr_openupval := qs\<rparr>)"
      "open_list us qs" "\<And>a. get_upval a (?F\<lparr>fr_upvs := us\<rparr>) = get_upval a ?F"
      "\<And>a. uv_v (us a) = below lv (uv_v (fr_upvs ?F a))"
      using Cons.IH [of ?F] by blast
    have "get_upval a ?F = get_upval a F" for a
      using v len by (simp add: get_upval_def get_stack_def split: option.split)
    moreover have "below lv (uv_v (fr_upvs ?F a)) = below lv (uv_v (?us a))" for a
      using v True by (simp add: below_def)
    ultimately show ?thesis
      using IH v True len by (intro exI [of _ us] exI [of _ qs]) (simp add: get_stack_def)
  next
    case False
    have "below lv (uv_v (?us a)) = uv_v (?us a)" for a
      using False p(2) open_listD(3) [OF Cons.prems(1), of a] v
      by (fastforce simp: below_def uv_level_def split: option.splits)
    with False v Cons.prems(1) show ?thesis
      by (intro exI [of _ ?us] exI [of _ "p # ps"]) simp
  qed
qed

text \<open>
  C3: \<open>luaF_close\<close> ends the life of the stack from a level on for closures: afterwards no upvalue points there, and
  every upvalue still has the value it had.  The upvalues below the level and the rest of the state stay.
\<close>

theorem close_keeps_values:
  assumes "wf_upvals F"
  shows "\<exists>us qs. luaF_close lv F = Inr (F\<lparr>fr_upvs := us, fr_openupval := qs\<rparr>) \<and>
    wf_upvals (F\<lparr>fr_upvs := us, fr_openupval := qs\<rparr>) \<and>
    (\<forall>a. get_upval a (F\<lparr>fr_upvs := us\<rparr>) = get_upval a F \<and> uv_v (us a) = below lv (uv_v (fr_upvs F a)))"
proof -
  have F: "open_list (fr_upvs F) (fr_openupval F)" "\<forall>a v. uv_v (fr_upvs F a) = Some v \<longrightarrow> v < length (fr_stack F)"
    using assms by (simp_all add: wf_upvals_def)
  obtain us qs where c: "close_loop lv (fr_openupval F) F = Inr (F\<lparr>fr_upvs := us, fr_openupval := qs\<rparr>)" "open_list us qs"
    "\<And>a. get_upval a (F\<lparr>fr_upvs := us\<rparr>) = get_upval a F" "\<And>a. uv_v (us a) = below lv (uv_v (fr_upvs F a))"
    using close_loop_spec [OF F] by blast
  have "wf_upvals (F\<lparr>fr_upvs := us, fr_openupval := qs\<rparr>)"
    using c(2) F(2) by (auto simp: wf_upvals_def c(4) below_def split: option.splits if_splits)
  then show ?thesis
    using c by (intro exI [of _ us] exI [of _ qs]) (simp add: luaF_close_def)
qed

section \<open>Witnesses\<close>

text \<open>Three places on the stack, two of them captured.\<close>

definition captured :: Frames where
  "captured = \<lparr>fr_stack = [LBoolean 1, LNil, LString ''a''], fr_base = 0, fr_top = 3, fr_ci = [], fr_size_ci = 8,
     fr_nCcalls = 0, fr_openupval = [128, 64],
     fr_upvs = (\<lambda>a. \<lparr>uv_v = (if a = 64 then Some 0 else if a = 128 then Some 2 else None), uv_value = LNil\<rparr>),
     fr_funcs = (\<lambda>_. CClosure 0 []), fr_next = 192\<rparr>"

lemma wf_captured: "wf_upvals captured"
  by (auto simp: wf_upvals_def open_list_def uv_level_def captured_def split: if_splits)

lemma findupval_shares_witness:
  "\<exists>a F'. luaF_findupval 1 captured = Inr (a, F') \<and> wf_upvals F' \<and> uv_v (fr_upvs F' a) = Some 1 \<and>
    luaF_findupval 1 F' = Inr (a, F')"
proof -
  have "1 < length (fr_stack captured)" "uv_v (fr_upvs captured (fr_next captured)) = None"
    by (simp_all add: captured_def)
  with findupval_shares [OF wf_captured] show ?thesis
    by blast
qed

lemma close_keeps_values_witness:
  "\<exists>F'. luaF_close 1 captured = Inr F' \<and> wf_upvals F' \<and> uv_v (fr_upvs F' 64) = Some 0 \<and> uv_v (fr_upvs F' 128) = None"
proof -
  obtain us qs where c: "luaF_close 1 captured = Inr (captured\<lparr>fr_upvs := us, fr_openupval := qs\<rparr>)"
    "wf_upvals (captured\<lparr>fr_upvs := us, fr_openupval := qs\<rparr>)"
    "\<And>a. uv_v (us a) = below 1 (uv_v (fr_upvs captured a))"
    using close_keeps_values [OF wf_captured, of 1] by blast
  have "uv_v (us 64) = Some 0" "uv_v (us 128) = None"
    by (simp_all add: c(3) captured_def below_def)
  with c(1,2) show ?thesis
    by (intro exI [of _ "captured\<lparr>fr_upvs := us, fr_openupval := qs\<rparr>"]) simp
qed

end
