(* ===== verification/Vm.thy ===== *)
theory Vm
  imports Tables Streams Closures "HOL-Library.List_Lexorder" "HOL-Library.Char_ord"
begin

text \<open>
  The operations of the virtual machine on values (\<open>lua/lvm.c\<close>, in front of \<open>luaV_execute\<close>) and tag
  methods (\<open>lua/ltm.c\<close>).

  The state is what these operations and the C functions of the API see of \<open>lua_State\<close> and
  \<open>global_State\<close>: the frame of the running function, from \<open>base\<close> to \<open>top\<close>, the upvalues of a C
  function, the registry, the table of globals, and the tables in the heap.  The rest of the stack, and what
  calls and closures need, is in \<open>fr\<close>; these operations do not look at it.

  A tag method may be any function.  \<open>luaD_call\<close> is the parameter \<open>call\<close> of the operations that
  can reach it: from a function, its arguments, the number of results wanted and the state to the
  results and the state.  Error messages do not have the position of the error nor the name of the
  variable the value came from.
\<close>

unbundle bit_operations_syntax

section \<open>State\<close>

record lua_State =
  stk :: "TObject list"
  upvals :: "TObject list"
  l_registry :: TObject
  l_gt :: TObject
  defaultmeta :: addr
  tabs :: "addr \<Rightarrow> Table"
  udmeta :: "addr \<Rightarrow> addr"
  fr :: Frames

type_synonym caller = "TObject \<Rightarrow> TObject list \<Rightarrow> nat \<Rightarrow> lua_State \<Rightarrow> (TObject list \<times> lua_State) res"

definition set_table :: "addr \<Rightarrow> Table \<Rightarrow> lua_State \<Rightarrow> lua_State" where
  "set_table h t L = L\<lparr>tabs := (tabs L)(h := t)\<rparr>"

definition luaG_runerror :: "string \<Rightarrow> 'a res" where
  "luaG_runerror msg = Inl (RunError msg)"

text \<open>A state without anything, for examples.\<close>

definition empty_table :: Table where
  "empty_table = \<lparr>flags = NOT 0, lsizenode = 0, metatable = 0, array = [], node = [free_node], firstfree = 0\<rparr>"

definition empty_state :: lua_State where
  "empty_state = \<lparr>stk = [], upvals = [], l_registry = LTable 1, l_gt = LTable 2, defaultmeta = 0,
     tabs = (\<lambda>_. empty_table), udmeta = (\<lambda>_. 0), fr = no_frames\<rparr>"

section \<open>Tag methods\<close>

definition luaT_typenames :: "string list" where
  "luaT_typenames = [''nil'', ''boolean'', ''userdata'', ''number'', ''string'', ''table'', ''function'',
     ''userdata'', ''thread'']"

definition type_name :: "TObject \<Rightarrow> string" where
  "type_name o' = luaT_typenames ! nat (ttype o')"

datatype TMS = TM_INDEX | TM_NEWINDEX | TM_GC | TM_MODE | TM_EQ | TM_ADD | TM_SUB | TM_MUL | TM_DIV
  | TM_POW | TM_UNM | TM_LT | TM_LE | TM_CONCAT | TM_CALL

fun tm_num :: "TMS \<Rightarrow> nat" where
  "tm_num TM_INDEX = 0" | "tm_num TM_NEWINDEX = 1" | "tm_num TM_GC = 2" | "tm_num TM_MODE = 3"
| "tm_num TM_EQ = 4" | "tm_num TM_ADD = 5" | "tm_num TM_SUB = 6" | "tm_num TM_MUL = 7"
| "tm_num TM_DIV = 8" | "tm_num TM_POW = 9" | "tm_num TM_UNM = 10" | "tm_num TM_LT = 11"
| "tm_num TM_LE = 12" | "tm_num TM_CONCAT = 13" | "tm_num TM_CALL = 14"

definition luaT_eventname :: "string list" where
  "luaT_eventname = [''__index'', ''__newindex'', ''__gc'', ''__mode'', ''__eq'', ''__add'', ''__sub'',
     ''__mul'', ''__div'', ''__pow'', ''__unm'', ''__lt'', ''__le'', ''__concat'', ''__call'']"

definition tmname :: "TMS \<Rightarrow> string" where
  "tmname e = luaT_eventname ! tm_num e"

text \<open>A field of a table that is read with its name.\<close>

definition getstr_val :: "Table \<Rightarrow> string \<Rightarrow> TObject res" where
  "getstr_val t s = bindR (luaH_getstr t s) (\<lambda>p. Inr (slot_get t p))"

text \<open>\<open>luaT_gettm\<close> notes in the flags of a metatable that it has no such method; \<open>None\<close> is NULL.\<close>

definition luaT_gettm :: "addr \<Rightarrow> TMS \<Rightarrow> lua_State \<Rightarrow> (TObject option \<times> lua_State) res" where
  "luaT_gettm events event L =
    bindR (getstr_val (tabs L events) (tmname event)) (\<lambda>tm.
      if tm = LNil then
        (let t = tabs L events
         in Inr (None, set_table events (t\<lparr>flags := flags t OR push_bit (tm_num event) 1\<rparr>) L))
      else Inr (Some tm, L))"

definition fasttm :: "addr \<Rightarrow> TMS \<Rightarrow> lua_State \<Rightarrow> (TObject option \<times> lua_State) res" where
  "fasttm et e L =
    (if flags (tabs L et) AND push_bit (tm_num e) 1 \<noteq> 0 then Inr (None, L) else luaT_gettm et e L)"

definition luaT_gettmbyobj :: "TObject \<Rightarrow> TMS \<Rightarrow> lua_State \<Rightarrow> TObject res" where
  "luaT_gettmbyobj o' event L = (case o' of
     LTable h \<Rightarrow> getstr_val (tabs L (metatable (tabs L h))) (tmname event)
   | LUserdata u \<Rightarrow> getstr_val (tabs L (udmeta L u)) (tmname event)
   | _ \<Rightarrow> Inr LNil)"

section \<open>Errors\<close>

definition luaG_typeerror :: "TObject \<Rightarrow> string \<Rightarrow> 'a res" where
  "luaG_typeerror o' act = luaG_runerror (''attempt to '' @ act @ '' a '' @ type_name o' @ '' value'')"

definition ttisstring :: "TObject \<Rightarrow> bool" where "ttisstring o' \<longleftrightarrow> ttype o' = 4"
definition ttisfunction :: "TObject \<Rightarrow> bool" where "ttisfunction o' \<longleftrightarrow> ttype o' = 6"

definition luaG_concaterror :: "TObject \<Rightarrow> TObject \<Rightarrow> 'a res" where
  "luaG_concaterror p1 p2 = luaG_typeerror (if ttisstring p1 then p2 else p1) ''concatenate''"

text \<open>\<open>luaG_ordererror\<close> compares the third characters of the type names.\<close>

definition luaG_ordererror :: "TObject \<Rightarrow> TObject \<Rightarrow> 'a res" where
  "luaG_ordererror p1 p2 =
    (let t1 = type_name p1; t2 = type_name p2
     in if t1 ! 2 = t2 ! 2 then luaG_runerror (''attempt to compare two '' @ t1 @ '' values'')
        else luaG_runerror (''attempt to compare '' @ t1 @ '' with '' @ t2))"

section \<open>Conversions\<close>

definition luaV_tonumber :: "TObject \<Rightarrow> lua_Number option" where
  "luaV_tonumber obj = (case obj of
     LNumber n \<Rightarrow> Some n
   | LString s \<Rightarrow> luaO_str2d s
   | _ \<Rightarrow> None)"

text \<open>\<open>tostring(L, o)\<close>: a string stays, \<open>luaV_tostring\<close> turns a number into one in place.\<close>

definition luaV_tostring :: "TObject \<Rightarrow> TObject option" where
  "luaV_tostring obj = (case obj of LNumber n \<Rightarrow> Some (LString (lua_number2str n)) | _ \<Rightarrow> None)"

definition tostring :: "TObject \<Rightarrow> string option" where
  "tostring obj = (case obj of
     LString s \<Rightarrow> Some s
   | _ \<Rightarrow> (case luaV_tostring obj of Some (LString s) \<Rightarrow> Some s | _ \<Rightarrow> None))"

lemma tostring_simps [simp]:
  "tostring (LString s) = Some s" "tostring (LNumber n) = Some (lua_number2str n)"
  by (simp_all add: tostring_def luaV_tostring_def)

definition luaG_aritherror :: "TObject \<Rightarrow> TObject \<Rightarrow> 'a res" where
  "luaG_aritherror p1 p2 =
    luaG_typeerror (if luaV_tonumber p1 = None then p1 else p2) ''perform arithmetic on''"

section \<open>Calling tag methods\<close>

text \<open>\<open>luaD_poscall\<close> has adjusted the results to one.\<close>

definition result1 :: "TObject list \<Rightarrow> TObject" where
  "result1 rs = (case rs of [] \<Rightarrow> LNil | r # _ \<Rightarrow> r)"

definition callTMres :: "caller \<Rightarrow> TObject \<Rightarrow> TObject \<Rightarrow> TObject \<Rightarrow> lua_State \<Rightarrow> (TObject \<times> lua_State) res" where
  "callTMres call f p1 p2 L = bindR (call f [p1, p2] 1 L) (\<lambda>(rs, L). Inr (result1 rs, L))"

definition callTM :: "caller \<Rightarrow> TObject \<Rightarrow> TObject \<Rightarrow> TObject \<Rightarrow> TObject \<Rightarrow> lua_State \<Rightarrow> lua_State res" where
  "callTM call f p1 p2 p3 L = bindR (call f [p1, p2, p3] 0 L) (\<lambda>(rs, L). Inr L)"

text \<open>\<open>call_binTM\<close>: \<open>None\<close> when there is no method.\<close>

definition call_binTM :: "caller \<Rightarrow> TObject \<Rightarrow> TObject \<Rightarrow> TMS \<Rightarrow> lua_State \<Rightarrow> (TObject option \<times> lua_State) res" where
  "call_binTM call p1 p2 event L =
    bindR (luaT_gettmbyobj p1 event L) (\<lambda>tm.
    bindR (if tm = LNil then luaT_gettmbyobj p2 event L else Inr tm) (\<lambda>tm.
      if \<not> ttisfunction tm then Inr (None, L)
      else bindR (callTMres call tm p1 p2 L) (\<lambda>(r, L). Inr (Some r, L))))"

section \<open>Indexing\<close>

definition MAXTAGLOOP :: nat where "MAXTAGLOOP = 100"

text \<open>
  \<open>luaV_gettable\<close> with \<open>luaV_index\<close> (for a table) and \<open>luaV_getnotable\<close> (for anything else), which call
  it again.
\<close>

function luaV_gettable :: "caller \<Rightarrow> TObject \<Rightarrow> TObject \<Rightarrow> nat \<Rightarrow> lua_State \<Rightarrow> (TObject \<times> lua_State) res" where
  "luaV_gettable call t key loop L =
    (if MAXTAGLOOP < loop then luaG_runerror ''loop in gettable''
     else case t of
       LTable h \<Rightarrow>
         bindR (table_lookup (tabs L h) key) (\<lambda>v.
           if v \<noteq> LNil then Inr (v, L)
           else bindR (fasttm (metatable (tabs L h)) TM_INDEX L) (\<lambda>(tm, L). case tm of
               None \<Rightarrow> Inr (LNil, L)
             | Some tm \<Rightarrow> if ttisfunction tm then callTMres call tm t key L
                 else luaV_gettable call tm key (loop + 1) L))
     | _ \<Rightarrow>
         bindR (luaT_gettmbyobj t TM_INDEX L) (\<lambda>tm.
           if tm = LNil then luaG_typeerror t ''index''
           else if ttisfunction tm then callTMres call tm t key L
           else luaV_gettable call tm key (loop + 1) L))"
  by pat_completeness auto
termination
  by (relation "measure (\<lambda>(call, t, key, loop, L). MAXTAGLOOP + 1 - loop)") auto

declare luaV_gettable.simps [simp del]

text \<open>The loop of \<open>luaV_settable\<close>.\<close>

function settable_loop ::
  "caller \<Rightarrow> TObject \<Rightarrow> TObject \<Rightarrow> TObject \<Rightarrow> nat \<Rightarrow> lua_State \<Rightarrow> lua_State res" where
  "settable_loop call t key val loop L =
    (let next = (\<lambda>tm L. if ttisfunction tm then callTM call tm t key val L
                  else if loop + 1 \<le> MAXTAGLOOP then settable_loop call tm key val (loop + 1) L
                  else luaG_runerror ''loop in settable'')
     in case t of
       LTable h \<Rightarrow>
         bindR (luaH_set (tabs L h) key) (\<lambda>(tb, p).
           (let L = set_table h tb L
            in if slot_get tb p \<noteq> LNil then Inr (set_table h (slot_set tb p val) L)
               else bindR (fasttm (metatable tb) TM_NEWINDEX L) (\<lambda>(tm, L). case tm of
                   None \<Rightarrow> Inr (set_table h (slot_set (tabs L h) p val) L)
                 | Some tm \<Rightarrow> next tm L)))
     | _ \<Rightarrow>
         bindR (luaT_gettmbyobj t TM_NEWINDEX L) (\<lambda>tm.
           if tm = LNil then luaG_typeerror t ''index'' else next tm L))"
  by pat_completeness auto
termination
  by (relation "measure (\<lambda>(call, t, key, val, loop, L). MAXTAGLOOP + 1 - loop)") auto

declare settable_loop.simps [simp del]

definition luaV_settable :: "caller \<Rightarrow> TObject \<Rightarrow> TObject \<Rightarrow> TObject \<Rightarrow> lua_State \<Rightarrow> lua_State res" where
  "luaV_settable call t key val L = settable_loop call t key val 0 L"

section \<open>Comparison\<close>

text \<open>\<open>strcoll\<close> in the \<open>C\<close> locale: bytes compare as unsigned numbers.\<close>

fun strcmp :: "string \<Rightarrow> string \<Rightarrow> int" where
  "strcmp [] [] = 0"
| "strcmp [] (y # ys) = -1"
| "strcmp (x # xs) [] = 1"
| "strcmp (x # xs) (y # ys) = (if uchar x < uchar y then -1 else if uchar y < uchar x then 1 else strcmp xs ys)"

definition strcoll :: "string \<Rightarrow> string \<Rightarrow> int" where
  "strcoll l r = strcmp (cstr l) (cstr r)"

function luaV_strcmp :: "string \<Rightarrow> string \<Rightarrow> int" where
  "luaV_strcmp l r =
    (let temp = strcoll l r; len = length (cstr l)
     in if temp \<noteq> 0 then temp
        else if len = length r then (if len = length l then 0 else 1)
        else if len = length l then -1
        else luaV_strcmp (drop (len + 1) l) (drop (len + 1) r))"
  by pat_completeness auto
termination
  by (relation "measure (\<lambda>(l, r). length l)") (auto simp: cstr_def dest: le_neq_implies_less [OF length_takeWhile_le])

declare luaV_strcmp.simps [simp del]

definition get_compTM :: "addr \<Rightarrow> addr \<Rightarrow> TMS \<Rightarrow> lua_State \<Rightarrow> (TObject option \<times> lua_State) res" where
  "get_compTM mt1 mt2 event L =
    bindR (fasttm mt1 event L) (\<lambda>(tm1, L). case tm1 of
        None \<Rightarrow> Inr (None, L)
      | Some f1 \<Rightarrow>
          if mt1 = mt2 then Inr (Some f1, L)
          else bindR (fasttm mt2 event L) (\<lambda>(tm2, L). case tm2 of
              None \<Rightarrow> Inr (None, L)
            | Some f2 \<Rightarrow> Inr (if luaO_rawequalObj f1 f2 then Some f1 else None, L)))"

text \<open>\<open>call_orderTM\<close>: \<open>None\<close> for the result \<open>-1\<close>.\<close>

definition call_orderTM :: "caller \<Rightarrow> TObject \<Rightarrow> TObject \<Rightarrow> TMS \<Rightarrow> lua_State \<Rightarrow> (bool option \<times> lua_State) res" where
  "call_orderTM call p1 p2 event L =
    bindR (luaT_gettmbyobj p1 event L) (\<lambda>tm1.
      if tm1 = LNil then Inr (None, L)
      else bindR (luaT_gettmbyobj p2 event L) (\<lambda>tm2.
        if \<not> luaO_rawequalObj tm1 tm2 then Inr (None, L)
        else bindR (callTMres call tm1 p1 p2 L) (\<lambda>(r, L). Inr (Some (\<not> l_isfalse r), L))))"

definition luaV_lessthan :: "caller \<Rightarrow> TObject \<Rightarrow> TObject \<Rightarrow> lua_State \<Rightarrow> (bool \<times> lua_State) res" where
  "luaV_lessthan call l r L =
    (if ttype l \<noteq> ttype r then luaG_ordererror l r
     else case (l, r) of
       (LNumber m, LNumber n) \<Rightarrow> Inr (num_lt m n, L)
     | (LString s, LString t) \<Rightarrow> Inr (luaV_strcmp s t < 0, L)
     | _ \<Rightarrow> bindR (call_orderTM call l r TM_LT L) (\<lambda>(res, L). case res of
           Some b \<Rightarrow> Inr (b, L)
         | None \<Rightarrow> luaG_ordererror l r))"

definition luaV_lessequal :: "caller \<Rightarrow> TObject \<Rightarrow> TObject \<Rightarrow> lua_State \<Rightarrow> (bool \<times> lua_State) res" where
  "luaV_lessequal call l r L =
    (if ttype l \<noteq> ttype r then luaG_ordererror l r
     else case (l, r) of
       (LNumber m, LNumber n) \<Rightarrow> Inr (num_le m n, L)
     | (LString s, LString t) \<Rightarrow> Inr (luaV_strcmp s t \<le> 0, L)
     | _ \<Rightarrow> bindR (call_orderTM call l r TM_LE L) (\<lambda>(res, L). case res of
           Some b \<Rightarrow> Inr (b, L)
         | None \<Rightarrow> bindR (call_orderTM call r l TM_LT L) (\<lambda>(res, L). case res of
             Some b \<Rightarrow> Inr (\<not> b, L)
           | None \<Rightarrow> luaG_ordererror l r)))"

text \<open>\<open>luaV_equalval\<close> is for values of the same type; \<open>equalobj\<close> is the macro that checks this.\<close>

definition luaV_equalval :: "caller \<Rightarrow> TObject \<Rightarrow> TObject \<Rightarrow> lua_State \<Rightarrow> (bool \<times> lua_State) res" where
  "luaV_equalval call t1 t2 L =
    (let try = (\<lambda>m1 m2. bindR (get_compTM m1 m2 TM_EQ L) (\<lambda>(tm, L). case tm of
           None \<Rightarrow> Inr (False, L)
         | Some f \<Rightarrow> bindR (callTMres call f t1 t2 L) (\<lambda>(r, L). Inr (\<not> l_isfalse r, L))))
     in case (t1, t2) of
          (LUserdata u, LUserdata v) \<Rightarrow> if u = v then Inr (True, L) else try (udmeta L u) (udmeta L v)
        | (LTable h, LTable k) \<Rightarrow>
            if h = k then Inr (True, L) else try (metatable (tabs L h)) (metatable (tabs L k))
        | _ \<Rightarrow> Inr (luaO_rawequalObj t1 t2, L))"

definition equalobj :: "caller \<Rightarrow> TObject \<Rightarrow> TObject \<Rightarrow> lua_State \<Rightarrow> (bool \<times> lua_State) res" where
  "equalobj call o1 o2 L = (if ttype o1 = ttype o2 then luaV_equalval call o1 o2 L else Inr (False, L))"

section \<open>Concatenation\<close>

text \<open>
  \<open>luaV_concat\<close> on the values on top of the stack, the topmost first.  A round of its loop takes as many
  strings and numbers as there are, or two values with a tag method.
\<close>

function luaV_concat :: "caller \<Rightarrow> TObject list \<Rightarrow> lua_State \<Rightarrow> (TObject \<times> lua_State) res" where
  "luaV_concat call [] L = Inl OutOfBounds"
| "luaV_concat call [x] L = Inr (x, L)"
| "luaV_concat call (x # y # rest) L =
    (let method = (\<lambda>p1 p2. bindR (call_binTM call p1 p2 TM_CONCAT L) (\<lambda>(r, L). case r of
           None \<Rightarrow> luaG_concaterror p1 p2
         | Some v \<Rightarrow> luaV_concat call (v # rest) L))
     in case tostring y of
          None \<Rightarrow> method y x
        | Some ys \<Rightarrow>
            (case tostring x of
               None \<Rightarrow> method (LString ys) x
             | Some xs \<Rightarrow>
                 if xs = [] then luaV_concat call (LString ys # rest) L
                 else
                   (let more = takeWhile (\<lambda>v. tostring v \<noteq> None) rest;
                        buffer = concat (map (\<lambda>v. the (tostring v)) (rev (x # y # more)))
                    in if MAX_SIZET < length buffer then luaG_runerror ''string size overflow''
                       else luaV_concat call (LString buffer # drop (length more) rest) L)))"
  by pat_completeness auto
termination
  by (relation "measure (\<lambda>(call, vs, L). length vs)") auto

declare luaV_concat.simps(3) [simp del]

section \<open>Arithmetic\<close>

definition Arith :: "caller \<Rightarrow> TObject \<Rightarrow> TObject \<Rightarrow> TMS \<Rightarrow> lua_State \<Rightarrow> (TObject \<times> lua_State) res" where
  "Arith call rb rc op' L =
    (case (luaV_tonumber rb, luaV_tonumber rc) of
       (Some b, Some c) \<Rightarrow>
         (case op' of
            TM_ADD \<Rightarrow> Inr (LNumber (num_add b c), L)
          | TM_SUB \<Rightarrow> Inr (LNumber (num_sub b c), L)
          | TM_MUL \<Rightarrow> Inr (LNumber (num_mul b c), L)
          | TM_DIV \<Rightarrow> Inr (LNumber (num_div b c), L)
          | TM_POW \<Rightarrow>
              (case l_gt L of
                 LTable h \<Rightarrow>
                   bindR (getstr_val (tabs L h) (tmname TM_POW)) (\<lambda>f.
                     if \<not> ttisfunction f then
                       luaG_runerror (CHR 0x60 # ''__pow'' @ [CHR 0x27] @ '' ('' @ [CHR 0x60] @ ''^'' @ [CHR 0x27] @
                         '' operator) is not a function'')
                     else callTMres call f (LNumber b) (LNumber c) L)
               | _ \<Rightarrow> Inl OutOfBounds)
          | _ \<Rightarrow> Inl OutOfBounds)
     | _ \<Rightarrow>
         bindR (call_binTM call rb rc op' L) (\<lambda>(r, L). case r of
             None \<Rightarrow> luaG_aritherror rb rc
           | Some v \<Rightarrow> Inr (v, L)))"

section \<open>The order of strings\<close>

lemma char_order: "x < y \<longleftrightarrow> uchar x < uchar y" "x \<le> y \<longleftrightarrow> uchar x \<le> uchar y"
  by (simp_all add: uchar_def less_char_def less_eq_char_def)

lemma uchar_inject: "uchar x = uchar y \<longleftrightarrow> x = y"
  by (simp add: uchar_def)

lemma NUL_least: "\<not> x < NUL" "NUL < x \<longleftrightarrow> x \<noteq> NUL"
proof -
  have "uchar NUL = 0"
    by (simp add: uchar_def NUL_def)
  then show "\<not> x < NUL" "NUL < x \<longleftrightarrow> x \<noteq> NUL"
    using uchar_inject [of NUL x] by (auto simp: char_order)
qed

lemma strcmp_order: "(strcmp l r < 0 \<longleftrightarrow> l < r) \<and> (strcmp l r = 0 \<longleftrightarrow> l = r)"
  by (induction l r rule: strcmp.induct) (use uchar_inject in \<open>auto simp: char_order\<close>)

lemma cstr_simps [simp]: "cstr [] = []" "cstr (x # xs) = (if x = NUL then [] else x # cstr xs)"
  by (simp_all add: cstr_def)

lemma cstr_order: "cstr l \<noteq> cstr r \<Longrightarrow> cstr l < cstr r \<longleftrightarrow> l < r"
  by (induction l r rule: strcmp.induct) (auto simp: NUL_least split: if_splits)

lemma cstr_split: "l = cstr l @ (if length (cstr l) = length l then [] else NUL # drop (length (cstr l) + 1) l)"
  by (induction l) auto

lemma append_order: "(xs @ ys < xs @ zs) = (ys < (zs :: string))"
  by (induction xs) simp_all

lemma cstr_whole: "length (cstr l) = length l \<Longrightarrow> cstr l = l"
  using cstr_split [of l] by simp

text \<open>One step of the comparison, with the pieces up to the first zero equal.\<close>

lemma luaV_strcmp_piece:
  assumes "cstr l = cstr r"
  shows "luaV_strcmp l r =
    (if length (cstr l) = length r then (if length (cstr l) = length l then 0 else 1)
     else if length (cstr l) = length l then -1
     else luaV_strcmp (drop (length (cstr l) + 1) l) (drop (length (cstr l) + 1) r))"
  using assms strcmp_order [of "cstr l" "cstr r"]
  by (subst luaV_strcmp.simps) (simp add: strcoll_def Let_def)

lemma luaV_strcmp_differ:
  assumes "cstr l \<noteq> cstr r"
  shows "luaV_strcmp l r = strcoll l r"
  using assms strcmp_order [of "cstr l" "cstr r"]
  by (subst luaV_strcmp.simps) (simp add: strcoll_def Let_def)

text \<open>What follows a piece: nothing, or a zero and the rest.\<close>

lemma cstr_piece: "cstr l = p \<Longrightarrow> l = p \<or> (\<exists>l'. l = p @ NUL # l')"
  using cstr_split [of l] by (cases "length (cstr l) = length l") auto

lemma piece_order:
  assumes "cstr l = p" "cstr r = p"
  obtains "l = p" "r = p" | r' where "l = p" "r = p @ NUL # r'" | l' where "l = p @ NUL # l'" "r = p"
  | l' r' where "l = p @ NUL # l'" "r = p @ NUL # r'"
  using cstr_piece [OF assms(1)] cstr_piece [OF assms(2)] by metis

lemma luaV_strcmp_order: "(luaV_strcmp l r < 0 \<longleftrightarrow> l < r) \<and> (luaV_strcmp l r = 0 \<longleftrightarrow> l = r)"
proof (induction "length l" arbitrary: l r rule: less_induct)
  case less
  show ?case
  proof (cases "cstr l = cstr r")
    case False
    then have "luaV_strcmp l r = strcoll l r" "strcoll l r \<noteq> 0" "strcoll l r < 0 \<longleftrightarrow> l < r"
      using luaV_strcmp_differ strcmp_order [of "cstr l" "cstr r"] cstr_order [OF False]
      by (simp_all add: strcoll_def)
    with False show ?thesis
      by auto
  next
    case True
    define p where "p = cstr l"
    have e: "luaV_strcmp l r =
      (if length p = length r then (if length p = length l then 0 else 1)
       else if length p = length l then -1 else luaV_strcmp (drop (length p + 1) l) (drop (length p + 1) r))"
      using luaV_strcmp_piece [OF True] by (simp only: p_def)
    have "cstr l = p" "cstr r = p"
      using True by (simp_all add: p_def)
    then show ?thesis
    proof (cases rule: piece_order)
      case 1
      have "luaV_strcmp l r = 0"
        unfolding e unfolding 1 by simp
      with 1 show ?thesis
        by simp
    next
      case (2 r')
      have "luaV_strcmp l r = -1"
        unfolding e unfolding 2 by simp
      with 2 show ?thesis
        using append_order [of p "[]"] by simp
    next
      case (3 l')
      have "luaV_strcmp l r = 1"
        unfolding e unfolding 3 by simp
      with 3 show ?thesis
        using append_order [of p _ "[]"] by simp
    next
      case (4 l' r')
      have "luaV_strcmp l r = luaV_strcmp l' r'"
        unfolding e unfolding 4 by simp
      then show ?thesis
        using less [of l' r'] 4 by (simp add: append_order)
    qed
  qed
qed

section \<open>Concatenation of strings and numbers\<close>

definition stringlike :: "TObject \<Rightarrow> bool" where
  "stringlike v \<longleftrightarrow> tostring v \<noteq> None"

definition chars_of :: "TObject \<Rightarrow> string" where
  "chars_of v = the (tostring v)"

lemma stringlike_simps [simp]:
  "stringlike (LString s)" "stringlike (LNumber n)" "chars_of (LString s) = s"
  by (simp_all add: stringlike_def chars_of_def)

lemma luaV_concat_strings:
  assumes "vs \<noteq> []" "\<forall>v \<in> set vs. stringlike v" "length vs = 1 \<Longrightarrow> ttisstring (hd vs)"
    "length (concat (map chars_of (rev vs))) \<le> MAX_SIZET"
  shows "luaV_concat call vs L = Inr (LString (concat (map chars_of (rev vs))), L)"
  using assms
proof (induction "length vs" arbitrary: vs rule: less_induct)
  case less
  consider x where "vs = [x]" | x y rest where "vs = x # y # rest"
    using less.prems(1) by (metis neq_Nil_conv)
  then show ?case
  proof cases
    case (1 x)
    then show ?thesis
      using less.prems(3) by (cases x) (simp_all add: ttisstring_def)
  next
    case (2 x y rest)
    have x: "tostring x = Some (chars_of x)" and y: "tostring y = Some (chars_of y)"
      using less.prems(2) by (auto simp: 2 stringlike_def chars_of_def)
    have more: "takeWhile (\<lambda>v. tostring v \<noteq> None) rest = rest"
      using less.prems(2) by (auto simp: 2 stringlike_def takeWhile_eq_all_conv)
    show ?thesis
    proof (cases "chars_of x = []")
      case True
      have "luaV_concat call (LString (chars_of y) # rest) L =
          Inr (LString (concat (map chars_of (rev (LString (chars_of y) # rest)))), L)"
        using less.prems True by (intro less.hyps) (auto simp: 2 ttisstring_def)
      then show ?thesis
        using True by (simp add: 2 luaV_concat.simps(3) x y)
    next
      case False
      have "luaV_concat call vs L =
          (let buffer = concat (map (\<lambda>v. the (tostring v)) (rev (x # y # rest)))
           in if MAX_SIZET < length buffer then luaG_runerror ''string size overflow''
              else luaV_concat call (LString buffer # drop (length rest) rest) L)"
        using False by (simp only: 2 luaV_concat.simps(3) x y more option.case if_False Let_def)
      then show ?thesis
        using less.prems(4) by (simp only: 2 Let_def chars_of_def [abs_def] not_less [symmetric] if_False drop_all order.refl
            luaV_concat.simps(2))
    qed
  qed
qed

section \<open>Properties\<close>

text \<open>
  C26: strings compare as sequences of bytes, zeros included: \<open>luaV_strcmp\<close>, which calls \<open>strcoll\<close> on
  the pieces between the zeros, is negative exactly when the first string is lexicographically less, and
  zero exactly when the strings are equal.
\<close>

theorem strcmp_lexicographic: "((luaV_strcmp l r < 0) = (l < r)) \<and> ((luaV_strcmp l r = 0) = (l = r))"
  by (rule luaV_strcmp_order)

text \<open>
  C31: values of type string or number concatenate, whatever tag methods there are, to the string of their
  bytes in the order of the stack.
\<close>

theorem concat_strings:
  assumes "2 \<le> length vs" "\<forall>v \<in> set vs. stringlike v" "length (concat (map chars_of vs)) \<le> MAX_SIZET"
  shows "luaV_concat call (rev vs) L = Inr (LString (concat (map chars_of vs)), L)"
  using luaV_concat_strings [of "rev vs"] assms by fastforce

lemma concat_strings_witness:
  "luaV_concat (\<lambda>f args n L. Inl ErrErr) (rev [LString ''a'', LString ''bc'', LString []]) empty_state =
   Inr (LString ''abc'', empty_state)"
  using concat_strings [of "[LString ''a'', LString ''bc'', LString []]"] by (simp add: MAX_SIZET_def)

end
