(* ===== verification/Api.thy ===== *)
theory Api
  imports Vm
begin

text \<open>
  The C API on values (\<open>lua/lapi.c\<close>): access to the stack of a C function by index, conversion of
  values in place, tables and metatables.

  The stack of the running function is the list \<open>stk\<close>, from \<open>base\<close> to \<open>top\<close>.  The checks of
  \<open>api_check\<close> are compiled out; an access outside of the stack is \<open>OutOfBounds\<close>.  \<open>lua_lock\<close> is
  empty, the collector (\<open>luaC_checkGC\<close>) does not change what is visible here, and the address of a new
  object is an argument.
\<close>

section \<open>Indices\<close>

definition LUA_REGISTRYINDEX :: int where "LUA_REGISTRYINDEX = -10000"
definition LUA_GLOBALSINDEX :: int where "LUA_GLOBALSINDEX = -10001"

definition lua_upvalueindex :: "int \<Rightarrow> int" where
  "lua_upvalueindex i = LUA_GLOBALSINDEX - i"

text \<open>Where a \<open>TObject*\<close> points to.\<close>

datatype loc = Stk nat | Registry | Globals | Upval nat

definition stack_loc :: "lua_State \<Rightarrow> int \<Rightarrow> loc res" where
  \<comment> \<open>\<open>L->base + i\<close>, which must be below \<open>top\<close>\<close>
  "stack_loc L i = (if 0 \<le> i \<and> i < int (length (stk L)) then Inr (Stk (nat i)) else Inl OutOfBounds)"

definition negindex :: "lua_State \<Rightarrow> int \<Rightarrow> loc option res" where
  "negindex L idx =
    (if LUA_REGISTRYINDEX < idx then bindR (stack_loc L (int (length (stk L)) + idx)) (\<lambda>p. Inr (Some p))
     else if idx = LUA_REGISTRYINDEX then Inr (Some Registry)
     else if idx = LUA_GLOBALSINDEX then Inr (Some Globals)
     else let idx = LUA_GLOBALSINDEX - idx
       in if idx \<le> int (length (upvals L)) then Inr (Some (Upval (nat (idx - 1)))) else Inr None)"

definition luaA_index :: "lua_State \<Rightarrow> int \<Rightarrow> loc res" where
  "luaA_index L idx =
    (if 0 < idx then stack_loc L (idx - 1)
     else bindR (negindex L idx) (\<lambda>p. case p of None \<Rightarrow> Inl OutOfBounds | Some p \<Rightarrow> Inr p))"

definition luaA_indexAcceptable :: "lua_State \<Rightarrow> int \<Rightarrow> loc option res" where
  "luaA_indexAcceptable L idx =
    (if 0 < idx then
       (if int (length (stk L)) \<le> idx - 1 then Inr None else Inr (Some (Stk (nat (idx - 1)))))
     else negindex L idx)"

fun loc_get :: "lua_State \<Rightarrow> loc \<Rightarrow> TObject" where
  "loc_get L (Stk i) = stk L ! i"
| "loc_get L Registry = l_registry L"
| "loc_get L Globals = l_gt L"
| "loc_get L (Upval i) = upvals L ! i"

fun loc_set :: "lua_State \<Rightarrow> loc \<Rightarrow> TObject \<Rightarrow> lua_State" where
  "loc_set L (Stk i) v = L\<lparr>stk := (stk L)[i := v]\<rparr>"
| "loc_set L Registry v = L\<lparr>l_registry := v\<rparr>"
| "loc_set L Globals v = L\<lparr>l_gt := v\<rparr>"
| "loc_set L (Upval i) v = L\<lparr>upvals := (upvals L)[i := v]\<rparr>"

definition at_index :: "lua_State \<Rightarrow> int \<Rightarrow> TObject res" where
  \<comment> \<open>\<open>*luaA_index(L, idx)\<close>\<close>
  "at_index L idx = bindR (luaA_index L idx) (\<lambda>p. Inr (loc_get L p))"

definition at_acceptable :: "lua_State \<Rightarrow> int \<Rightarrow> TObject option res" where
  \<comment> \<open>\<open>luaA_indexAcceptable(L, idx)\<close> read, \<open>None\<close> for NULL\<close>
  "at_acceptable L idx = bindR (luaA_indexAcceptable L idx) (\<lambda>p. Inr (map_option (loc_get L) p))"

section \<open>Stack manipulation\<close>

definition luaA_pushobject :: "lua_State \<Rightarrow> TObject \<Rightarrow> lua_State" where
  "luaA_pushobject L o' = L\<lparr>stk := stk L @ [o']\<rparr>"

definition LUA_MAXCSTACK :: int where "LUA_MAXCSTACK = 2048"

text \<open>The result of \<open>lua_checkstack\<close>; the growing of the stack is not visible here.\<close>

definition lua_checkstack :: "lua_State \<Rightarrow> int \<Rightarrow> bool" where
  "lua_checkstack L sz = (\<not> LUA_MAXCSTACK < int (length (stk L)) + sz)"

definition lua_xmove :: "lua_State \<Rightarrow> lua_State \<Rightarrow> nat \<Rightarrow> (lua_State \<times> lua_State) res" where
  "lua_xmove L1 L2 n =
    (if length (stk L1) < n then Inl OutOfBounds
     else let k = length (stk L1) - n
       in Inr (L1\<lparr>stk := take k (stk L1)\<rparr>, L2\<lparr>stk := stk L2 @ drop k (stk L1)\<rparr>))"

definition lua_gettop :: "lua_State \<Rightarrow> int" where
  "lua_gettop L = int (length (stk L))"

definition lua_settop :: "lua_State \<Rightarrow> int \<Rightarrow> lua_State res" where
  "lua_settop L idx =
    (if 0 \<le> idx then
       Inr (L\<lparr>stk := take (nat idx) (stk L @ replicate (nat idx - length (stk L)) LNil)\<rparr>)
     else
       let top = lua_gettop L + (idx + 1)
       in if top < 0 then Inl OutOfBounds else Inr (L\<lparr>stk := take (nat top) (stk L)\<rparr>))"

definition lua_pop :: "lua_State \<Rightarrow> int \<Rightarrow> lua_State res" where
  "lua_pop L n = lua_settop L (- n - 1)"

text \<open>A pseudo-index is no position in the stack, where the loops of the next two operations start.\<close>

definition stack_index :: "lua_State \<Rightarrow> int \<Rightarrow> nat res" where
  "stack_index L idx = bindR (luaA_index L idx) (\<lambda>p. case p of Stk i \<Rightarrow> Inr i | _ \<Rightarrow> Inl OutOfBounds)"

definition lua_remove :: "lua_State \<Rightarrow> int \<Rightarrow> lua_State res" where
  "lua_remove L idx =
    bindR (stack_index L idx) (\<lambda>p. Inr (L\<lparr>stk := take p (stk L) @ drop (p + 1) (stk L)\<rparr>))"

definition lua_insert :: "lua_State \<Rightarrow> int \<Rightarrow> lua_State res" where
  "lua_insert L idx =
    bindR (stack_index L idx) (\<lambda>p.
      Inr (L\<lparr>stk := take p (stk L) @ [last (stk L)] @ butlast (drop p (stk L))\<rparr>))"

definition lua_replace :: "lua_State \<Rightarrow> int \<Rightarrow> lua_State res" where
  "lua_replace L idx =
    (if stk L = [] then Inl OutOfBounds
     else bindR (luaA_index L idx) (\<lambda>p.
       let L = loc_set L p (last (stk L)) in Inr (L\<lparr>stk := butlast (stk L)\<rparr>)))"

definition lua_pushvalue :: "lua_State \<Rightarrow> int \<Rightarrow> lua_State res" where
  "lua_pushvalue L idx = bindR (at_index L idx) (\<lambda>v. Inr (luaA_pushobject L v))"

section \<open>Access to values\<close>

definition lua_type :: "lua_State \<Rightarrow> int \<Rightarrow> int res" where
  "lua_type L idx = bindR (at_acceptable L idx) (\<lambda>o'. case o' of None \<Rightarrow> Inr (-1) | Some v \<Rightarrow> Inr (ttype v))"

definition lua_typename :: "int \<Rightarrow> string" where
  "lua_typename t = (if t = -1 then ''no value'' else luaT_typenames ! nat t)"

definition lua_isnumber :: "lua_State \<Rightarrow> int \<Rightarrow> bool res" where
  "lua_isnumber L idx =
    bindR (at_acceptable L idx) (\<lambda>o'. case o' of None \<Rightarrow> Inr False | Some v \<Rightarrow> Inr (luaV_tonumber v \<noteq> None))"

definition lua_isstring :: "lua_State \<Rightarrow> int \<Rightarrow> bool res" where
  "lua_isstring L idx = bindR (lua_type L idx) (\<lambda>t. Inr (t = 4 \<or> t = 3))"

definition lua_isuserdata :: "lua_State \<Rightarrow> int \<Rightarrow> bool res" where
  "lua_isuserdata L idx =
    bindR (at_acceptable L idx) (\<lambda>o'. case o' of None \<Rightarrow> Inr False | Some v \<Rightarrow> Inr (ttype v = 7 \<or> ttype v = 2))"

definition lua_rawequal :: "lua_State \<Rightarrow> int \<Rightarrow> int \<Rightarrow> bool res" where
  "lua_rawequal L index1 index2 =
    bindR (at_acceptable L index1) (\<lambda>o1.
    bindR (at_acceptable L index2) (\<lambda>o2. case (o1, o2) of
        (Some v, Some w) \<Rightarrow> Inr (luaO_rawequalObj v w)
      | _ \<Rightarrow> Inr False))"

definition lua_equal :: "caller \<Rightarrow> lua_State \<Rightarrow> int \<Rightarrow> int \<Rightarrow> (bool \<times> lua_State) res" where
  "lua_equal call L index1 index2 =
    bindR (at_acceptable L index1) (\<lambda>o1.
    bindR (at_acceptable L index2) (\<lambda>o2. case (o1, o2) of
        (Some v, Some w) \<Rightarrow> equalobj call v w L
      | _ \<Rightarrow> Inr (False, L)))"

definition lua_lessthan :: "caller \<Rightarrow> lua_State \<Rightarrow> int \<Rightarrow> int \<Rightarrow> (bool \<times> lua_State) res" where
  "lua_lessthan call L index1 index2 =
    bindR (at_acceptable L index1) (\<lambda>o1.
    bindR (at_acceptable L index2) (\<lambda>o2. case (o1, o2) of
        (Some v, Some w) \<Rightarrow> luaV_lessthan call v w L
      | _ \<Rightarrow> Inr (False, L)))"

definition lua_tonumber :: "lua_State \<Rightarrow> int \<Rightarrow> lua_Number res" where
  "lua_tonumber L idx =
    bindR (at_acceptable L idx) (\<lambda>o'. case o' of
        None \<Rightarrow> Inr (num_of_int 0)
      | Some v \<Rightarrow> Inr (case luaV_tonumber v of None \<Rightarrow> num_of_int 0 | Some n \<Rightarrow> n))"

definition lua_toboolean :: "lua_State \<Rightarrow> int \<Rightarrow> bool res" where
  "lua_toboolean L idx =
    bindR (at_acceptable L idx) (\<lambda>o'. case o' of None \<Rightarrow> Inr False | Some v \<Rightarrow> Inr (\<not> l_isfalse v))"

text \<open>\<open>lua_tostring\<close> and \<open>lua_strlen\<close> turn a number into a string where it is.\<close>

definition to_string_at :: "lua_State \<Rightarrow> loc \<Rightarrow> string option \<times> lua_State" where
  "to_string_at L p = (case loc_get L p of
     LString s \<Rightarrow> (Some s, L)
   | v \<Rightarrow> (case luaV_tostring v of
       Some (LString s) \<Rightarrow> (Some s, loc_set L p (LString s))
     | _ \<Rightarrow> (None, L)))"

definition lua_tostring :: "lua_State \<Rightarrow> int \<Rightarrow> (string option \<times> lua_State) res" where
  "lua_tostring L idx =
    bindR (luaA_indexAcceptable L idx) (\<lambda>p. case p of None \<Rightarrow> Inr (None, L) | Some p \<Rightarrow> Inr (to_string_at L p))"

definition lua_strlen :: "lua_State \<Rightarrow> int \<Rightarrow> (nat \<times> lua_State) res" where
  "lua_strlen L idx =
    bindR (luaA_indexAcceptable L idx) (\<lambda>p. case p of
        None \<Rightarrow> Inr (0, L)
      | Some p \<Rightarrow> (case to_string_at L p of (None, L) \<Rightarrow> Inr (0, L) | (Some s, L) \<Rightarrow> Inr (length s, L)))"

section \<open>Pushing values\<close>

definition lua_pushnil :: "lua_State \<Rightarrow> lua_State" where
  "lua_pushnil L = luaA_pushobject L LNil"

definition lua_pushnumber :: "lua_State \<Rightarrow> lua_Number \<Rightarrow> lua_State" where
  "lua_pushnumber L n = luaA_pushobject L (LNumber n)"

definition lua_pushlstring :: "lua_State \<Rightarrow> string \<Rightarrow> lua_State" where
  "lua_pushlstring L s = luaA_pushobject L (LString s)"

definition lua_pushstring :: "lua_State \<Rightarrow> string option \<Rightarrow> lua_State" where
  "lua_pushstring L s = (case s of None \<Rightarrow> lua_pushnil L | Some s \<Rightarrow> lua_pushlstring L (cstr s))"

definition lua_pushboolean :: "lua_State \<Rightarrow> int \<Rightarrow> lua_State" where
  "lua_pushboolean L b = luaA_pushobject L (LBoolean (if b \<noteq> 0 then 1 else 0))"

definition lua_pushlightuserdata :: "lua_State \<Rightarrow> addr \<Rightarrow> lua_State" where
  "lua_pushlightuserdata L p = luaA_pushobject L (LLightUserdata p)"

section \<open>Tables\<close>

definition top_value :: "lua_State \<Rightarrow> nat \<Rightarrow> TObject res" where
  \<comment> \<open>\<open>*(L->top - n)\<close>\<close>
  "top_value L n =
    (if 1 \<le> n \<and> n \<le> length (stk L) then Inr (stk L ! (length (stk L) - n)) else Inl OutOfBounds)"

definition set_top_value :: "lua_State \<Rightarrow> TObject \<Rightarrow> lua_State" where
  \<comment> \<open>\<open>setobj2s(L->top - 1, v)\<close>\<close>
  "set_top_value L v = L\<lparr>stk := butlast (stk L) @ [v]\<rparr>"

definition hvalue :: "TObject \<Rightarrow> addr res" where
  "hvalue o' = (case o' of LTable h \<Rightarrow> Inr h | _ \<Rightarrow> Inl OutOfBounds)"

definition lua_gettable :: "caller \<Rightarrow> lua_State \<Rightarrow> int \<Rightarrow> lua_State res" where
  "lua_gettable call L idx =
    bindR (at_index L idx) (\<lambda>t.
    bindR (top_value L 1) (\<lambda>key.
    bindR (luaV_gettable call t key 0 L) (\<lambda>(v, L). Inr (set_top_value L v))))"

definition lua_rawget :: "lua_State \<Rightarrow> int \<Rightarrow> lua_State res" where
  "lua_rawget L idx =
    bindR (at_index L idx) (\<lambda>t.
    bindR (hvalue t) (\<lambda>h.
    bindR (top_value L 1) (\<lambda>key.
    bindR (table_lookup (tabs L h) key) (\<lambda>v. Inr (set_top_value L v)))))"

definition lua_rawgeti :: "lua_State \<Rightarrow> int \<Rightarrow> int \<Rightarrow> lua_State res" where
  "lua_rawgeti L idx n =
    bindR (at_index L idx) (\<lambda>o'.
    bindR (hvalue o') (\<lambda>h.
    bindR (luaH_getnum (tabs L h) n) (\<lambda>p. Inr (luaA_pushobject L (slot_get (tabs L h) p)))))"

definition lua_newtable :: "addr \<Rightarrow> lua_State \<Rightarrow> lua_State res" where
  "lua_newtable new L =
    bindR (luaH_new (defaultmeta L) 0 0) (\<lambda>t. Inr (luaA_pushobject (set_table new t L) (LTable new)))"

definition lua_getmetatable :: "lua_State \<Rightarrow> int \<Rightarrow> (bool \<times> lua_State) res" where
  "lua_getmetatable L objindex =
    bindR (at_acceptable L objindex) (\<lambda>obj.
      let mt = (case obj of
          Some (LTable h) \<Rightarrow> Some (metatable (tabs L h))
        | Some (LUserdata u) \<Rightarrow> Some (udmeta L u)
        | _ \<Rightarrow> None)
      in case mt of
           None \<Rightarrow> Inr (False, L)
         | Some m \<Rightarrow> if m = defaultmeta L then Inr (False, L) else Inr (True, luaA_pushobject L (LTable m)))"

definition lua_settable :: "caller \<Rightarrow> lua_State \<Rightarrow> int \<Rightarrow> lua_State res" where
  "lua_settable call L idx =
    bindR (at_index L idx) (\<lambda>t.
    bindR (top_value L 2) (\<lambda>key.
    bindR (top_value L 1) (\<lambda>val.
    bindR (luaV_settable call t key val L) (\<lambda>L. lua_settop L (-3)))))"

definition lua_rawset :: "lua_State \<Rightarrow> int \<Rightarrow> lua_State res" where
  "lua_rawset L idx =
    bindR (at_index L idx) (\<lambda>t.
    bindR (hvalue t) (\<lambda>h.
    bindR (top_value L 2) (\<lambda>key.
    bindR (top_value L 1) (\<lambda>val.
    bindR (table_store (tabs L h) key val) (\<lambda>tb. lua_settop (set_table h tb L) (-3))))))"

definition lua_rawseti :: "lua_State \<Rightarrow> int \<Rightarrow> int \<Rightarrow> lua_State res" where
  "lua_rawseti L idx n =
    bindR (at_index L idx) (\<lambda>o'.
    bindR (hvalue o') (\<lambda>h.
    bindR (top_value L 1) (\<lambda>val.
    bindR (luaH_setnum (tabs L h) n) (\<lambda>(tb, p). lua_settop (set_table h (slot_set tb p val) L) (-2)))))"

definition lua_setmetatable :: "lua_State \<Rightarrow> int \<Rightarrow> (bool \<times> lua_State) res" where
  "lua_setmetatable L objindex =
    bindR (at_index L objindex) (\<lambda>obj.
    bindR (top_value L 1) (\<lambda>v.
    bindR (if v \<noteq> LNil then hvalue v else Inr (defaultmeta L)) (\<lambda>mt.
      let (res, L) = (case obj of
          LTable h \<Rightarrow> (True, set_table h ((tabs L h)\<lparr>metatable := mt\<rparr>) L)
        | LUserdata u \<Rightarrow> (True, L\<lparr>udmeta := (udmeta L)(u := mt)\<rparr>)
        | _ \<Rightarrow> (False, L))
      in bindR (lua_settop L (-2)) (\<lambda>L. Inr (res, L)))))"

section \<open>Calls, traversal and concatenation\<close>

text \<open>\<open>lua_call\<close> with a number of results that is not \<open>LUA_MULTRET\<close>.\<close>

definition lua_call :: "caller \<Rightarrow> lua_State \<Rightarrow> nat \<Rightarrow> nat \<Rightarrow> lua_State res" where
  "lua_call call L nargs nresults =
    (if length (stk L) < nargs + 1 then Inl OutOfBounds
     else let func = length (stk L) - (nargs + 1)
       in bindR (call (stk L ! func) (drop (func + 1) (stk L)) nresults (L\<lparr>stk := take func (stk L)\<rparr>)) (\<lambda>(rs, L).
            Inr (L\<lparr>stk := stk L @ rs\<rparr>)))"

definition lua_next :: "lua_State \<Rightarrow> int \<Rightarrow> (bool \<times> lua_State) res" where
  "lua_next L idx =
    bindR (at_index L idx) (\<lambda>t.
    bindR (hvalue t) (\<lambda>h.
    bindR (top_value L 1) (\<lambda>key.
    bindR (luaH_next (tabs L h) key) (\<lambda>more. case more of
        Some (k, v) \<Rightarrow> Inr (True, luaA_pushobject (set_top_value L k) v)
      | None \<Rightarrow> bindR (lua_settop L (-2)) (\<lambda>L. Inr (False, L))))))"

definition lua_concat :: "caller \<Rightarrow> lua_State \<Rightarrow> nat \<Rightarrow> lua_State res" where
  "lua_concat call L n =
    (if 2 \<le> n then
       (if length (stk L) < n then Inl OutOfBounds
        else let k = length (stk L) - n
          in bindR (luaV_concat call (rev (drop k (stk L))) L) (\<lambda>(v, L). Inr (L\<lparr>stk := take k (stk L) @ [v]\<rparr>)))
     else if n = 0 then Inr (luaA_pushobject L (LString []))
     else Inr L)"

section \<open>Moving values on the stack\<close>

lemma stack_index_pos: "1 \<le> i \<Longrightarrow> i \<le> lua_gettop L \<Longrightarrow> stack_index L i = Inr (nat (i - 1))"
  by (simp add: stack_index_def luaA_index_def stack_loc_def lua_gettop_def)

lemma stack_index_neg:
  "- lua_gettop L \<le> i \<Longrightarrow> i \<le> -1 \<Longrightarrow> LUA_REGISTRYINDEX < i \<Longrightarrow>
    stack_index L i = Inr (nat (lua_gettop L + i))"
  by (auto simp: stack_index_def luaA_index_def negindex_def stack_loc_def lua_gettop_def)

lemma stack_parts:
  assumes "p < length xs"
  obtains ys zs where "xs = ys @ zs" "length ys = p" "zs \<noteq> []"
  using assms by (metis append_take_drop_id drop_eq_Nil length_take min.absorb4 not_le)

text \<open>
  \<open>lua_insert\<close> moves the top value into a position and shifts the ones above it up; \<open>lua_remove\<close>
  at that position undoes it, but for the value moved.  A position counts from the bottom, or, if it is
  negative, from the top.
\<close>

theorem insert_remove:
  assumes "stk L = xs @ ys @ [v]"
    and "i = int (length xs) + 1 \<or> i = - int (length ys) - 1 \<and> LUA_REGISTRYINDEX < i"
  shows "lua_insert L i = Inr (L\<lparr>stk := xs @ [v] @ ys\<rparr>) \<and>
    bindR (lua_insert L i) (\<lambda>L. lua_remove L (int (length xs) + 1)) = Inr (L\<lparr>stk := xs @ ys\<rparr>)"
proof -
  have "stack_index L i = Inr (length xs)"
    using assms stack_index_pos [of i L] stack_index_neg [of L i] by (auto simp: lua_gettop_def)
  then have "lua_insert L i = Inr (L\<lparr>stk := xs @ [v] @ ys\<rparr>)"
    by (simp add: lua_insert_def assms(1))
  moreover have "lua_remove (L\<lparr>stk := xs @ [v] @ ys\<rparr>) (int (length xs) + 1) = Inr (L\<lparr>stk := xs @ ys\<rparr>)"
    using stack_index_pos [of "int (length xs) + 1" "L\<lparr>stk := xs @ [v] @ ys\<rparr>"]
    by (simp add: lua_remove_def lua_gettop_def)
  ultimately show ?thesis
    by simp
qed

lemma insert_remove_witness:
  "lua_insert (empty_state\<lparr>stk := [LNil, LBoolean 0, LBoolean 1]\<rparr>) (-2) =
     Inr (empty_state\<lparr>stk := [LNil, LBoolean 1, LBoolean 0]\<rparr>)"
  using insert_remove [of "empty_state\<lparr>stk := [LNil, LBoolean 0, LBoolean 1]\<rparr>" "[LNil]" "[LBoolean 0]" "LBoolean 1" "-2"]
  by (simp add: LUA_REGISTRYINDEX_def)

end
