(* ===== verification/Patterns.thy ===== *)
theory Patterns
  imports CLib Protos
begin

text \<open>
  Pattern matching of the string library (\<open>lua/lstrlib.c\<close>).

  A pointer into the subject is an index into \<open>src\<close>, from 0 to its length, where the terminating NUL
  is.  A pointer into the pattern is what is left of its C string: the empty list is the NUL that ends
  it.  \<open>luaL_error\<close> puts the position of the caller in front of the message; the model leaves it out.
  \<open>char\<close> is signed.
\<close>

section \<open>State\<close>

definition MAX_CAPTURES :: nat where "MAX_CAPTURES = 32"
definition CAP_UNFINISHED :: int where "CAP_UNFINISHED = -1"
definition CAP_POSITION :: int where "CAP_POSITION = -2"

text \<open>
  \<open>capture\<close> has the first \<open>level\<close> entries of the array; behind them is nothing the code reads.
\<close>

record MatchState =
  src :: string
  capture :: "(nat \<times> int) list"

abbreviation level :: "MatchState \<Rightarrow> nat" where
  "level ms \<equiv> length (capture ms)"

abbreviation src_end :: "MatchState \<Rightarrow> nat" where
  "src_end ms \<equiv> length (src ms)"

abbreviation ESC :: char where "ESC \<equiv> CHR ''%''"

definition SPECIALS :: string where "SPECIALS = ''^$*+?.([%-''"

definition luaL_error :: "string \<Rightarrow> 'a res" where
  "luaL_error msg = Inl (RunError msg)"

definition quoted :: "string \<Rightarrow> string" where
  "quoted s = CHR 0x60 # s @ [CHR 0x27]"

text \<open>\<open>*p\<close> in the pattern, and \<open>*s\<close> in the subject.\<close>

definition peek :: "string \<Rightarrow> char" where
  "peek p = (case p of [] \<Rightarrow> NUL | c # _ \<Rightarrow> c)"

definition src_at :: "MatchState \<Rightarrow> nat \<Rightarrow> char res" where
  "src_at ms s = (if s < src_end ms then Inr (src ms ! s) else if s = src_end ms then Inr NUL else Inl OutOfBounds)"

section \<open>Captures\<close>

definition check_capture :: "MatchState \<Rightarrow> char \<Rightarrow> nat res" where
  "check_capture ms c =
    (let l = int (uchar c) - 49
     in if l < 0 \<or> int (level ms) \<le> l \<or> snd (capture ms ! nat l) = CAP_UNFINISHED
        then luaL_error ''invalid capture index'' else Inr (nat l))"

definition capture_to_close :: "MatchState \<Rightarrow> nat res" where
  "capture_to_close ms =
    (case find (\<lambda>l. snd (capture ms ! l) = CAP_UNFINISHED) (rev [0..<level ms]) of
       Some l \<Rightarrow> Inr l | None \<Rightarrow> luaL_error ''invalid pattern capture'')"

section \<open>Pattern items\<close>

text \<open>The \<open>do\<close> loop that looks for the end of a set; the result is behind the bracket.\<close>

fun class_loop :: "string \<Rightarrow> string res" where
  "class_loop [] = luaL_error (''malformed pattern (missing '' @ quoted '']'' @ '')'')"
| "class_loop (c # r) =
    (let r' = (if c = ESC \<and> r \<noteq> [] then tl r else r)
     in if peek r' = CHR '']'' then Inr (tl r')
        else (case r of
          [] \<Rightarrow> class_loop []
        | d # q \<Rightarrow> if c = ESC then class_loop q else class_loop (d # q)))"

definition luaI_classend :: "string \<Rightarrow> string res" where
  "luaI_classend p = (case p of
     [] \<Rightarrow> Inl OutOfBounds
   | c # q \<Rightarrow>
      if c = ESC then
        (case q of [] \<Rightarrow> luaL_error (''malformed pattern (ends with '' @ quoted ''%'' @ '')'') | _ # r \<Rightarrow> Inr r)
      else if c = CHR ''['' then class_loop (if peek q = CHR ''^'' then tl q else q)
      else Inr q)"

text \<open>
  \<open>match_class(c, cl)\<close>; \<open>c\<close> is an \<open>unsigned char\<close> and \<open>cl\<close> a \<open>char\<close>, so they differ when the byte is
  above 127.
\<close>

definition match_class :: "char \<Rightarrow> char \<Rightarrow> bool" where
  "match_class c cl =
    (let k = tolower cl;
         test = (if k = CHR ''a'' then Some (isalpha c)
            else if k = CHR ''c'' then Some (iscntrl c)
            else if k = CHR ''d'' then Some (isdigit c)
            else if k = CHR ''l'' then Some (islower c)
            else if k = CHR ''p'' then Some (ispunct c)
            else if k = CHR ''s'' then Some (isspace c)
            else if k = CHR ''u'' then Some (isupper c)
            else if k = CHR ''w'' then Some (isalnum c)
            else if k = CHR ''x'' then Some (isxdigit c)
            else if k = CHR ''z'' then Some (c = NUL)
            else None)
     in case test of
          None \<Rightarrow> cl = c \<and> uchar cl < 128
        | Some r \<Rightarrow> if islower cl then r else \<not> r)"

text \<open>
  The loop of \<open>matchbracketclass\<close> over the characters of the set in front of its closing bracket,
  which an escape at the end reads.
\<close>

fun bracket_loop :: "char \<Rightarrow> bool \<Rightarrow> string \<Rightarrow> bool" where
  "bracket_loop c sig [] = (\<not> sig)"
| "bracket_loop c sig [x] =
    (if x = ESC then (if match_class c (CHR '']'') then sig else \<not> sig)
     else if x = c then sig else \<not> sig)"
| "bracket_loop c sig [x, y] =
    (if x = ESC then (if match_class c y then sig else \<not> sig)
     else if x = c then sig else bracket_loop c sig [y])"
| "bracket_loop c sig (x # y # z # zs) =
    (if x = ESC then (if match_class c y then sig else bracket_loop c sig (z # zs))
     else if y = CHR ''-'' then (if uchar x \<le> uchar c \<and> uchar c \<le> uchar z then sig else bracket_loop c sig zs)
     else if x = c then sig else bracket_loop c sig (y # z # zs))"

text \<open>\<open>p\<close> is at the opening bracket and \<open>ep\<close> behind the closing one.\<close>

definition set_body :: "string \<Rightarrow> string \<Rightarrow> string" where
  "set_body p ep = take (length p - length ep - 2) (tl p)"

definition matchbracketclass :: "char \<Rightarrow> string \<Rightarrow> string \<Rightarrow> bool" where
  "matchbracketclass c p ep =
    (let body = set_body p ep
     in if peek (tl p) = CHR ''^'' then bracket_loop c False (tl body) else bracket_loop c True body)"

definition luaI_singlematch :: "char \<Rightarrow> string \<Rightarrow> string \<Rightarrow> bool" where
  "luaI_singlematch c p ep =
    (if peek p = CHR ''.'' then True
     else if peek p = ESC then match_class c (peek (tl p))
     else if peek p = CHR ''['' then matchbracketclass c p ep
     else peek p = c)"

section \<open>Matching\<close>

text \<open>
  The functions below that go on matching take the rest of the match as an argument: from a state and
  a position to the end of the match, \<open>None\<close> for \<open>NULL\<close>, and the state.
\<close>

type_synonym matcher = "MatchState \<Rightarrow> nat \<Rightarrow> (nat option \<times> MatchState) res"

text \<open>The loop of \<open>matchbalance\<close>, over the bytes from \<open>s\<close> on.\<close>

fun balance_loop :: "char \<Rightarrow> char \<Rightarrow> nat \<Rightarrow> nat \<Rightarrow> string \<Rightarrow> nat option" where
  "balance_loop b e s cont [] = None"
| "balance_loop b e s cont (c # cs) =
    (if c = e then (if cont = 1 then Some (s + 1) else balance_loop b e (s + 1) (cont - 1) cs)
     else if c = b then balance_loop b e (s + 1) (cont + 1) cs
     else balance_loop b e (s + 1) cont cs)"

definition matchbalance :: "MatchState \<Rightarrow> nat \<Rightarrow> string \<Rightarrow> nat option res" where
  "matchbalance ms s p = (case p of
     b # e # _ \<Rightarrow> bindR (src_at ms s) (\<lambda>c.
        if c \<noteq> b then Inr None else Inr (balance_loop b e (s + 1) 1 (drop (s + 1) (src ms))))
   | _ \<Rightarrow> luaL_error ''unbalanced pattern'')"

fun expand_back :: "matcher \<Rightarrow> MatchState \<Rightarrow> nat \<Rightarrow> nat \<Rightarrow> (nat option \<times> MatchState) res" where
  "expand_back m ms s 0 = m ms s"
| "expand_back m ms s (Suc i) =
    bindR (m ms (s + Suc i)) (\<lambda>(res, ms). if res \<noteq> None then Inr (res, ms) else expand_back m ms s i)"

definition max_expand :: "matcher \<Rightarrow> (char \<Rightarrow> bool) \<Rightarrow> matcher" where
  "max_expand m single ms s = expand_back m ms s (length (takeWhile single (drop s (src ms))))"

fun min_loop :: "matcher \<Rightarrow> (char \<Rightarrow> bool) \<Rightarrow> MatchState \<Rightarrow> nat \<Rightarrow> string \<Rightarrow> (nat option \<times> MatchState) res" where
  "min_loop m single ms s [] = m ms s"
| "min_loop m single ms s (c # cs) =
    bindR (m ms s) (\<lambda>(res, ms).
      if res \<noteq> None then Inr (res, ms)
      else if single c then min_loop m single ms (s + 1) cs else Inr (None, ms))"

definition min_expand :: "matcher \<Rightarrow> (char \<Rightarrow> bool) \<Rightarrow> matcher" where
  "min_expand m single ms s = min_loop m single ms s (drop s (src ms))"

definition start_capture :: "matcher \<Rightarrow> int \<Rightarrow> matcher" where
  "start_capture m what ms s =
    (if MAX_CAPTURES \<le> level ms then luaL_error ''too many captures''
     else bindR (m (ms\<lparr>capture := capture ms @ [(s, what)]\<rparr>) s) (\<lambda>(res, ms).
            Inr (res, if res = None then ms\<lparr>capture := butlast (capture ms)\<rparr> else ms)))"

definition end_capture :: "matcher \<Rightarrow> matcher" where
  "end_capture m ms s =
    bindR (capture_to_close ms) (\<lambda>l.
      (let init = fst (capture ms ! l)
       in bindR (m (ms\<lparr>capture := (capture ms)[l := (init, int s - int init)]\<rparr>) s) (\<lambda>(res, ms).
            Inr (res, if res = None then ms\<lparr>capture := (capture ms)[l := (fst (capture ms ! l), CAP_UNFINISHED)]\<rparr>
                      else ms))))"

text \<open>The length of a position capture becomes a huge \<open>size_t\<close>, so it never matches.\<close>

definition match_capture :: "MatchState \<Rightarrow> nat \<Rightarrow> char \<Rightarrow> nat option res" where
  "match_capture ms s c =
    bindR (check_capture ms c) (\<lambda>l.
      (let (init, len) = capture ms ! l
       in if 0 \<le> len \<and> len \<le> int (src_end ms - s) \<and>
             take (nat len) (drop init (src ms)) = take (nat len) (drop s (src ms))
          then Inr (Some (s + nat len)) else Inr None))"

declare class_loop.simps(2) [simp del]

lemma class_loop_step:
  "class_loop (c # r) =
    (let r' = (if c = ESC \<and> r \<noteq> [] then tl r else r)
     in if peek r' = CHR '']'' then Inr (tl r') else class_loop r')"
  by (cases r) (simp_all add: class_loop.simps(2) Let_def)

lemma class_loop_length: "class_loop p = Inr ep \<Longrightarrow> length ep < length p"
proof (induction "length p" arbitrary: p rule: less_induct)
  case less
  show ?case
  proof (cases p)
    case Nil
    with less.prems show ?thesis
      by (simp add: luaL_error_def)
  next
    case (Cons c r)
    define r' where "r' = (if c = ESC \<and> r \<noteq> [] then tl r else r)"
    have r': "length r' < length p"
      by (cases r) (auto simp: Cons r'_def)
    have "(if peek r' = CHR '']'' then Inr (tl r') else class_loop r') = Inr ep"
      using less.prems unfolding Cons class_loop_step r'_def Let_def .
    then show ?thesis
      using less.hyps [OF r'] r' by (cases "peek r' = CHR '']''") auto
  qed
qed

lemma luaI_classend_length: "luaI_classend p = Inr ep \<Longrightarrow> length ep < length p"
proof (cases p)
  case (Cons c q)
  assume "luaI_classend p = Inr ep"
  then show ?thesis
    using class_loop_length [of "if peek q = CHR ''^'' then tl q else q" ep]
    by (cases q) (auto simp: luaI_classend_def luaL_error_def Cons split: if_splits)
qed (simp add: luaI_classend_def)

lemma luaI_classend_tl: "luaI_classend p = Inr ep \<Longrightarrow> length (tl ep) < length p"
  using luaI_classend_length [of p ep] by simp

text \<open>
  \<open>match\<close>.  Every call, and every jump to \<open>init\<close>, goes on further in the pattern, which is why it ends.
\<close>

function match :: "string \<Rightarrow> MatchState \<Rightarrow> nat \<Rightarrow> (nat option \<times> MatchState) res" where
  "match p ms s = (case p of
     [] \<Rightarrow> Inr (Some s, ms)
   | c # q \<Rightarrow>
      if c = CHR ''('' then
        (if peek q = CHR '')'' then start_capture (match (tl q)) CAP_POSITION ms s
         else start_capture (match q) CAP_UNFINISHED ms s)
      else if c = CHR '')'' then end_capture (match q) ms s
      else if c = ESC \<and> peek q = CHR ''b'' then
        bindR (matchbalance ms s (tl q)) (\<lambda>r. case r of
            None \<Rightarrow> Inr (None, ms)
          | Some s \<Rightarrow> match (drop 3 q) ms s)
      else if c = ESC \<and> peek q = CHR ''f'' then
        (if peek (tl q) \<noteq> CHR ''['' then luaL_error (''missing '' @ quoted ''['' @ '' after '' @ quoted ''%f'' @ '' in pattern'')
         else bindR (luaI_classend (tl q)) (\<lambda>ep.
           bindR (if s = 0 then Inr NUL else src_at ms (s - 1)) (\<lambda>previous.
           bindR (src_at ms s) (\<lambda>next.
             if matchbracketclass previous (tl q) ep \<or> \<not> matchbracketclass next (tl q) ep then Inr (None, ms)
             else match ep ms s))))
      else if c = ESC \<and> isdigit (peek q) then
        bindR (match_capture ms s (peek q)) (\<lambda>r. case r of
            None \<Rightarrow> Inr (None, ms)
          | Some s \<Rightarrow> match (tl q) ms s)
      else if c = CHR ''$'' \<and> q = [] then Inr (if s = src_end ms then Some s else None, ms)
      else
        bindR (luaI_classend p) (\<lambda>ep.
          (let single = (\<lambda>c. luaI_singlematch c p ep);
               m = (s < src_end ms \<and> single (src ms ! s))
           in if peek ep = CHR ''?'' then
                (if m then
                   bindR (match (tl ep) ms (s + 1)) (\<lambda>(res, ms).
                     if res \<noteq> None then Inr (res, ms) else match (tl ep) ms s)
                 else match (tl ep) ms s)
              else if peek ep = CHR ''*'' then max_expand (match (tl ep)) single ms s
              else if peek ep = CHR ''+'' then
                (if m then max_expand (match (tl ep)) single ms (s + 1) else Inr (None, ms))
              else if peek ep = CHR ''-'' then min_expand (match (tl ep)) single ms s
              else if \<not> m then Inr (None, ms)
              else match ep ms (s + 1))))"
  by pat_completeness auto
termination
  by (relation "measure (\<lambda>(p, ms, s). length p)")
    (auto dest: luaI_classend_length luaI_classend_tl)

declare match.simps [simp del]

section \<open>What a pattern matches\<close>

text \<open>
  The meaning of patterns, without an order of search: \<open>matches p ms s e ms'\<close> holds when some way of
  matching \<open>p\<close> from \<open>s\<close> on ends at \<open>e\<close>, and turns the captures of \<open>ms\<close> into those of \<open>ms'\<close>.
\<close>

definition is_item :: "string \<Rightarrow> bool" where
  "is_item p \<longleftrightarrow> (case p of [] \<Rightarrow> False
   | c # q \<Rightarrow> c \<noteq> CHR ''('' \<and> c \<noteq> CHR '')'' \<and>
       \<not> (c = ESC \<and> (peek q = CHR ''b'' \<or> peek q = CHR ''f'' \<or> isdigit (peek q))) \<and>
       \<not> (c = CHR ''$'' \<and> q = []))"

text \<open>\<open>k\<close> bytes from \<open>s\<close> on are in the class of an item.\<close>

definition run :: "(char \<Rightarrow> bool) \<Rightarrow> MatchState \<Rightarrow> nat \<Rightarrow> nat \<Rightarrow> bool" where
  "run single ms s k \<longleftrightarrow> (\<forall>i < k. s + i < src_end ms \<and> single (src ms ! (s + i)))"

text \<open>The numbers of repetitions a suffix allows.\<close>

definition times :: "char \<Rightarrow> nat set" where
  "times suffix = (if suffix = CHR ''?'' then {0, 1} else if suffix = CHR ''*'' \<or> suffix = CHR ''-'' then UNIV
     else if suffix = CHR ''+'' then {k. 1 \<le> k} else {1})"

definition behind :: "string \<Rightarrow> string" where
  "behind ep = (if peek ep \<in> {CHR ''?'', CHR ''*'', CHR ''-'', CHR ''+''} then tl ep else ep)"

inductive matches :: "string \<Rightarrow> MatchState \<Rightarrow> nat \<Rightarrow> nat \<Rightarrow> MatchState \<Rightarrow> bool" where
  at_end: "matches [] ms s s ms"
| open_position: "peek q = CHR '')'' \<Longrightarrow> level ms < MAX_CAPTURES \<Longrightarrow>
    matches (tl q) (ms\<lparr>capture := capture ms @ [(s, CAP_POSITION)]\<rparr>) s e ms' \<Longrightarrow>
    matches (CHR ''('' # q) ms s e ms'"
| open_capture: "peek q \<noteq> CHR '')'' \<Longrightarrow> level ms < MAX_CAPTURES \<Longrightarrow>
    matches q (ms\<lparr>capture := capture ms @ [(s, CAP_UNFINISHED)]\<rparr>) s e ms' \<Longrightarrow>
    matches (CHR ''('' # q) ms s e ms'"
| close_capture: "capture_to_close ms = Inr l \<Longrightarrow>
    matches q (ms\<lparr>capture := (capture ms)[l := (fst (capture ms ! l), int s - int (fst (capture ms ! l)))]\<rparr>) s e ms' \<Longrightarrow>
    matches (CHR '')'' # q) ms s e ms'"
| balance: "peek q = CHR ''b'' \<Longrightarrow> matchbalance ms s (tl q) = Inr (Some s') \<Longrightarrow> matches (drop 3 q) ms s' e ms' \<Longrightarrow>
    matches (ESC # q) ms s e ms'"
| frontier: "peek q = CHR ''f'' \<Longrightarrow> peek (tl q) = CHR ''['' \<Longrightarrow> luaI_classend (tl q) = Inr ep \<Longrightarrow>
    (if s = 0 then Inr NUL else src_at ms (s - 1)) = Inr a \<Longrightarrow> src_at ms s = Inr b \<Longrightarrow>
    \<not> matchbracketclass a (tl q) ep \<Longrightarrow> matchbracketclass b (tl q) ep \<Longrightarrow> matches ep ms s e ms' \<Longrightarrow>
    matches (ESC # q) ms s e ms'"
| back_reference: "isdigit (peek q) \<Longrightarrow> match_capture ms s (peek q) = Inr (Some s') \<Longrightarrow> matches (tl q) ms s' e ms' \<Longrightarrow>
    matches (ESC # q) ms s e ms'"
| anchor: "s = src_end ms \<Longrightarrow> matches (CHR ''$'' # []) ms s s ms"
| item: "is_item p \<Longrightarrow> luaI_classend p = Inr ep \<Longrightarrow> k \<in> times (peek ep) \<Longrightarrow>
    run (\<lambda>c. luaI_singlematch c p ep) ms s k \<Longrightarrow> matches (behind ep) ms (s + k) e ms' \<Longrightarrow>
    matches p ms s e ms'"

text \<open>
  A matcher decides a set of matches: it returns one of them, or, when it returns \<open>NULL\<close>, there is
  none and the captures are as they were.
\<close>

definition decides :: "matcher \<Rightarrow> (MatchState \<Rightarrow> nat \<Rightarrow> nat \<Rightarrow> MatchState \<Rightarrow> bool) \<Rightarrow> bool" where
  "decides m M \<longleftrightarrow> (\<forall>ms s r ms'. m ms s = Inr (r, ms') \<longrightarrow>
     (case r of Some e \<Rightarrow> M ms s e ms' | None \<Rightarrow> ms' = ms \<and> (\<forall>e ms''. \<not> M ms s e ms'')))"

lemma decides_Some: "decides m M \<Longrightarrow> m ms s = Inr (Some e, ms') \<Longrightarrow> M ms s e ms'"
  by (fastforce simp: decides_def)

lemma decides_None: "decides m M \<Longrightarrow> m ms s = Inr (None, ms') \<Longrightarrow> ms' = ms \<and> \<not> M ms s e ms''"
  by (fastforce simp: decides_def)

lemma decidesI:
  assumes "\<And>ms s e ms'. m ms s = Inr (Some e, ms') \<Longrightarrow> M ms s e ms'"
    and "\<And>ms s ms'. m ms s = Inr (None, ms') \<Longrightarrow> ms' = ms \<and> (\<forall>e ms''. \<not> M ms s e ms'')"
  shows "decides m M"
  using assms by (auto simp: decides_def split: option.split)

lemma decides_cong: "decides m M \<Longrightarrow> (\<And>ms s e ms'. M ms s e ms' = N ms s e ms') \<Longrightarrow> decides m N"
  by (subgoal_tac "M = N") (auto intro!: ext)

lemma decides_expand_back:
  assumes "decides m M"
  shows "expand_back m ms s n = Inr (r, ms') \<Longrightarrow>
    (case r of Some e \<Rightarrow> \<exists>k \<le> n. M ms (s + k) e ms' | None \<Rightarrow> ms' = ms \<and> (\<forall>k \<le> n. \<forall>e ms''. \<not> M ms (s + k) e ms''))"
proof (induction n arbitrary: ms r ms')
  case 0
  then show ?case
    using assms by (cases r) (auto dest: decides_Some decides_None)
next
  case (Suc n)
  then obtain r1 ms1 where m: "m ms (s + Suc n) = Inr (r1, ms1)"
    and r: "(if r1 \<noteq> None then Inr (r1, ms1) else expand_back m ms1 s n) = Inr (r, ms')"
    by (auto simp: bindR_eq_Inr)
  show ?case
  proof (cases r1)
    case (Some e)
    then show ?thesis
      using r m decides_Some [OF assms, of ms "s + Suc n"] by (auto intro!: exI [of _ "Suc n"])
  next
    case None
    then have "ms1 = ms" "\<And>e ms''. \<not> M ms (s + Suc n) e ms''"
      using decides_None [OF assms] m by blast+
    then show ?thesis
      using r None Suc.IH [of ms r ms'] by (auto simp: le_Suc_eq split: option.splits)
  qed
qed

lemma run_0 [simp]: "run single ms s 0"
  by (simp add: run_def)

lemma run_Suc: "run single ms s (Suc k) \<longleftrightarrow> s < src_end ms \<and> single (src ms ! s) \<and> run single ms (Suc s) k"
  by (auto simp: run_def all_conj_distrib less_Suc_eq_0_disj)

lemma run_takeWhile: "run single ms s k \<longleftrightarrow> k \<le> length (takeWhile single (drop s (src ms)))"
proof (induction k arbitrary: s)
  case (Suc k)
  show ?case
  proof (cases "s < src_end ms")
    case True
    then have "drop s (src ms) = src ms ! s # drop (Suc s) (src ms)"
      by (simp add: Cons_nth_drop_Suc)
    then show ?thesis
      by (simp add: run_Suc True Suc.IH)
  qed (simp add: run_Suc)
qed simp

lemma decides_max_expand:
  assumes "decides m M"
  shows "decides (max_expand m single) (\<lambda>ms s e ms'. \<exists>k. run single ms s k \<and> M ms (s + k) e ms')"
  unfolding decides_def max_expand_def run_takeWhile
  by (intro allI impI) (drule decides_expand_back [OF assms], auto split: option.splits)

lemma decides_min_loop:
  assumes "decides m M"
  shows "min_loop m single ms s cs = Inr (r, ms') \<Longrightarrow>
    (case r of Some e \<Rightarrow> \<exists>k \<le> length (takeWhile single cs). M ms (s + k) e ms'
     | None \<Rightarrow> ms' = ms \<and> (\<forall>k \<le> length (takeWhile single cs). \<forall>e ms''. \<not> M ms (s + k) e ms''))"
proof (induction cs arbitrary: ms s r ms')
  case Nil
  then show ?case
    by (cases r) (auto dest: decides_Some [OF assms] decides_None [OF assms])
next
  case (Cons c cs)
  from Cons.prems obtain r1 ms1 where m: "m ms s = Inr (r1, ms1)"
    and r: "(if r1 \<noteq> None then Inr (r1, ms1)
      else if single c then min_loop m single ms1 (s + 1) cs else Inr (None, ms1)) = Inr (r, ms')"
    by (auto simp: bindR_eq_Inr)
  show ?case
  proof (cases r1)
    case (Some e)
    then show ?thesis
      using r m decides_Some [OF assms, of ms s] by (auto intro!: exI [of _ 0])
  next
    case None
    then have n: "ms1 = ms" "\<And>e ms''. \<not> M ms s e ms''"
      using decides_None [OF assms] m by blast+
    show ?thesis
    proof (cases "single c")
      case True
      then have "min_loop m single ms (s + 1) cs = Inr (r, ms')"
        using r None n(1) by simp
      from Cons.IH [OF this] True n(2) show ?thesis
        by (auto split: option.splits simp: all_conj_distrib)
          (metis Suc_le_mono add_Suc_right not0_implies_Suc add.right_neutral)+
    next
      case False
      with r None n show ?thesis
        by auto
    qed
  qed
qed

lemma decides_min_expand:
  assumes "decides m M"
  shows "decides (min_expand m single) (\<lambda>ms s e ms'. \<exists>k. run single ms s k \<and> M ms (s + k) e ms')"
  unfolding decides_def min_expand_def run_takeWhile
  by (intro allI impI) (drule decides_min_loop [OF assms], auto split: option.splits)

lemma decides_start_capture:
  assumes "decides m M"
  shows "decides (start_capture m what) (\<lambda>ms s e ms'. level ms < MAX_CAPTURES \<and>
    M (ms\<lparr>capture := capture ms @ [(s, what)]\<rparr>) s e ms')"
proof (rule decidesI)
  fix ms s e ms'
  assume "start_capture m what ms s = Inr (Some e, ms')"
  then show "level ms < MAX_CAPTURES \<and> M (ms\<lparr>capture := capture ms @ [(s, what)]\<rparr>) s e ms'"
    using decides_Some [OF assms] by (auto simp: start_capture_def luaL_error_def bindR_eq_Inr split: if_splits)
next
  fix ms s ms'
  assume "start_capture m what ms s = Inr (None, ms')"
  then show "ms' = ms \<and> (\<forall>e ms''. \<not> (level ms < MAX_CAPTURES \<and> M (ms\<lparr>capture := capture ms @ [(s, what)]\<rparr>) s e ms''))"
    using decides_None [OF assms]
    by (fastforce simp: start_capture_def luaL_error_def bindR_eq_Inr split: if_splits)
qed

lemma capture_to_closeD:
  "capture_to_close ms = Inr l \<Longrightarrow> l < level ms \<and> snd (capture ms ! l) = CAP_UNFINISHED"
  by (auto simp: capture_to_close_def luaL_error_def find_Some_iff rev_nth split: option.splits)

lemma decides_end_capture:
  assumes "decides m M"
  shows "decides (end_capture m) (\<lambda>ms s e ms'. \<exists>l. capture_to_close ms = Inr l \<and>
    M (ms\<lparr>capture := (capture ms)[l := (fst (capture ms ! l), int s - int (fst (capture ms ! l)))]\<rparr>) s e ms')"
proof (rule decidesI)
  fix ms s e ms'
  assume "end_capture m ms s = Inr (Some e, ms')"
  then show "\<exists>l. capture_to_close ms = Inr l \<and>
    M (ms\<lparr>capture := (capture ms)[l := (fst (capture ms ! l), int s - int (fst (capture ms ! l)))]\<rparr>) s e ms'"
    using decides_Some [OF assms] by (auto simp: end_capture_def Let_def bindR_eq_Inr split: if_splits)
next
  fix ms s ms'
  assume "end_capture m ms s = Inr (None, ms')"
  then obtain l ms1 where l: "capture_to_close ms = Inr l"
    and m: "m (ms\<lparr>capture := (capture ms)[l := (fst (capture ms ! l), int s - int (fst (capture ms ! l)))]\<rparr>) s = Inr (None, ms1)"
    and ms': "ms' = ms1\<lparr>capture := (capture ms1)[l := (fst (capture ms1 ! l), CAP_UNFINISHED)]\<rparr>"
    by (auto simp: end_capture_def Let_def bindR_eq_Inr split: if_splits)
  note no = decides_None [OF assms m]
  have "(fst (capture ms ! l), CAP_UNFINISHED) = capture ms ! l" "l < level ms"
    using capture_to_closeD [OF l] by (simp_all add: prod_eq_iff)
  then have "ms' = ms"
    using ms' no by simp
  then show "ms' = ms \<and> (\<forall>e ms''. \<not> (\<exists>l. capture_to_close ms = Inr l \<and>
    M (ms\<lparr>capture := (capture ms)[l := (fst (capture ms ! l), int s - int (fst (capture ms ! l)))]\<rparr>) s e ms''))"
    using no l by auto
qed

inductive_cases matches_NilE: "matches [] ms s e ms'"
inductive_cases matches_ConsE: "matches (c # q) ms s e ms'"

lemma is_item_ESC: "is_item (ESC # q) \<longleftrightarrow> peek q \<noteq> CHR ''b'' \<and> peek q \<noteq> CHR ''f'' \<and> \<not> isdigit (peek q)"
  by (auto simp: is_item_def)

lemma not_digit [simp]: "\<not> isdigit CHR ''b''" "\<not> isdigit CHR ''f''"
  by (simp_all add: ctype_defs)

lemma matches_Nil: "matches [] ms s e ms' \<longleftrightarrow> e = s \<and> ms' = ms"
  by (auto elim: matches_NilE intro: at_end simp: is_item_def)

lemma matches_open: "matches (CHR ''('' # q) ms s e ms' \<longleftrightarrow> level ms < MAX_CAPTURES \<and>
    (if peek q = CHR '')'' then matches (tl q) (ms\<lparr>capture := capture ms @ [(s, CAP_POSITION)]\<rparr>) s e ms'
     else matches q (ms\<lparr>capture := capture ms @ [(s, CAP_UNFINISHED)]\<rparr>) s e ms')"
  by (auto elim!: matches_ConsE intro: open_position open_capture simp: is_item_def)

lemma matches_close: "matches (CHR '')'' # q) ms s e ms' \<longleftrightarrow> (\<exists>l. capture_to_close ms = Inr l \<and>
    matches q (ms\<lparr>capture := (capture ms)[l := (fst (capture ms ! l), int s - int (fst (capture ms ! l)))]\<rparr>) s e ms')"
  by (auto elim!: matches_ConsE intro: close_capture simp: is_item_def)

lemma matches_balance: "peek q = CHR ''b'' \<Longrightarrow>
  matches (ESC # q) ms s e ms' \<longleftrightarrow> (\<exists>s'. matchbalance ms s (tl q) = Inr (Some s') \<and> matches (drop 3 q) ms s' e ms')"
  by (auto elim!: matches_ConsE intro: balance simp: is_item_ESC)

lemma matches_frontier: "peek q = CHR ''f'' \<Longrightarrow>
  matches (ESC # q) ms s e ms' \<longleftrightarrow> peek (tl q) = CHR ''['' \<and> (\<exists>ep a b. luaI_classend (tl q) = Inr ep \<and>
    (if s = 0 then Inr NUL else src_at ms (s - 1)) = Inr a \<and> src_at ms s = Inr b \<and>
    \<not> matchbracketclass a (tl q) ep \<and> matchbracketclass b (tl q) ep \<and> matches ep ms s e ms')"
  by (auto elim!: matches_ConsE intro: frontier simp: is_item_ESC)

lemma matches_back_reference: "isdigit (peek q) \<Longrightarrow>
  matches (ESC # q) ms s e ms' \<longleftrightarrow> (\<exists>s'. match_capture ms s (peek q) = Inr (Some s') \<and> matches (tl q) ms s' e ms')"
  by (auto elim!: matches_ConsE intro: back_reference simp: is_item_ESC)

lemma matches_anchor: "matches (CHR ''$'' # []) ms s e ms' \<longleftrightarrow> s = src_end ms \<and> e = s \<and> ms' = ms"
  by (auto elim!: matches_ConsE intro: anchor simp: is_item_def)

lemma matches_item: "is_item p \<Longrightarrow> matches p ms s e ms' \<longleftrightarrow> (\<exists>ep k. luaI_classend p = Inr ep \<and>
    k \<in> times (peek ep) \<and> run (\<lambda>c. luaI_singlematch c p ep) ms s k \<and> matches (behind ep) ms (s + k) e ms')"
  by (rule iffI, erule matches.cases) (auto simp: is_item_def intro: item)

text \<open>The last branch of \<open>match\<close>.\<close>

definition match_item :: "string \<Rightarrow> matcher" where
  "match_item p ms s =
     bindR (luaI_classend p) (\<lambda>ep.
       (let single = (\<lambda>c. luaI_singlematch c p ep);
            m = (s < src_end ms \<and> single (src ms ! s))
        in if peek ep = CHR ''?'' then
             (if m then
                bindR (match (tl ep) ms (s + 1)) (\<lambda>(res, ms).
                  if res \<noteq> None then Inr (res, ms) else match (tl ep) ms s)
              else match (tl ep) ms s)
           else if peek ep = CHR ''*'' then max_expand (match (tl ep)) single ms s
           else if peek ep = CHR ''+'' then
             (if m then max_expand (match (tl ep)) single ms (s + 1) else Inr (None, ms))
           else if peek ep = CHR ''-'' then min_expand (match (tl ep)) single ms s
           else if \<not> m then Inr (None, ms)
           else match ep ms (s + 1)))"

lemma decides_item:
  assumes "\<And>q. length q < length p \<Longrightarrow> decides (match q) (matches q)" and item: "is_item p"
  shows "decides (match_item p) (matches p)"
proof (rule decides_cong [where M = "\<lambda>ms s e ms'. \<exists>ep k. luaI_classend p = Inr ep \<and>
    k \<in> times (peek ep) \<and> run (\<lambda>c. luaI_singlematch c p ep) ms s k \<and> matches (behind ep) ms (s + k) e ms'"])
  show "decides (match_item p) (\<lambda>ms s e ms'. \<exists>ep k. luaI_classend p = Inr ep \<and>
    k \<in> times (peek ep) \<and> run (\<lambda>c. luaI_singlematch c p ep) ms s k \<and> matches (behind ep) ms (s + k) e ms')"
  proof (cases "luaI_classend p")
    case (Inl err)
    then show ?thesis
      by (simp add: decides_def match_item_def)
  next
    case (Inr ep)
    define single where "single = (\<lambda>c. luaI_singlematch c p ep)"
    have tl: "decides (match (tl ep)) (matches (tl ep))" and full: "decides (match ep) (matches ep)"
      using assms(1) luaI_classend_tl [OF Inr] luaI_classend_length [OF Inr] by blast+
    note max = decides_max_expand [OF tl, of single] and min = decides_min_expand [OF tl, of single]
    have one: "s < src_end ms \<and> single (src ms ! s) \<longleftrightarrow> run single ms s (Suc 0)" for ms s
      by (simp add: run_Suc)
    have plus_split: "(\<exists>k \<ge> 1. run single ms s k \<and> X k) \<longleftrightarrow>
        run single ms s (Suc 0) \<and> (\<exists>k. run single ms (Suc s) k \<and> X (Suc k))" for ms s X
    proof
      assume "\<exists>k \<ge> 1. run single ms s k \<and> X k"
      then obtain k where "run single ms s (Suc k)" "X (Suc k)"
        by (metis Suc_le_D One_nat_def)
      then show "run single ms s (Suc 0) \<and> (\<exists>k. run single ms (Suc s) k \<and> X (Suc k))"
        by (auto simp: run_Suc)
    qed (auto simp: run_Suc)
    have eq: "(\<exists>e k. luaI_classend p = Inr e \<and> k \<in> times (peek e) \<and> run (\<lambda>c. luaI_singlematch c p e) ms s k \<and>
        matches (behind e) ms (s + k) x ms') \<longleftrightarrow>
      (\<exists>k. k \<in> times (peek ep) \<and> run single ms s k \<and> matches (behind ep) ms (s + k) x ms')" for ms s x ms'
      by (simp add: Inr single_def)
    have body: "match_item p = (\<lambda>ms s. if peek ep = CHR ''?'' then
          (if run single ms s (Suc 0) then
             bindR (match (tl ep) ms (s + 1)) (\<lambda>(res, ms).
               if res \<noteq> None then Inr (res, ms) else match (tl ep) ms s)
           else match (tl ep) ms s)
        else if peek ep = CHR ''*'' then max_expand (match (tl ep)) single ms s
        else if peek ep = CHR ''+'' then
          (if run single ms s (Suc 0) then max_expand (match (tl ep)) single ms (s + 1) else Inr (None, ms))
        else if peek ep = CHR ''-'' then min_expand (match (tl ep)) single ms s
        else if \<not> run single ms s (Suc 0) then Inr (None, ms)
        else match ep ms (s + 1))"
      unfolding match_item_def Inr bindR_simps Let_def by (intro ext) (simp only: run_Suc run_0 simp_thms single_def)
    consider (opt) "peek ep = CHR ''?''" | (star) "peek ep = CHR ''*''" | (plus) "peek ep = CHR ''+''"
      | (minus) "peek ep = CHR ''-''" | (single) "peek ep \<notin> {CHR ''?'', CHR ''*'', CHR ''+'', CHR ''-''}"
      by blast
    then have "decides (match_item p) (\<lambda>ms s e ms'.
      \<exists>k. k \<in> times (peek ep) \<and> run single ms s k \<and> matches (behind ep) ms (s + k) e ms')"
    proof cases
      case opt
      have m: "match_item p ms s = (if run single ms s (Suc 0) then
             bindR (match (tl ep) ms (s + 1)) (\<lambda>(res, ms).
               if res \<noteq> None then Inr (res, ms) else match (tl ep) ms s)
           else match (tl ep) ms s)" for ms s
        by (simp add: body opt)
      have t: "(\<exists>k. k \<in> times (peek ep) \<and> run single ms s k \<and> matches (behind ep) ms (s + k) e ms') \<longleftrightarrow>
          run single ms s (Suc 0) \<and> matches (tl ep) ms (s + 1) e ms' \<or> matches (tl ep) ms s e ms'" for ms s e ms'
        by (auto simp: opt times_def behind_def)
      show ?thesis
        unfolding t
      proof (rule decidesI)
        fix ms s e ms'
        assume "match_item p ms s = Inr (Some e, ms')"
        then show "run single ms s (Suc 0) \<and> matches (tl ep) ms (s + 1) e ms' \<or> matches (tl ep) ms s e ms'"
          unfolding m using decides_None [OF tl] decides_Some [OF tl]
          by (cases "match (tl ep) ms (s + 1)") (force split: if_split_asm)+
      next
        fix ms s ms'
        assume n: "match_item p ms s = Inr (None, ms')"
        have "match (tl ep) ms s = Inr (None, ms') \<and>
            (run single ms s (Suc 0) \<longrightarrow> (\<exists>ms1. match (tl ep) ms (s + 1) = Inr (None, ms1)))"
          using n unfolding m
          by (auto simp: bindR_eq_Inr split: if_split_asm dest: decides_None [OF tl])
        then show "ms' = ms \<and> (\<forall>e ms''. \<not> (run single ms s (Suc 0) \<and> matches (tl ep) ms (s + 1) e ms'' \<or>
            matches (tl ep) ms s e ms''))"
          using decides_None [OF tl] by blast
      qed
    next
      case star
      have "match_item p = max_expand (match (tl ep)) single"
        by (simp add: body star)
      with max show ?thesis
        by (auto elim!: decides_cong simp: star times_def behind_def)
    next
      case minus
      have "match_item p = min_expand (match (tl ep)) single"
        by (simp add: body minus)
      with min show ?thesis
        by (auto elim!: decides_cong simp: minus times_def behind_def)
    next
      case plus
      have m: "match_item p ms s =
          (if run single ms s (Suc 0) then max_expand (match (tl ep)) single ms (s + 1) else Inr (None, ms))" for ms s
        by (simp add: body plus)
      have t: "(\<exists>k. k \<in> times (peek ep) \<and> run single ms s k \<and> matches (behind ep) ms (s + k) e ms') \<longleftrightarrow>
          run single ms s (Suc 0) \<and> (\<exists>k. run single ms (s + 1) k \<and> matches (tl ep) ms (s + 1 + k) e ms')" for ms s e ms'
        using plus_split [of ms s "\<lambda>k. matches (tl ep) ms (s + k) e ms'"]
        by (simp add: plus times_def behind_def)
      show ?thesis
        unfolding t
        by (rule decidesI)
          (auto simp: m split: if_split_asm dest!: decides_Some [OF max]
            dest: decides_None [OF max, of _ "Suc s" for s, simplified])
    next
      case single
      have m: "match_item p ms s = (if run single ms s (Suc 0) then match ep ms (s + 1) else Inr (None, ms))" for ms s
        using single by (simp add: body)
      have t: "(\<exists>k. k \<in> times (peek ep) \<and> run single ms s k \<and> matches (behind ep) ms (s + k) e ms') \<longleftrightarrow>
          run single ms s (Suc 0) \<and> matches ep ms (s + 1) e ms'" for ms s e ms'
        using single by (simp add: times_def behind_def)
      show ?thesis
        unfolding t
        by (rule decidesI) (use decides_Some [OF full] decides_None [OF full] in \<open>auto simp: m split: if_split_asm\<close>)
    qed
    then show ?thesis
      by (rule decides_cong) (rule eq [symmetric])
  qed
qed (rule matches_item [OF item, symmetric])

lemma match_decides: "decides (match p) (matches p)"
proof (induction "length p" arbitrary: p rule: less_induct)
  case less
  show ?case
  proof (cases p)
    case Nil
    then show ?thesis
      by (simp add: decides_def match.simps matches_Nil)
  next
    case (Cons c q)
    have IH: "decides (match r) (matches r)" if "length r \<le> length q" for r
      using less.hyps [of r] that by (simp add: Cons)
    consider "c = CHR ''(''" | "c = CHR '')''" | "c = ESC" "peek q = CHR ''b''" | "c = ESC" "peek q = CHR ''f''"
      | "c = ESC" "isdigit (peek q)" | "c = CHR ''$''" "q = []" | "is_item p"
      by (auto simp: Cons is_item_def)
    then show ?thesis
    proof cases
      case 1
      have m: "match p = (if peek q = CHR '')'' then start_capture (match (tl q)) CAP_POSITION
          else start_capture (match q) CAP_UNFINISHED)"
        by (intro ext, subst match.simps) (simp add: Cons 1)
      show ?thesis
        using decides_start_capture [OF IH, of "tl q" CAP_POSITION] decides_start_capture [OF IH, of q CAP_UNFINISHED]
        unfolding m unfolding Cons 1 by (auto elim!: decides_cong simp: matches_open)
    next
      case 2
      have m: "match p = end_capture (match q)"
        by (intro ext, subst match.simps) (simp add: Cons 2)
      show ?thesis
        using decides_end_capture [OF IH, of q]
        unfolding m unfolding Cons 2 by (auto elim!: decides_cong simp: matches_close)
    next
      case 3
      have "match p ms s = bindR (matchbalance ms s (tl q)) (\<lambda>r. case r of
            None \<Rightarrow> Inr (None, ms) | Some s \<Rightarrow> match (drop 3 q) ms s)" for ms s
        by (subst match.simps) (simp add: Cons 3)
      moreover have "decides (match (drop 3 q)) (matches (drop 3 q))"
        by (rule IH) simp
      ultimately show ?thesis
        unfolding Cons 3(1)
        by (intro decidesI)
          (auto simp: matches_balance [OF 3(2)] bindR_eq_Inr split: option.splits dest: decides_Some decides_None)
    next
      case 4
      have "match p ms s = (if peek (tl q) \<noteq> CHR ''['' then
            luaL_error (''missing '' @ quoted ''['' @ '' after '' @ quoted ''%f'' @ '' in pattern'')
         else bindR (luaI_classend (tl q)) (\<lambda>ep.
           bindR (if s = 0 then Inr NUL else src_at ms (s - 1)) (\<lambda>previous.
           bindR (src_at ms s) (\<lambda>next.
             if matchbracketclass previous (tl q) ep \<or> \<not> matchbracketclass next (tl q) ep then Inr (None, ms)
             else match ep ms s))))" for ms s
        by (subst match.simps) (simp add: Cons 4)
      moreover have "decides (match ep) (matches ep)" if "luaI_classend (tl q) = Inr ep" for ep
        using luaI_classend_length [OF that] by (intro IH) simp
      ultimately show ?thesis
        unfolding Cons 4(1)
        by (intro decidesI)
          (auto simp: matches_frontier [OF 4(2)] bindR_eq_Inr luaL_error_def split: if_split_asm
            dest: decides_Some decides_None)
    next
      case 5
      then have "match p ms s = bindR (match_capture ms s (peek q)) (\<lambda>r. case r of
            None \<Rightarrow> Inr (None, ms) | Some s \<Rightarrow> match (tl q) ms s)" for ms s
        by (subst match.simps) (auto simp: Cons)
      moreover have "decides (match (tl q)) (matches (tl q))"
        by (rule IH) simp
      ultimately show ?thesis
        unfolding Cons 5(1)
        by (intro decidesI)
          (auto simp: matches_back_reference [OF 5(2)] bindR_eq_Inr split: option.splits
            dest: decides_Some decides_None)
    next
      case 6
      have "match p ms s = Inr (if s = src_end ms then Some s else None, ms)" for ms s
        by (subst match.simps) (simp add: Cons 6)
      then show ?thesis
        unfolding Cons 6 by (auto simp: decides_def matches_anchor)
    next
      case 7
      have "match p = match_item p"
        by (intro ext, subst match.simps) (use 7 in \<open>auto simp: Cons is_item_def match_item_def\<close>)
      with decides_item [OF less.hyps 7] show ?thesis
        by simp
    qed
  qed
qed

section \<open>A match stays inside of the subject\<close>

text \<open>The captures when the match has come to \<open>s\<close>.\<close>

definition wf_captures :: "MatchState \<Rightarrow> nat \<Rightarrow> bool" where
  "wf_captures ms s \<longleftrightarrow> level ms \<le> MAX_CAPTURES \<and> (\<forall>(init, len) \<in> set (capture ms). init \<le> s \<and>
     (len = CAP_UNFINISHED \<or> len = CAP_POSITION \<or> 0 \<le> len \<and> int init + len \<le> int s))"

text \<open>The result of a match that started at \<open>s\<close>.\<close>

definition inside :: "MatchState \<Rightarrow> nat \<Rightarrow> nat option \<times> MatchState \<Rightarrow> bool" where
  "inside ms s = (\<lambda>(r, ms'). src ms' = src ms \<and>
     (case r of None \<Rightarrow> ms' = ms | Some e \<Rightarrow> s \<le> e \<and> e \<le> src_end ms \<and> wf_captures ms' e))"

definition safe_matcher :: "matcher \<Rightarrow> bool" where
  "safe_matcher m \<longleftrightarrow> (\<forall>ms s. s \<le> src_end ms \<longrightarrow> wf_captures ms s \<longrightarrow> ensures (m ms s) (inside ms s))"

lemma safe_matcherD: "safe_matcher m \<Longrightarrow> s \<le> src_end ms \<Longrightarrow> wf_captures ms s \<Longrightarrow> ensures (m ms s) (inside ms s)"
  by (simp add: safe_matcher_def)

lemma wf_captures_mono: "wf_captures ms s \<Longrightarrow> s \<le> s' \<Longrightarrow> wf_captures ms s'"
  by (fastforce simp: wf_captures_def)

lemma inside_from: "inside ms s' r \<Longrightarrow> s \<le> s' \<Longrightarrow> inside ms s r"
  by (auto simp: inside_def split: option.splits)

lemma safe_at:
  assumes "safe_matcher m" "s \<le> s'" "s' \<le> src_end ms" "wf_captures ms s"
  shows "ensures (m ms s') (inside ms s)"
  using safe_matcherD [OF assms(1,3) wf_captures_mono [OF assms(4,2)]] inside_from [OF _ assms(2)]
  by (rule ensures_mono)

lemma inside_None: "inside ms s (None, ms') \<longleftrightarrow> ms' = ms"
  by (auto simp: inside_def)

lemma safe_expand_back:
  assumes "safe_matcher m" "s + n \<le> src_end ms" "wf_captures ms s"
  shows "ensures (expand_back m ms s n) (inside ms s)"
  using assms(2)
proof (induction n)
  case 0
  then show ?case
    using safe_at [OF assms(1)] assms(3) by simp
next
  case (Suc n)
  show ?case
    unfolding expand_back.simps
    by (rule ensures_bind [OF safe_at [OF assms(1) _ Suc.prems assms(3)]])
      (use Suc in \<open>auto simp: inside_None\<close>)
qed

lemma safe_max_expand: "safe_matcher m \<Longrightarrow> safe_matcher (max_expand m single)"
  unfolding safe_matcher_def [of "max_expand m single"] max_expand_def
  by (intro allI impI safe_expand_back) (auto intro: order.trans [OF add_left_mono [OF length_takeWhile_le]])

lemma safe_min_loop:
  assumes "safe_matcher m" "s \<le> s'" "s' + length cs \<le> src_end ms" "wf_captures ms s"
  shows "ensures (min_loop m single ms s' cs) (inside ms s)"
  using assms(2,3)
proof (induction cs arbitrary: s')
  case Nil
  then show ?case
    using safe_at [OF assms(1) Nil(1) _ assms(4)] by simp
next
  case (Cons c cs)
  show ?case
    unfolding min_loop.simps
    by (rule ensures_bind [OF safe_at [OF assms(1) Cons.prems(1) _ assms(4)]])
      (use Cons in \<open>auto simp: inside_None\<close>)
qed

lemma safe_min_expand: "safe_matcher m \<Longrightarrow> safe_matcher (min_expand m single)"
  unfolding safe_matcher_def [of "min_expand m single"] min_expand_def
  by (intro allI impI safe_min_loop) auto

lemma safe_start_capture:
  assumes "safe_matcher m" "what \<in> {CAP_UNFINISHED, CAP_POSITION}"
  shows "safe_matcher (start_capture m what)"
  unfolding safe_matcher_def
proof (intro allI impI)
  fix ms s
  assume s: "s \<le> src_end ms" "wf_captures ms s"
  show "ensures (start_capture m what ms s) (inside ms s)"
  proof (cases "level ms < MAX_CAPTURES")
    case True
    define ms1 where "ms1 = ms\<lparr>capture := capture ms @ [(s, what)]\<rparr>"
    have "wf_captures ms1 s"
      using s(2) assms(2) True by (auto simp: wf_captures_def ms1_def)
    then have "ensures (m ms1 s) (inside ms1 s)"
      using safe_matcherD [OF assms(1)] s(1) by (simp add: ms1_def)
    then have "ensures (bindR (m ms1 s) (\<lambda>(res, ms).
        Inr (res, if res = None then ms\<lparr>capture := butlast (capture ms)\<rparr> else ms))) (inside ms s)"
      by (rule ensures_bind) (auto simp: inside_def ms1_def split: option.splits)
    then show ?thesis
      using True by (simp add: start_capture_def ms1_def)
  qed (simp add: start_capture_def luaL_error_def)
qed

lemma capture_to_close_error: "capture_to_close ms = Inl e \<Longrightarrow> e \<noteq> OutOfBounds \<and> e \<noteq> NoReturn"
  by (auto simp: capture_to_close_def luaL_error_def split: option.splits)

lemma safe_end_capture:
  assumes "safe_matcher m"
  shows "safe_matcher (end_capture m)"
  unfolding safe_matcher_def
proof (intro allI impI)
  fix ms s
  assume s: "s \<le> src_end ms" "wf_captures ms s"
  show "ensures (end_capture m ms s) (inside ms s)"
  proof (cases "capture_to_close ms")
    case (Inl e)
    then show ?thesis
      using capture_to_close_error [OF Inl] by (simp add: end_capture_def)
  next
    case (Inr l)
    note l = capture_to_closeD [OF Inr]
    define ms1 where "ms1 = ms\<lparr>capture := (capture ms)[l := (fst (capture ms ! l), int s - int (fst (capture ms ! l)))]\<rparr>"
    have init: "fst (capture ms ! l) \<le> s"
      using s(2) nth_mem [OF l [THEN conjunct1]] by (auto simp: wf_captures_def split_beta)
    have sub: "set (capture ms1) \<subseteq>
        insert (fst (capture ms ! l), int s - int (fst (capture ms ! l))) (set (capture ms))"
      unfolding ms1_def by (simp add: set_update_subset_insert)
    have "wf_captures ms1 s"
      unfolding wf_captures_def
    proof (intro conjI ballI)
      show "level ms1 \<le> MAX_CAPTURES"
        using s(2) by (simp add: ms1_def wf_captures_def)
      fix x
      assume "x \<in> set (capture ms1)"
      with sub have "x = (fst (capture ms ! l), int s - int (fst (capture ms ! l))) \<or> x \<in> set (capture ms)"
        by blast
      then show "case x of (init, len) \<Rightarrow> init \<le> s \<and>
          (len = CAP_UNFINISHED \<or> len = CAP_POSITION \<or> 0 \<le> len \<and> int init + len \<le> int s)"
      proof
        assume "x = (fst (capture ms ! l), int s - int (fst (capture ms ! l)))"
        with init show ?thesis
          by simp
      next
        assume "x \<in> set (capture ms)"
        with s(2) show ?thesis
          by (simp add: wf_captures_def)
      qed
    qed
    then have go: "ensures (m ms1 s) (inside ms1 s)"
      using safe_matcherD [OF assms(1)] s(1) by (simp add: ms1_def)
    have undo: "ms1\<lparr>capture := (capture ms1)[l := (fst (capture ms1 ! l), CAP_UNFINISHED)]\<rparr> = ms"
    proof -
      have "(fst (capture ms ! l), CAP_UNFINISHED) = capture ms ! l"
        using l by (simp add: prod_eq_iff)
      then show ?thesis
        using l by (simp add: ms1_def)
    qed
    have "ensures (bindR (m ms1 s) (\<lambda>(res, ms).
        Inr (res, if res = None then ms\<lparr>capture := (capture ms)[l := (fst (capture ms ! l), CAP_UNFINISHED)]\<rparr> else ms)))
      (inside ms s)"
    proof (rule ensures_bind [OF go])
      fix x
      assume "inside ms1 s x"
      moreover have "src ms1 = src ms"
        by (simp add: ms1_def)
      ultimately show "ensures (case x of (res, ms) \<Rightarrow>
          Inr (res, if res = None then ms\<lparr>capture := (capture ms)[l := (fst (capture ms ! l), CAP_UNFINISHED)]\<rparr> else ms))
        (inside ms s)"
        using undo
        by (cases x, cases "fst x") (simp_all add: inside_def)
    qed
    then show ?thesis
      by (simp add: end_capture_def Inr ms1_def Let_def)
  qed
qed

lemma class_loop_safe: "ensures (class_loop p) (\<lambda>_. True)"
proof (induction "length p" arbitrary: p rule: less_induct)
  case less
  show ?case
  proof (cases p)
    case (Cons c r)
    have "length (if c = ESC \<and> r \<noteq> [] then tl r else r) < length p"
      by (cases r) (auto simp: Cons)
    from less.hyps [OF this] show ?thesis
      unfolding Cons class_loop_step Let_def by (auto intro: ensures_if)
  qed (simp add: luaL_error_def)
qed

lemma luaI_classend_safe: "p \<noteq> [] \<Longrightarrow> ensures (luaI_classend p) (\<lambda>ep. length ep < length p)"
proof (cases p)
  case (Cons c q)
  show ?thesis
    using class_loop_safe [of "if peek q = CHR ''^'' then tl q else q"] luaI_classend_length [of p]
    by (cases "luaI_classend p") (auto simp: luaI_classend_def luaL_error_def Cons split: if_splits list.splits)
qed simp

lemma balance_loop_bounds: "balance_loop b e s cont cs = Some s' \<Longrightarrow> s < s' \<and> s' \<le> s + length cs"
  by (induction b e s cont cs rule: balance_loop.induct) (auto split: if_splits)

lemma matchbalance_safe:
  "s \<le> src_end ms \<Longrightarrow> ensures (matchbalance ms s p) (\<lambda>r. \<forall>s'. r = Some s' \<longrightarrow> s \<le> s' \<and> s' \<le> src_end ms)"
proof (cases "s < src_end ms")
  case True
  then show ?thesis
    using balance_loop_bounds [of _ _ "s + 1" 1 "drop (s + 1) (src ms)"]
    by (fastforce simp: matchbalance_def src_at_def luaL_error_def split: list.split)
qed (auto simp: matchbalance_def src_at_def luaL_error_def split: list.split)

lemma match_capture_safe:
  "s \<le> src_end ms \<Longrightarrow> ensures (match_capture ms s c) (\<lambda>r. \<forall>s'. r = Some s' \<longrightarrow> s \<le> s' \<and> s' \<le> src_end ms)"
  by (auto simp: match_capture_def check_capture_def luaL_error_def Let_def split_beta)

lemma src_at_safe: "s \<le> src_end ms \<Longrightarrow> ensures (src_at ms s) (\<lambda>_. True)"
  by (simp add: src_at_def)

lemma safe_step:
  assumes "safe_matcher m" "s \<le> s'" "s' \<le> src_end ms" "wf_captures ms s"
  shows "ensures (m ms s') (inside ms s)"
  by (rule safe_at [OF assms])

lemma safe_item:
  assumes "p \<noteq> []" "\<And>q. length q < length p \<Longrightarrow> safe_matcher (match q)"
  shows "safe_matcher (match_item p)"
  unfolding safe_matcher_def
proof (intro allI impI)
  fix ms s
  assume s: "s \<le> src_end ms" "wf_captures ms s"
  show "ensures (match_item p ms s) (inside ms s)"
    unfolding match_item_def
  proof (rule ensures_bind [OF luaI_classend_safe [OF assms(1)]])
    fix ep :: string
    assume ep: "length ep < length p"
    then have tl: "safe_matcher (match (tl ep))" and full: "safe_matcher (match ep)"
      by (auto intro: assms(2))
    note here = safe_at [OF _ order.refl s] and later = safe_at [OF _ le_add1 _ s(2)]
    have opt: "ensures (bindR (match (tl ep) ms (s + 1)) (\<lambda>(res, ms).
        if res \<noteq> None then Inr (res, ms) else match (tl ep) ms s)) (inside ms s)" if "s < src_end ms"
      by (rule ensures_bind [OF later [OF tl]]) (use that here [OF tl] in \<open>auto simp: inside_None\<close>)
    have none: "ensures (Inr (None, ms)) (inside ms s)"
      by (simp add: inside_None)
    have step: "ensures (match ep ms (s + 1)) (inside ms s)" "ensures (max_expand (match (tl ep)) f ms (s + 1)) (inside ms s)"
      if "s < src_end ms" for f
      using that by (intro later full safe_max_expand tl; simp)+
    note here = here [OF tl] here [OF safe_max_expand [OF tl]] here [OF safe_min_expand [OF tl]]
    show "ensures (let single = (\<lambda>c. luaI_singlematch c p ep);
            m = (s < src_end ms \<and> single (src ms ! s))
        in if peek ep = CHR ''?'' then
             (if m then
                bindR (match (tl ep) ms (s + 1)) (\<lambda>(res, ms).
                  if res \<noteq> None then Inr (res, ms) else match (tl ep) ms s)
              else match (tl ep) ms s)
           else if peek ep = CHR ''*'' then max_expand (match (tl ep)) single ms s
           else if peek ep = CHR ''+'' then
             (if m then max_expand (match (tl ep)) single ms (s + 1) else Inr (None, ms))
           else if peek ep = CHR ''-'' then min_expand (match (tl ep)) single ms s
           else if \<not> m then Inr (None, ms)
           else match ep ms (s + 1)) (inside ms s)"
      unfolding Let_def
      by (intro ensures_if here step opt none) blast+
  qed
qed

lemma match_safe: "safe_matcher (match p)"
proof (induction "length p" arbitrary: p rule: less_induct)
  case less
  show ?case
  proof (cases p)
    case Nil
    then show ?thesis
      by (simp add: safe_matcher_def match.simps inside_def)
  next
    case (Cons c q)
    have IH: "safe_matcher (match r)" if "length r \<le> length q" for r
      using less.hyps [of r] that by (simp add: Cons)
    have item: "match_item p ms s = match p ms s" if "is_item p" for ms s
      by (subst match.simps) (use that in \<open>auto simp: Cons is_item_def match_item_def\<close>)
    show ?thesis
    proof (cases "is_item p")
      case True
      have "safe_matcher (match_item p)"
        by (rule safe_item) (use less.hyps Cons in auto)
      then show ?thesis
        by (simp add: safe_matcher_def item [OF True])
    next
      case False
      show ?thesis
        unfolding safe_matcher_def
      proof (intro allI impI)
        fix ms s
        assume s: "s \<le> src_end ms" "wf_captures ms s"
        note go = safe_at [OF IH _ _ s(2)]
        have "safe_matcher (start_capture (match (tl q)) CAP_POSITION)"
          "safe_matcher (start_capture (match q) CAP_UNFINISHED)" "safe_matcher (end_capture (match q))"
          by (auto intro!: safe_start_capture safe_end_capture IH)
        note cap = this [THEN safe_matcherD, OF s]
        have none: "ensures (Inr (None, ms)) (inside ms s)"
          by (simp add: inside_None)
        have balance: "ensures (bindR (matchbalance ms s (tl q)) (\<lambda>r. case r of
            None \<Rightarrow> Inr (None, ms) | Some s \<Rightarrow> match (drop 3 q) ms s)) (inside ms s)"
          by (rule ensures_bind [OF matchbalance_safe [OF s(1)]])
            (auto split: option.split simp: inside_None intro!: go)
        have reference: "ensures (bindR (match_capture ms s (peek q)) (\<lambda>r. case r of
            None \<Rightarrow> Inr (None, ms) | Some s \<Rightarrow> match (tl q) ms s)) (inside ms s)"
          by (rule ensures_bind [OF match_capture_safe [OF s(1)]])
            (auto split: option.split simp: inside_None intro!: go)
        have frontier: "ensures (bindR (luaI_classend (tl q)) (\<lambda>ep.
           bindR (if s = 0 then Inr NUL else src_at ms (s - 1)) (\<lambda>previous.
           bindR (src_at ms s) (\<lambda>next.
             if matchbracketclass previous (tl q) ep \<or> \<not> matchbracketclass next (tl q) ep then Inr (None, ms)
             else match ep ms s)))) (inside ms s)" if "peek (tl q) = CHR ''[''"
        proof (rule ensures_bind [OF luaI_classend_safe])
          show "tl q \<noteq> []"
            using that by (auto simp: peek_def NUL_def)
          fix ep :: string
          assume "length ep < length (tl q)"
          then have "ensures (match ep ms s) (inside ms s)"
            by (intro go) (use s in auto)
          then show "ensures (bindR (if s = 0 then Inr NUL else src_at ms (s - 1)) (\<lambda>previous.
             bindR (src_at ms s) (\<lambda>next.
               if matchbracketclass previous (tl q) ep \<or> \<not> matchbracketclass next (tl q) ep then Inr (None, ms)
               else match ep ms s))) (inside ms s)"
            using none s(1) by (intro ensures_bind [where P = "\<lambda>_. True"] ensures_if src_at_safe) simp_all
        qed
        show "ensures (match p ms s) (inside ms s)"
          apply (subst match.simps, simp only: Cons list.case)
          apply (rule ensures_if, rule ensures_if, rule cap, rule cap)
          apply (rule ensures_if, rule cap, rule ensures_if, rule balance)
          apply (rule ensures_if, rule ensures_if, simp add: luaL_error_def, rule frontier, simp)
          apply (rule ensures_if, rule reference, rule ensures_if)
           apply (use s in \<open>auto simp: inside_def\<close>)[1]
          apply (rule FalseE, use False in \<open>auto simp: Cons is_item_def\<close>)
          done
      qed
    qed
  qed
qed

section \<open>Properties\<close>

text \<open>
  C11: matching is exact.  When \<open>match\<close> returns an end, the subject matches the pattern up to there,
  with the captures it leaves; when it returns \<open>NULL\<close>, no way of reading the pattern (no numbers of
  repetitions) gives a match, and all captures that were tried are undone.
\<close>

theorem match_exact:
  assumes "match p ms s = Inr (r, ms')"
  shows "case r of Some e \<Rightarrow> matches p ms s e ms' | None \<Rightarrow> ms' = ms \<and> \<not> (\<exists>e ms''. matches p ms s e ms'')"
  using assms match_decides [of p] by (cases r) (auto dest: decides_Some decides_None)

lemmas match_eval = match.simps [of "_ # _"] match.simps [of "[]"] start_capture_def end_capture_def capture_to_close_def
  max_expand_def luaI_singlematch_def luaI_classend_def match_class_def peek_def ctype_defs tolower_def
  MAX_CAPTURES_def CAP_UNFINISHED_def CAP_POSITION_def NUL_def Let_def upt_rec numeral_2_eq_2

lemma match_exact_witness:
  "matches ''(a*)b'' \<lparr>src = ''aab'', capture = []\<rparr> 0 3 \<lparr>src = ''aab'', capture = [(0, 2)]\<rparr> \<and>
   \<not> (\<exists>e ms''. matches ''a?c'' \<lparr>src = ''aab'', capture = []\<rparr> 0 e ms'')"
proof -
  have "match ''(a*)b'' \<lparr>src = ''aab'', capture = []\<rparr> 0 = Inr (Some 3, \<lparr>src = ''aab'', capture = [(0, 2)]\<rparr>)"
    by (simp add: match_eval)
  moreover have "match ''a?c'' \<lparr>src = ''aab'', capture = []\<rparr> 0 = Inr (None, \<lparr>src = ''aab'', capture = []\<rparr>)"
    by (simp add: match_eval)
  ultimately show ?thesis
    using match_exact by fastforce
qed

text \<open>
  C12: matching is safe.  From a position of the subject, with captures that lie in front of it, \<open>match\<close>
  ends; it reads neither pattern nor subject out of bounds, the end it returns and the captures it
  leaves lie inside of the subject, and there are never more than \<open>MAX_CAPTURES\<close>.
\<close>

theorem match_inside:
  assumes "s \<le> src_end ms" "wf_captures ms s"
  shows "ensures (match p ms s) (inside ms s)"
  using safe_matcherD [OF match_safe assms] .

lemma match_inside_witness:
  "ensures (match ''(a*)b'' \<lparr>src = ''aab'', capture = []\<rparr> 0) (inside \<lparr>src = ''aab'', capture = []\<rparr> 0)"
  by (rule match_inside) (simp_all add: wf_captures_def)

end
