(* ===== verification/Auxlib.thy ===== *)
theory Auxlib
  imports Api Patterns
begin

text \<open>
  The auxiliary library (\<open>lua/lauxlib.c\<close>, \<open>lua/lauxlib.h\<close>): arguments of C functions, the sizes of
  arrays, and string buffers.

  The messages of \<open>luaL_argerror\<close> do not have the name of the function, which the debug information of
  the caller gives.
\<close>

section \<open>Errors\<close>

definition luaL_argerror :: "int \<Rightarrow> string \<Rightarrow> 'a res" where
  "luaL_argerror narg extramsg = luaL_error (''bad argument #'' @ fmt_d narg @ '' ('' @ extramsg @ '')'')"

definition luaL_typerror :: "lua_State \<Rightarrow> int \<Rightarrow> string \<Rightarrow> 'a res" where
  "luaL_typerror L narg tname =
    bindR (lua_type L narg) (\<lambda>t. luaL_argerror narg (tname @ '' expected, got '' @ lua_typename t))"

definition tag_error :: "lua_State \<Rightarrow> int \<Rightarrow> int \<Rightarrow> 'a res" where
  "tag_error L narg tag = luaL_typerror L narg (lua_typename tag)"

text \<open>\<open>luaL_findstring\<close>, on a list of C strings that ends with NULL.\<close>

fun findstring_loop :: "int \<Rightarrow> string \<Rightarrow> string list \<Rightarrow> int" where
  "findstring_loop i name [] = -1"
| "findstring_loop i name (s # ss) = (if strcmp (cstr s) (cstr name) = 0 then i else findstring_loop (i + 1) name ss)"

definition luaL_findstring :: "string \<Rightarrow> string list \<Rightarrow> int" where
  "luaL_findstring name ls = findstring_loop 0 name ls"

section \<open>Arguments\<close>

definition luaL_checkstack :: "lua_State \<Rightarrow> int \<Rightarrow> string \<Rightarrow> unit res" where
  "luaL_checkstack L space mes =
    (if \<not> lua_checkstack L space then luaL_error (''stack overflow ('' @ mes @ '')'') else Inr ())"

definition luaL_argcheck :: "bool \<Rightarrow> int \<Rightarrow> string \<Rightarrow> unit res" where
  "luaL_argcheck b narg extramsg = (if \<not> b then luaL_argerror narg extramsg else Inr ())"

definition luaL_checktype :: "lua_State \<Rightarrow> int \<Rightarrow> int \<Rightarrow> unit res" where
  "luaL_checktype L narg t = bindR (lua_type L narg) (\<lambda>t'. if t' \<noteq> t then tag_error L narg t else Inr ())"

definition luaL_checkany :: "lua_State \<Rightarrow> int \<Rightarrow> unit res" where
  "luaL_checkany L narg =
    bindR (lua_type L narg) (\<lambda>t. if t = -1 then luaL_argerror narg ''value expected'' else Inr ())"

definition luaL_checklstring :: "lua_State \<Rightarrow> int \<Rightarrow> (string \<times> lua_State) res" where
  "luaL_checklstring L narg =
    bindR (lua_tostring L narg) (\<lambda>(s, L). case s of None \<Rightarrow> tag_error L narg 4 | Some s \<Rightarrow> Inr (s, L))"

definition lua_isnoneornil :: "lua_State \<Rightarrow> int \<Rightarrow> bool res" where
  "lua_isnoneornil L n = bindR (lua_type L n) (\<lambda>t. Inr (t \<le> 0))"

definition luaL_optlstring :: "lua_State \<Rightarrow> int \<Rightarrow> string \<Rightarrow> (string \<times> lua_State) res" where
  "luaL_optlstring L narg def =
    bindR (lua_isnoneornil L narg) (\<lambda>b. if b then Inr (cstr def, L) else luaL_checklstring L narg)"

definition luaL_checknumber :: "lua_State \<Rightarrow> int \<Rightarrow> lua_Number res" where
  "luaL_checknumber L narg =
    bindR (lua_tonumber L narg) (\<lambda>d.
    bindR (lua_isnumber L narg) (\<lambda>b.
      if num_eq d (num_of_int 0) \<and> \<not> b then tag_error L narg 3 else Inr d))"

definition luaL_optnumber :: "lua_State \<Rightarrow> int \<Rightarrow> lua_Number \<Rightarrow> lua_Number res" where
  "luaL_optnumber L narg def =
    bindR (lua_isnoneornil L narg) (\<lambda>b. if b then Inr def else luaL_checknumber L narg)"

text \<open>\<open>(long)d\<close>; as for \<open>(int)d\<close>, what is out of range becomes the least number.\<close>

definition lua_number2long :: "lua_Number \<Rightarrow> int" where
  "lua_number2long x =
    (if num_isnan x \<or> num_isinf x then - (2 ^ 63)
     else let k = sgn (num_val x) * (\<bar>num_val x\<bar> div 2 ^ 1074)
       in if - (2 ^ 63) \<le> k \<and> k < 2 ^ 63 then k else - (2 ^ 63))"

definition luaL_checkint :: "lua_State \<Rightarrow> int \<Rightarrow> int res" where
  "luaL_checkint L n = bindR (luaL_checknumber L n) (\<lambda>d. Inr (lua_number2int d))"

definition luaL_checklong :: "lua_State \<Rightarrow> int \<Rightarrow> int res" where
  "luaL_checklong L n = bindR (luaL_checknumber L n) (\<lambda>d. Inr (lua_number2long d))"

definition luaL_optint :: "lua_State \<Rightarrow> int \<Rightarrow> lua_Number \<Rightarrow> int res" where
  "luaL_optint L n d = bindR (luaL_optnumber L n d) (\<lambda>d. Inr (lua_number2int d))"

definition luaL_optlong :: "lua_State \<Rightarrow> int \<Rightarrow> lua_Number \<Rightarrow> int res" where
  "luaL_optlong L n d = bindR (luaL_optnumber L n d) (\<lambda>d. Inr (lua_number2long d))"

definition luaL_getmetafield :: "lua_State \<Rightarrow> int \<Rightarrow> string \<Rightarrow> (bool \<times> lua_State) res" where
  "luaL_getmetafield L obj event =
    bindR (lua_getmetatable L obj) (\<lambda>(b, L).
      if \<not> b then Inr (False, L)
      else bindR (lua_rawget (lua_pushlstring L event) (-2)) (\<lambda>L.
        bindR (top_value L 1) (\<lambda>v.
          if v = LNil then bindR (lua_pop L 2) (\<lambda>L. Inr (False, L))
          else bindR (lua_remove L (-2)) (\<lambda>L. Inr (True, L)))))"

definition abs_index :: "lua_State \<Rightarrow> int \<Rightarrow> int" where
  "abs_index L i = (if 0 < i \<or> i \<le> LUA_REGISTRYINDEX then i else lua_gettop L + i + 1)"

definition luaL_callmeta :: "caller \<Rightarrow> lua_State \<Rightarrow> int \<Rightarrow> string \<Rightarrow> (bool \<times> lua_State) res" where
  "luaL_callmeta call L obj event =
    (let obj = abs_index L obj
     in bindR (luaL_getmetafield L obj event) (\<lambda>(b, L).
          if \<not> b then Inr (False, L)
          else bindR (lua_pushvalue L obj) (\<lambda>L. bindR (lua_call call L 1 1) (\<lambda>L. Inr (True, L)))))"

section \<open>Sizes of arrays\<close>

definition ARRAYSIZE_REF :: int where "ARRAYSIZE_REF = 2"

definition checkint :: "lua_State \<Rightarrow> int \<Rightarrow> (int \<times> lua_State) res" where
  "checkint L topop =
    bindR (lua_tonumber L (-1)) (\<lambda>d.
    bindR (lua_isnumber L (-1)) (\<lambda>b.
    bindR (lua_pop L topop) (\<lambda>L.
      (let n = lua_number2int d in Inr (if n = 0 \<and> \<not> b then -1 else n, L)))))"

definition getsizes :: "addr \<Rightarrow> lua_State \<Rightarrow> lua_State res" where
  "getsizes new L =
    bindR (lua_rawgeti L LUA_REGISTRYINDEX ARRAYSIZE_REF) (\<lambda>L.
    bindR (top_value L 1) (\<lambda>v.
      if v \<noteq> LNil then Inr L
      else
        bindR (lua_pop L 1) (\<lambda>L.
        bindR (lua_newtable new L) (\<lambda>L.
        bindR (lua_pushvalue L (-1)) (\<lambda>L.
        bindR (lua_setmetatable L (-2)) (\<lambda>(_, L).
        bindR (lua_rawset (lua_pushlstring (lua_pushlstring L ''__mode'') ''k'') (-3)) (\<lambda>L.
        bindR (lua_pushvalue L (-1)) (\<lambda>L.
          lua_rawseti L LUA_REGISTRYINDEX ARRAYSIZE_REF))))))))"

definition luaL_setn :: "addr \<Rightarrow> lua_State \<Rightarrow> int \<Rightarrow> int \<Rightarrow> lua_State res" where
  "luaL_setn new L t n =
    (let t = abs_index L t
     in bindR (lua_rawget (lua_pushlstring L ''n'') t) (\<lambda>L.
        bindR (checkint L 1) (\<lambda>(k, L).
          if 0 \<le> k then lua_rawset (lua_pushnumber (lua_pushlstring L ''n'') (num_of_int n)) t
          else
            bindR (getsizes new L) (\<lambda>L.
            bindR (lua_pushvalue L t) (\<lambda>L.
            bindR (lua_rawset (lua_pushnumber L (num_of_int n)) (-3)) (\<lambda>L. lua_pop L 1))))))"

text \<open>
  The loop that counts the elements.  Its fuel is more than any table has keys: an \<open>int\<close> counts them.
\<close>

fun getn_loop :: "nat \<Rightarrow> lua_State \<Rightarrow> int \<Rightarrow> int \<Rightarrow> (int \<times> lua_State) res" where
  "getn_loop 0 L t n = Inl NoReturn"
| "getn_loop (Suc fuel) L t n =
    bindR (lua_rawgeti L t n) (\<lambda>L.
    bindR (top_value L 1) (\<lambda>v.
    bindR (lua_pop L 1) (\<lambda>L.
      if v = LNil then Inr (n - 1, L) else getn_loop fuel L t (n + 1))))"

definition luaL_getn :: "addr \<Rightarrow> lua_State \<Rightarrow> int \<Rightarrow> (int \<times> lua_State) res" where
  "luaL_getn new L t =
    (let t = abs_index L t
     in bindR (lua_rawget (lua_pushlstring L ''n'') t) (\<lambda>L.
        bindR (checkint L 1) (\<lambda>(n, L).
          if 0 \<le> n then Inr (n, L)
          else
            bindR (getsizes new L) (\<lambda>L.
            bindR (lua_pushvalue L t) (\<lambda>L.
            bindR (lua_rawget L (-2)) (\<lambda>L.
            bindR (checkint L 2) (\<lambda>(n, L).
              if 0 \<le> n then Inr (n, L) else getn_loop (2 ^ 31) L t 1)))))))"

section \<open>String buffers\<close>

definition LUAL_BUFFERSIZE :: nat where "LUAL_BUFFERSIZE = 8192"
definition LIMIT :: nat where "LIMIT = 10"

text \<open>\<open>buf\<close> is what is in the array in front of \<open>p\<close>; the \<open>lvl\<close> pieces before are on the Lua stack.\<close>

record luaL_Buffer =
  buf :: string
  lvl :: nat

definition luaL_buffinit :: luaL_Buffer where
  "luaL_buffinit = \<lparr>buf = [], lvl = 0\<rparr>"

definition bufffree :: "luaL_Buffer \<Rightarrow> nat" where
  "bufffree B = LUAL_BUFFERSIZE - length (buf B)"

definition emptybuffer :: "lua_State \<Rightarrow> luaL_Buffer \<Rightarrow> bool \<times> lua_State \<times> luaL_Buffer" where
  "emptybuffer L B =
    (if buf B = [] then (False, L, B)
     else (True, lua_pushlstring L (buf B), B\<lparr>buf := [], lvl := lvl B + 1\<rparr>))"

text \<open>The loop of \<open>adjuststack\<close>: the number of pieces to join, from the lengths of those below the top.\<close>

fun adjust_loop :: "nat \<Rightarrow> nat \<Rightarrow> nat \<Rightarrow> nat list \<Rightarrow> nat" where
  "adjust_loop l toget toplen [] = toget"
| "adjust_loop l toget toplen (k # ks) =
    (if LIMIT \<le> l - toget + 1 \<or> k < toplen then
       (if toget + 1 < l then adjust_loop l (toget + 1) (toplen + k) ks else toget + 1)
     else toget)"

text \<open>The pieces are strings, so \<open>lua_strlen\<close> converts nothing, and no tag method is called.\<close>

definition adjuststack :: "caller \<Rightarrow> lua_State \<Rightarrow> luaL_Buffer \<Rightarrow> (lua_State \<times> luaL_Buffer) res" where
  "adjuststack call L B =
    (if 1 < lvl B then
       (if length (stk L) < lvl B then Inl OutOfBounds
        else
          (let ls = map (\<lambda>v. case v of LString s \<Rightarrow> length s | _ \<Rightarrow> 0) (rev (stk L));
               toget = adjust_loop (lvl B) 1 (hd ls) (tl ls)
           in bindR (lua_concat call L toget) (\<lambda>L. Inr (L, B\<lparr>lvl := lvl B - toget + 1\<rparr>))))
     else Inr (L, B))"

definition luaL_prepbuffer :: "caller \<Rightarrow> lua_State \<Rightarrow> luaL_Buffer \<Rightarrow> (lua_State \<times> luaL_Buffer) res" where
  "luaL_prepbuffer call L B =
    (case emptybuffer L B of (b, L, B) \<Rightarrow> if b then adjuststack call L B else Inr (L, B))"

definition luaL_putchar :: "caller \<Rightarrow> char \<Rightarrow> lua_State \<times> luaL_Buffer \<Rightarrow> (lua_State \<times> luaL_Buffer) res" where
  "luaL_putchar call c LB = (case LB of (L, B) \<Rightarrow>
    bindR (if length (buf B) < LUAL_BUFFERSIZE then Inr (L, B) else luaL_prepbuffer call L B) (\<lambda>(L, B).
      Inr (L, B\<lparr>buf := buf B @ [c]\<rparr>)))"

fun luaL_addlstring :: "caller \<Rightarrow> string \<Rightarrow> lua_State \<times> luaL_Buffer \<Rightarrow> (lua_State \<times> luaL_Buffer) res" where
  "luaL_addlstring call [] LB = Inr LB"
| "luaL_addlstring call (c # cs) LB = bindR (luaL_putchar call c LB) (luaL_addlstring call cs)"

definition luaL_pushresult :: "caller \<Rightarrow> lua_State \<times> luaL_Buffer \<Rightarrow> (lua_State \<times> luaL_Buffer) res" where
  "luaL_pushresult call LB = (case LB of (L, B) \<Rightarrow> (case emptybuffer L B of (_, L, B) \<Rightarrow>
    bindR (lua_concat call L (lvl B)) (\<lambda>L. Inr (L, B\<lparr>lvl := 1\<rparr>))))"

definition luaL_addvalue :: "caller \<Rightarrow> lua_State \<times> luaL_Buffer \<Rightarrow> (lua_State \<times> luaL_Buffer) res" where
  "luaL_addvalue call LB = (case LB of (L, B) \<Rightarrow>
    bindR (lua_strlen L (-1)) (\<lambda>(vl, L).
      if vl \<le> bufffree B then
        bindR (lua_tostring L (-1)) (\<lambda>(s, L).
        bindR (lua_pop L 1) (\<lambda>L. Inr (L, B\<lparr>buf := buf B @ take vl (case s of None \<Rightarrow> [] | Some s \<Rightarrow> s)\<rparr>)))
      else
        (case emptybuffer L B of (b, L, B) \<Rightarrow>
           bindR (if b then lua_insert L (-2) else Inr L) (\<lambda>L. adjuststack call L (B\<lparr>lvl := lvl B + 1\<rparr>)))))"

section \<open>A buffer is a string\<close>

text \<open>
  \<open>buffered L0 s (L, B)\<close>: a buffer that was started in the state \<open>L0\<close> holds the string \<open>s\<close>, its
  pieces are what is on the stack above the one of \<open>L0\<close>, and they are few.
\<close>

definition pieces :: "lua_State \<Rightarrow> string list \<Rightarrow> lua_State" where
  "pieces L0 ps = L0\<lparr>stk := stk L0 @ map LString ps\<rparr>"

definition holds :: "lua_State \<Rightarrow> string \<Rightarrow> lua_State \<times> luaL_Buffer \<Rightarrow> bool" where
  "holds L0 s LB \<longleftrightarrow> (case LB of (L, B) \<Rightarrow>
     \<exists>ps. L = pieces L0 ps \<and> length ps = lvl B \<and> s = concat ps @ buf B \<and> length (buf B) \<le> LUAL_BUFFERSIZE)"

definition buffered :: "lua_State \<Rightarrow> string \<Rightarrow> lua_State \<times> luaL_Buffer \<Rightarrow> bool" where
  "buffered L0 s LB \<longleftrightarrow> holds L0 s LB \<and> lvl (snd LB) < LIMIT"

lemma buffered_init: "buffered L [] (L, luaL_buffinit)"
  by (auto simp: buffered_def holds_def pieces_def luaL_buffinit_def LIMIT_def)

lemma stk_pieces [simp]: "stk (pieces L0 ps) = stk L0 @ map LString ps"
  by (simp add: pieces_def)

lemma pieces_snoc: "pieces L0 (ps @ [s]) = lua_pushlstring (pieces L0 ps) s"
  by (simp add: pieces_def lua_pushlstring_def luaA_pushobject_def)

lemma concat_pieces:
  assumes "qs \<noteq> []" "length (concat qs) \<le> MAX_SIZET"
  shows "lua_concat call (pieces L0 (ps @ qs)) (length qs) = Inr (pieces L0 (ps @ [concat qs]))"
proof (cases "length qs = 1")
  case True
  then show ?thesis
    by (auto simp: lua_concat_def length_Suc_conv)
next
  case False
  have c: "chars_of \<circ> LString = id"
    by (simp add: fun_eq_iff)
  have "2 \<le> length qs"
    using assms(1) False by (cases qs) (simp_all add: Suc_le_eq)
  moreover from this have "luaV_concat call (rev (map LString qs)) (pieces L0 (ps @ qs)) =
      Inr (LString (concat qs), pieces L0 (ps @ qs))"
    using luaV_concat_strings [of "rev (map LString qs)" call] assms by (simp add: c)
  ultimately show ?thesis
    by (simp add: lua_concat_def pieces_def)
qed

lemma adjust_loop_bounds:
  "toget < l \<Longrightarrow> l \<le> length ks + toget \<Longrightarrow>
    toget \<le> adjust_loop l toget n ks \<and> adjust_loop l toget n ks \<le> l \<and>
    l - adjust_loop l toget n ks + 1 < LIMIT"
proof (induction l toget n ks rule: adjust_loop.induct)
  case (2 l toget toplen k ks)
  then show ?case
    by (auto simp: LIMIT_def)
qed simp

lemma adjuststack_holds:
  assumes "holds L0 s (L, B)" "length s \<le> MAX_SIZET" "lvl B \<le> LIMIT + 1"
  shows "\<exists>LB. adjuststack call L B = Inr LB \<and> buffered L0 s LB \<and> buf (snd LB) = buf B"
proof -
  obtain ps where ps: "L = pieces L0 ps" "length ps = lvl B" "s = concat ps @ buf B" "length (buf B) \<le> LUAL_BUFFERSIZE"
    using assms(1) by (auto simp: holds_def)
  show ?thesis
  proof (cases "1 < lvl B")
    case False
    then show ?thesis
      using assms(1) by (auto simp: adjuststack_def buffered_def LIMIT_def)
  next
    case True
    define ls where "ls = map (\<lambda>v. case v of LString s \<Rightarrow> length s | _ \<Rightarrow> 0) (rev (stk L))"
    define toget where "toget = adjust_loop (lvl B) 1 (hd ls) (tl ls)"
    have len: "lvl B \<le> length (stk L)"
      using ps by simp
    then have t: "1 \<le> toget" "toget \<le> lvl B" "lvl B - toget + 1 < LIMIT"
      using True adjust_loop_bounds [of 1 "lvl B" "tl ls" "hd ls"] by (simp_all add: toget_def ls_def)
    obtain us qs where q: "ps = us @ qs" "length qs = toget"
      using t(2) ps(2) by (metis append_take_drop_id diff_diff_cancel length_drop)
    have "qs \<noteq> []" "length (concat qs) \<le> MAX_SIZET"
      using q t(1) ps(3) assms(2) by auto
    then have "lua_concat call L toget = Inr (pieces L0 (us @ [concat qs]))"
      using concat_pieces [of qs call L0 us] ps(1) q by simp
    then have "adjuststack call L B = Inr (pieces L0 (us @ [concat qs]), B\<lparr>lvl := lvl B - toget + 1\<rparr>)"
      using True len unfolding adjuststack_def ls_def [symmetric] Let_def toget_def [symmetric] by simp
    then show ?thesis
      using q ps t by (auto simp: buffered_def holds_def intro!: exI [of _ "us @ [concat qs]"])
  qed
qed

lemma emptybuffer_holds:
  "holds L0 s (L, B) \<Longrightarrow> \<exists>b L' B'. emptybuffer L B = (b, L', B') \<and> holds L0 s (L', B') \<and> buf B' = [] \<and>
    lvl B' \<le> lvl B + 1 \<and> (\<not> b \<longrightarrow> L' = L \<and> B' = B) \<and> (b \<longrightarrow> L' = lua_pushlstring L (buf B))"
proof -
  assume "holds L0 s (L, B)"
  then obtain ps where ps: "L = pieces L0 ps" "length ps = lvl B" "s = concat ps @ buf B" "length (buf B) \<le> LUAL_BUFFERSIZE"
    by (auto simp: holds_def)
  show ?thesis
  proof (cases "buf B = []")
    case True
    with ps show ?thesis
      by (auto simp: emptybuffer_def holds_def)
  next
    case False
    have "holds L0 s (lua_pushlstring L (buf B), B\<lparr>buf := [], lvl := lvl B + 1\<rparr>)"
      using ps unfolding holds_def by (auto simp: pieces_snoc intro!: exI [of _ "ps @ [buf B]"])
    with False show ?thesis
      by (auto simp: emptybuffer_def)
  qed
qed

lemma prepbuffer_buffered:
  assumes "buffered L0 s (L, B)" "length s \<le> MAX_SIZET"
  shows "\<exists>LB. luaL_prepbuffer call L B = Inr LB \<and> buffered L0 s LB \<and> buf (snd LB) = []"
proof -
  obtain b L' B' where e: "emptybuffer L B = (b, L', B')" "holds L0 s (L', B')" "buf B' = []" "lvl B' \<le> lvl B + 1"
    "\<not> b \<Longrightarrow> L' = L \<and> B' = B"
    using emptybuffer_holds [of L0 s L B] assms by (auto simp: buffered_def)
  show ?thesis
    using adjuststack_holds [OF e(2) assms(2)] e assms(1)
    by (cases b) (auto simp: luaL_prepbuffer_def buffered_def)
qed

lemma putchar_buffered:
  assumes "buffered L0 s LB" "length s < MAX_SIZET"
  shows "\<exists>LB'. luaL_putchar call c LB = Inr LB' \<and> buffered L0 (s @ [c]) LB'"
proof -
  obtain L B where LB: "LB = (L, B)"
    by fastforce
  have *: "buffered L0 (s @ [c]) (L', B'\<lparr>buf := buf B' @ [c]\<rparr>)"
    if "buffered L0 s (L', B')" "length (buf B') < LUAL_BUFFERSIZE" for L' B'
    using that by (auto simp: buffered_def holds_def)
  show ?thesis
  proof (cases "length (buf B) < LUAL_BUFFERSIZE")
    case True
    then show ?thesis
      using assms(1) * by (simp add: luaL_putchar_def LB)
  next
    case False
    obtain LB' where "luaL_prepbuffer call L B = Inr LB'" "buffered L0 s LB'" "buf (snd LB') = []"
      using prepbuffer_buffered [of L0 s L B call] assms LB by auto
    with False * [of "fst LB'" "snd LB'"] show ?thesis
      by (cases LB') (simp add: luaL_putchar_def LB LUAL_BUFFERSIZE_def)
  qed
qed

lemma addlstring_buffered:
  "buffered L0 s LB \<Longrightarrow> length (s @ cs) \<le> MAX_SIZET \<Longrightarrow>
    \<exists>LB'. luaL_addlstring call cs LB = Inr LB' \<and> buffered L0 (s @ cs) LB'"
proof (induction cs arbitrary: s LB)
  case (Cons c cs)
  obtain LB' where "luaL_putchar call c LB = Inr LB'" "buffered L0 (s @ [c]) LB'"
    using putchar_buffered [OF Cons.prems(1), of call c] Cons.prems(2) by auto
  with Cons.IH [of "s @ [c]" LB'] Cons.prems(2) show ?case
    by simp
qed simp

lemma pushresult_buffered:
  assumes "buffered L0 s LB" "length s \<le> MAX_SIZET"
  shows "\<exists>B. luaL_pushresult call LB = Inr (lua_pushlstring L0 s, B)"
proof -
  obtain L B where LB: "LB = (L, B)"
    by fastforce
  obtain b L' B' where e: "emptybuffer L B = (b, L', B')" "holds L0 s (L', B')" "buf B' = []"
    using emptybuffer_holds [of L0 s L B] assms(1) LB by (auto simp: buffered_def)
  then obtain ps where ps: "L' = pieces L0 ps" "length ps = lvl B'" "s = concat ps"
    by (auto simp: holds_def)
  have "lua_concat call L' (lvl B') = Inr (pieces L0 [s])"
  proof (cases "ps = []")
    case True
    then show ?thesis
      using ps by (simp add: lua_concat_def luaA_pushobject_def pieces_def)
  next
    case False
    then show ?thesis
      using concat_pieces [of ps call L0 "[]"] ps assms(2) by simp
  qed
  then show ?thesis
    using pieces_snoc [of L0 "[]" s] by (simp add: luaL_pushresult_def LB e) (simp add: pieces_def)
qed

text \<open>The value on the top of the stack.\<close>

lemma acceptable_top [simp]:
  "luaA_indexAcceptable (luaA_pushobject L v) (-1) = Inr (Some (Stk (length (stk L))))"
  by (simp add: luaA_indexAcceptable_def negindex_def stack_loc_def luaA_pushobject_def LUA_REGISTRYINDEX_def)

lemma to_string_top:
  "stringlike v \<Longrightarrow> to_string_at (luaA_pushobject L v) (Stk (length (stk L))) =
    (Some (chars_of v), luaA_pushobject L (LString (chars_of v)))"
  by (cases v) (simp_all add: to_string_at_def luaA_pushobject_def stringlike_def chars_of_def tostring_def
      luaV_tostring_def list_update_append)

lemma strlen_top: "stringlike v \<Longrightarrow>
    lua_strlen (luaA_pushobject L v) (-1) = Inr (length (chars_of v), luaA_pushobject L (LString (chars_of v)))"
  by (simp add: lua_strlen_def to_string_top)

lemma tostring_top: "stringlike v \<Longrightarrow>
    lua_tostring (luaA_pushobject L v) (-1) = Inr (Some (chars_of v), luaA_pushobject L (LString (chars_of v)))"
  by (simp add: lua_tostring_def to_string_top)

lemma pop_top [simp]: "lua_pop (luaA_pushobject L v) 1 = Inr L"
  by (simp add: lua_pop_def lua_settop_def lua_gettop_def luaA_pushobject_def)

lemma insert_below_top: "stk L = xs @ [a, b] \<Longrightarrow> lua_insert L (-2) = Inr (L\<lparr>stk := xs @ [b, a]\<rparr>)"
  using stack_index_neg [of L "-2"] by (simp add: lua_insert_def lua_gettop_def LUA_REGISTRYINDEX_def)

lemma addvalue_buffered:
  assumes "buffered L0 s (L, B)" "stringlike v" "length (s @ chars_of v) \<le> MAX_SIZET"
  shows "\<exists>LB. luaL_addvalue call (luaA_pushobject L v, B) = Inr LB \<and> buffered L0 (s @ chars_of v) LB"
proof -
  obtain ps where ps: "L = pieces L0 ps" "length ps = lvl B" "s = concat ps @ buf B" "length (buf B) \<le> LUAL_BUFFERSIZE"
    and lvl: "lvl B < LIMIT"
    using assms(1) by (auto simp: buffered_def holds_def)
  let ?v = "chars_of v"
  have top: "luaA_pushobject L (LString ?v) = pieces L0 (ps @ [?v])"
    by (simp add: ps(1) pieces_def luaA_pushobject_def)
  note start = luaL_addvalue_def strlen_top [OF assms(2)]
  show ?thesis
  proof (cases "length ?v \<le> bufffree B")
    case True
    then have "buffered L0 (s @ ?v) (L, B\<lparr>buf := buf B @ ?v\<rparr>)"
      using ps lvl by (auto simp: buffered_def holds_def bufffree_def)
    then show ?thesis
      using True by (simp add: start tostring_top)
  next
    case False
    show ?thesis
    proof (cases "buf B = []")
      case True
      then have "holds L0 (s @ ?v) (luaA_pushobject L (LString ?v), B\<lparr>lvl := lvl B + 1\<rparr>)"
        unfolding top using ps by (auto simp: holds_def intro!: exI [of _ "ps @ [?v]"])
      with adjuststack_holds [OF this assms(3)] show ?thesis
        using True False lvl by (simp add: start emptybuffer_def) blast
    next
      case buf: False
      have "lua_insert (lua_pushlstring (luaA_pushobject L (LString ?v)) (buf B)) (-2) =
          Inr (pieces L0 (ps @ [buf B, ?v]))"
        unfolding top using insert_below_top [of _ "stk L0 @ map LString ps" "LString ?v" "LString (buf B)"]
        by (simp add: lua_pushlstring_def luaA_pushobject_def pieces_def)
      moreover have "holds L0 (s @ ?v) (pieces L0 (ps @ [buf B, ?v]), B\<lparr>buf := [], lvl := lvl B + 1 + 1\<rparr>)"
        using ps by (auto simp: holds_def intro!: exI [of _ "ps @ [buf B, ?v]"])
      note adjuststack_holds [OF this assms(3), of call]
      ultimately show ?thesis
        using buf False lvl by (simp add: start emptybuffer_def) blast
    qed
  qed
qed

section \<open>Properties\<close>

text \<open>
  C25: a string buffer stands for a string.  Characters and values that are added to it, one after the
  other, are what \<open>luaL_pushresult\<close> leaves on the stack, on top of what was there when the buffer was
  started, however the pieces were joined on the way; and a buffer never holds \<open>LIMIT\<close> pieces on the stack.
\<close>

theorem buffer_refines_string:
  assumes "buffered L0 s (L, B)" "stringlike v" "length (s @ cs @ chars_of v) \<le> MAX_SIZET"
  shows "\<exists>L' B' LB B''. luaL_addlstring call cs (L, B) = Inr (L', B') \<and> buffered L0 (s @ cs) (L', B') \<and>
    luaL_addvalue call (luaA_pushobject L' v, B') = Inr LB \<and> buffered L0 (s @ cs @ chars_of v) LB \<and>
    lvl (snd LB) < LIMIT \<and>
    luaL_pushresult call LB = Inr (lua_pushlstring L0 (s @ cs @ chars_of v), B'')"
proof -
  obtain L' B' where 1: "luaL_addlstring call cs (L, B) = Inr (L', B')" "buffered L0 (s @ cs) (L', B')"
    using addlstring_buffered [OF assms(1), of cs call] assms(3) by auto
  obtain LB where 2: "luaL_addvalue call (luaA_pushobject L' v, B') = Inr LB" "buffered L0 (s @ cs @ chars_of v) LB"
    using addvalue_buffered [OF 1(2) assms(2), of call] assms(3) by auto
  obtain B'' where "luaL_pushresult call LB = Inr (lua_pushlstring L0 (s @ cs @ chars_of v), B'')"
    using pushresult_buffered [OF 2(2) assms(3)] by blast
  with 1 2 show ?thesis
    unfolding buffered_def by blast
qed

lemma buffer_refines_string_witness:
  "\<exists>L' B' LB B''. luaL_addlstring (\<lambda>f args n L. Inl ErrErr) ''ab'' (empty_state, luaL_buffinit) = Inr (L', B') \<and>
    luaL_addvalue (\<lambda>f args n L. Inl ErrErr) (luaA_pushobject L' (LString ''c''), B') = Inr LB \<and>
    luaL_pushresult (\<lambda>f args n L. Inl ErrErr) LB = Inr (lua_pushlstring empty_state ''abc'', B'')"
  using buffer_refines_string [OF buffered_init, of "LString ''c''" "''ab''" "\<lambda>f args n L. Inl ErrErr" empty_state]
  by (simp add: MAX_SIZET_def) blast

end
