(* ===== verification/TableCorrect.thy ===== *)
theory TableCorrect
  imports Tables
begin

text \<open>
  The invariant of Lua tables and the correctness of search and insertion: a table is a finite map from
  keys, up to raw equality, to values.  The map is \<open>content\<close>; it does not look at chains or main
  positions.
\<close>

section \<open>Keys\<close>

definition valid_key :: "TObject \<Rightarrow> bool" where
  "valid_key k \<longleftrightarrow> k \<noteq> LNil \<and> k \<noteq> LNone \<and> (\<forall>n. k = LNumber n \<longrightarrow> \<not> num_isnan n)"

lemma valid_key_simps [simp]:
  "\<not> valid_key LNil" "\<not> valid_key LNone" "valid_key (LNumber n) \<longleftrightarrow> \<not> num_isnan n" "valid_key (LString s)"
  by (simp_all add: valid_key_def)

lemma rawequal_refl [simp]: "valid_key k \<Longrightarrow> luaO_rawequalObj k k"
  by (cases k) (simp_all add: luaO_rawequalObj_def num_eq_refl valid_key_def)

lemma rawequal_iff:
  "luaO_rawequalObj k k' \<longleftrightarrow> k = k' \<and> (\<forall>n. k \<noteq> LNumber n) \<or> (\<exists>n n'. k = LNumber n \<and> k' = LNumber n' \<and> num_eq n n')"
  by (cases k; cases k') (auto simp: luaO_rawequalObj_def)

lemma rawequal_sym: "luaO_rawequalObj k k' \<Longrightarrow> luaO_rawequalObj k' k"
  by (auto simp: rawequal_iff dest: num_eq_sym)

lemma rawequal_trans: "luaO_rawequalObj k k' \<Longrightarrow> luaO_rawequalObj k' k'' \<Longrightarrow> luaO_rawequalObj k k''"
  by (auto simp: rawequal_iff dest: num_eq_trans)

lemma rawequal_valid: "luaO_rawequalObj k k' \<Longrightarrow> valid_key k \<longleftrightarrow> valid_key k'"
  by (auto simp: rawequal_iff num_eq_def)

lemma rawequal_left: "luaO_rawequalObj k k' \<Longrightarrow> luaO_rawequalObj k x = luaO_rawequalObj k' x"
  using rawequal_sym rawequal_trans by blast

lemma mainposition_cong: "luaO_rawequalObj k k' \<Longrightarrow> luaH_mainposition t k = luaH_mainposition t k'"
  by (auto simp: rawequal_iff hashnum_def num_add_one_cong Let_def)

lemma number2int_cong: "num_eq n m \<Longrightarrow> lua_number2int n = lua_number2int m"
  using num_isinf_cong [of n m] by (simp add: lua_number2int_def num_to_int_def num_eq_def)

lemma num_eq_left: "num_eq n m \<Longrightarrow> num_eq x n = num_eq x m"
  using num_eq_sym num_eq_trans by blast

lemma arrayindex_cong: "luaO_rawequalObj k k' \<Longrightarrow> arrayindex k = arrayindex k'"
  using number2int_cong num_eq_left
  by (fastforce simp: rawequal_iff arrayindex_def Let_def split: TObject.splits)

definition key_of :: "int \<Rightarrow> TObject" where
  "key_of i = LNumber (num_of_int i)"

lemma toobig_small: "1 \<le> k \<Longrightarrow> k \<le> 2 ^ MAXBITS \<Longrightarrow> \<not> toobig k"
  by (simp add: toobig_def MAXBITS_def drop_bit_eq_div)

lemma toobig_le: "1 \<le> k \<Longrightarrow> \<not> toobig k \<longleftrightarrow> k \<le> 2 ^ MAXBITS"
  by (auto simp: toobig_def MAXBITS_def drop_bit_eq_div div_eq_0_iff zdiv_eq_0_iff)

lemma num_of_int_valid [simp]: "\<bar>i\<bar> < 2 ^ 53 \<Longrightarrow> \<not> num_isnan (num_of_int i)"
  by (simp add: num_of_int_finite)

lemma arrayindex_range: "arrayindex k = -1 \<or> 1 \<le> arrayindex k \<and> arrayindex k \<le> 2 ^ MAXBITS"
  by (auto simp: arrayindex_def Let_def toobig_le split: TObject.split)

lemma arrayindex_key_of: "1 \<le> i \<Longrightarrow> i \<le> 2 ^ MAXBITS \<Longrightarrow> arrayindex (key_of i) = i"
  by (simp add: key_of_def arrayindex_def toobig_small MAXBITS_def INT_MIN_def INT_MAX_def num_eq_refl)

lemma rawequal_arrayindex: "1 \<le> arrayindex k \<Longrightarrow> luaO_rawequalObj (key_of (arrayindex k)) k"
  by (auto simp: key_of_def arrayindex_def rawequal_iff Let_def split: TObject.splits if_splits)

lemma arrayindex_inj: "1 \<le> arrayindex k \<Longrightarrow> arrayindex k = arrayindex k' \<Longrightarrow> luaO_rawequalObj k k'"
  using rawequal_arrayindex [of k] rawequal_arrayindex [of k'] rawequal_sym rawequal_trans by metis


section \<open>Main positions\<close>

lemma mainposition_update [simp]:
  "luaH_mainposition (t\<lparr>node := ns\<rparr>) k = luaH_mainposition t k"
  "luaH_mainposition (t\<lparr>array := a\<rparr>) k = luaH_mainposition t k"
  "luaH_mainposition (t\<lparr>firstfree := f\<rparr>) k = luaH_mainposition t k"
  "luaH_mainposition (t\<lparr>flags := w\<rparr>) k = luaH_mainposition t k"
  by (cases k; simp add: hashnum_def hashmod_def hashpow2_def sizenode_def Let_def)+

lemma sizenode_pow2: "sizenode t = 2 ^ lsizenode t"
  by (simp add: sizenode_def push_bit_eq_mult)

lemma pred_or_1: "((2 ^ k - 1) OR 1 :: nat) = (if k = 0 then 1 else 2 ^ k - 1)"
proof (cases k)
  case (Suc m)
  have "odd ((2 :: nat) ^ k - 1)"
    by (simp add: Suc)
  then have "((2 ^ k - 1) OR 1 :: nat) = 2 ^ k - 1"
    unfolding or_one_eq by simp
  then show ?thesis
    using Suc by simp
qed simp

lemma mainposition_less: "luaH_mainposition t k < 2 ^ lsizenode t"
proof -
  have m: "hashmod t w < 2 ^ lsizenode t" for w
  proof (cases "lsizenode t = 0")
    case False
    have "unat w mod (2 ^ lsizenode t - 1) < 2 ^ lsizenode t - 1"
      using False one_less_power [of "2 :: nat"] by (intro mod_less_divisor) simp
    then show ?thesis
      using False unfolding hashmod_def sizenode_pow2 pred_or_1 by simp
  qed (simp add: hashmod_def sizenode_pow2 pred_or_1)
  have "hashpow2 t w < 2 ^ lsizenode t" for w
    by (simp add: hashpow2_def sizenode_pow2 lmod_less)
  with m show ?thesis
    by (cases k) (simp_all add: hashnum_def Let_def)
qed

section \<open>Chains\<close>

definition link :: "Node list \<Rightarrow> nat \<Rightarrow> nat \<Rightarrow> bool" where
  "link ns i j \<longleftrightarrow> i < length ns \<and> nxt (ns ! i) = Some j"

abbreviation reach :: "Node list \<Rightarrow> nat \<Rightarrow> nat \<Rightarrow> bool" where
  "reach ns \<equiv> (link ns)\<^sup>*\<^sup>*"

text \<open>
  The shape of the chains: they stay inside of the array of nodes, end, and do not meet; a node that
  was never used is on none.
\<close>

definition wf_chains :: "Node list \<Rightarrow> bool" where
  "wf_chains ns \<longleftrightarrow>
     (\<forall>i j. link ns i j \<longrightarrow> j < length ns) \<and>
     (\<exists>rk :: nat \<Rightarrow> nat. \<forall>i j. link ns i j \<longrightarrow> rk j < rk i) \<and>
     (\<forall>i i' j. link ns i j \<longrightarrow> link ns i' j \<longrightarrow> i = i') \<and>
     (\<forall>i < length ns. i_key (ns ! i) = LNil \<longrightarrow>
        i_val (ns ! i) = LNil \<and> nxt (ns ! i) = None \<and> (\<forall>j. \<not> link ns j i))"

lemma wf_chainsD:
  assumes "wf_chains ns"
  shows "link ns i j \<Longrightarrow> j < length ns" "link ns i j \<Longrightarrow> link ns i' j \<Longrightarrow> i = i'"
    "i < length ns \<Longrightarrow> i_key (ns ! i) = LNil \<Longrightarrow> i_val (ns ! i) = LNil \<and> nxt (ns ! i) = None \<and> \<not> link ns j i"
  using assms unfolding wf_chains_def by blast+

lemma wf_chains_rank:
  assumes "wf_chains ns"
  obtains rk :: "nat \<Rightarrow> nat" where "\<And>i j. link ns i j \<Longrightarrow> rk j < rk i"
  using assms unfolding wf_chains_def by metis

lemma reach_less: "reach ns i j \<Longrightarrow> wf_chains ns \<Longrightarrow> i < length ns \<Longrightarrow> j < length ns"
  by (induction rule: rtranclp_induct) (auto dest: wf_chainsD)

lemma reach_from_nil:
  assumes "wf_chains ns" "i_key (ns ! i) = LNil" "i < length ns"
  shows "reach ns i j \<longleftrightarrow> j = i"
proof
  assume "reach ns i j"
  then show "j = i"
    by (cases rule: converse_rtranclpE)
      (use wf_chainsD(3) [OF assms(1,3,2)] in \<open>auto simp: link_def\<close>)
qed simp

lemma reach_to_nil:
  assumes "wf_chains ns" "i_key (ns ! j) = LNil" "j < length ns"
  shows "reach ns i j \<longleftrightarrow> j = i"
proof
  assume "reach ns i j"
  then show "j = i"
    by cases (use wf_chainsD(3) [OF assms(1,3,2)] in auto)
qed simp

text \<open>A search ends, with the first node of the chain that is looked for.\<close>

lemma reach_last: "nxt (ns ! i) = None \<Longrightarrow> reach ns i j \<longleftrightarrow> j = i"
  by (metis converse_rtranclpE link_def option.distinct(1) rtranclp.rtrancl_refl)

lemma reach_link: "link ns i m \<Longrightarrow> reach ns i j \<longleftrightarrow> j = i \<or> reach ns m j"
  by (metis converse_rtranclpE converse_rtranclp_into_rtranclp link_def option.inject rtranclp.rtrancl_refl)

definition searches :: "Node list \<Rightarrow> (TObject \<Rightarrow> bool) \<Rightarrow> nat \<Rightarrow> slot res \<Rightarrow> bool" where
  "searches ns found i r \<longleftrightarrow>
     (\<exists>j. r = Inr (SNode j) \<and> reach ns i j \<and> found (i_key (ns ! j))) \<or>
     r = Inr SNil \<and> (\<forall>j. reach ns i j \<longrightarrow> \<not> found (i_key (ns ! j)))"

lemma searches_found: "found (i_key (ns ! i)) \<Longrightarrow> searches ns found i (Inr (SNode i))"
  by (auto simp: searches_def)

lemma searches_end: "\<not> found (i_key (ns ! i)) \<Longrightarrow> nxt (ns ! i) = None \<Longrightarrow> searches ns found i (Inr SNil)"
  by (simp add: searches_def reach_last)

lemma searches_link:
  "\<not> found (i_key (ns ! i)) \<Longrightarrow> link ns i m \<Longrightarrow> searches ns found m r \<Longrightarrow> searches ns found i r"
  unfolding searches_def by (metis reach_link)

lemma rank_card:
  fixes n :: nat
  assumes "rk m < (rk i :: nat)" "i < n"
  shows "card {j. j < n \<and> rk j \<le> rk m} < card {j. j < n \<and> rk j \<le> rk i}"
proof (intro psubset_card_mono psubsetI subsetI notI)
  assume "{j. j < n \<and> rk j \<le> rk m} = {j. j < n \<and> rk j \<le> rk i}"
  then have "i \<in> {j. j < n \<and> rk j \<le> rk m}"
    using assms(2) by blast
  then show False
    using assms(1) by simp
next
  show "finite {j. j < n \<and> rk j \<le> rk i}"
    by simp
  show "x \<in> {j. j < n \<and> rk j \<le> rk i}" if "x \<in> {j. j < n \<and> rk j \<le> rk m}" for x
    using that assms(1) by simp
qed

lemma chain_search_spec:
  assumes "\<And>i j. link ns i j \<Longrightarrow> rk j < (rk i :: nat)" "\<And>i j. link ns i j \<Longrightarrow> j < length ns"
    "i < length ns" "card {j. j < length ns \<and> rk j \<le> rk i} \<le> fuel"
  shows "searches ns found i (chain_search fuel ns found i)"
  using assms(3,4)
proof (induction fuel arbitrary: i)
  case 0
  then have "{j. j < length ns \<and> rk j \<le> rk i} = {}"
    by simp
  then have False
    using 0(1) by blast
  then show ?case ..
next
  case (Suc fuel)
  consider "found (i_key (ns ! i))" | "\<not> found (i_key (ns ! i))" "nxt (ns ! i) = None"
    | m where "\<not> found (i_key (ns ! i))" "nxt (ns ! i) = Some m"
    by blast
  then show ?case
  proof cases
    case (3 m)
    then have l: "link ns i m"
      using Suc.prems(1) by (simp add: link_def)
    have "card {j. j < length ns \<and> rk j \<le> rk m} < card {j. j < length ns \<and> rk j \<le> rk i}"
      using rank_card assms(1) [OF l] Suc.prems(1) .
    then have "searches ns found m (chain_search fuel ns found m)"
      using Suc.IH [OF assms(2) [OF l]] Suc.prems(2) by simp
    with 3 l show ?thesis
      by (simp add: searches_link)
  qed (simp_all add: searches_found searches_end)
qed

lemma search_spec:
  assumes "wf_chains (node t)" "i < length (node t)"
  shows "searches (node t) found i (search t found i)"
proof -
  obtain rk :: "nat \<Rightarrow> nat" where rk: "\<And>i j. link (node t) i j \<Longrightarrow> rk j < rk i"
    by (rule wf_chains_rank [OF assms(1)]) (rule that)
  have "card {j. j < length (node t) \<and> rk j \<le> rk i} \<le> card {..<length (node t)}"
    by (intro card_mono) auto
  then show ?thesis
    unfolding search_def using wf_chainsD(1) [OF assms(1)] assms(2)
    by (intro chain_search_spec [where rk = rk] rk) auto
qed

section \<open>The invariant\<close>

definition in_array :: "Table \<Rightarrow> TObject \<Rightarrow> bool" where
  "in_array t k \<longleftrightarrow> 1 \<le> arrayindex k \<and> arrayindex k \<le> int (sizearray t)"

text \<open>
  The keys of the hash part: they are reachable from their main positions, distinct, and do not belong
  to the array part; a node whose key is not in its main position is the main position of no key.
\<close>

definition keys_at :: "Table \<Rightarrow> Node list \<Rightarrow> nat \<Rightarrow> bool" where
  "keys_at t ns i \<longleftrightarrow>
     (valid_key (i_key (ns ! i)) \<longrightarrow>
       reach ns (luaH_mainposition t (i_key (ns ! i))) i \<and> \<not> in_array t (i_key (ns ! i)) \<and>
       (\<forall>j < length ns. valid_key (i_key (ns ! j)) \<longrightarrow>
          (luaO_rawequalObj (i_key (ns ! i)) (i_key (ns ! j)) \<longrightarrow> i = j) \<and>
          (luaH_mainposition t (i_key (ns ! i)) = j \<longrightarrow> luaH_mainposition t (i_key (ns ! j)) = j)))"

definition wf_keys :: "Table \<Rightarrow> bool" where
  "wf_keys t \<longleftrightarrow> (\<forall>i < length (node t).
     (i_val (node t ! i) \<noteq> LNil \<longrightarrow> valid_key (i_key (node t ! i))) \<and> keys_at t (node t) i)"

definition wf_sizes :: "Table \<Rightarrow> bool" where
  "wf_sizes t \<longleftrightarrow> length (node t) = 2 ^ lsizenode t \<and> lsizenode t \<le> MAXBITS \<and> sizearray t \<le> 2 ^ MAXBITS"

definition wf_core :: "Table \<Rightarrow> bool" where
  "wf_core t \<longleftrightarrow> wf_sizes t \<and> wf_chains (node t) \<and> wf_keys t"

text \<open>\<open>firstfree\<close> is the last node that was never used.\<close>

definition free_above :: "Table \<Rightarrow> bool" where
  "free_above t \<longleftrightarrow> firstfree t < length (node t) \<and>
     (\<forall>j < length (node t). firstfree t < j \<longrightarrow> i_key (node t ! j) \<noteq> LNil)"

definition wf_table :: "Table \<Rightarrow> bool" where
  "wf_table t \<longleftrightarrow> wf_core t \<and> free_above t \<and> i_key (node t ! firstfree t) = LNil"

lemma wf_coreD:
  assumes "wf_core t"
  shows "wf_sizes t" "wf_chains (node t)" "wf_keys t"
  using assms by (simp_all add: wf_core_def)

lemma wf_sizesD:
  assumes "wf_sizes t"
  shows "length (node t) = 2 ^ lsizenode t" "sizearray t \<le> 2 ^ MAXBITS" "lsizenode t \<le> MAXBITS"
    "luaH_mainposition t k < length (node t)"
  using assms mainposition_less [of t k] by (simp_all add: wf_sizes_def)

lemma wf_keysD:
  assumes "wf_keys t" "i < length (node t)"
  shows "i_val (node t ! i) \<noteq> LNil \<Longrightarrow> valid_key (i_key (node t ! i))"
    "valid_key (i_key (node t ! i)) \<Longrightarrow> reach (node t) (luaH_mainposition t (i_key (node t ! i))) i"
    "valid_key (i_key (node t ! i)) \<Longrightarrow> \<not> in_array t (i_key (node t ! i))"
    "valid_key (i_key (node t ! i)) \<Longrightarrow> j < length (node t) \<Longrightarrow>
      luaO_rawequalObj (i_key (node t ! i)) (i_key (node t ! j)) \<Longrightarrow> i = j"
    "valid_key (i_key (node t ! i)) \<Longrightarrow> j < length (node t) \<Longrightarrow> valid_key (i_key (node t ! j)) \<Longrightarrow>
      luaH_mainposition t (i_key (node t ! i)) = j \<Longrightarrow> luaH_mainposition t (i_key (node t ! j)) = j"
  using assms rawequal_valid unfolding wf_keys_def keys_at_def by blast+

section \<open>The map a table stands for\<close>

text \<open>The node of a key in the hash part, and the value of a key.\<close>

definition node_of :: "Node list \<Rightarrow> TObject \<Rightarrow> nat option" where
  "node_of ns k = find (\<lambda>i. luaO_rawequalObj (i_key (ns ! i)) k) [0..<length ns]"

definition slot_of :: "Table \<Rightarrow> TObject \<Rightarrow> slot" where
  "slot_of t k =
    (if in_array t k then SArr (nat (arrayindex k - 1))
     else case node_of (node t) k of None \<Rightarrow> SNil | Some i \<Rightarrow> SNode i)"

definition content :: "Table \<Rightarrow> TObject \<Rightarrow> TObject" where
  "content t k = slot_get t (slot_of t k)"

lemma node_of_Some:
  "wf_keys t \<Longrightarrow> valid_key k \<Longrightarrow>
    node_of (node t) k = Some i \<longleftrightarrow> i < length (node t) \<and> luaO_rawequalObj (i_key (node t ! i)) k"
proof
  assume t: "wf_keys t" "valid_key k" and i: "i < length (node t) \<and> luaO_rawequalObj (i_key (node t ! i)) k"
  obtain j where j: "node_of (node t) k = Some j"
    using i by (cases "node_of (node t) k") (auto simp: node_of_def find_None_iff)
  then have "j < length (node t)" "luaO_rawequalObj (i_key (node t ! j)) k"
    by (auto simp: node_of_def find_Some_iff)
  then have "i = j"
    using t i rawequal_valid rawequal_sym rawequal_trans wf_keysD(4) [OF t(1), of i j] by blast
  with j show "node_of (node t) k = Some i"
    by simp
qed (auto simp: node_of_def find_Some_iff)

lemma node_of_None:
  "node_of (node t) k = None \<longleftrightarrow> (\<forall>i < length (node t). \<not> luaO_rawequalObj (i_key (node t ! i)) k)"
  by (auto simp: node_of_def find_None_iff)

lemma node_of_cong: "luaO_rawequalObj k k' \<Longrightarrow> node_of ns k = node_of ns k'"
  unfolding node_of_def by (metis rawequal_sym rawequal_trans)

lemma in_array_cong: "luaO_rawequalObj k k' \<Longrightarrow> in_array t k = in_array t k'"
  by (simp add: in_array_def arrayindex_cong)

lemma slot_of_cong: "luaO_rawequalObj k k' \<Longrightarrow> slot_of t k = slot_of t k'"
  using arrayindex_cong [of k k'] node_of_cong [of k k'] in_array_cong [of k k'] by (simp add: slot_of_def)

lemma slot_of_inj:
  assumes "wf_keys t" "valid_key k" "valid_key k'" "slot_of t k = slot_of t k'" "slot_of t k \<noteq> SNil"
  shows "luaO_rawequalObj k k'"
proof (cases "in_array t k")
  case True
  then have "in_array t k'" "arrayindex k = arrayindex k'"
    using assms(4) by (auto simp: slot_of_def in_array_def split: if_splits option.splits)
  with True show ?thesis
    by (intro arrayindex_inj) (simp_all add: in_array_def)
next
  case False
  then obtain i where "node_of (node t) k = Some i" "node_of (node t) k' = Some i"
    using assms(4,5) by (auto simp: slot_of_def split: if_splits option.splits)
  then have "luaO_rawequalObj (i_key (node t ! i)) k" "luaO_rawequalObj (i_key (node t ! i)) k'"
    using node_of_Some [OF assms(1)] assms(2,3) by simp_all
  then show ?thesis
    by (metis rawequal_sym rawequal_trans)
qed

section \<open>Search\<close>

lemma searches_slot:
  assumes t: "wf_core t" and k: "valid_key k" "\<not> in_array t k"
    and found: "\<And>x. found x \<longleftrightarrow> luaO_rawequalObj x k"
  shows "search t found (luaH_mainposition t k) = Inr (slot_of t k)"
proof -
  note w = wf_coreD [OF t]
  have "searches (node t) found (luaH_mainposition t k) (search t found (luaH_mainposition t k))"
    using search_spec [OF w(2)] wf_sizesD(4) [OF w(1)] .
  then consider j where "search t found (luaH_mainposition t k) = Inr (SNode j)"
      "reach (node t) (luaH_mainposition t k) j" "luaO_rawequalObj (i_key (node t ! j)) k"
    | "search t found (luaH_mainposition t k) = Inr SNil"
      "\<And>j. reach (node t) (luaH_mainposition t k) j \<Longrightarrow> \<not> luaO_rawequalObj (i_key (node t ! j)) k"
    unfolding searches_def found by blast
  then show ?thesis
  proof cases
    case (1 j)
    then have "j < length (node t)"
      using reach_less [OF _ w(2)] wf_sizesD(4) [OF w(1)] by blast
    with 1 have "node_of (node t) k = Some j"
      using node_of_Some [OF w(3) k(1)] by simp
    with 1 k show ?thesis
      by (simp add: slot_of_def)
  next
    case 2
    have "node_of (node t) k = None"
      unfolding node_of_None using 2(2) wf_keysD(2) [OF w(3)] k(1) mainposition_cong rawequal_valid by metis
    with 2 k show ?thesis
      by (simp add: slot_of_def)
  qed
qed

lemma in_array_not_number: "\<forall>n. k \<noteq> LNumber n \<Longrightarrow> \<not> in_array t k"
  by (cases k) (simp_all add: in_array_def arrayindex_def)

lemma luaH_getany_slot: "wf_core t \<Longrightarrow> valid_key k \<Longrightarrow> \<not> in_array t k \<Longrightarrow> luaH_getany t k = Inr (slot_of t k)"
  unfolding luaH_getany_def by (auto intro: searches_slot)

lemma luaH_getstr_slot: "wf_core t \<Longrightarrow> luaH_getstr t s = Inr (slot_of t (LString s))"
  using searches_slot [of t "LString s"] in_array_not_number [of "LString s"]
  by (simp add: luaH_getstr_def luaO_rawequalObj_other split: TObject.split)

lemma arrayindex_key_of_cases: "INT_MIN \<le> i \<Longrightarrow> i \<le> INT_MAX \<Longrightarrow>
    arrayindex (key_of i) = (if 1 \<le> i \<and> i \<le> 2 ^ MAXBITS then i else -1)"
  using toobig_le [of i]
  by (auto simp: key_of_def arrayindex_def INT_MIN_def INT_MAX_def num_eq_refl)

lemma in_array_key_of:
  "wf_sizes t \<Longrightarrow> INT_MIN \<le> i \<Longrightarrow> i \<le> INT_MAX \<Longrightarrow> in_array t (key_of i) \<longleftrightarrow> 1 \<le> i \<and> i \<le> int (sizearray t)"
  using wf_sizesD(2) [of t] by (auto simp: in_array_def arrayindex_key_of_cases MAXBITS_def)

lemma valid_key_of [simp]: "INT_MIN \<le> i \<Longrightarrow> i \<le> INT_MAX \<Longrightarrow> valid_key (key_of i)"
  by (simp add: key_of_def INT_MIN_def INT_MAX_def)

lemma luaH_getnum_slot:
  assumes "wf_core t" "INT_MIN \<le> i" "i \<le> INT_MAX"
  shows "luaH_getnum t i = Inr (slot_of t (key_of i))"
proof (cases "1 \<le> i \<and> i \<le> int (sizearray t)")
  case True
  then have "in_array t (key_of i)"
    using in_array_key_of [OF wf_coreD(1) [OF assms(1)] assms(2,3)] by simp
  moreover from this True have "arrayindex (key_of i) = i"
    using assms by (auto simp: arrayindex_key_of_cases in_array_def split: if_splits)
  ultimately show ?thesis
    using True by (simp add: luaH_getnum_def slot_of_def)
next
  case False
  then have "\<not> in_array t (key_of i)"
    using in_array_key_of [OF wf_coreD(1) [OF assms(1)] assms(2,3)] by auto
  then have "search t (\<lambda>k. case k of LNumber n \<Rightarrow> num_eq n (num_of_int i) | _ \<Rightarrow> False)
      (luaH_mainposition t (key_of i)) = Inr (slot_of t (key_of i))"
    using assms by (intro searches_slot) (auto simp: key_of_def rawequal_iff INT_MIN_def INT_MAX_def split: TObject.split)
  then show ?thesis
    using False unfolding luaH_getnum_def Let_def by (auto simp: key_of_def)
qed

lemma number2int_range: "INT_MIN \<le> lua_number2int n" "lua_number2int n \<le> INT_MAX"
  by (auto simp: lua_number2int_def num_to_int_def Let_def INT_MIN_def INT_MAX_def split: option.split)

lemma luaH_get_slot:
  assumes "wf_core t" "valid_key k"
  shows "luaH_get t k = Inr (slot_of t k)"
proof (cases "\<exists>n. k = LNumber n")
  case True
  then obtain n where n: "k = LNumber n" ..
  show ?thesis
  proof (cases "num_eq (num_of_int (lua_number2int n)) n")
    case True
    then have "luaO_rawequalObj (key_of (lua_number2int n)) k"
      by (simp add: key_of_def n)
    with True show ?thesis
      using luaH_getnum_slot [OF assms(1) number2int_range, of n] slot_of_cong
      by (simp add: luaH_get_def n)
  next
    case False
    then have "\<not> in_array t k"
      by (simp add: n in_array_def arrayindex_def)
    with False show ?thesis
      using luaH_getany_slot [OF assms] by (simp add: luaH_get_def n)
  qed
next
  case False
  then show ?thesis
    using luaH_getany_slot [OF assms] luaH_getstr_slot [OF assms(1)] in_array_not_number [of k t]
    by (cases k) (simp_all add: luaH_get_def)
qed

lemma table_lookup_content: "wf_core t \<Longrightarrow> valid_key k \<Longrightarrow> table_lookup t k = Inr (content t k)"
  by (simp add: table_lookup_def luaH_get_slot content_def)

section \<open>Storing to a slot\<close>

lemma node_slot_set:
  "node (slot_set t p v) ! i = (if p = SNode i \<and> i < length (node t) then (node t ! i)\<lparr>i_val := v\<rparr> else node t ! i)"
proof (cases p)
  case (SNode j)
  then show ?thesis
    by (cases "j < length (node t)") (auto simp: nth_list_update list_update_beyond)
qed simp_all

lemma key_slot_set [simp]: "i_key (node (slot_set t p v) ! i) = i_key (node t ! i)"
  by (simp add: node_slot_set)

lemma nxt_slot_set [simp]: "nxt (node (slot_set t p v) ! i) = nxt (node t ! i)"
  by (simp add: node_slot_set)

lemma slot_set_fields [simp]:
  "length (node (slot_set t p v)) = length (node t)"
  "length (array (slot_set t p v)) = length (array t)"
  "lsizenode (slot_set t p v) = lsizenode t"
  "firstfree (slot_set t p v) = firstfree t"
  "flags (slot_set t p v) = flags t"
  "metatable (slot_set t p v) = metatable t"
  by (cases p; simp)+

lemma mainposition_slot_set [simp]: "luaH_mainposition (slot_set t p v) k = luaH_mainposition t k"
  by (cases p) simp_all

lemma link_slot_set [simp]: "link (node (slot_set t p v)) = link (node t)"
  by (simp add: link_def fun_eq_iff)

lemma in_array_slot_set [simp]: "in_array (slot_set t p v) k = in_array t k"
  by (simp add: in_array_def sizearray_def)

lemma slot_of_slot_set [simp]: "slot_of (slot_set t p v) k = slot_of t k"
  by (simp add: slot_of_def node_of_def)

lemma in_array_array: "array t' = array t \<Longrightarrow> in_array t' k = in_array t k"
  by (simp add: in_array_def sizearray_def)

lemma keys_at_cong:
  "(\<And>k. luaH_mainposition t' k = luaH_mainposition t k) \<Longrightarrow> (\<And>k. in_array t' k = in_array t k) \<Longrightarrow>
    keys_at t' ns i = keys_at t ns i"
  unfolding keys_at_def by presburger

lemma keys_at_same:
  assumes "link ns' = link ns" "length ns' = length ns" "\<And>j. i_key (ns' ! j) = i_key (ns ! j)"
  shows "keys_at t ns' i = keys_at t ns i"
  unfolding keys_at_def assms ..

lemma wf_chains_cong:
  assumes "wf_chains ns" "link ns' = link ns" "length ns' = length ns"
    "\<And>i. i < length ns \<Longrightarrow> i_key (ns' ! i) = LNil \<Longrightarrow> i_key (ns ! i) = LNil \<and> i_val (ns' ! i) = LNil"
  shows "wf_chains ns'"
  unfolding wf_chains_def assms(2,3)
proof (intro conjI allI impI)
  fix i assume i: "i < length ns" "i_key (ns' ! i) = LNil"
  show "i_val (ns' ! i) = LNil"
    using assms(4) [OF i] by blast
  have *: "nxt (ns ! i) = None \<and> \<not> link ns j i" for j
    using wf_chainsD(3) [OF assms(1) i(1)] assms(4) [OF i] by blast
  moreover have "nxt (ns' ! i) = nxt (ns ! i)"
    using i(1) assms(2,3) by (metis link_def not_Some_eq)
  ultimately show "nxt (ns' ! i) = None" "\<And>j. \<not> link ns j i"
    by simp_all
next
  show "\<exists>rk :: nat \<Rightarrow> nat. \<forall>i j. link ns i j \<longrightarrow> rk j < rk i"
    using assms(1) unfolding wf_chains_def by blast
qed (use wf_chainsD [OF assms(1)] in blast)+

lemma wf_core_slot_set:
  assumes "wf_core t" "valid_key k"
  shows "wf_core (slot_set t (slot_of t k) v)"
proof -
  let ?p = "slot_of t k"
  have p: "valid_key (i_key (node t ! i))" if "?p = SNode i" for i
  proof -
    have "node_of (node t) k = Some i"
      using that by (auto simp: slot_of_def split: if_splits option.splits)
    then have "luaO_rawequalObj (i_key (node t ! i)) k"
      using node_of_Some [OF wf_coreD(3)] assms by simp
    with assms(2) show ?thesis
      using rawequal_valid by blast
  qed
  have v: "i_val (node (slot_set t ?p v) ! i) \<noteq> LNil \<Longrightarrow> i_val (node t ! i) \<noteq> LNil \<or> valid_key (i_key (node t ! i))" for i
    using p by (auto simp: node_slot_set split: if_splits)
  have "wf_chains (node (slot_set t ?p v))"
  proof (rule wf_chains_cong [OF wf_coreD(2) [OF assms(1)]])
    fix i assume i: "i < length (node t)" "i_key (node (slot_set t ?p v) ! i) = LNil"
    then have "i_val (node t ! i) = LNil"
      using wf_chainsD(3) [OF wf_coreD(2) [OF assms(1)]] by simp
    with v [of i] i(2) show "i_key (node t ! i) = LNil \<and> i_val (node (slot_set t ?p v) ! i) = LNil"
      by auto
  qed simp_all
  moreover have "wf_keys (slot_set t ?p v)"
    unfolding wf_keys_def
  proof (intro allI impI conjI)
    fix i assume i: "i < length (node (slot_set t ?p v))"
    then show "valid_key (i_key (node (slot_set t ?p v) ! i))" if "i_val (node (slot_set t ?p v) ! i) \<noteq> LNil"
      using that wf_keysD(1) [OF wf_coreD(3) [OF assms(1)]] v by fastforce
    have "keys_at (slot_set t ?p v) (node (slot_set t ?p v)) i = keys_at t (node (slot_set t ?p v)) i"
      by (rule keys_at_cong) simp_all
    also have "\<dots> = keys_at t (node t) i"
      by (rule keys_at_same) simp_all
    finally show "keys_at (slot_set t ?p v) (node (slot_set t ?p v)) i"
      using i wf_coreD(3) [OF assms(1)] by (simp add: wf_keys_def)
  qed
  ultimately show ?thesis
    using wf_coreD(1) [OF assms(1)] by (simp add: wf_core_def wf_sizes_def sizearray_def)
qed

lemma free_above_slot_set [simp]: "free_above (slot_set t p v) = free_above t"
  by (simp add: free_above_def)

lemma wf_table_slot_set: "wf_table t \<Longrightarrow> valid_key k \<Longrightarrow> wf_table (slot_set t (slot_of t k) v)"
  by (simp add: wf_table_def wf_core_slot_set)

lemma slot_get_set:
  assumes "wf_core t" "valid_key k" "slot_of t k \<noteq> SNil"
  shows "slot_get (slot_set t (slot_of t k) v) p = (if p = slot_of t k then v else slot_get t p)"
proof (cases "slot_of t k")
  case (SArr i)
  then have "i < length (array t)"
    by (auto simp: slot_of_def in_array_def sizearray_def split: if_splits option.splits)
  with SArr show ?thesis
    by (cases p) (auto simp: nth_list_update)
next
  case (SNode i)
  then have "i < length (node t)"
    using node_of_Some [OF wf_coreD(3)] assms by (auto simp: slot_of_def split: if_splits option.splits)
  with SNode show ?thesis
    by (cases p) (auto simp: nth_list_update)
qed (use assms(3) in simp)

lemma content_slot_set:
  assumes "wf_core t" "valid_key k" "valid_key k'" "slot_of t k \<noteq> SNil"
  shows "content (slot_set t (slot_of t k) v) k' = (if luaO_rawequalObj k k' then v else content t k')"
  using slot_of_inj [OF wf_coreD(3) [OF assms(1)] assms(2,3) _ assms(4)] slot_of_cong [of k k' t]
  unfolding content_def slot_get_set [OF assms(1,2,4)] slot_of_slot_set by (cases "luaO_rawequalObj k k'") auto

section \<open>Making room for a key\<close>

text \<open>The entries of the hash part, and the nodes that were never used.\<close>

definition live :: "Node list \<Rightarrow> (TObject \<times> TObject) set" where
  "live ns = {(i_key n, i_val n) |n. n \<in> set ns \<and> i_val n \<noteq> LNil}"

definition unused :: "Node list \<Rightarrow> nat set" where
  "unused ns = {i. i < length ns \<and> i_key (ns ! i) = LNil}"

lemma finite_unused [simp]: "finite (unused ns)"
  by (simp add: unused_def)

lemma live_iff: "(x, v) \<in> live ns \<longleftrightarrow> v \<noteq> LNil \<and> (\<exists>i < length ns. i_key (ns ! i) = x \<and> i_val (ns ! i) = v)"
  by (auto simp: live_def in_set_conv_nth)

lemma content_live:
  assumes "wf_core t" "valid_key k" "\<not> in_array t k" "v \<noteq> LNil"
  shows "content t k = v \<longleftrightarrow> (\<exists>x. (x, v) \<in> live (node t) \<and> luaO_rawequalObj x k)"
proof (cases "node_of (node t) k")
  case None
  then have "content t k = LNil"
    using assms(3) by (simp add: content_def slot_of_def)
  moreover have "\<not> luaO_rawequalObj (i_key (node t ! i)) k" if "i < length (node t)" for i
    using None that node_of_None by blast
  ultimately show ?thesis
    using assms(4) unfolding live_iff by blast
next
  case (Some i)
  then have i: "i < length (node t)" "luaO_rawequalObj (i_key (node t ! i)) k"
    using node_of_Some [OF wf_coreD(3)] assms(1,2) by blast+
  have c: "content t k = i_val (node t ! i)"
    using assms(3) Some by (simp add: content_def slot_of_def)
  have "j = i" if "j < length (node t)" "luaO_rawequalObj (i_key (node t ! j)) k" for j
    using that node_of_Some [OF wf_coreD(3) [OF assms(1)] assms(2), of j] Some by simp
  with i assms(4) show ?thesis
    unfolding c live_iff by blast
qed

lemma content_cong:
  assumes "wf_core t" "wf_core t'" "array t' = array t" "live (node t') = live (node t)" "valid_key k"
  shows "content t' k = content t k"
proof (cases "in_array t k")
  case False
  have a: "in_array t' k = in_array t k"
    using assms(3) by (simp add: in_array_def sizearray_def)
  have "content t' k = v \<longleftrightarrow> content t k = v" if "v \<noteq> LNil" for v
    using content_live [OF assms(1,5) False that] content_live [OF assms(2,5) _ that] False a assms(4) by simp
  then show ?thesis
    by metis
qed (use assms(3) in \<open>simp add: content_def slot_of_def in_array_def sizearray_def\<close>)

lemma find_previous_spec:
  assumes "\<And>i j. link ns i j \<Longrightarrow> rk j < (rk i :: nat)" "\<And>i j. link ns i j \<Longrightarrow> j < length ns"
    "i < length ns" "card {j. j < length ns \<and> rk j \<le> rk i} \<le> fuel" "reach ns i mp" "i \<noteq> mp"
  shows "\<exists>prev. find_previous fuel ns mp i = Inr prev \<and> link ns prev mp"
  using assms(3-)
proof (induction fuel arbitrary: i)
  case 0
  then have "{j. j < length ns \<and> rk j \<le> rk i} = {}"
    by simp
  then have False
    using 0(1) by blast
  then show ?case ..
next
  case (Suc fuel)
  obtain m where l: "link ns i m" and m: "reach ns m mp"
    using Suc.prems(3,4) by (metis converse_rtranclpE)
  then have n: "nxt (ns ! i) = Some m"
    by (simp add: link_def)
  show ?case
  proof (cases "m = mp")
    case False
    have "card {j. j < length ns \<and> rk j \<le> rk m} < card {j. j < length ns \<and> rk j \<le> rk i}"
      using rank_card assms(1) [OF l] Suc.prems(1) .
    then have "card {j. j < length ns \<and> rk j \<le> rk m} \<le> fuel"
      using Suc.prems(2) by simp
    from Suc.IH [OF assms(2) [OF l] this m False] False n show ?thesis
      by simp
  qed (use n l in simp)
qed

lemma find_previous_total:
  assumes "wf_chains ns" "i < length ns" "reach ns i mp" "i \<noteq> mp"
  obtains prev where "find_previous (length ns) ns mp i = Inr prev" "link ns prev mp"
proof -
  obtain rk :: "nat \<Rightarrow> nat" where rk: "\<And>i j. link ns i j \<Longrightarrow> rk j < rk i"
    by (rule wf_chains_rank [OF assms(1)]) (rule that)
  have "card {j. j < length ns \<and> rk j \<le> rk i} \<le> card {..<length ns}"
    by (intro card_mono) auto
  then have "\<exists>prev. find_previous (length ns) ns mp i = Inr prev \<and> link ns prev mp"
    using wf_chainsD(1) [OF assms(1)] assms(2-) by (intro find_previous_spec [where rk = rk] rk) auto
  with that show thesis
    by blast
qed


text \<open>The three ways of placing a key.  In the first the key takes a node without a value.\<close>

definition new_key :: "Table \<Rightarrow> TObject \<Rightarrow> bool" where
  "new_key t key \<longleftrightarrow> wf_table t \<and> valid_key key \<and> \<not> in_array t key \<and>
     (\<forall>i < length (node t). \<not> luaO_rawequalObj (i_key (node t ! i)) key)"

lemma new_keyD:
  assumes "new_key t key"
  shows "wf_core t" "wf_sizes t" "wf_chains (node t)" "wf_keys t" "valid_key key" "\<not> in_array t key"
    "i < length (node t) \<Longrightarrow> \<not> luaO_rawequalObj (i_key (node t ! i)) key"
    "i < length (node t) \<Longrightarrow> \<not> luaO_rawequalObj key (i_key (node t ! i))"
    "luaH_mainposition t key < length (node t)" "free_above t"
  using assms rawequal_sym wf_coreD [of t] wf_sizesD(4) [of t]
  unfolding new_key_def wf_table_def by blast+

lemma new_key_free:
  assumes "new_key t key"
  shows "firstfree t < length (node t)" "i_key (node t ! firstfree t) = LNil"
    "i_val (node t ! firstfree t) = LNil" "nxt (node t ! firstfree t) = None"
    "\<not> link (node t) j (firstfree t)" "\<not> link (node t) (firstfree t) j"
proof -
  show f: "firstfree t < length (node t)" "i_key (node t ! firstfree t) = LNil"
    using assms by (simp_all add: new_key_def wf_table_def free_above_def)
  show "i_val (node t ! firstfree t) = LNil" "nxt (node t ! firstfree t) = None"
    "\<not> link (node t) j (firstfree t)" "\<not> link (node t) (firstfree t) j"
    using wf_chainsD(3) [OF new_keyD(3) [OF assms] f] by (simp_all add: link_def)
qed

text \<open>What is to be shown of a node list with the key placed in node \<open>i\<close>.\<close>

definition placed :: "Table \<Rightarrow> TObject \<Rightarrow> Node list \<Rightarrow> nat \<Rightarrow> bool" where
  "placed t key ns i \<longleftrightarrow> wf_core (t\<lparr>node := ns\<rparr>) \<and> length ns = length (node t) \<and> i < length ns \<and>
     i_key (ns ! i) = key \<and> live ns = live (node t) \<and> unused ns \<subseteq> unused (node t) \<and>
     card (unused (node t)) \<le> card (unused ns) + 1"

lemma keys_at_update [simp]: "keys_at (t\<lparr>node := ns'\<rparr>) ns i = keys_at t ns i"
  by (rule keys_at_cong) (simp, rule in_array_array, simp)

lemma wf_keysI:
  assumes "\<And>i. i < length ns \<Longrightarrow> i_val (ns ! i) \<noteq> LNil \<Longrightarrow> valid_key (i_key (ns ! i))"
    "\<And>i. i < length ns \<Longrightarrow> keys_at t ns i"
  shows "wf_keys (t\<lparr>node := ns\<rparr>)"
  using assms by (simp add: wf_keys_def)

lemma wf_keys_at: "wf_keys t \<Longrightarrow> i < length (node t) \<Longrightarrow> keys_at t (node t) i"
  by (simp add: wf_keys_def)

lemma wf_coreI: "wf_core t \<Longrightarrow> length ns = length (node t) \<Longrightarrow> wf_chains ns \<Longrightarrow> wf_keys (t\<lparr>node := ns\<rparr>) \<Longrightarrow>
    wf_core (t\<lparr>node := ns\<rparr>)"
  by (simp add: wf_core_def wf_sizes_def sizearray_def)

text \<open>
  A placed key leaves the other keys, possibly in other nodes: node \<open>i\<close> has the key that node \<open>f i\<close> had.
\<close>

lemma wf_keys_placed:
  assumes t: "new_key t key" and len: "length ns = length (node t)" and m: "i_key (ns ! m) = key"
    and f: "\<And>i. i < length ns \<Longrightarrow> i \<noteq> m \<Longrightarrow> valid_key (i_key (ns ! i)) \<Longrightarrow>
      f i < length ns \<and> i_key (ns ! i) = i_key (node t ! f i)"
    and inj: "\<And>i j. i < length ns \<Longrightarrow> j < length ns \<Longrightarrow> i \<noteq> m \<Longrightarrow> j \<noteq> m \<Longrightarrow> f i = f j \<Longrightarrow> i = j"
    and reach: "\<And>i. i < length ns \<Longrightarrow> valid_key (i_key (ns ! i)) \<Longrightarrow>
      reach ns (luaH_mainposition t (i_key (ns ! i))) i"
    and main: "\<And>i j. i < length ns \<Longrightarrow> valid_key (i_key (ns ! i)) \<Longrightarrow> valid_key (i_key (ns ! j)) \<Longrightarrow>
      luaH_mainposition t (i_key (ns ! i)) = j \<Longrightarrow> luaH_mainposition t (i_key (ns ! j)) = j"
    and val: "\<And>i. i < length ns \<Longrightarrow> i_val (ns ! i) \<noteq> LNil \<Longrightarrow> valid_key (i_key (ns ! i))"
  shows "wf_keys (t\<lparr>node := ns\<rparr>)"
proof (rule wf_keysI [OF val])
  fix i assume i: "i < length ns"
  note w = new_keyD [OF t]
  have arr: "\<not> in_array t (i_key (ns ! i))" if "valid_key (i_key (ns ! i))"
    using f [OF i _ that] wf_keysD(3) [OF w(4)] w(6) m len that by (cases "i = m") simp_all
  have eq: "i = j" if "valid_key (i_key (ns ! i))" "j < length ns" "valid_key (i_key (ns ! j))"
    "luaO_rawequalObj (i_key (ns ! i)) (i_key (ns ! j))" for j
  proof (cases "i = m \<or> j = m")
    case True
    then show ?thesis
      using f [OF i _ that(1)] f [OF that(2) _ that(3)] w(7,8) m len that(4) by metis
  next
    case False
    then have fi: "f i < length (node t)" "i_key (ns ! i) = i_key (node t ! f i)"
      and fj: "f j < length (node t)" "i_key (ns ! j) = i_key (node t ! f j)"
      using f [OF i _ that(1)] f [OF that(2) _ that(3)] len by simp_all
    then have "f i = f j"
      using wf_keysD(4) [OF w(4) fi(1) _ fj(1)] that by simp
    with inj [OF i that(2)] False show ?thesis
      by simp
  qed
  show "keys_at t ns i"
    unfolding keys_at_def using reach [OF i] arr eq main [OF i] by blast
qed

lemma placed_keys_reach:
  "new_key t key \<Longrightarrow> i < length (node t) \<Longrightarrow> valid_key (i_key (node t ! i)) \<Longrightarrow>
    reach (node t) (luaH_mainposition t (i_key (node t ! i))) i"
  using wf_keysD(2) [OF new_keyD(4)] .

lemma placed_keys_main:
  "new_key t key \<Longrightarrow> i < length (node t) \<Longrightarrow> valid_key (i_key (node t ! i)) \<Longrightarrow>
    j = luaH_mainposition t (i_key (node t ! i)) \<Longrightarrow> valid_key (i_key (node t ! j)) \<Longrightarrow>
    luaH_mainposition t (i_key (node t ! j)) = j"
  using wf_keysD(5) [OF new_keyD(4)] wf_sizesD(4) [OF new_keyD(2)] by metis

lemma placed_vals: "new_key t key \<Longrightarrow> i < length (node t) \<Longrightarrow> i_val (node t ! i) \<noteq> LNil \<Longrightarrow>
    valid_key (i_key (node t ! i))"
  using wf_keysD(1) [OF new_keyD(4)] .

lemma place_in_free_node:
  assumes t: "new_key t key" and mp: "mp = luaH_mainposition t key" "i_val (node t ! mp) = LNil"
  shows "placed t key ((node t)[mp := (node t ! mp)\<lparr>i_key := key\<rparr>]) mp"
proof -
  let ?o = "node t"
  define ns where "ns = ?o[mp := (?o ! mp)\<lparr>i_key := key\<rparr>]"
  note w = new_keyD [OF t]
  have len: "length ns = length ?o" "mp < length ?o"
    using w(9) mp(1) by (simp_all add: ns_def)
  have k: "i_key (ns ! i) = (if i = mp then key else i_key (?o ! i))"
    "i_val (ns ! i) = i_val (?o ! i)" "nxt (ns ! i) = nxt (?o ! i)" for i
    using len(2) by (cases "i = mp"; simp add: ns_def)+
  have l: "link ns = link ?o"
    by (simp add: link_def k len fun_eq_iff)
  have nokey: "key \<noteq> LNil"
    using w(5) by auto
  have ch: "wf_chains ns"
  proof (rule wf_chains_cong [OF w(3) l len(1)])
    fix i assume i: "i < length ?o" "i_key (ns ! i) = LNil"
    then have "i_key (?o ! i) = LNil"
      using nokey by (simp add: k split: if_splits)
    with wf_chainsD(3) [OF w(3) i(1)] show "i_key (?o ! i) = LNil \<and> i_val (ns ! i) = LNil"
      by (simp add: k)
  qed
  have ks: "wf_keys (t\<lparr>node := ns\<rparr>)"
  proof (rule wf_keys_placed [OF t len(1), of mp "\<lambda>i. i"])
    fix i j assume i: "i < length ns"
    show "reach ns (luaH_mainposition t (i_key (ns ! i))) i" if "valid_key (i_key (ns ! i))"
      using that placed_keys_reach [OF t, of i] i len mp(1) by (cases "i = mp") (simp_all add: l k)
    show "luaH_mainposition t (i_key (ns ! j)) = j"
      if "valid_key (i_key (ns ! i))" "valid_key (i_key (ns ! j))" "luaH_mainposition t (i_key (ns ! i)) = j"
      using that placed_keys_main [OF t, of i j] i len mp(1) by (cases "j = mp"; cases "i = mp") (simp_all add: k)
    show "valid_key (i_key (ns ! i))" if "i_val (ns ! i) \<noteq> LNil"
      using that placed_vals [OF t, of i] i w(5) len by (simp add: k)
  qed (simp_all add: k)
  have u: "unused ns = unused ?o - {mp}"
    using nokey unfolding unused_def k len(1) by auto
  then have "card (unused ?o) \<le> card (unused ns) + 1"
    by (simp add: card_Diff_singleton_if) linarith
  moreover have "live ns = live ?o"
  proof -
    have "(\<exists>i < length ?o. i_key (ns ! i) = x \<and> i_val (ns ! i) = v) \<longleftrightarrow> (\<exists>i < length ?o. i_key (?o ! i) = x \<and> i_val (?o ! i) = v)"
      if "v \<noteq> LNil" for x v
      using that mp(2) unfolding k by metis
    then show ?thesis
      unfolding set_eq_iff split_paired_All live_iff len(1) by blast
  qed
  ultimately show ?thesis
    using wf_coreI [OF w(1) len(1) ch ks] len u unfolding placed_def ns_def [symmetric]
    by (simp add: k)
qed

text \<open>In the second way the key goes to a free node, which is linked behind its main position.\<close>

lemma rtranclp_mono_steps: "r\<^sup>*\<^sup>* i j \<Longrightarrow> (\<And>i j. r i j \<Longrightarrow> s\<^sup>*\<^sup>* i j) \<Longrightarrow> s\<^sup>*\<^sup>* i j"
  by (induction rule: rtranclp_induct) (auto intro: rtranclp_trans)

lemma place_behind:
  assumes t: "new_key t key" and mp: "mp = luaH_mainposition t key" "i_val (node t ! mp) \<noteq> LNil"
    and own: "luaH_mainposition t (i_key (node t ! mp)) = mp" and n: "n = firstfree t"
    and ns: "length ns = length (node t)"
      "\<And>i. i_key (ns ! i) = (if i = n then key else i_key (node t ! i))"
      "\<And>i. i_val (ns ! i) = i_val (node t ! i)"
      "\<And>i. nxt (ns ! i) = (if i = n then nxt (node t ! mp) else if i = mp then Some n else nxt (node t ! i))"
  shows "placed t key ns n"
proof -
  let ?o = "node t"
  note w = new_keyD [OF t] and free = new_key_free [OF t, folded n]
  have mpn: "mp \<noteq> n" and mp_less: "mp < length ?o"
    using mp free(3) w(9) by auto
  have nokey: "key \<noteq> LNil"
    using w(5) by auto
  have l: "link ns i j \<longleftrightarrow> (if i = n then link ?o mp j else if i = mp then j = n else link ?o i j)" for i j
    using free(1) mp_less by (auto simp: link_def ns)
  have old: "reach ns i j" if "link ?o i j" for i j
  proof (cases "i = mp")
    case True
    have "link ns mp n" "link ns n j"
      using that True mpn by (simp_all add: l)
    with True show ?thesis
      by (meson converse_rtranclp_into_rtranclp r_into_rtranclp)
  next
    case False
    with that free(6) have "link ns i j"
      by (auto simp: l)
    then show ?thesis ..
  qed
  have reach: "reach ns i j" if "reach ?o i j" for i j
    using rtranclp_mono_steps [OF that, of "link ns"] old by blast
  obtain rk :: "nat \<Rightarrow> nat" where rk: "\<And>i j. link ?o i j \<Longrightarrow> rk j < rk i"
    by (rule wf_chains_rank [OF w(3)]) (rule that)
  have ch: "wf_chains ns"
    unfolding wf_chains_def
  proof (intro conjI allI impI)
    fix i j assume lij: "link ns i j"
    show "j < length ns"
      using lij wf_chainsD(1) [OF w(3)] free(1) by (simp add: l ns(1) split: if_splits)
    show "i = i'" if "link ns i' j" for i'
      using that lij wf_chainsD(2) [OF w(3)] free(5) by (auto simp: l split: if_splits)
  next
    have "(if j = n then 2 * rk mp else 2 * rk j + 1) < (if i = n then 2 * rk mp else 2 * rk i + 1)" if "link ns i j" for i j
      using that rk [of i j] rk [of mp j] free(5) mpn by (auto simp: l split: if_splits)
    then show "\<exists>rk :: nat \<Rightarrow> nat. \<forall>i j. link ns i j \<longrightarrow> rk j < rk i"
      by (intro exI [of _ "\<lambda>i. if i = n then 2 * rk mp else 2 * rk i + 1"]) blast
  next
    fix i assume i: "i < length ns" "i_key (ns ! i) = LNil"
    then have in': "i \<noteq> n" "i_key (?o ! i) = LNil"
      using nokey by (auto simp: ns(2) split: if_splits)
    then have e: "i_val (?o ! i) = LNil" "nxt (?o ! i) = None" "\<not> link ?o j i" for j
      using wf_chainsD(3) [OF w(3)] i(1) ns(1) by auto
    have "i \<noteq> mp"
      using e(1) mp(2) by auto
    with e in' show "i_val (ns ! i) = LNil" "nxt (ns ! i) = None" "\<And>j. \<not> link ns j i"
      by (simp_all add: ns l)
  qed
  have reach_n: "reach ns mp n"
    using mpn by (intro r_into_rtranclp) (simp add: l)
  have not_main: "luaH_mainposition t (i_key (?o ! i)) \<noteq> n" if "i < length ?o" "valid_key (i_key (?o ! i))" for i
  proof
    assume "luaH_mainposition t (i_key (?o ! i)) = n"
    then have "reach ?o n i"
      using placed_keys_reach [OF t that] by simp
    then have "i = n"
      using reach_from_nil [OF w(3) free(2,1)] by simp
    with that(2) free(2) show False
      by simp
  qed
  have ks: "wf_keys (t\<lparr>node := ns\<rparr>)"
  proof (rule wf_keys_placed [OF t ns(1), of n "\<lambda>i. i"])
    fix i j assume i: "i < length ns"
    show "reach ns (luaH_mainposition t (i_key (ns ! i))) i" if "valid_key (i_key (ns ! i))"
      using that reach placed_keys_reach [OF t, of i] i reach_n mp(1) by (cases "i = n") (simp_all add: ns)
    show "luaH_mainposition t (i_key (ns ! j)) = j"
      if v: "valid_key (i_key (ns ! i))" "valid_key (i_key (ns ! j))" "luaH_mainposition t (i_key (ns ! i)) = j"
    proof (cases "i = n")
      case True
      then have "j = mp"
        using v(3) mp(1) by (simp add: ns)
      with own mpn show ?thesis
        by (simp add: ns)
    next
      case False
      then have "j \<noteq> n"
        using v(1,3) not_main i by (auto simp: ns)
      with False v i placed_keys_main [OF t, of i j] show ?thesis
        by (simp add: ns)
    qed
    show "valid_key (i_key (ns ! i))" if "i_val (ns ! i) \<noteq> LNil"
      using that placed_vals [OF t, of i] i w(5) by (simp add: ns)
  qed (simp_all add: ns)
  have u: "unused ns = unused ?o - {n}"
    using nokey unfolding unused_def ns(1,2) by auto
  then have "card (unused ?o) \<le> card (unused ns) + 1"
    by (simp add: card_Diff_singleton_if) linarith
  moreover have "live ns = live ?o"
  proof -
    have "(\<exists>i < length ?o. i_key (ns ! i) = x \<and> i_val (ns ! i) = v) \<longleftrightarrow> (\<exists>i < length ?o. i_key (?o ! i) = x \<and> i_val (?o ! i) = v)"
      if "v \<noteq> LNil" for x v
      using that free(3) unfolding ns(2,3) by metis
    then show ?thesis
      unfolding set_eq_iff split_paired_All live_iff ns(1) by blast
  qed
  ultimately show ?thesis
    using wf_coreI [OF w(1) ns(1) ch ks] free(1) u ns(1) unfolding placed_def by (simp add: ns(2))
qed

text \<open>In the third way a node that is not in its main position makes room, and moves to the free node.\<close>

lemma place_and_move:
  assumes t: "new_key t key" and mp: "mp = luaH_mainposition t key" "i_val (node t ! mp) \<noteq> LNil"
    and away: "luaH_mainposition t (i_key (node t ! mp)) \<noteq> mp" and n: "n = firstfree t"
    and prev: "link (node t) prev mp"
    and ns: "length ns = length (node t)"
      "\<And>i. i_key (ns ! i) = (if i = n then i_key (node t ! mp) else if i = mp then key else i_key (node t ! i))"
      "\<And>i. i_val (ns ! i) = (if i = n then i_val (node t ! mp) else if i = mp then LNil else i_val (node t ! i))"
      "\<And>i. nxt (ns ! i) = (if i = prev then Some n else if i = n then nxt (node t ! mp)
         else if i = mp then None else nxt (node t ! i))"
  shows "placed t key ns mp"
proof -
  let ?o = "node t"
  note w = new_keyD [OF t] and free = new_key_free [OF t, folded n]
  have mpn: "mp \<noteq> n" and mp_less: "mp < length ?o"
    using mp free(3) w(9) by auto
  have mpv: "valid_key (i_key (?o ! mp))"
    using placed_vals [OF t mp_less mp(2)] .
  have nokey: "key \<noteq> LNil" "i_key (?o ! mp) \<noteq> LNil"
    using w(5) mpv by auto
  obtain rk :: "nat \<Rightarrow> nat" where rk: "\<And>i j. link ?o i j \<Longrightarrow> rk j < rk i"
    by (rule wf_chains_rank [OF w(3)]) (rule that)
  have pr: "prev \<noteq> mp" "prev \<noteq> n" "prev < length ?o"
    using rk [OF prev] free(6) prev by (auto simp: link_def)
  have l: "link ns i j \<longleftrightarrow> (if i = prev then j = n else if i = n then link ?o mp j
      else if i = mp then False else link ?o i j)" for i j
    using free(1) mp_less pr by (auto simp: link_def ns)
  have pmp: "i = prev" if "link ?o i mp" for i
    using wf_chainsD(2) [OF w(3) that prev] .
  have reach': "if j = mp then reach ns i n else reach ns i j" if "reach ?o i j" "i \<noteq> mp" for i j
    using that
  proof (induction rule: rtranclp_induct)
    case (step j k)
    have "link ns j k" if "j \<noteq> mp" "k \<noteq> mp"
    proof -
      have "j \<noteq> n"
        using step.hyps(2) free(6) by auto
      moreover have "j \<noteq> prev"
        using step.hyps(2) prev that(2) by (auto simp: link_def)
      ultimately show ?thesis
        using step.hyps(2) that by (simp add: l)
    qed
    moreover have "link ns n k" "k \<noteq> mp" if "j = mp"
      using that step.hyps(2) pr(2) rk [OF step.hyps(2)] by (auto simp: l)
    moreover have "link ns j n" if "k = mp"
      using pmp [of j] step.hyps(2) that by (simp add: l)
    moreover have "j \<noteq> mp" if "k = mp"
      using rk [OF step.hyps(2)] that by auto
    ultimately show ?case
      using step.IH [OF step.prems] by (cases "j = mp"; cases "k = mp") (auto intro: rtranclp.rtrancl_into_rtrancl)
  qed simp
  have ch: "wf_chains ns"
    unfolding wf_chains_def
  proof (intro conjI allI impI)
    fix i j assume lij: "link ns i j"
    show "j < length ns"
      using lij wf_chainsD(1) [OF w(3)] free(1) by (simp add: l ns(1) split: if_splits)
    show "i = i'" if "link ns i' j" for i'
      using that lij wf_chainsD(2) [OF w(3)] free(5) by (auto simp: l split: if_splits)
  next
    have "(if j = n then rk mp else rk j) < (if i = n then rk mp else rk i)" if "link ns i j" for i j
      using that rk [of i j] rk [of mp j] rk [OF prev] free(5) pr by (auto simp: l split: if_splits)
    then show "\<exists>rk :: nat \<Rightarrow> nat. \<forall>i j. link ns i j \<longrightarrow> rk j < rk i"
      by (intro exI [of _ "\<lambda>i. if i = n then rk mp else rk i"]) blast
  next
    fix i assume i: "i < length ns" "i_key (ns ! i) = LNil"
    then have in': "i \<noteq> n" "i \<noteq> mp" "i_key (?o ! i) = LNil"
      using nokey by (auto simp: ns(2) split: if_splits)
    then have e: "i_val (?o ! i) = LNil" "nxt (?o ! i) = None" "\<not> link ?o j i" for j
      using wf_chainsD(3) [OF w(3)] i(1) ns(1) by auto
    have "i \<noteq> prev"
      using e(2) prev by (auto simp: link_def)
    with e in' show "i_val (ns ! i) = LNil" "nxt (ns ! i) = None" "\<And>j. \<not> link ns j i"
      by (simp_all add: ns l)
  qed
  have not_main: "luaH_mainposition t (i_key (?o ! i)) \<noteq> n" if "i < length ?o" "valid_key (i_key (?o ! i))" for i
  proof
    assume "luaH_mainposition t (i_key (?o ! i)) = n"
    then have "reach ?o n i"
      using placed_keys_reach [OF t that] by simp
    then have "i = n"
      using reach_from_nil [OF w(3) free(2,1)] by simp
    with that(2) free(2) show False
      by simp
  qed
  have not_mp: "luaH_mainposition t (i_key (?o ! i)) \<noteq> mp" if "i < length ?o" "valid_key (i_key (?o ! i))" for i
    using placed_keys_main [OF t that, of mp] mpv away by auto
  have ks: "wf_keys (t\<lparr>node := ns\<rparr>)"
  proof (rule wf_keys_placed [OF t ns(1), of mp "\<lambda>i. if i = n then mp else i"])
    fix i j assume i: "i < length ns"
    show "reach ns (luaH_mainposition t (i_key (ns ! i))) i" if "valid_key (i_key (ns ! i))"
    proof -
      consider "i = mp" | "i = n" | "i \<noteq> mp" "i \<noteq> n"
        by blast
      then show ?thesis
      proof cases
        case 1
        then show ?thesis
          using mpn mp(1) by (simp add: ns)
      next
        case 2
        then show ?thesis
          using reach' [OF placed_keys_reach [OF t mp_less mpv] away] by (simp add: ns)
      next
        case 3
        then have v: "i < length ?o" "valid_key (i_key (?o ! i))"
          using that i by (simp_all add: ns)
        show ?thesis
          using reach' [OF placed_keys_reach [OF t v] not_mp [OF v]] 3 by (simp add: ns)
      qed
    qed
    show "luaH_mainposition t (i_key (ns ! j)) = j"
      if v: "valid_key (i_key (ns ! i))" "valid_key (i_key (ns ! j))" "luaH_mainposition t (i_key (ns ! i)) = j"
    proof (cases "j = mp")
      case True
      with mp(1) mpn show ?thesis
        by (simp add: ns)
    next
      case False
      then have "i \<noteq> mp"
        using v(3) mp(1) mpn by (auto simp: ns)
      then obtain i' where i': "i' < length ?o" "valid_key (i_key (?o ! i'))" "i_key (ns ! i) = i_key (?o ! i')"
        using i v(1) mp_less by (cases "i = n") (auto simp: ns)
      then have "j \<noteq> n"
        using v(3) not_main by auto
      with False i' v placed_keys_main [OF t i'(1,2), of j] show ?thesis
        by (simp add: ns)
    qed
    show "valid_key (i_key (ns ! i))" if "i_val (ns ! i) \<noteq> LNil"
      using that placed_vals [OF t, of i] i mpv by (auto simp: ns split: if_splits)
  qed (use mpn mp_less in \<open>auto simp: ns split: if_splits\<close>)
  have u: "unused ns = unused ?o - {n}"
    using nokey unfolding unused_def ns(1,2) by auto
  then have "card (unused ?o) \<le> card (unused ns) + 1"
    by (simp add: card_Diff_singleton_if) linarith
  moreover have "live ns = live ?o"
  proof -
    have "(\<exists>i < length ?o. i_key (ns ! i) = x \<and> i_val (ns ! i) = v) \<longleftrightarrow> (\<exists>i < length ?o. i_key (?o ! i) = x \<and> i_val (?o ! i) = v)"
      if "v \<noteq> LNil" for x v
    proof
      assume "\<exists>i < length ?o. i_key (ns ! i) = x \<and> i_val (ns ! i) = v"
      then obtain i where i: "i < length ?o" "i_key (ns ! i) = x" "i_val (ns ! i) = v"
        by blast
      then have "i \<noteq> mp"
        using that mpn by (auto simp: ns)
      with i mp_less show "\<exists>i < length ?o. i_key (?o ! i) = x \<and> i_val (?o ! i) = v"
        by (cases "i = n") (auto simp: ns)
    next
      assume "\<exists>i < length ?o. i_key (?o ! i) = x \<and> i_val (?o ! i) = v"
      then obtain i where i: "i < length ?o" "i_key (?o ! i) = x" "i_val (?o ! i) = v"
        by blast
      define j where "j = (if i = mp then n else i)"
      have "i \<noteq> n"
        using i(3) free(3) that by auto
      then have "j < length ?o" "i_key (ns ! j) = x" "i_val (ns ! j) = v"
        using i free(1) mpn by (auto simp: j_def ns)
      then show "\<exists>i < length ?o. i_key (ns ! i) = x \<and> i_val (ns ! i) = v"
        by blast
    qed
    then show ?thesis
      unfolding set_eq_iff split_paired_All live_iff ns(1) by blast
  qed
  ultimately show ?thesis
    using wf_coreI [OF w(1) ns(1) ch ks] mp_less mpn u ns(1) unfolding placed_def by (simp add: ns(2))
qed

lemma place_key_placed:
  assumes t: "new_key t key"
  obtains ns i where "place_key t key = Inr (t\<lparr>node := ns\<rparr>, i)" "placed t key ns i"
proof -
  let ?o = "node t"
  define mp where "mp = luaH_mainposition t key"
  define n where "n = firstfree t"
  define othern where "othern = luaH_mainposition t (i_key (?o ! mp))"
  note w = new_keyD [OF t] and free = new_key_free [OF t, folded n_def]
  have mp_less: "mp < length ?o"
    using w(9) by (simp add: mp_def)
  note pk = place_key_def [of t key, folded mp_def n_def, unfolded Let_def, folded othern_def]
  show thesis
  proof (cases "i_val (?o ! mp) = LNil")
    case True
    then show thesis
      using that [OF _ place_in_free_node [OF t mp_def]] by (simp add: place_key_def Let_def flip: mp_def)
  next
    case False
    then have mpn: "mp \<noteq> n"
      using free(3) by auto
    show thesis
    proof (cases "othern = mp")
      case True
      define ns where "ns = (let ns = ?o[n := (?o ! n)\<lparr>nxt := nxt (?o ! mp)\<rparr>];
          ns = ns[mp := (ns ! mp)\<lparr>nxt := Some n\<rparr>] in ns[n := (ns ! n)\<lparr>i_key := key\<rparr>])"
      have k: "i_key (ns ! i) = (if i = n then key else i_key (?o ! i))"
        "i_val (ns ! i) = i_val (?o ! i)"
        "nxt (ns ! i) = (if i = n then nxt (?o ! mp) else if i = mp then Some n else nxt (?o ! i))" for i
        using mpn mp_less free(1) by (cases "i = n"; cases "i = mp"; simp add: ns_def Let_def)+
      have "placed t key ns n"
        using True False by (intro place_behind [OF t mp_def _ _ n_def])
          (simp_all add: k othern_def, simp add: ns_def Let_def)
      moreover have "place_key t key = Inr (t\<lparr>node := ns\<rparr>, n)"
        using True False by (simp add: place_key_def ns_def Let_def flip: mp_def n_def othern_def)
      ultimately show thesis
        using that by blast
    next
      case away: False
      have mpv: "valid_key (i_key (?o ! mp))"
        using placed_vals [OF t mp_less False] .
      have "reach ?o othern mp"
        using placed_keys_reach [OF t mp_less mpv] by (simp add: othern_def)
      moreover have "othern < length ?o"
        using wf_sizesD(4) [OF w(2)] by (simp add: othern_def)
      ultimately obtain prev where prev: "find_previous (length ?o) ?o mp othern = Inr prev" "link ?o prev mp"
        using find_previous_total [OF w(3)] away by blast
      have pr: "prev < length ?o" "prev \<noteq> n" "prev \<noteq> mp"
        using prev(2) free(6) wf_chains_rank [OF w(3)] by (auto simp: link_def)
      define ns where "ns = (let ns = ?o[prev := (?o ! prev)\<lparr>nxt := Some n\<rparr>]; ns = ns[n := ns ! mp];
          ns = ns[mp := (ns ! mp)\<lparr>nxt := None, i_val := LNil\<rparr>] in ns[mp := (ns ! mp)\<lparr>i_key := key\<rparr>])"
      have k: "i_key (ns ! i) = (if i = n then i_key (?o ! mp) else if i = mp then key else i_key (?o ! i))"
        "i_val (ns ! i) = (if i = n then i_val (?o ! mp) else if i = mp then LNil else i_val (?o ! i))"
        "nxt (ns ! i) = (if i = prev then Some n else if i = n then nxt (?o ! mp)
           else if i = mp then None else nxt (?o ! i))" for i
        using mpn mp_less free(1) pr
        by (cases "i = n"; cases "i = mp"; cases "i = prev"; simp add: ns_def Let_def)+
      have length_ns: "length ns = length ?o"
        by (simp add: ns_def Let_def)
      have "placed t key ns mp"
        using away False by (intro place_and_move [OF t mp_def _ _ n_def prev(2)])
          (simp_all add: k othern_def length_ns)
      moreover have "place_key t key = Inr (t\<lparr>node := ns\<rparr>, mp)"
        using away False prev(1) by (simp add: place_key_def ns_def Let_def flip: mp_def n_def othern_def)
      ultimately show thesis
        using that by blast
    qed
  qed
qed

end
