(* ===== verification/TableRehash.thy ===== *)
theory TableRehash
  imports TableCorrect
begin

text \<open>
  Insertion with a rehash: the sizes it computes, the entries it moves, and the map a table stands for
  after an assignment.
\<close>

section \<open>Insertion while there is room\<close>

lemma correct_firstfree_spec:
  "case correct_firstfree ns i of
     Some j \<Rightarrow> j \<le> i \<and> i_key (ns ! j) = LNil \<and> (\<forall>m. j < m \<and> m \<le> i \<longrightarrow> i_key (ns ! m) \<noteq> LNil)
   | None \<Rightarrow> \<forall>m \<le> i. i_key (ns ! m) \<noteq> LNil"
proof (induction i)
  case (Suc i)
  then show ?case
    by (auto simp: le_Suc_eq split: option.splits)
qed auto

lemma wf_core_firstfree [simp]: "wf_core (t\<lparr>firstfree := f\<rparr>) = wf_core t"
proof -
  have "keys_at (t\<lparr>firstfree := f\<rparr>) ns i = keys_at t ns i" for ns i
    by (rule keys_at_cong) (simp, rule in_array_array, simp)
  then show ?thesis
    by (simp add: wf_core_def wf_sizes_def wf_keys_def sizearray_def)
qed

lemma slot_of_firstfree [simp]: "slot_of (t\<lparr>firstfree := f\<rparr>) k = slot_of t k"
  by (simp add: slot_of_def in_array_def sizearray_def)

lemma content_firstfree [simp]: "content (t\<lparr>firstfree := f\<rparr>) k = content t k"
proof -
  have "slot_get (t\<lparr>firstfree := f\<rparr>) p = slot_get t p" for p
    by (cases p) simp_all
  then show ?thesis
    by (simp add: content_def)
qed

lemma placed_slot: "placed t key ns i \<Longrightarrow> new_key t key \<Longrightarrow> slot_of (t\<lparr>node := ns\<rparr>) key = SNode i"
  using node_of_Some [of "t\<lparr>node := ns\<rparr>" key i] new_keyD(5,6) [of t key]
  by (auto simp: placed_def slot_of_def in_array_def sizearray_def wf_core_def)

lemma placed_content: "placed t key ns i \<Longrightarrow> new_key t key \<Longrightarrow> valid_key k \<Longrightarrow> content (t\<lparr>node := ns\<rparr>) k = content t k"
  using content_cong [of t "t\<lparr>node := ns\<rparr>" k] new_keyD(1) by (simp add: placed_def)

lemma free_above_placed: "placed t key ns i \<Longrightarrow> free_above t \<Longrightarrow> free_above (t\<lparr>node := ns\<rparr>)"
  by (auto simp: placed_def free_above_def unused_def)

text \<open>What every insertion keeps.\<close>

definition same_shape :: "Table \<Rightarrow> Table \<Rightarrow> bool" where
  "same_shape t t' \<longleftrightarrow> lsizenode t' = lsizenode t \<and> sizearray t' = sizearray t \<and> metatable t' = metatable t"

lemma same_shape_refl [simp]: "same_shape t t"
  by (simp add: same_shape_def)

lemma same_shape_trans: "same_shape t t' \<Longrightarrow> same_shape t' t'' \<Longrightarrow> same_shape t t''"
  by (simp add: same_shape_def)

lemma same_shape_slot_set [simp]: "same_shape t (slot_set t p v)"
  by (simp add: same_shape_def sizearray_def)

lemma same_shape_in_array: "same_shape t t' \<Longrightarrow> in_array t' k = in_array t k"
  by (simp add: same_shape_def in_array_def)

definition inserts :: "Table \<Rightarrow> TObject \<Rightarrow> Table \<Rightarrow> slot \<Rightarrow> bool" where
  "inserts t key t' p \<longleftrightarrow> wf_table t' \<and> slot_of t' key = p \<and> p \<noteq> SNil \<and>
     (\<forall>k. valid_key k \<longrightarrow> content t' k = content t k)"

lemma newkey_room:
  assumes t: "new_key t key" and room: "2 \<le> card (unused (node t))"
  shows "\<exists>t' p. newkey (Suc f) t key = Inr (t', p) \<and> inserts t key t' p \<and> same_shape t t' \<and>
    card (unused (node t)) \<le> card (unused (node t')) + 1"
proof -
  obtain ns i where ns: "place_key t key = Inr (t\<lparr>node := ns\<rparr>, i)" "placed t key ns i"
    using place_key_placed [OF t] .
  let ?t = "t\<lparr>node := ns\<rparr>"
  have u: "card (unused (node t)) \<le> card (unused ns) + 1"
    using ns(2) by (simp add: placed_def)
  have fa: "free_above ?t"
    using free_above_placed [OF ns(2)] new_keyD(10) [OF t] .
  have "unused ns \<noteq> {}"
    using u room by auto
  then obtain m where m: "m \<in> unused ns"
    by blast
  then have "m \<le> firstfree t"
    using fa by (auto simp: free_above_def unused_def intro: leI)
  then obtain ff where ff: "correct_firstfree ns (firstfree t) = Some ff"
    using correct_firstfree_spec [of "firstfree t" ns] m by (cases "correct_firstfree ns (firstfree t)") (auto simp: unused_def)
  then have ffs: "ff \<le> firstfree t" "i_key (ns ! ff) = LNil" "\<And>m. ff < m \<Longrightarrow> m \<le> firstfree t \<Longrightarrow> i_key (ns ! m) \<noteq> LNil"
    using correct_firstfree_spec [of "firstfree t" ns] by simp_all
  let ?t' = "?t\<lparr>firstfree := ff\<rparr>"
  have "free_above ?t'"
    using fa ffs unfolding free_above_def by (auto intro: ffs(3) simp: not_less [symmetric])
  then have "wf_table ?t'"
    using ns(2) ffs(2) unfolding wf_table_def placed_def by simp
  then have "inserts t key ?t' (SNode i)"
    using placed_slot [OF ns(2) t] placed_content [OF ns(2) t] by (simp add: inserts_def)
  moreover have "newkey (Suc f) t key = Inr (?t', SNode i)"
    using ff by (simp add: ns(1))
  ultimately show ?thesis
    using u by (auto simp: same_shape_def sizearray_def)
qed

declare newkey.simps [simp del]

lemma wf_core_flags [simp]: "wf_core (t\<lparr>flags := w\<rparr>) = wf_core t"
proof -
  have "keys_at (t\<lparr>flags := w\<rparr>) ns i = keys_at t ns i" for ns i
    by (rule keys_at_cong) (simp, rule in_array_array, simp)
  then show ?thesis
    by (simp add: wf_core_def wf_sizes_def wf_keys_def sizearray_def)
qed

lemma wf_table_flags [simp]: "wf_table (t\<lparr>flags := w\<rparr>) = wf_table t"
  by (simp add: wf_table_def free_above_def)

lemma slot_of_flags [simp]: "slot_of (t\<lparr>flags := w\<rparr>) k = slot_of t k"
  by (simp add: slot_of_def in_array_def sizearray_def)

lemma content_flags [simp]: "content (t\<lparr>flags := w\<rparr>) k = content t k"
proof -
  have "slot_get (t\<lparr>flags := w\<rparr>) p = slot_get t p" for p
    by (cases p) simp_all
  then show ?thesis
    by (simp add: content_def)
qed

lemma new_keyI: "wf_table t \<Longrightarrow> valid_key key \<Longrightarrow> slot_of t key = SNil \<Longrightarrow> new_key t key"
  unfolding new_key_def slot_of_def using node_of_None by (simp split: if_splits option.splits) blast

lemma not_nan_valid: "valid_key key \<Longrightarrow> \<not> (case key of LNumber n \<Rightarrow> \<not> num_eq n n | _ \<Rightarrow> False)"
  by (cases key) (simp_all add: num_eq_refl)

lemma slot_in_array: "in_array t k \<Longrightarrow> slot_of t k \<noteq> SNil"
  by (simp add: slot_of_def)

text \<open>
  The two ways of making an entry, with an inserter that has room.  The result of each is a slot for the
  value.
\<close>

definition rooms :: "Table \<Rightarrow> TObject \<Rightarrow> bool" where
  "rooms t key \<longleftrightarrow> wf_table t \<and> valid_key key \<and> (\<not> in_array t key \<longrightarrow> 2 \<le> card (unused (node t)))"

definition uses :: "Table \<Rightarrow> TObject \<Rightarrow> Table \<Rightarrow> bool" where
  "uses t key t' \<longleftrightarrow> same_shape t t' \<and>
     card (unused (node t)) \<le> card (unused (node t')) + (if in_array t key then 0 else 1)"

lemma set_with_room:
  assumes "rooms t key"
  shows "\<exists>t' p. luaH_set_with (newkey (Suc f)) t key = Inr (t', p) \<and> inserts t key t' p \<and> uses t key t'"
proof -
  have t: "wf_table t" "wf_core t" "valid_key key"
    using assms by (simp_all add: rooms_def wf_table_def)
  let ?t = "t\<lparr>flags := 0\<rparr>"
  have eq: "luaH_set_with (newkey (Suc f)) t key =
      (if slot_of t key \<noteq> SNil then Inr (?t, slot_of t key) else newkey (Suc f) ?t key)"
    using t(3) not_nan_valid [OF t(3)] by (auto simp: luaH_set_with_def luaH_get_slot [OF t(2,3)])
  show ?thesis
  proof (cases "slot_of t key = SNil")
    case False
    then show ?thesis
      using eq t(1) by (auto simp: inserts_def uses_def same_shape_def sizearray_def)
  next
    case True
    then have na: "\<not> in_array t key"
      using slot_in_array by blast
    have "new_key ?t key"
      using t True by (intro new_keyI) simp_all
    from newkey_room [OF this, of f] show ?thesis
      using True na assms eq by (auto simp: rooms_def inserts_def uses_def same_shape_def sizearray_def)
  qed
qed

lemma setnum_with_room:
  assumes "rooms t (key_of i)" "INT_MIN \<le> i" "i \<le> INT_MAX"
  shows "\<exists>t' p. luaH_setnum_with (newkey (Suc f)) t i = Inr (t', p) \<and> inserts t (key_of i) t' p \<and> uses t (key_of i) t'"
proof -
  have t: "wf_table t" "wf_core t" "valid_key (key_of i)"
    using assms by (simp_all add: rooms_def wf_table_def)
  have eq: "luaH_setnum_with (newkey (Suc f)) t i =
      (if slot_of t (key_of i) \<noteq> SNil then Inr (t, slot_of t (key_of i)) else newkey (Suc f) t (key_of i))"
    by (auto simp: luaH_setnum_with_def luaH_getnum_slot [OF t(2) assms(2,3)] key_of_def)
  show ?thesis
  proof (cases "slot_of t (key_of i) = SNil")
    case False
    then show ?thesis
      using eq t(1) by (auto simp: inserts_def uses_def)
  next
    case True
    then have na: "\<not> in_array t (key_of i)"
      using slot_in_array by blast
    from newkey_room [OF new_keyI [OF t(1,3) True], of f] show ?thesis
      using True na assms eq by (auto simp: rooms_def uses_def)
  qed
qed

text \<open>Storing a value to the slot completes an assignment.\<close>

definition assigns :: "Table \<Rightarrow> TObject \<Rightarrow> TObject \<Rightarrow> Table \<Rightarrow> bool" where
  "assigns t key v t' \<longleftrightarrow> wf_table t' \<and>
     (\<forall>k. valid_key k \<longrightarrow> content t' k = (if luaO_rawequalObj key k then v else content t k))"

lemma inserts_assigns:
  assumes "inserts t key t' p" "valid_key key"
  shows "assigns t key v (slot_set t' p v)"
proof -
  have t': "wf_table t'" "wf_core t'" "slot_of t' key = p" "p \<noteq> SNil"
    using assms by (simp_all add: inserts_def wf_table_def)
  then show ?thesis
    using assms wf_table_slot_set [OF t'(1) assms(2), of v] content_slot_set [OF t'(2) assms(2)]
    by (auto simp: assigns_def inserts_def)
qed

lemma unused_slot_set [simp]: "unused (node (slot_set t p v)) = unused (node t)"
  by (simp add: unused_def)

lemma uses_slot_set [simp]: "uses t key (slot_set t' p v) = uses t key t'"
  by (simp add: uses_def same_shape_def sizearray_def)

section \<open>Moving all entries\<close>

text \<open>What a list of assignments leaves of a map, and the room it needs.\<close>

fun assign_all :: "(TObject \<times> TObject) list \<Rightarrow> (TObject \<Rightarrow> TObject) \<Rightarrow> TObject \<Rightarrow> TObject" where
  "assign_all [] c = c"
| "assign_all ((key, v) # es) c = assign_all es (\<lambda>k. if luaO_rawequalObj key k then v else c k)"

definition in_hash :: "Table \<Rightarrow> (TObject \<times> TObject) list \<Rightarrow> nat" where
  "in_hash t es = length (filter (\<lambda>(key, v). \<not> in_array t key) es)"

definition moved :: "Table \<Rightarrow> (TObject \<times> TObject) list \<Rightarrow> Table \<Rightarrow> bool" where
  "moved t es t' \<longleftrightarrow> wf_table t' \<and> same_shape t t' \<and>
     card (unused (node t)) \<le> card (unused (node t')) + in_hash t es \<and>
     (\<forall>k. valid_key k \<longrightarrow> content t' k = assign_all es (content t) k)"

lemma assign_all_cong: "c k = c' k \<Longrightarrow> assign_all es c k = assign_all es c' k"
proof (induction es arbitrary: c c')
  case (Cons e es)
  obtain key v where e: "e = (key, v)"
    by fastforce
  show ?case
    unfolding e assign_all.simps using Cons.prems by (intro Cons.IH) simp
qed simp

lemma moved_Nil: "wf_table t \<Longrightarrow> moved t [] t"
  by (simp add: moved_def in_hash_def)

lemma in_hash_shape: "same_shape t t' \<Longrightarrow> in_hash t' es = in_hash t es"
  by (simp add: in_hash_def same_shape_in_array)

lemma moved_Cons:
  assumes "inserts t key t' p" "uses t key t'" "valid_key key" "moved (slot_set t' p v) es t''"
  shows "moved t ((key, v) # es) t''"
proof -
  let ?t = "slot_set t' p v"
  note a = inserts_assigns [OF assms(1,3), of v]
  have s: "same_shape t ?t" "card (unused (node t)) \<le> card (unused (node ?t)) + (if in_array t key then 0 else 1)"
    using assms(2) by (simp_all add: uses_def same_shape_def sizearray_def)
  have "content t'' k = assign_all ((key, v) # es) (content t) k" if "valid_key k" for k
  proof -
    have "content t'' k = assign_all es (content ?t) k"
      using that assms(4) by (simp add: moved_def)
    also have "\<dots> = assign_all es (\<lambda>k. if luaO_rawequalObj key k then v else content t k) k"
      using that a by (intro assign_all_cong) (simp add: assigns_def)
    finally show ?thesis
      by simp
  qed
  moreover have "in_hash t ((key, v) # es) = in_hash ?t es + (if in_array t key then 0 else 1)"
    using in_hash_shape [OF s(1), of es] by (simp add: in_hash_def)
  ultimately show ?thesis
    using assms(4) s same_shape_trans [OF s(1)] by (auto simp: moved_def)
qed

definition entries :: "Node list \<Rightarrow> (TObject \<times> TObject) list" where
  "entries ns = map (\<lambda>n. (i_key n, i_val n)) (filter (\<lambda>n. i_val n \<noteq> LNil) ns)"

fun slice :: "nat \<Rightarrow> TObject list \<Rightarrow> (TObject \<times> TObject) list" where
  "slice i [] = []"
| "slice i (v # vs) = (if v \<noteq> LNil then [(key_of (int i + 1), v)] else []) @ slice (i + 1) vs"

lemma in_hash_simps [simp]:
  "in_hash t [] = 0" "in_hash t ((key, v) # es) = (if in_array t key then 0 else 1) + in_hash t es"
  by (simp_all add: in_hash_def)

lemma roomsI: "wf_table t \<Longrightarrow> valid_key key \<Longrightarrow> in_hash t ((key, v) # es) + 1 \<le> card (unused (node t)) \<Longrightarrow> rooms t key"
  by (auto simp: rooms_def)

lemma inserted_room:
  assumes "inserts t key t' p" "uses t key t'" "in_hash t ((key, v) # es) + 1 \<le> card (unused (node t))" "valid_key key"
  shows "wf_table (slot_set t' p v)" "in_hash (slot_set t' p v) es + 1 \<le> card (unused (node (slot_set t' p v)))"
proof -
  show "wf_table (slot_set t' p v)"
    using inserts_assigns [OF assms(1,4)] by (simp add: assigns_def)
  have "same_shape t (slot_set t' p v)"
    using assms(2) by (simp add: uses_def same_shape_def sizearray_def)
  from in_hash_shape [OF this, of es] show "in_hash (slot_set t' p v) es + 1 \<le> card (unused (node (slot_set t' p v)))"
    using assms(2,3) by (auto simp: uses_def split: if_splits)
qed

lemma reinsert_nodes_moved:
  "wf_table t \<Longrightarrow> \<forall>n \<in> set olds. i_val n \<noteq> LNil \<longrightarrow> valid_key (i_key n) \<Longrightarrow>
    in_hash t (entries olds) + 1 \<le> card (unused (node t)) \<Longrightarrow>
    \<exists>t'. reinsert_nodes (newkey (Suc f)) t olds = Inr t' \<and> moved t (entries olds) t'"
proof (induction olds arbitrary: t)
  case Nil
  then show ?case
    by (simp add: entries_def moved_Nil)
next
  case (Cons n olds)
  show ?case
  proof (cases "i_val n = LNil")
    case True
    with Cons show ?thesis
      by (simp add: entries_def)
  next
    case False
    have e: "entries (n # olds) = (i_key n, i_val n) # entries olds"
      using False by (simp add: entries_def)
    have v: "valid_key (i_key n)"
      using Cons.prems(2) False by simp
    note room = Cons.prems(3) [unfolded e]
    obtain t' p where i: "luaH_set_with (newkey (Suc f)) t (i_key n) = Inr (t', p)" "inserts t (i_key n) t' p"
      "uses t (i_key n) t'"
      using set_with_room [OF roomsI [OF Cons.prems(1) v room]] by blast
    from Cons.IH [of "slot_set t' p (i_val n)"] inserted_room [OF i(2,3) room v] Cons.prems(2)
    obtain t'' where "reinsert_nodes (newkey (Suc f)) (slot_set t' p (i_val n)) olds = Inr t''"
      "moved (slot_set t' p (i_val n)) (entries olds) t''"
      by auto
    with moved_Cons [OF i(2,3) v] False i(1) show ?thesis
      unfolding e by auto
  qed
qed

lemma int_below_MAXBITS: "i < 2 ^ MAXBITS \<Longrightarrow> INT_MIN \<le> int i + 1 \<and> int i + 1 \<le> INT_MAX"
  by (simp add: MAXBITS_def INT_MIN_def INT_MAX_def)

lemma reinsert_array_moved:
  "wf_table t \<Longrightarrow> i + length vs \<le> 2 ^ MAXBITS \<Longrightarrow> in_hash t (slice i vs) + 1 \<le> card (unused (node t)) \<Longrightarrow>
    \<exists>t'. reinsert_array (newkey (Suc f)) t i vs = Inr t' \<and> moved t (slice i vs) t'"
proof (induction vs arbitrary: t i)
  case Nil
  then show ?case
    by (simp add: moved_Nil)
next
  case (Cons v vs)
  show ?case
  proof (cases "v = LNil")
    case True
    with Cons show ?thesis
      by simp
  next
    case False
    have e: "slice i (v # vs) = (key_of (int i + 1), v) # slice (i + 1) vs"
      using False by simp
    have r: "INT_MIN \<le> int i + 1" "int i + 1 \<le> INT_MAX"
      using int_below_MAXBITS [of i] Cons.prems(2) by simp_all
    note v = valid_key_of [OF r]
    note room = Cons.prems(3) [unfolded e]
    obtain t' p where i: "luaH_setnum_with (newkey (Suc f)) t (int i + 1) = Inr (t', p)"
      "inserts t (key_of (int i + 1)) t' p" "uses t (key_of (int i + 1)) t'"
      using setnum_with_room [OF roomsI [OF Cons.prems(1) v room] r] by blast
    from Cons.IH [of "slot_set t' p v" "i + 1"] inserted_room [OF i(2,3) room v] Cons.prems(2)
    obtain t'' where "reinsert_array (newkey (Suc f)) (slot_set t' p v) (i + 1) vs = Inr t''"
      "moved (slot_set t' p v) (slice (i + 1) vs) t''"
      by auto
    with moved_Cons [OF i(2,3) v] False i(1) show ?thesis
      unfolding e by auto
  qed
qed

section \<open>Resizing\<close>

definition fresh :: "Table \<Rightarrow> TObject list \<Rightarrow> nat \<Rightarrow> Table" where
  "fresh t arr l = t\<lparr>array := arr, node := replicate (2 ^ l) free_node, lsizenode := l, firstfree := 2 ^ l - 1\<rparr>"

lemma fresh_simps [simp]:
  "array (fresh t arr l) = arr" "lsizenode (fresh t arr l) = l" "metatable (fresh t arr l) = metatable t"
  "length (node (fresh t arr l)) = 2 ^ l" "i < 2 ^ l \<Longrightarrow> node (fresh t arr l) ! i = free_node"
  by (simp_all add: fresh_def)

lemma free_node_simps [simp]: "i_key free_node = LNil" "i_val free_node = LNil" "nxt free_node = None"
  by (simp_all add: free_node_def)

lemma unused_fresh [simp]: "card (unused (node (fresh t arr l))) = 2 ^ l"
proof -
  have "unused (node (fresh t arr l)) = {..<2 ^ l}"
    by (auto simp: unused_def)
  then show ?thesis
    by simp
qed

lemma wf_fresh:
  assumes "l \<le> MAXBITS" "length arr \<le> 2 ^ MAXBITS"
  shows "wf_table (fresh t arr l)"
proof -
  let ?t = "fresh t arr l"
  have l: "\<not> link (node ?t) i j" for i j
    by (auto simp: link_def)
  have "wf_keys ?t"
    by (auto simp: wf_keys_def keys_at_def)
  moreover have "wf_chains (node ?t)"
    by (auto simp: wf_chains_def l)
  moreover have "wf_sizes ?t"
    using assms by (simp add: wf_sizes_def sizearray_def)
  moreover have "firstfree ?t = 2 ^ l - 1"
    by (simp add: fresh_def)
  ultimately show ?thesis
    by (auto simp: wf_table_def wf_core_def free_above_def)
qed

lemma content_fresh: "content (fresh t arr l) k = (if in_array (fresh t arr l) k then arr ! nat (arrayindex k - 1) else LNil)"
proof (cases "node_of (node (fresh t arr l)) k")
  case (Some i)
  then have "i < 2 ^ l"
    by (auto simp: node_of_def find_Some_iff)
  with Some show ?thesis
    by (simp add: content_def slot_of_def)
qed (simp add: content_def slot_of_def)

lemma moved_append:
  assumes "moved t es t'" "moved t' es' t''"
  shows "moved t (es @ es') t''"
proof -
  have app: "assign_all (es @ es') c = assign_all es' (assign_all es c)" for c
    by (induction es arbitrary: c) auto
  have s: "same_shape t t'"
    using assms by (simp add: moved_def)
  have "content t'' k = assign_all (es @ es') (content t) k" if "valid_key k" for k
    using assms that assign_all_cong [of "content t'" k "assign_all es (content t)" es'] by (simp add: moved_def app)
  moreover have "in_hash t (es @ es') = in_hash t es + in_hash t' es'"
    using in_hash_shape [OF s, of es'] by (simp add: in_hash_def)
  ultimately show ?thesis
    using assms same_shape_trans [OF s] by (auto simp: moved_def)
qed

text \<open>The array part and the list of entries to be moved, for a new size of the array part.\<close>

definition new_array :: "Table \<Rightarrow> nat \<Rightarrow> TObject list" where
  "new_array t nasize = take nasize (array t @ replicate (nasize - sizearray t) LNil)"

definition to_move :: "Table \<Rightarrow> nat \<Rightarrow> (TObject \<times> TObject) list" where
  "to_move t nasize = slice nasize (drop nasize (array t)) @ entries (rev (node t))"

lemma length_new_array [simp]: "length (new_array t nasize) = nasize"
  by (auto simp: new_array_def sizearray_def)

lemma resize_moved:
  assumes t: "wf_core t" and n: "nasize \<le> 2 ^ MAXBITS" "l \<le> MAXBITS"
    and room: "in_hash (fresh t (new_array t nasize) l) (to_move t nasize) + 1 \<le> 2 ^ l"
  shows "\<exists>t'. resize_with (newkey (Suc f)) t nasize l = Inr t' \<and>
    moved (fresh t (new_array t nasize) l) (to_move t nasize) t'"
proof -
  let ?t0 = "fresh t (new_array t nasize) l"
  let ?s = "slice nasize (drop nasize (array t))" and ?e = "entries (rev (node t))"
  have wf: "wf_table ?t0"
    using n by (intro wf_fresh) simp_all
  have cnt: "in_hash ?t0 (to_move t nasize) = in_hash ?t0 ?s + in_hash ?t0 ?e"
    by (simp add: to_move_def in_hash_def)
  have "nasize + length (drop nasize (array t)) \<le> 2 ^ MAXBITS"
    using wf_sizesD(2) [OF wf_coreD(1) [OF t]] n(1) by (simp add: sizearray_def)
  then obtain t1 where t1: "reinsert_array (newkey (Suc f)) ?t0 nasize (drop nasize (array t)) = Inr t1" "moved ?t0 ?s t1"
    using reinsert_array_moved [OF wf] cnt room by fastforce
  have e: "\<forall>n \<in> set (rev (node t)). i_val n \<noteq> LNil \<longrightarrow> valid_key (i_key n)"
    using wf_keysD(1) [OF wf_coreD(3) [OF t]] by (auto simp: in_set_conv_nth)
  have "in_hash t1 ?e = in_hash ?t0 ?e"
    using t1(2) in_hash_shape by (simp add: moved_def)
  then obtain t2 where t2: "reinsert_nodes (newkey (Suc f)) t1 (rev (node t)) = Inr t2" "moved t1 ?e t2"
    using reinsert_nodes_moved [OF _ e, of t1 f] t1(2) cnt room by (fastforce simp: moved_def)
  have "resize_with (newkey (Suc f)) t nasize l = reinsert_nodes (newkey (Suc f)) t1 (rev (node t))"
  proof (cases "nasize < sizearray t")
    case True
    then have "?t0 = t\<lparr>node := replicate (2 ^ l) free_node, lsizenode := l, firstfree := 2 ^ l - 1, array := take nasize (array t)\<rparr>"
      by (simp add: fresh_def new_array_def sizearray_def)
    with True t1(1) n(2) show ?thesis
      by (simp add: resize_with_def setnodevector_def Let_def push_bit_eq_mult)
  next
    case False
    then have "t1 = ?t0"
      using t1(1) by (simp add: sizearray_def)
    moreover have "new_array t nasize = (if sizearray t < nasize then array t @ replicate (nasize - sizearray t) LNil else array t)"
      using False by (simp add: new_array_def sizearray_def)
    ultimately show ?thesis
      using False n(2) by (simp add: resize_with_def setnodevector_def Let_def push_bit_eq_mult setarrayvector_def fresh_def sizearray_def)
  qed
  with t2(1) moved_append [OF t1(2) t2(2)] show ?thesis
    by (simp add: to_move_def)
qed

text \<open>Moving the entries leaves the map as it was.\<close>

lemma assign_all_other: "(\<And>key v. (key, v) \<in> set es \<Longrightarrow> \<not> luaO_rawequalObj key k) \<Longrightarrow> assign_all es c k = c k"
proof (induction es arbitrary: c)
  case (Cons e es)
  obtain key v where e: "e = (key, v)"
    by fastforce
  have "\<not> luaO_rawequalObj key k"
    using Cons.prems [of key v] e by simp
  then show ?case
    unfolding e assign_all.simps using Cons.prems by (subst Cons.IH) auto
qed simp

lemma assign_all_entry:
  "(key, v) \<in> set es \<Longrightarrow> luaO_rawequalObj key k \<Longrightarrow>
    (\<And>key' v'. (key', v') \<in> set es \<Longrightarrow> luaO_rawequalObj key' k \<Longrightarrow> v' = v) \<Longrightarrow> assign_all es c k = v"
proof (induction es arbitrary: c key)
  case (Cons e es)
  obtain key0 v0 where e: "e = (key0, v0)"
    by fastforce
  show ?case
  proof (cases "\<exists>key' v'. (key', v') \<in> set es \<and> luaO_rawequalObj key' k")
    case True
    then obtain key' v' where k: "(key', v') \<in> set es" "luaO_rawequalObj key' k"
      by blast
    then have "v' = v"
      using Cons.prems(3) [of key' v'] by simp
    have "assign_all es c' k = v" for c'
      using k(1)[unfolded \<open>v' = v\<close>] k(2) by (rule Cons.IH) (use Cons.prems(3) in \<open>simp, blast\<close>)
    then show ?thesis
      by (simp add: e)
  next
    case False
    then have "(key, v) = (key0, v0)" "assign_all es c' k = c' k" for c'
      using Cons.prems(1,2) by (auto simp: e intro!: assign_all_other)
    then show ?thesis
      using Cons.prems(2) by (simp add: e)
  qed
qed simp

lemma set_slice: "(key, v) \<in> set (slice i vs) \<longleftrightarrow>
    (\<exists>j < length vs. key = key_of (int (i + j) + 1) \<and> v = vs ! j \<and> v \<noteq> LNil)"
proof (induction vs arbitrary: i)
  case (Cons w vs)
  have "(\<exists>j < length (w # vs). key = key_of (int (i + j) + 1) \<and> v = (w # vs) ! j \<and> v \<noteq> LNil) \<longleftrightarrow>
      key = key_of (int i + 1) \<and> v = w \<and> v \<noteq> LNil \<or>
      (\<exists>j < length vs. key = key_of (int (i + 1 + j) + 1) \<and> v = vs ! j \<and> v \<noteq> LNil)"
    by (subst length_Cons, subst Ex_less_Suc2) simp
  then show ?case
    using Cons [of "i + 1"] by auto
qed simp

lemma set_entries: "(key, v) \<in> set (entries ns) \<longleftrightarrow> (key, v) \<in> live ns"
  by (auto simp: entries_def live_def)

lemma live_rev [simp]: "live (rev ns) = live ns"
  by (simp add: live_def)

text \<open>An entry to be moved is an entry of the table, and every entry that is not in the new array is one.\<close>

lemma arrayindex_slice_key:
  "wf_sizes t \<Longrightarrow> i < sizearray t \<Longrightarrow> arrayindex (key_of (int i + 1)) = int i + 1 \<and> in_array t (key_of (int i + 1))"
  using wf_sizesD(2) [of t] arrayindex_key_of [of "int i + 1"]
  by (simp add: in_array_def MAXBITS_def)

lemma slice_entry:
  assumes "wf_core t" "(key, v) \<in> set (slice n (drop n (array t)))" "n \<le> sizearray t"
  shows "in_array t key" "int n < arrayindex key" "v = array t ! nat (arrayindex key - 1)" "v \<noteq> LNil"
proof -
  obtain j where j: "j < sizearray t - n" "key = key_of (int (n + j) + 1)" "v = drop n (array t) ! j" "v \<noteq> LNil"
    using assms(2) by (auto simp: set_slice sizearray_def)
  then have "n + j < sizearray t"
    using assms(3) by simp
  note a = arrayindex_slice_key [OF wf_coreD(1) [OF assms(1)] this]
  then show "in_array t key" "int n < arrayindex key" "v \<noteq> LNil"
    using j by simp_all
  show "v = array t ! nat (arrayindex key - 1)"
    using a j assms(3) by (simp add: sizearray_def nat_int_add flip: of_nat_add)
qed

lemma to_move_entry:
  assumes "wf_core t" "(key, v) \<in> set (to_move t n)" "valid_key k" "luaO_rawequalObj key k"
  shows "content t k = v" "v \<noteq> LNil" "in_array t k \<Longrightarrow> int n < arrayindex k"
proof -
  have "content t k = v \<and> v \<noteq> LNil \<and> (in_array t k \<longrightarrow> int n < arrayindex k)"
  proof (cases "(key, v) \<in> set (slice n (drop n (array t)))")
    case True
    then have "n \<le> sizearray t"
      by (cases "n \<le> sizearray t") (simp_all add: sizearray_def)
    note e = slice_entry [OF assms(1) True this]
    have "content t k = content t key"
      using assms(4) slot_of_cong by (simp add: content_def)
    also have "\<dots> = v"
      using e by (simp add: content_def slot_of_def)
    finally show ?thesis
      using e arrayindex_cong [OF assms(4)] by simp
  next
    case False
    then have l: "(key, v) \<in> live (node t)"
      using assms(2) by (simp add: to_move_def set_entries)
    then obtain i where i: "i < length (node t)" "i_key (node t ! i) = key" "i_val (node t ! i) = v" "v \<noteq> LNil"
      by (auto simp: live_iff)
    then have "\<not> in_array t key"
      using wf_keysD(1,3) [OF wf_coreD(3) [OF assms(1)] i(1)] by simp
    then have "\<not> in_array t k"
      using in_array_cong [OF assms(4)] by simp
    then show ?thesis
      using content_live [OF assms(1,3) _ i(4)] l assms(4) i(4) by blast
  qed
  then show "content t k = v" "v \<noteq> LNil" "in_array t k \<Longrightarrow> int n < arrayindex k"
    by blast+
qed

lemma entry_to_move:
  assumes "wf_core t" "valid_key k" "content t k \<noteq> LNil" "\<not> (in_array t k \<and> arrayindex k \<le> int n)"
  obtains key where "(key, content t k) \<in> set (to_move t n)" "luaO_rawequalObj key k"
proof (cases "in_array t k")
  case True
  define i where "i = nat (arrayindex k - 1)"
  have i: "i < sizearray t" "n \<le> i" "arrayindex k = int i + 1"
    using True assms(4) by (auto simp: i_def in_array_def)
  have "content t k = array t ! i"
    using True by (simp add: content_def slot_of_def i_def)
  then have "(key_of (arrayindex k), content t k) \<in> set (slice n (drop n (array t)))"
    using i assms(3) by (auto simp: set_slice sizearray_def intro!: exI [of _ "i - n"])
  moreover have "luaO_rawequalObj (key_of (arrayindex k)) k"
    using True rawequal_arrayindex by (simp add: in_array_def)
  ultimately show thesis
    using that by (auto simp: to_move_def)
next
  case False
  then obtain x where "(x, content t k) \<in> live (node t)" "luaO_rawequalObj x k"
    using content_live [OF assms(1,2) False assms(3)] by auto
  then show thesis
    using that [of x] by (simp add: to_move_def set_entries)
qed

lemma content_moved:
  assumes t: "wf_core t" and k: "valid_key k"
  shows "assign_all (to_move t n) (content (fresh t (new_array t n) l)) k = content t k"
proof -
  let ?t0 = "fresh t (new_array t n) l"
  have in0: "in_array ?t0 k \<longleftrightarrow> 1 \<le> arrayindex k \<and> arrayindex k \<le> int n"
    by (simp add: in_array_def sizearray_def)
  show ?thesis
  proof (cases "\<exists>key v. (key, v) \<in> set (to_move t n) \<and> luaO_rawequalObj key k")
    case True
    then obtain key v where e: "(key, v) \<in> set (to_move t n)" "luaO_rawequalObj key k"
      by blast
    have "assign_all (to_move t n) (content ?t0) k = v"
      using e by (rule assign_all_entry) (use to_move_entry(1) [OF t _ k] e in metis)
    then show ?thesis
      using to_move_entry(1) [OF t e(1) k e(2)] by simp
  next
    case False
    then have o': "assign_all (to_move t n) (content ?t0) k = content ?t0 k"
      by (intro assign_all_other) blast
    show ?thesis
    proof (cases "in_array t k \<and> arrayindex k \<le> int n")
      case True
      then have "nat (arrayindex k - 1) < n" "nat (arrayindex k - 1) < length (array t)"
        by (auto simp: in_array_def sizearray_def)
      moreover have "content ?t0 k = new_array t n ! nat (arrayindex k - 1)"
        using True in0 by (simp add: content_fresh in_array_def)
      moreover have "content t k = array t ! nat (arrayindex k - 1)"
        using True by (simp add: content_def slot_of_def)
      ultimately show ?thesis
        unfolding o' by (simp add: new_array_def nth_append)
    next
      case outside: False
      then have "content t k = LNil"
        using entry_to_move [OF t k _ outside] False by blast
      moreover have "content ?t0 k = LNil"
      proof (cases "in_array ?t0 k")
        case True
        then have "sizearray t \<le> nat (arrayindex k - 1)" "nat (arrayindex k - 1) < n"
          using in0 outside by (auto simp: in_array_def)
        with True show ?thesis
          by (simp add: content_fresh new_array_def nth_append sizearray_def)
      qed (simp add: content_fresh)
      ultimately show ?thesis
        by (simp add: o')
    qed
  qed
qed

section \<open>The sizes a rehash computes\<close>

lemma count_used_filter: "j \<le> length arr \<Longrightarrow>
    count_used arr i j = length (filter (\<lambda>v. v \<noteq> LNil) (drop i (take j arr)))"
proof -
  assume j: "j \<le> length arr"
  have "drop i (take j arr) = map (nth arr) [i..<j]"
    using j by (intro nth_equalityI) auto
  then show ?thesis
    by (simp add: count_used_def filter_map comp_def)
qed

lemma count_used_append: "i \<le> j \<Longrightarrow> j \<le> k \<Longrightarrow> count_used arr i j + count_used arr j k = count_used arr i k"
  using upt_add_eq_append [of i j "k - j"] by (simp add: count_used_def)

definition slice_lo :: "nat \<Rightarrow> nat" where
  "slice_lo lg = (if lg = 0 then 0 else 2 ^ (lg - 1))"

lemma slice_lo_simps [simp]: "slice_lo 0 = 0" "slice_lo (Suc lg) = 2 ^ lg"
  by (simp_all add: slice_lo_def)

lemma slice_lo_le: "slice_lo lg \<le> 2 ^ lg"
  by (cases lg) simp_all

lemma slice_lo_mono: "i \<le> j \<Longrightarrow> slice_lo i \<le> slice_lo j"
  by (cases i; cases j) simp_all

definition slice_used :: "TObject list \<Rightarrow> nat \<Rightarrow> nat" where
  "slice_used arr lg = count_used arr (min (slice_lo lg) (length arr)) (min (2 ^ lg) (length arr))"

lemma slice_used_above: "length arr \<le> slice_lo lg \<Longrightarrow> slice_used arr lg = 0"
  using slice_lo_le [of lg] by (simp add: slice_used_def count_used_def)

lemma numuse_array_slices:
  assumes "i = min (slice_lo lg) (length arr)" "lg \<le> MAXBITS + 1"
  shows "numuse_array arr lg i = map (slice_used arr) [lg..<MAXBITS + 1]"
  using assms
proof (induction "MAXBITS + 1 - lg" arbitrary: lg i)
  case 0
  then show ?case
    by (subst numuse_array.simps) simp
next
  case (Suc d)
  then have lg: "lg \<le> MAXBITS"
    by simp
  then have upt: "[lg..<MAXBITS + 1] = lg # [Suc lg..<MAXBITS + 1]"
    by (intro upt_conv_Cons) simp
  have IH: "numuse_array arr (lg + 1) (min (2 ^ lg) (length arr)) = map (slice_used arr) [Suc lg..<MAXBITS + 1]"
    using Suc.hyps(1) [of "lg + 1"] Suc.hyps(2) lg by simp
  have i: "i \<le> 2 ^ lg" "i = length arr \<longleftrightarrow> length arr \<le> slice_lo lg" "i \<le> length arr"
    using Suc.prems(1) slice_lo_le [of lg] by auto
  show ?case
  proof (cases "length arr < 2 ^ lg \<and> length arr \<le> i")
    case True
    then have "length arr \<le> slice_lo lg"
      using i by simp
    then have "map (slice_used arr) [lg..<MAXBITS + 1] = replicate (MAXBITS + 1 - lg) 0"
      using slice_lo_mono [of lg] slice_used_above [of arr] by (intro replicate_eqI) (auto intro: order_trans)
    with True lg show ?thesis
      by (subst numuse_array.simps) (simp add: Let_def)
  next
    case False
    then have "numuse_array arr lg i =
        count_used arr i (min (2 ^ lg) (length arr)) # numuse_array arr (lg + 1) (min (2 ^ lg) (length arr))"
      using lg by (subst numuse_array.simps) (auto simp: Let_def)
    then show ?thesis
      unfolding upt IH Suc.prems(1) by (simp add: slice_used_def)
  qed
qed

definition cum :: "nat list \<Rightarrow> nat \<Rightarrow> nat" where
  "cum nums m = (\<Sum>j\<le>m. nums ! j)"

lemma cum_slices: "m \<le> MAXBITS \<Longrightarrow>
    cum (map (slice_used arr) [0..<MAXBITS + 1]) m = count_used arr 0 (min (2 ^ m) (length arr))"
proof (induction m)
  case 0
  then show ?case
    unfolding cum_def by (simp add: slice_used_def nth_append)
next
  case (Suc m)
  then have "map (slice_used arr) [0..<MAXBITS + 1] ! Suc m = slice_used arr (Suc m)"
    using nth_map_upt [of "Suc m" "MAXBITS + 1" 0] by simp
  with Suc show ?case
    unfolding cum_def by (simp add: slice_used_def count_used_append)
qed

lemma cum_update:
  assumes "j < length nums" "m < length nums"
  shows "cum (nums[j := nums ! j + 1]) m = cum nums m + (if j \<le> m then 1 else 0)"
proof -
  have "cum (nums[j := nums ! j + 1]) m = (\<Sum>i\<le>m. nums ! i + (if i = j then 1 else 0))"
    unfolding cum_def using assms by (intro sum.cong) (auto simp: nth_list_update)
  then show ?thesis
    by (simp add: cum_def sum.distrib)
qed

text \<open>The loop over the nodes.\<close>

definition index_upto :: "nat \<Rightarrow> TObject \<Rightarrow> bool" where
  "index_upto n key \<longleftrightarrow> 1 \<le> arrayindex key \<and> arrayindex key \<le> int n"

lemma log2_slice:
  assumes "1 \<le> k" "k \<le> 2 ^ MAXBITS"
  shows "nat (luaO_log2 (word_of_int (k - 1)) + 1) \<le> m \<longleftrightarrow> k \<le> 2 ^ m"
    "nat (luaO_log2 (word_of_int (k - 1)) + 1) \<le> MAXBITS"
proof -
  have "nat (luaO_log2 (word_of_int (k - 1)) + 1) \<le> m \<longleftrightarrow> k \<le> 2 ^ m" for m
  proof (cases "k = 1")
    case True
    then show ?thesis
      using luaO_log2_0 by simp
  next
    case False
    define i where "i = k - 1"
    let ?w = "word_of_int i :: 32 word"
    have "0 \<le> i" "i < 2 ^ 32"
      using assms by (simp_all add: i_def MAXBITS_def)
    then have u: "unat ?w = nat i"
      by (simp add: unsigned_of_int take_bit_int_eq_self)
    have "nat i \<noteq> 0"
      unfolding i_def using False assms(1) by linarith
    then have "unat ?w \<noteq> 0"
      by (simp only: u not_False_eq_True)
    then have "?w \<noteq> 0"
      by (metis unat_0)
    from luaO_log2_bracket [OF this]
    obtain l where l: "luaO_log2 ?w = int l" "2 ^ l \<le> unat ?w" "unat ?w < 2 ^ Suc l" .
    have "(2 :: int) ^ l \<le> i" "i < 2 ^ Suc l"
      using l(2,3) \<open>0 \<le> i\<close> unfolding u by (simp_all add: le_nat_iff nat_less_iff)
    then have k: "(2 :: int) ^ l < k" "k \<le> 2 ^ Suc l"
      unfolding i_def by linarith+
    have "Suc l \<le> m \<longleftrightarrow> k \<le> 2 ^ m"
    proof
      assume "Suc l \<le> m"
      then have "(2 :: int) ^ Suc l \<le> 2 ^ m"
        by (intro power_increasing) simp_all
      with k show "k \<le> 2 ^ m"
        by linarith
    next
      assume "k \<le> 2 ^ m"
      with k(1) have "(2 :: int) ^ l < 2 ^ m"
        by linarith
      then show "Suc l \<le> m"
        by (simp add: Suc_le_eq)
    qed
    then show ?thesis
      unfolding i_def [symmetric] by (simp add: l(1) nat_add_distrib)
  qed
  from this this [of MAXBITS] assms(2)
  show "nat (luaO_log2 (word_of_int (k - 1)) + 1) \<le> m \<longleftrightarrow> k \<le> 2 ^ m"
    "nat (luaO_log2 (word_of_int (k - 1)) + 1) \<le> MAXBITS"
    by simp_all
qed

lemma entries_Cons [simp]: "entries [] = []"
  "entries (n # ns) = (if i_val n = LNil then [] else [(i_key n, i_val n)]) @ entries ns"
  by (simp_all add: entries_def)

lemma numuse_nodes:
  assumes "length nums = MAXBITS + 1"
  shows "case foldr numuse_node ns (nums, a, b) of (nums', a', b') \<Rightarrow>
    length nums' = MAXBITS + 1 \<and>
    (\<forall>m \<le> MAXBITS. cum nums' m = cum nums m + length (filter (\<lambda>e. index_upto (2 ^ m) (fst e)) (entries ns))) \<and>
    a' = a + length (filter (\<lambda>e. index_upto (2 ^ MAXBITS) (fst e)) (entries ns)) \<and>
    b' = b + length (entries ns)"
proof (induction ns)
  case (Cons n ns)
  obtain nums' a' b' where r: "foldr numuse_node ns (nums, a, b) = (nums', a', b')"
    by (cases "foldr numuse_node ns (nums, a, b)")
  show ?case
  proof (cases "i_val n = LNil")
    case True
    then show ?thesis
      using Cons by (simp add: r)
  next
    case live: False
    show ?thesis
    proof (cases "0 \<le> arrayindex (i_key n)")
      case True
      then have k: "1 \<le> arrayindex (i_key n)" "arrayindex (i_key n) \<le> 2 ^ MAXBITS"
        using arrayindex_range [of "i_key n"] by auto
      define j where "j = nat (luaO_log2 (word_of_int (arrayindex (i_key n) - 1)) + 1)"
      have j: "j \<le> m \<longleftrightarrow> arrayindex (i_key n) \<le> 2 ^ m" "j \<le> MAXBITS" for m
        unfolding j_def using log2_slice [OF k] by blast+
      have lj: "j < length nums'" "length nums' = MAXBITS + 1"
        using Cons j(2) by (simp_all add: r)
      have "cum (nums'[j := nums' ! j + 1]) m = cum nums' m + (if index_upto (2 ^ m) (i_key n) then 1 else 0)"
        if "m \<le> MAXBITS" for m
        using j(1) [of m] that lj k(1) by (subst cum_update) (simp_all add: index_upto_def)
      moreover have "numuse_node n (nums', a', b') = (nums'[j := nums' ! j + 1], a' + 1, b' + 1)"
        using live True by (simp add: j_def Let_def del: of_int_diff)
      ultimately show ?thesis
        using Cons live k by (simp add: r index_upto_def del: numuse_node.simps)
    next
      case False
      then show ?thesis
        using Cons live by (simp add: r Let_def index_upto_def)
    qed
  qed
qed (use assms in simp)

text \<open>
  \<open>computesizes\<close>: the array size is a power of two, or 0, at least half of its slots are in use
  and everything else goes to the hash part.
\<close>

definition sizes_ok :: "nat list \<Rightarrow> nat \<Rightarrow> nat option \<Rightarrow> bool" where
  "sizes_ok nums na n = (case n of
     None \<Rightarrow> na = 0 \<and> nums ! 0 = 0
   | Some m \<Rightarrow> m \<le> MAXBITS \<and> na = cum nums m \<and> 2 ^ m \<le> 2 * na)"

lemma cum_less_index: "cum nums (i - 1) < cum nums m \<Longrightarrow> 1 \<le> i \<Longrightarrow> i \<le> m"
proof (rule ccontr)
  assume "\<not> i \<le> m" "cum nums (i - 1) < cum nums m"
  moreover have "cum nums m \<le> cum nums (i - 1)"
    unfolding cum_def using \<open>\<not> i \<le> m\<close> by (intro sum_mono2) auto
  ultimately show False
    by simp
qed

lemma computesizes_loop_ok:
  assumes "narray = cum nums MAXBITS" "1 \<le> i" "a = cum nums (i - 1)" "sizes_ok nums na n"
  shows "case computesizes_loop nums narray i a na n of (na', n') \<Rightarrow> sizes_ok nums na' n'"
  using assms
proof (induction "narray + 1 - i" arbitrary: i a na n rule: less_induct)
  case less
  show ?case
  proof (cases "a < narray \<and> 2 ^ (i - 1) \<le> narray")
    case True
    then have i: "i \<le> narray" "i \<le> MAXBITS"
      using less_pow2_pred less.prems cum_less_index by blast+
    then have c: "cum nums (i + 1 - 1) = a + nums ! i"
      using less.prems(2,3) by (cases i) (simp_all add: cum_def)
    note IH = less.hyps [of "i + 1" "a + nums ! i", OF _ less.prems(1) _ c [symmetric]]
    have "2 ^ i \<le> 2 * (a + nums ! i)" if "2 ^ (i - 1) \<le> a + nums ! i"
      using that less.prems(2) by (cases i) simp_all
    then have "sizes_ok nums (a + nums ! i) (Some i)" if "2 ^ (i - 1) \<le> a + nums ! i"
      using that i(2) c by (simp add: sizes_ok_def)
    with IH [OF _ _ this] IH [OF _ _ less.prems(4)] i(1) True less.prems(2) show ?thesis
      by (subst computesizes_loop.simps) (auto simp: Let_def)
  next
    case False
    then show ?thesis
      using less.prems(4) by (subst computesizes_loop.simps) auto
  qed
qed

lemma computesizes_ok:
  assumes "narray = cum nums MAXBITS"
  obtains "computesizes nums ntotal narray = (0, ntotal)" "nums ! 0 = 0"
    | m where "m \<le> MAXBITS" "computesizes nums ntotal narray = (2 ^ m, ntotal - cum nums m)" "2 ^ m \<le> 2 * cum nums m"
proof -
  have "sizes_ok nums (nums ! 0) (if nums ! 0 = 0 then None else Some 0)"
    by (auto simp: sizes_ok_def cum_def)
  with computesizes_loop_ok [OF assms, of 1 "nums ! 0"]
  have "case computesizes_loop nums narray 1 (nums ! 0) (nums ! 0) (if nums ! 0 = 0 then None else Some 0) of
      (na', n') \<Rightarrow> sizes_ok nums na' n'"
    by (simp add: cum_def)
  then show thesis
    using that by (auto simp: computesizes_def Let_def sizes_ok_def split: prod.splits option.splits)
qed

definition index_entries :: "Table \<Rightarrow> nat \<Rightarrow> nat" where
  "index_entries t n = count_used (array t) 0 (min n (sizearray t)) +
     length (filter (\<lambda>e. index_upto n (fst e)) (entries (node t)))"

definition used_entries :: "Table \<Rightarrow> nat" where
  "used_entries t = count_used (array t) 0 (sizearray t) + length (entries (node t))"

lemma numuse_ok:
  assumes t: "wf_core t"
  shows "\<exists>nasize. numuse t = (nasize, used_entries t - index_entries t nasize) \<and>
    nasize \<le> 2 ^ MAXBITS \<and> nasize \<le> 2 * index_entries t nasize"
proof -
  let ?nums = "map (slice_used (array t)) [0..<MAXBITS + 1]"
  have sz: "sizearray t \<le> 2 ^ MAXBITS"
    using wf_sizesD(2) [OF wf_coreD(1) [OF t]] .
  have nums: "numuse_array (array t) 0 0 = ?nums"
    by (rule numuse_array_slices) simp_all
  have length_nums: "length ?nums = MAXBITS + 1"
    by simp
  have total: "sum_list ?nums = count_used (array t) 0 (sizearray t)"
  proof -
    have "sum_list ?nums = cum ?nums MAXBITS"
      by (simp add: cum_def sum_list_sum_nth atLeast0LessThan lessThan_Suc_atMost del: upt_Suc)
    then show ?thesis
      using cum_slices [of MAXBITS "array t"] sz by (simp add: sizearray_def min_absorb2 del: upt_Suc)
  qed
  obtain nums narray total where f: "foldr numuse_node (node t) (?nums, sum_list ?nums, sum_list ?nums) = (nums, narray, total)"
    by (cases "foldr numuse_node (node t) (?nums, sum_list ?nums, sum_list ?nums)")
  note nodes = numuse_nodes [of ?nums "node t" "sum_list ?nums" "sum_list ?nums", unfolded f prod.case, OF length_nums]
  have n: "cum nums m = index_entries t (2 ^ m)" if "m \<le> MAXBITS" for m
    using nodes that cum_slices [OF that, of "array t"] by (simp add: index_entries_def sizearray_def del: upt_Suc)
  have "narray = cum nums MAXBITS" "total = used_entries t"
    using nodes n [of MAXBITS] sz total by (simp_all add: index_entries_def used_entries_def min_absorb2 del: upt_Suc)
  note c = this
  have r: "numuse t = computesizes nums total narray"
    unfolding numuse_def nums Let_def f by simp
  have z: "index_entries t 0 = 0"
    by (simp add: index_entries_def count_used_def index_upto_def)
  show ?thesis
  proof (rule computesizes_ok [OF c(1), of total])
    fix m
    assume m: "m \<le> MAXBITS" "computesizes nums total narray = (2 ^ m, total - cum nums m)" "2 ^ m \<le> 2 * cum nums m"
    then have "(2 :: nat) ^ m \<le> 2 ^ MAXBITS"
      by (intro power_increasing) simp_all
    with m show ?thesis
      unfolding r c(2) n [OF m(1)] by blast
  qed (use r c(2) z in auto)
qed

text \<open>The hash part of the new size has room for what it must take, and a node to spare.\<close>

lemma length_slice: "length (slice i vs) = length (filter (\<lambda>v. v \<noteq> LNil) vs)"
  by (induction vs arbitrary: i) auto

lemma in_hash_append: "in_hash t (xs @ ys) = in_hash t xs + in_hash t ys"
  by (simp add: in_hash_def)

lemma entries_rev: "entries (rev ns) = rev (entries ns)"
  by (simp add: entries_def rev_map rev_filter)

lemma in_hash_moved:
  assumes t: "wf_core t"
  shows "in_hash (fresh t (new_array t n) l) (to_move t n) = used_entries t - index_entries t n"
proof -
  let ?t = "fresh t (new_array t n) l"
  have sz: "sizearray ?t = n"
    by (simp add: sizearray_def)
  have i: "in_array ?t k \<longleftrightarrow> index_upto n k" for k
    by (simp add: in_array_def index_upto_def sz)
  have "in_hash ?t (slice n (drop n (array t))) = length (slice n (drop n (array t)))"
  proof (cases "n \<le> sizearray t")
    case True
    then have "\<not> in_array ?t key" if "(key, v) \<in> set (slice n (drop n (array t)))" for key v
      using slice_entry(2) [OF t that] by (simp add: i index_upto_def)
    then show ?thesis
      unfolding in_hash_def by (subst filter_True) auto
  qed (simp add: sizearray_def)
  moreover have "length (slice n (drop n (array t))) + count_used (array t) 0 (min n (sizearray t)) =
      count_used (array t) 0 (sizearray t)"
    using count_used_append [of 0 n "sizearray t" "array t"]
    by (cases "n \<le> sizearray t") (simp_all add: length_slice count_used_filter sizearray_def)
  moreover have "in_hash ?t (entries (rev (node t))) + length (filter (\<lambda>e. index_upto n (fst e)) (entries (node t))) =
      length (entries (node t))"
    using sum_length_filter_compl [of "\<lambda>e. index_upto n (fst e)" "entries (node t)"]
    by (simp add: in_hash_def entries_rev i case_prod_unfold flip: rev_filter)
  ultimately show ?thesis
    by (simp add: to_move_def in_hash_append used_entries_def index_entries_def)
qed

section \<open>A rehash keeps the map\<close>

lemma length_entries: "length (entries ns) \<le> length ns"
  by (simp add: entries_def)

lemma used_entries_size: "used_entries t \<le> sizearray t + length (node t)"
  using length_filter_le [of _ "[0..<sizearray t]"] length_entries [of "node t"]
  by (simp add: used_entries_def count_used_def add_mono)

lemma used_entries_le: "wf_core t \<Longrightarrow> used_entries t \<le> 2 * 2 ^ MAXBITS"
proof -
  assume t: "wf_core t"
  have "length (node t) \<le> 2 ^ MAXBITS"
    using wf_sizesD(1,3) [OF wf_coreD(1) [OF t]] by simp
  then show ?thesis
    using used_entries_size [of t] wf_sizesD(2) [OF wf_coreD(1) [OF t]] by simp
qed

lemma hash_size:
  assumes "n < 2 ^ 32"
  shows "n + 1 \<le> 2 ^ nat (luaO_log2 (word_of_nat n) + 1)"
proof (cases "n = 0")
  case False
  let ?w = "word_of_nat n :: 32 word"
  have u: "unat ?w = n"
    using assms by (simp add: unsigned_of_nat take_bit_nat_eq_self)
  then have "?w \<noteq> 0"
    using False by (metis unat_0)
  from luaO_log2_bracket [OF this]
  obtain l where l: "luaO_log2 ?w = int l" "unat ?w < 2 ^ Suc l"
    by blast
  then show ?thesis
    using u by (simp add: nat_add_distrib)
qed simp

lemma hash_size_le: "n < 2 ^ MAXBITS \<Longrightarrow> nat (luaO_log2 (word_of_nat n) + 1) \<le> MAXBITS"
proof (cases "n = 0")
  case False
  assume n: "n < 2 ^ MAXBITS"
  let ?w = "word_of_nat n :: 32 word"
  have u: "unat ?w = n"
    using n by (simp add: unsigned_of_nat take_bit_nat_eq_self MAXBITS_def)
  then have "?w \<noteq> 0"
    using False by (metis unat_0)
  from luaO_log2_bracket [OF this]
  obtain l where l: "luaO_log2 ?w = int l" "2 ^ l \<le> n"
    unfolding u by blast
  then have "(2 :: nat) ^ l < 2 ^ MAXBITS"
    using n by (rule_tac le_less_trans)
  then show ?thesis
    using l by (simp add: nat_add_distrib)
qed (simp add: luaO_log2_0)

text \<open>The only error of an insertion, and when it can happen.\<close>

definition overflow :: "Table \<Rightarrow> 'a res \<Rightarrow> bool" where
  "overflow t r \<longleftrightarrow> r = Inl (RunError ''table overflow'') \<and> 2 ^ MAXBITS \<le> sizearray t + length (node t)"

definition rehashed :: "Table \<Rightarrow> Table \<Rightarrow> bool" where
  "rehashed t t' \<longleftrightarrow> wf_table t' \<and> metatable t' = metatable t \<and>
     (\<forall>k. valid_key k \<longrightarrow> content t' k = content t k)"

lemma rehash_ok:
  assumes t: "wf_core t"
  shows "overflow t (rehash_with (newkey (Suc f)) t) \<or>
    (\<exists>t'. rehash_with (newkey (Suc f)) t = Inr t' \<and> rehashed t t')"
proof -
  obtain na where na: "numuse t = (na, used_entries t - index_entries t na)" "na \<le> 2 ^ MAXBITS"
    using numuse_ok [OF t] by blast
  define nh where "nh = used_entries t - index_entries t na"
  define l where "l = nat (luaO_log2 (word_of_nat nh) + 1)"
  have r: "rehash_with (newkey (Suc f)) t = resize_with (newkey (Suc f)) t na l"
    by (simp add: rehash_with_def na(1) nh_def [symmetric] l_def)
  show ?thesis
  proof (cases "l \<le> MAXBITS")
    case False
    have "\<not> nh < 2 ^ MAXBITS"
      using hash_size_le [of nh] False by (auto simp: l_def)
    moreover have "nh \<le> sizearray t + length (node t)"
      using used_entries_size [of t] by (simp add: nh_def)
    ultimately show ?thesis
      using False unfolding r overflow_def by (simp add: resize_with_def setnodevector_def Let_def)
  next
    case True
    have "nh < 2 ^ 32"
      using used_entries_le [OF t] by (simp add: nh_def MAXBITS_def)
    then have room: "in_hash (fresh t (new_array t na) l) (to_move t na) + 1 \<le> 2 ^ l"
      unfolding in_hash_moved [OF t] nh_def [symmetric] l_def by (rule hash_size)
    from resize_moved [OF t na(2) True room, of f] obtain t'
      where t': "resize_with (newkey (Suc f)) t na l = Inr t'" "moved (fresh t (new_array t na) l) (to_move t na) t'"
      by blast
    then show ?thesis
      unfolding r using content_moved [OF t] by (simp add: moved_def rehashed_def same_shape_def)
  qed
qed

lemma new_key_slot: "new_key t key \<Longrightarrow> slot_of t key = SNil"
  using node_of_Some [OF wf_coreD(3) [OF new_keyD(1)] new_keyD(5), of t key] new_keyD(6,7) [of t key]
  by (auto simp: slot_of_def split: option.split)

lemma newkey_ok:
  assumes t: "new_key t key"
  shows "overflow t (newkey (Suc (Suc f)) t key) \<or>
    (\<exists>t' p. newkey (Suc (Suc f)) t key = Inr (t', p) \<and> inserts t key t' p \<and> metatable t' = metatable t)"
proof -
  obtain ns i where ns: "place_key t key = Inr (t\<lparr>node := ns\<rparr>, i)" "placed t key ns i"
    using place_key_placed [OF t] .
  let ?t = "t\<lparr>node := ns\<rparr>"
  have k: "valid_key key"
    using new_keyD [OF t] by blast
  have w: "wf_core ?t"
    using ns(2) by (simp add: placed_def)
  have slot: "slot_of ?t key = SNode i"
    using placed_slot [OF ns(2) t] .
  have c: "content ?t k = content t k" if "valid_key k" for k
    using placed_content [OF ns(2) t that] .
  show ?thesis
  proof (cases "correct_firstfree ns (firstfree t)")
    case (Some ff)
    have fa: "free_above (?t\<lparr>firstfree := ff\<rparr>)"
      using correct_firstfree_spec [of "firstfree t" ns] Some free_above_placed [OF ns(2) new_keyD(10) [OF t]]
      unfolding free_above_def by (auto simp: not_less [symmetric])
    then have "inserts t key (?t\<lparr>firstfree := ff\<rparr>) (SNode i)"
      using w slot c correct_firstfree_spec [of "firstfree t" ns] Some by (simp add: inserts_def wf_table_def)
    then show ?thesis
      using Some by (simp add: newkey.simps ns(1))
  next
    case None
    let ?u = "slot_set ?t (SNode i) (LBoolean 0)"
    have u: "wf_core ?u" "content ?u k = (if luaO_rawequalObj key k then LBoolean 0 else content t k)" if "valid_key k" for k
      using wf_core_slot_set [OF w k, of "LBoolean 0"] content_slot_set [OF w k that, of "LBoolean 0"] c [OF that]
      by (simp_all add: slot)
    have eq: "newkey (Suc (Suc f)) t key = bindR (rehash_with (newkey (Suc f)) ?u) (\<lambda>t.
        bindR (luaH_get t key) (\<lambda>val. Inr (slot_set t val LNil, val)))"
      using None by (simp add: newkey.simps(2) [of "Suc f"] ns(1))
    show ?thesis
      using rehash_ok [OF u(1) [OF k], of f]
    proof
      assume "\<exists>t'. rehash_with (newkey (Suc f)) ?u = Inr t' \<and> rehashed ?u t'"
      then obtain t' where t': "rehash_with (newkey (Suc f)) ?u = Inr t'" "wf_table t'" "wf_core t'" "metatable t' = metatable t"
        "\<And>k. valid_key k \<Longrightarrow> content t' k = content ?u k"
        by (auto simp: rehashed_def wf_table_def)
      have "content t key = LNil"
        using new_key_slot [OF t] by (simp add: content_def)
      then have old: "content t x = LNil" if "luaO_rawequalObj key x" for x
        using slot_of_cong [OF that, of t] by (simp add: content_def)
      have "content t' key = LBoolean 0"
        using t'(5) [OF k] u(2) [OF k] k by (simp add: rawequal_refl)
      then have p: "slot_of t' key \<noteq> SNil"
        by (auto simp: content_def)
      have "newkey (Suc (Suc f)) t key = Inr (slot_set t' (slot_of t' key) LNil, slot_of t' key)"
        unfolding eq t'(1) by (simp add: luaH_get_slot [OF t'(3) k])
      moreover have "content (slot_set t' (slot_of t' key) LNil) x = content t x" if "valid_key x" for x
        using content_slot_set [OF t'(3) k that p, of LNil] t'(5) [OF that] u(2) [OF that] old by simp
      ultimately show ?thesis
        using wf_table_slot_set [OF t'(2) k] p t'(4) by (simp add: inserts_def)
    next
      assume "overflow ?u (rehash_with (newkey (Suc f)) ?u)"
      then show ?thesis
        using ns(2) by (simp add: eq overflow_def sizearray_def placed_def)
    qed
  qed
qed

section \<open>The map a table stands for\<close>

lemma luaH_set_ok:
  assumes t: "wf_table t" "valid_key key"
  shows "overflow t (luaH_set t key) \<or>
    (\<exists>t' p. luaH_set t key = Inr (t', p) \<and> inserts t key t' p \<and> metatable t' = metatable t)"
proof -
  let ?t = "t\<lparr>flags := 0\<rparr>"
  have c: "wf_core t"
    using t(1) by (simp add: wf_table_def)
  have eq: "luaH_set t key =
      (if slot_of t key \<noteq> SNil then Inr (?t, slot_of t key) else newkey (Suc (Suc 0)) ?t key)"
    using t(2) not_nan_valid [OF t(2)]
    by (auto simp: luaH_set_def luaH_set_with_def luaH_get_slot [OF c t(2)] numeral_2_eq_2)
  show ?thesis
  proof (cases "slot_of t key = SNil")
    case False
    then show ?thesis
      using eq t(1) by (auto simp: inserts_def)
  next
    case True
    then have "new_key ?t key"
      using t by (intro new_keyI) simp_all
    from newkey_ok [OF this, of 0] True show ?thesis
      using eq by (auto simp: inserts_def overflow_def sizearray_def)
  qed
qed

lemma luaH_setnum_ok:
  assumes t: "wf_table t" "INT_MIN \<le> i" "i \<le> INT_MAX"
  shows "overflow t (luaH_setnum t i) \<or>
    (\<exists>t' p. luaH_setnum t i = Inr (t', p) \<and> inserts t (key_of i) t' p \<and> metatable t' = metatable t)"
proof -
  have c: "wf_core t" "valid_key (key_of i)"
    using t by (simp_all add: wf_table_def)
  have eq: "luaH_setnum t i =
      (if slot_of t (key_of i) \<noteq> SNil then Inr (t, slot_of t (key_of i)) else newkey (Suc (Suc 0)) t (key_of i))"
    by (auto simp: luaH_setnum_def luaH_setnum_with_def luaH_getnum_slot [OF c(1) t(2,3)] key_of_def numeral_2_eq_2)
  show ?thesis
  proof (cases "slot_of t (key_of i) = SNil")
    case False
    then show ?thesis
      using eq t(1) by (auto simp: inserts_def)
  next
    case True
    from newkey_ok [OF new_keyI [OF t(1) c(2) True], of 0] True show ?thesis
      using eq by auto
  qed
qed

lemma table_lookup_ok: "wf_table t \<Longrightarrow> valid_key k \<Longrightarrow> table_lookup t k = Inr (content t k)"
  using table_lookup_content by (simp add: wf_table_def)

lemma table_store_ok:
  assumes t: "wf_table t" "valid_key key"
  shows "overflow t (table_store t key v) \<or>
    (\<exists>t'. table_store t key v = Inr t' \<and> assigns t key v t' \<and> metatable t' = metatable t)"
  using luaH_set_ok [OF assms]
proof
  assume "\<exists>t' p. luaH_set t key = Inr (t', p) \<and> inserts t key t' p \<and> metatable t' = metatable t"
  then obtain t' p where t': "luaH_set t key = Inr (t', p)" "inserts t key t' p" "metatable t' = metatable t"
    by blast
  then show ?thesis
    using inserts_assigns [OF t'(2) t(2), of v] by (simp add: table_store_def)
qed (simp add: table_store_def overflow_def)

lemma wf_luaH_new:
  assumes "narray \<le> 2 ^ MAXBITS" "lnhash \<le> MAXBITS"
  obtains t where "luaH_new meta narray lnhash = Inr t" "wf_table t" "\<And>k. content t k = LNil"
proof -
  let ?t = "\<lparr>flags = NOT 0, lsizenode = 0, metatable = meta, array = [], node = [], firstfree = 0\<rparr>"
  have "luaH_new meta narray lnhash = Inr (fresh ?t (replicate narray LNil) lnhash)"
    using assms by (simp add: luaH_new_def setnodevector_def setarrayvector_def Let_def fresh_def sizearray_def push_bit_eq_mult)
  moreover have "content (fresh ?t (replicate narray LNil) lnhash) k = LNil" for k
    by (auto simp: content_fresh in_array_def sizearray_def)
  ultimately show thesis
    using that wf_fresh [of lnhash "replicate narray LNil" ?t] assms by simp
qed

end
