(* ===== verification/TableOps.thy ===== *)
theory TableOps
  imports TableRehash
begin

text \<open>
  What tables promise: a table is a finite map, a traversal visits each of its entries once, and the
  sizes a rehash chooses.
\<close>

section \<open>Traversal\<close>

text \<open>The positions of a table: first the slots of the array part, then the nodes.\<close>

definition positions :: "Table \<Rightarrow> nat" where
  "positions t = sizearray t + sizenode t"

definition key_at :: "Table \<Rightarrow> nat \<Rightarrow> TObject" where
  "key_at t i = (if i < sizearray t then key_of (int i + 1) else i_key (node t ! (i - sizearray t)))"

definition val_at :: "Table \<Rightarrow> nat \<Rightarrow> TObject" where
  "val_at t i = (if i < sizearray t then array t ! i else i_val (node t ! (i - sizearray t)))"

definition live_from :: "Table \<Rightarrow> nat \<Rightarrow> nat list" where
  "live_from t i = filter (\<lambda>j. val_at t j \<noteq> LNil) [i..<positions t]"

lemma find_upt:
  "case find p [i..<n] of None \<Rightarrow> filter p [i..<n] = []
   | Some j \<Rightarrow> i \<le> j \<and> j < n \<and> p j \<and> filter p [i..<n] = j # filter p [Suc j..<n]"
proof (induction "n - i" arbitrary: i)
  case (Suc d)
  then have "[i..<n] = i # [Suc i..<n]"
    by (simp add: upt_conv_Cons)
  moreover have "d = n - Suc i"
    using Suc.hyps(2) by simp
  moreover have "i < n"
    using Suc.hyps(2) by simp
  ultimately show ?case
    using Suc.hyps(1) [of "Suc i"] by (auto split: option.splits)
qed simp

lemma find_append: "find p (xs @ ys) = (case find p xs of None \<Rightarrow> find p ys | Some x \<Rightarrow> Some x)"
  by (induction xs) auto

lemma find_map: "find p (map f xs) = map_option f (find (\<lambda>x. p (f x)) xs)"
  by (induction xs) auto

lemma find_cong_on: "(\<And>x. x \<in> set xs \<Longrightarrow> p x = q x) \<Longrightarrow> find p xs = find q xs"
  by (induction xs) auto

lemma luaH_next_from:
  assumes "luaH_index t key = Inr (int i - 1)"
  shows "luaH_next t key = Inr (map_option (\<lambda>j. (key_at t j, val_at t j)) (find (\<lambda>j. val_at t j \<noteq> LNil) [i..<positions t]))"
proof -
  let ?n = "sizearray t" and ?m = "max i (sizearray t)"
  have "find (\<lambda>j. val_at t j \<noteq> LNil) [i..<?n] = find (\<lambda>i. array t ! i \<noteq> LNil) [i..<?n]"
    by (rule find_cong_on) (simp add: val_at_def)
  moreover have "find (\<lambda>j. val_at t j \<noteq> LNil) (map ((+) ?n) [?m - ?n..<sizenode t]) =
      map_option ((+) ?n) (find (\<lambda>i. i_val (node t ! i) \<noteq> LNil) [?m - ?n..<sizenode t])"
    by (simp add: find_map val_at_def)
  moreover have "map ((+) ?n) [?m - ?n..<sizenode t] = [?m..<positions t]"
    by (rule nth_equalityI) (auto simp: positions_def)
  moreover have "[i..<positions t] = [i..<?n] @ [?m..<positions t]"
    using upt_add_eq_append [of i ?n "sizenode t"] by (cases "i \<le> ?n") (simp_all add: positions_def max_def)
  ultimately have f: "find (\<lambda>j. val_at t j \<noteq> LNil) [i..<positions t] =
      (case find (\<lambda>i. array t ! i \<noteq> LNil) [i..<?n] of
         None \<Rightarrow> map_option ((+) ?n) (find (\<lambda>i. i_val (node t ! i) \<noteq> LNil) [?m - ?n..<sizenode t])
       | Some j \<Rightarrow> Some j)"
    by (simp only: find_append)
  show ?thesis
  proof (cases "find (\<lambda>i. array t ! i \<noteq> LNil) [i..<?n]")
    case None
    then show ?thesis
      unfolding f luaH_next_def first_from_def assms
      by (simp add: key_at_def val_at_def split: option.split)
  next
    case (Some j)
    then have "j < ?n"
      using find_upt [of "\<lambda>i. array t ! i \<noteq> LNil" i ?n] by simp
    then show ?thesis
      unfolding f luaH_next_def first_from_def assms by (simp add: Some key_at_def val_at_def key_of_def)
  qed
qed

lemma luaH_index_key_at:
  assumes t: "wf_table t" and i: "i < positions t" "val_at t i \<noteq> LNil"
  shows "luaH_index t (key_at t i) = Inr (int (Suc i) - 1)"
proof (cases "i < sizearray t")
  case True
  have "arrayindex (key_of (int i + 1)) = int i + 1"
    using arrayindex_slice_key [OF wf_coreD(1) True] t by (simp add: wf_table_def)
  then show ?thesis
    using True by (simp add: luaH_index_def key_at_def key_of_def)
next
  case False
  define j where "j = i - sizearray t"
  have c: "wf_core t" and j: "j < length (node t)" "i_val (node t ! j) \<noteq> LNil"
    using t i False wf_sizesD(1) [OF wf_coreD(1), of t]
    by (auto simp: wf_table_def j_def positions_def val_at_def sizenode_def push_bit_eq_mult)
  let ?k = "i_key (node t ! j)"
  have k: "valid_key ?k" "\<not> in_array t ?k"
    using wf_keysD(1,3) [OF wf_coreD(3) [OF c] j(1)] j(2) by blast+
  have "slot_of t ?k = SNode j"
    using node_of_Some [OF wf_coreD(3) [OF c] k(1), of j] k j(1) by (simp add: slot_of_def)
  moreover have "\<not> (0 \<le> arrayindex ?k \<and> arrayindex ?k \<le> int (sizearray t))"
    using k(2) arrayindex_range [of ?k] by (auto simp: in_array_def)
  moreover have "?k \<noteq> LNil"
    using k(1) by auto
  moreover have "int j + int (sizearray t) = int i"
    using False by (simp add: j_def)
  ultimately show ?thesis
    using False luaH_get_slot [OF c k(1)] by (simp add: luaH_index_def key_at_def Let_def flip: j_def)
qed

text \<open>The loop \<open>for key, value in next, t\<close>, with fuel.\<close>

fun traverse :: "nat \<Rightarrow> Table \<Rightarrow> TObject \<Rightarrow> (TObject \<times> TObject) list res" where
  "traverse 0 t key = Inl NoReturn"
| "traverse (Suc fuel) t key =
    bindR (luaH_next t key) (\<lambda>r. case r of
        None \<Rightarrow> Inr []
      | Some (k, v) \<Rightarrow> bindR (traverse fuel t k) (\<lambda>es. Inr ((k, v) # es)))"

definition table_entries :: "Table \<Rightarrow> (TObject \<times> TObject) list" where
  "table_entries t = map (\<lambda>j. (key_at t j, val_at t j)) (live_from t 0)"

lemma traverse_from:
  assumes t: "wf_table t"
  shows "luaH_index t key = Inr (int i - 1) \<Longrightarrow> i \<le> positions t \<Longrightarrow> positions t < fuel + i \<Longrightarrow>
    traverse fuel t key = Inr (map (\<lambda>j. (key_at t j, val_at t j)) (live_from t i))"
proof (induction fuel arbitrary: key i)
  case (Suc fuel)
  show ?case
  proof (cases "find (\<lambda>j. val_at t j \<noteq> LNil) [i..<positions t]")
    case None
    then show ?thesis
      using luaH_next_from [OF Suc.prems(1)] find_upt [of "\<lambda>j. val_at t j \<noteq> LNil" i "positions t"]
      by (simp add: live_from_def)
  next
    case (Some j)
    then have j: "i \<le> j" "j < positions t" "val_at t j \<noteq> LNil" "live_from t i = j # live_from t (Suc j)"
      using find_upt [of "\<lambda>j. val_at t j \<noteq> LNil" i "positions t"] by (simp_all add: live_from_def)
    have "traverse fuel t (key_at t j) = Inr (map (\<lambda>j. (key_at t j, val_at t j)) (live_from t (Suc j)))"
      using luaH_index_key_at [OF t j(2,3)] j(1,2) Suc.prems(3) by (intro Suc.IH) simp_all
    then show ?thesis
      using luaH_next_from [OF Suc.prems(1)] Some j(4) by simp
  qed
qed simp

text \<open>The entries are those of the map, each once.\<close>

lemma set_table_entries: "(key, v) \<in> set (table_entries t) \<longleftrightarrow>
    (\<exists>j < positions t. key = key_at t j \<and> v = val_at t j \<and> v \<noteq> LNil)"
  by (auto simp: table_entries_def live_from_def)

lemma table_entries_to_move:
  assumes "wf_core t"
  shows "(key, v) \<in> set (table_entries t) \<longleftrightarrow> (key, v) \<in> set (to_move t 0)"
proof -
  have n: "length (node t) = sizenode t"
    using wf_sizesD(1) [OF wf_coreD(1) [OF assms]] by (simp add: sizenode_def push_bit_eq_mult)
  have "(\<exists>j < positions t. key = key_at t j \<and> v = val_at t j \<and> v \<noteq> LNil) \<longleftrightarrow>
      (\<exists>j < sizearray t. key = key_of (int j + 1) \<and> v = array t ! j \<and> v \<noteq> LNil) \<or>
      (\<exists>j < sizenode t. key = i_key (node t ! j) \<and> v = i_val (node t ! j) \<and> v \<noteq> LNil)" (is "?l = (?a \<or> ?n)")
  proof
    assume ?l
    then obtain j where j: "j < positions t" "key = key_at t j" "v = val_at t j" "v \<noteq> LNil"
      by blast
    then show "?a \<or> ?n"
    proof (cases "j < sizearray t")
      case False
      then have "?n"
        using j by (intro exI [of _ "j - sizearray t"]) (auto simp: key_at_def val_at_def positions_def)
      then show ?thesis ..
    qed (auto simp: key_at_def val_at_def)
  next
    assume "?a \<or> ?n"
    then show ?l
    proof
      assume ?a
      then show ?l
        by (auto simp: key_at_def val_at_def positions_def)
    next
      assume ?n
      then obtain j where "j < sizenode t" "key = i_key (node t ! j)" "v = i_val (node t ! j)" "v \<noteq> LNil"
        by blast
      then show ?l
        by (intro exI [of _ "sizearray t + j"]) (simp add: key_at_def val_at_def positions_def)
    qed
  qed
  also have "\<dots> \<longleftrightarrow> (key, v) \<in> set (slice 0 (array t)) \<or> (key, v) \<in> live (node t)"
    unfolding set_slice live_iff n by (auto simp: sizearray_def)
  finally show ?thesis
    unfolding set_table_entries by (simp add: to_move_def set_entries)
qed

lemma table_entries_content:
  assumes t: "wf_core t" and k: "valid_key k" and v: "v \<noteq> LNil"
  shows "content t k = v \<longleftrightarrow> (\<exists>key. (key, v) \<in> set (table_entries t) \<and> luaO_rawequalObj key k)"
proof
  assume c: "content t k = v"
  have "\<not> (in_array t k \<and> arrayindex k \<le> int 0)"
    by (simp add: in_array_def)
  with entry_to_move [OF t k, of 0] c v obtain key where "(key, v) \<in> set (to_move t 0)" "luaO_rawequalObj key k"
    by blast
  then show "\<exists>key. (key, v) \<in> set (table_entries t) \<and> luaO_rawequalObj key k"
    using table_entries_to_move [OF t] by blast
next
  assume "\<exists>key. (key, v) \<in> set (table_entries t) \<and> luaO_rawequalObj key k"
  then show "content t k = v"
    using to_move_entry(1) [OF t _ k] table_entries_to_move [OF t] by blast
qed

lemma key_at_inj:
  assumes t: "wf_core t" and i: "i < positions t" "val_at t i \<noteq> LNil" and j: "j < positions t" "val_at t j \<noteq> LNil"
    and e: "luaO_rawequalObj (key_at t i) (key_at t j)"
  shows "i = j"
proof -
  have n: "length (node t) = sizenode t"
    using wf_sizesD(1) [OF wf_coreD(1) [OF t]] by (simp add: sizenode_def push_bit_eq_mult)
  have a: "in_array t (key_at t i) \<and> arrayindex (key_at t i) = int i + 1" if "i < sizearray t" for i
    using arrayindex_slice_key [OF wf_coreD(1) [OF t] that] that by (simp add: key_at_def)
  have b: "i - sizearray t < length (node t) \<and> valid_key (i_key (node t ! (i - sizearray t))) \<and> \<not> in_array t (key_at t i)"
    if "i < positions t" "val_at t i \<noteq> LNil" "\<not> i < sizearray t" for i
  proof -
    have l: "i - sizearray t < length (node t)" "i_val (node t ! (i - sizearray t)) \<noteq> LNil"
      using that n by (simp_all add: val_at_def positions_def)
    then show ?thesis
      using that(3) wf_keysD(1) [OF wf_coreD(3) [OF t] l] wf_keysD(3) [OF wf_coreD(3) [OF t] l(1)]
      unfolding key_at_def by metis
  qed
  have s: "i < sizearray t \<longleftrightarrow> j < sizearray t"
    using a [of i] a [of j] b [OF i] b [OF j] in_array_cong [OF e, of t] by auto
  show ?thesis
  proof (cases "i < sizearray t")
    case True
    then show ?thesis
      using s a [OF True] a [of j] arrayindex_cong [OF e] by linarith
  next
    case False
    then have "i - sizearray t = j - sizearray t"
      using s e b [OF i False] b [OF j] wf_keysD(4) [OF wf_coreD(3) [OF t], of "i - sizearray t" "j - sizearray t"]
      unfolding key_at_def by metis
    then show ?thesis
      using False s by simp
  qed
qed

lemma table_entries_distinct:
  assumes "wf_core t"
  shows "sorted_wrt (\<lambda>e e'. \<not> luaO_rawequalObj (fst e) (fst e')) (table_entries t)"
proof -
  have "sorted_wrt (\<lambda>i j. \<not> luaO_rawequalObj (key_at t i) (key_at t j)) (live_from t 0)"
    unfolding live_from_def
  proof (rule sorted_wrt_mono_rel [where P = "(<)"])
    show "sorted_wrt (<) (filter (\<lambda>j. val_at t j \<noteq> LNil) [0..<positions t])"
      by (intro sorted_wrt_filter) (simp add: strict_sorted_list_of_set)
  next
    fix i j
    assume "i \<in> set (filter (\<lambda>j. val_at t j \<noteq> LNil) [0..<positions t])"
      "j \<in> set (filter (\<lambda>j. val_at t j \<noteq> LNil) [0..<positions t])" "i < j"
    then show "\<not> luaO_rawequalObj (key_at t i) (key_at t j)"
      using key_at_inj [OF assms, of i j] by simp blast
  qed
  then show ?thesis
    by (simp add: table_entries_def sorted_wrt_map)
qed

section \<open>The flags\<close>

text \<open>An insertion leaves the flags as they are or clears them; an assignment clears them.\<close>

definition flags_kept :: "Table \<Rightarrow> Table \<Rightarrow> bool" where
  "flags_kept t t' \<longleftrightarrow> flags t' = flags t \<or> flags t' = 0"

lemma flags_kept_refl [simp]: "flags_kept t t"
  by (simp add: flags_kept_def)

lemma flags_kept_trans: "flags_kept t t' \<Longrightarrow> flags_kept t' t'' \<Longrightarrow> flags_kept t t''"
  by (auto simp: flags_kept_def)

lemma flags_kept_slot_set [simp]: "flags_kept t (slot_set t' p v) = flags_kept t t'"
  "flags_kept (slot_set t' p v) t = flags_kept t' t"
  by (simp_all add: flags_kept_def)

definition keeps_flags :: "inserter \<Rightarrow> bool" where
  "keeps_flags nk \<longleftrightarrow> (\<forall>t key t' p. nk t key = Inr (t', p) \<longrightarrow> flags_kept t t')"

lemma set_with_flags: "keeps_flags nk \<Longrightarrow> luaH_set_with nk t key = Inr (t', p) \<Longrightarrow> flags t' = 0"
  by (fastforce simp: luaH_set_with_def keeps_flags_def flags_kept_def Let_def bindR_def split: sum.splits if_splits)

lemma setnum_with_flags: "keeps_flags nk \<Longrightarrow> luaH_setnum_with nk t i = Inr (t', p) \<Longrightarrow> flags_kept t t'"
  by (fastforce simp: luaH_setnum_with_def keeps_flags_def bindR_def split: sum.splits if_splits)

lemma reinsert_array_flags: "keeps_flags nk \<Longrightarrow> reinsert_array nk t i vs = Inr t' \<Longrightarrow> flags_kept t t'"
proof (induction vs arbitrary: t i)
  case (Cons v vs)
  show ?case
  proof (cases "v = LNil")
    case False
    then obtain t1 p where "luaH_setnum_with nk t (int i + 1) = Inr (t1, p)"
      "reinsert_array nk (slot_set t1 p v) (i + 1) vs = Inr t'"
      using Cons.prems(2) by (auto simp: bindR_def split: sum.splits)
    then show ?thesis
      using Cons.IH [OF Cons.prems(1)] setnum_with_flags [OF Cons.prems(1)] flags_kept_trans by fastforce
  qed (use Cons in auto)
qed simp

lemma reinsert_nodes_flags: "keeps_flags nk \<Longrightarrow> reinsert_nodes nk t ns = Inr t' \<Longrightarrow> flags_kept t t'"
proof (induction ns arbitrary: t)
  case (Cons n ns)
  show ?case
  proof (cases "i_val n = LNil")
    case False
    then obtain t1 p where t1: "luaH_set_with nk t (i_key n) = Inr (t1, p)"
      "reinsert_nodes nk (slot_set t1 p (i_val n)) ns = Inr t'"
      using Cons.prems(2) by (auto simp: bindR_def split: sum.splits)
    then have "flags_kept t t1"
      using set_with_flags [OF Cons.prems(1)] by (simp add: flags_kept_def)
    then show ?thesis
      using Cons.IH [OF Cons.prems(1) t1(2)] flags_kept_trans by fastforce
  qed (use Cons in auto)
qed simp

lemma rehash_with_flags:
  assumes nk: "keeps_flags nk" and r: "rehash_with nk t = Inr t'"
  shows "flags_kept t t'"
proof -
  obtain na nh where n: "numuse t = (na, nh)"
    by fastforce
  let ?l = "nat (luaO_log2 (word_of_nat nh) + 1)"
  let ?t0 = "if sizearray t < na then setarrayvector t na else t"
  obtain t1 where t1: "setnodevector ?t0 ?l = Inr t1"
    using r by (auto simp: rehash_with_def n resize_with_def Let_def bindR_def split: sum.splits)
  then obtain t2 where t2: "(if na < sizearray t
        then reinsert_array nk (t1\<lparr>array := take na (array t1)\<rparr>) na (drop na (array t1)) else Inr t1) = Inr t2"
      "reinsert_nodes nk t2 (rev (node t)) = Inr t'"
    using r by (auto simp: rehash_with_def n resize_with_def Let_def bindR_def split: sum.splits)
  have "flags t1 = flags t"
    using t1 by (auto simp: setnodevector_def setarrayvector_def Let_def split: if_splits)
  moreover have "flags_kept t1 t2"
    using t2(1) reinsert_array_flags [OF nk, of "t1\<lparr>array := take na (array t1)\<rparr>"]
    by (auto simp: flags_kept_def split: if_splits)
  ultimately show ?thesis
    using reinsert_nodes_flags [OF nk t2(2)] by (auto simp: flags_kept_def)
qed

lemma place_key_flags: "place_key t key = Inr (t', mp) \<Longrightarrow> flags t' = flags t"
  by (auto simp: place_key_def Let_def bindR_def split: if_splits sum.splits)

lemma newkey_flags: "keeps_flags (newkey f)"
proof (induction f)
  case 0
  then show ?case
    by (simp add: keeps_flags_def newkey.simps)
next
  case (Suc f)
  show ?case
    unfolding keeps_flags_def
  proof (intro allI impI)
    fix t key t' p
    assume n: "newkey (Suc f) t key = Inr (t', p)"
    then obtain t1 mp where t1: "place_key t key = Inr (t1, mp)"
      by (auto simp: newkey.simps bindR_def split: sum.splits)
    note f1 = place_key_flags [OF t1]
    show "flags_kept t t'"
    proof (cases "correct_firstfree (node t1) (firstfree t1)")
      case (Some ff)
      then show ?thesis
        using n t1 f1 by (auto simp: newkey.simps flags_kept_def)
    next
      case None
      then obtain t2 where "rehash_with (newkey f) (slot_set t1 (SNode mp) (LBoolean 0)) = Inr t2" "flags t' = flags t2"
        using n t1 by (auto simp: newkey.simps Let_def bindR_def split: sum.splits)
      then show ?thesis
        using rehash_with_flags [OF Suc] f1 by (fastforce simp: flags_kept_def)
    qed
  qed
qed

lemma luaH_set_flags: "luaH_set t key = Inr (t', p) \<Longrightarrow> flags t' = 0"
  using set_with_flags [OF newkey_flags] by (simp add: luaH_set_def)

section \<open>The interface of a map\<close>

text \<open>
  What the rest of the program relies on: \<open>get\<close> and \<open>put\<close> are partial only in that \<open>put\<close> can fail,
  and a \<open>get\<close> after a \<open>put\<close> finds the value under every key that is the same.
\<close>

locale key_map =
  fixes get :: "'t \<Rightarrow> 'k \<Rightarrow> 'v"
    and put :: "'t \<Rightarrow> 'k \<Rightarrow> 'v \<Rightarrow> 'e + 't"
    and ok :: "'t \<Rightarrow> bool"
    and key :: "'k \<Rightarrow> bool"
    and same :: "'k \<Rightarrow> 'k \<Rightarrow> bool"
  assumes put_ok: "ok t \<Longrightarrow> key k \<Longrightarrow> put t k v = Inr t' \<Longrightarrow> ok t'"
    and get_put: "ok t \<Longrightarrow> key k \<Longrightarrow> key k' \<Longrightarrow> put t k v = Inr t' \<Longrightarrow> get t' k' = (if same k k' then v else get t k')"
    and same_sym: "same k k' \<Longrightarrow> same k' k"
begin

lemma put_overwrite:
  assumes "ok t" "key k" "key k'" "put t k v = Inr t1" "put t1 k w = Inr t2"
  shows "ok t2" "get t2 k' = (if same k k' then w else get t k')"
  using assms put_ok [of t k v t1] put_ok [of t1 k w t2] get_put [of t k k' v t1] get_put [of t1 k k' w t2] by auto

lemma put_commute:
  assumes "ok t" "key k" "key j" "\<not> same k j" "key i"
    "put t k v = Inr t1" "put t1 j w = Inr t2" "put t j w = Inr s1" "put s1 k v = Inr s2"
    "\<And>i. same k i \<Longrightarrow> \<not> same j i"
  shows "get t2 i = get s2 i"
  using assms put_ok [of t k v t1] put_ok [of t j w s1] get_put [of t k i v t1] get_put [of t1 j i w t2]
    get_put [of t j i w s1] get_put [of s1 k i v s2] by auto

end

lemma table_store_Inr: "wf_table t \<Longrightarrow> valid_key k \<Longrightarrow> table_store t k v = Inr t' \<Longrightarrow> assigns t k v t'"
  using table_store_ok [of t k v] by (auto simp: overflow_def)

interpretation table_map: key_map content table_store wf_table valid_key luaO_rawequalObj
  by unfold_locales (auto dest: table_store_Inr rawequal_sym simp: assigns_def)

text \<open>The list of the entries, and the numbers of them that \<open>numuse\<close> counts.\<close>

lemma slice_nth: "slice i vs = map (\<lambda>j. (key_of (int (i + j) + 1), vs ! j)) (filter (\<lambda>j. vs ! j \<noteq> LNil) [0..<length vs])"
proof (induction vs arbitrary: i)
  case (Cons v vs)
  have "[0..<length (v # vs)] = 0 # map Suc [0..<length vs]"
    by (simp add: upt_conv_Cons map_Suc_upt del: upt_Suc)
  then show ?case
    by (simp only: slice.simps filter.simps) (simp add: Cons filter_map comp_def)
qed simp

lemma table_entries_split:
  assumes "wf_core t"
  shows "table_entries t = slice 0 (array t) @ entries (node t)"
proof -
  have n: "length (node t) = sizenode t"
    using wf_sizesD(1) [OF wf_coreD(1) [OF assms]] by (simp add: sizenode_def push_bit_eq_mult)
  have "[0..<positions t] = [0..<sizearray t] @ map ((+) (sizearray t)) [0..<sizenode t]"
    by (rule nth_equalityI) (auto simp: positions_def nth_append)
  then have l: "live_from t 0 = filter (\<lambda>j. val_at t j \<noteq> LNil) [0..<sizearray t] @
      map ((+) (sizearray t)) (filter (\<lambda>j. i_val (node t ! j) \<noteq> LNil) [0..<sizenode t])"
    by (simp add: live_from_def filter_map comp_def val_at_def)
  have "entries (node t) = map (\<lambda>j. (i_key (node t ! j), i_val (node t ! j))) (filter (\<lambda>j. i_val (node t ! j) \<noteq> LNil) [0..<sizenode t])"
    unfolding entries_def n [symmetric]
    by (subst (1) map_nth [symmetric, of "node t"]) (simp add: filter_map comp_def del: map_nth)
  moreover have "map (\<lambda>j. (key_at t j, val_at t j)) (filter (\<lambda>j. val_at t j \<noteq> LNil) [0..<sizearray t]) = slice 0 (array t)"
    unfolding slice_nth sizearray_def by (intro map_cong filter_cong) (auto simp: key_at_def val_at_def sizearray_def)
  ultimately show ?thesis
    by (simp add: table_entries_def l comp_def key_at_def val_at_def)
qed

lemma filter_less_upt: "filter (\<lambda>j. j < n) [0..<m] = [0..<min n m]"
  by (induction m) (auto simp: min_def le_Suc_eq)

lemma index_slice:
  assumes "wf_core t"
  shows "length (filter (\<lambda>e. index_upto n (fst e)) (slice 0 (array t))) = count_used (array t) 0 (min n (sizearray t))"
proof -
  have k: "index_upto n (key_of (int j + 1)) \<longleftrightarrow> j < n" if "j < sizearray t" for j
    using arrayindex_slice_key [OF wf_coreD(1) [OF assms] that] by (simp add: index_upto_def) linarith
  have "filter (\<lambda>j. index_upto n (key_of (int j + 1)) \<and> array t ! j \<noteq> LNil) [0..<sizearray t] =
      filter (\<lambda>j. array t ! j \<noteq> LNil) (filter (\<lambda>j. j < n) [0..<sizearray t])"
    unfolding filter_filter by (rule filter_cong) (auto simp: k)
  also have "filter (\<lambda>j. j < n) [0..<sizearray t] = [0..<min n (sizearray t)]"
    by (rule filter_less_upt)
  finally show ?thesis
    by (simp add: slice_nth filter_map comp_def count_used_def sizearray_def conj_commute)
qed

lemma numuse_entries:
  assumes "wf_core t"
  shows "index_entries t n = length (filter (\<lambda>e. index_upto n (fst e)) (table_entries t))"
    "used_entries t = length (table_entries t)"
  using index_slice [OF assms] count_used_filter [of "sizearray t" "array t" 0]
  by (simp_all add: table_entries_split [OF assms] index_entries_def used_entries_def length_slice sizearray_def)

section \<open>Properties\<close>

lemma overflow_positions: "wf_table t \<Longrightarrow>
    overflow t r \<longleftrightarrow> r = Inl (RunError ''table overflow'') \<and> 2 ^ MAXBITS \<le> positions t"
  using wf_sizesD(1) [OF wf_coreD(1), of t]
  by (simp add: wf_table_def positions_def sizenode_def push_bit_eq_mult overflow_def)

text \<open>A table for examples: \<open>{[1] = true}\<close> with two array slots and two nodes.\<close>

definition sample :: Table where
  "sample = fresh \<lparr>flags = 0, lsizenode = 0, metatable = 7, array = [], node = [], firstfree = 0\<rparr>
     [LBoolean 1, LNil] 1"

lemma wf_sample: "wf_table sample"
  unfolding sample_def by (rule wf_fresh) (simp_all add: MAXBITS_def)

lemma positions_sample: "positions sample = 4"
  by (simp add: sample_def positions_def sizearray_def sizenode_def)

lemma lookup_sample: "table_lookup sample (key_of 1) = Inr (LBoolean 1)"
proof -
  have "arrayindex (key_of 1) = 1"
    by (rule arrayindex_key_of) (simp_all add: MAXBITS_def)
  then have "content sample (key_of 1) = LBoolean 1"
    unfolding sample_def by (simp add: content_fresh in_array_def sizearray_def)
  then show ?thesis
    by (simp add: table_lookup_ok [OF wf_sample] INT_MIN_def INT_MAX_def)
qed

lemma valid_key_1: "valid_key (key_of 1)"
  by (rule valid_key_of) (simp_all add: INT_MIN_def INT_MAX_def)

text \<open>
  C16: a table is a finite map.  An assignment to a well-formed table fails only when the table has about
  2 ^ 24 places, with \<open>table overflow\<close>; else the new table is well-formed, keeps its metatable,
  and a lookup finds the new value under every key that is raw equal to the assigned one and the old
  value under every other, however the assignment had to move colliding nodes or to rehash.
\<close>

theorem table_is_map:
  assumes "wf_table t" "valid_key key"
  shows "table_store t key v = Inl (RunError ''table overflow'') \<and> 2 ^ MAXBITS \<le> positions t \<or>
    (\<exists>t'. table_store t key v = Inr t' \<and> wf_table t' \<and> metatable t' = metatable t \<and>
       (\<forall>k. valid_key k \<longrightarrow> table_lookup t' k = (if luaO_rawequalObj key k then Inr v else table_lookup t k)))"
  using table_store_ok [OF assms, of v] assms(1)
  by (auto simp: overflow_positions assigns_def table_lookup_ok)

lemma table_is_map_witness:
  "\<exists>t'. table_store sample (LString ''x'') (LBoolean 0) = Inr t' \<and> wf_table t' \<and>
     table_lookup t' (LString ''x'') = Inr (LBoolean 0) \<and> table_lookup t' (key_of 1) = Inr (LBoolean 1)"
proof -
  have "\<not> luaO_rawequalObj (LString ''x'') (key_of 1)"
    by (simp add: luaO_rawequalObj_def key_of_def)
  then show ?thesis
    using table_is_map [OF wf_sample, of "LString ''x''" "LBoolean 0"] valid_key_1 lookup_sample
    by (auto simp: positions_sample MAXBITS_def luaO_rawequalObj_def)
qed

text \<open>
  a new table of any size that fits is well-formed and empty.
\<close>

theorem new_table_empty:
  assumes "narray \<le> 2 ^ MAXBITS" "lnhash \<le> MAXBITS"
  shows "\<exists>t. luaH_new meta narray lnhash = Inr t \<and> wf_table t \<and>
    (\<forall>k. valid_key k \<longrightarrow> table_lookup t k = Inr LNil)"
  using wf_luaH_new [OF assms, of meta] table_lookup_ok by metis

lemma new_table_empty_witness:
  "\<exists>t. luaH_new 7 5 2 = Inr t \<and> wf_table t \<and> table_lookup t (LString ''x'') = Inr LNil"
  using new_table_empty [of 5 2 7] by (auto simp: MAXBITS_def)

text \<open>
  C22: \<open>luaH_next\<close>, called again and again with the key it gave, from nil on, ends, and gives every
  entry of the map exactly once: the keys are pairwise different and the pairs are those of the map.
\<close>

theorem next_visits_all:
  assumes "wf_table t"
  shows "\<exists>es. traverse (positions t + 1) t LNil = Inr es \<and>
    sorted_wrt (\<lambda>e e'. \<not> luaO_rawequalObj (fst e) (fst e')) es \<and>
    (\<forall>k v. valid_key k \<longrightarrow> v \<noteq> LNil \<longrightarrow>
       (table_lookup t k = Inr v \<longleftrightarrow> (\<exists>key. (key, v) \<in> set es \<and> luaO_rawequalObj key k)))"
proof (intro exI conjI allI impI)
  have c: "wf_core t"
    using assms by (simp add: wf_table_def)
  show "traverse (positions t + 1) t LNil = Inr (table_entries t)"
    using traverse_from [OF assms, of LNil 0 "positions t + 1"] by (simp add: luaH_index_def table_entries_def)
  show "sorted_wrt (\<lambda>e e'. \<not> luaO_rawequalObj (fst e) (fst e')) (table_entries t)"
    using table_entries_distinct [OF c] .
  fix k v assume "valid_key k" "v \<noteq> LNil"
  then show "table_lookup t k = Inr v \<longleftrightarrow> (\<exists>key. (key, v) \<in> set (table_entries t) \<and> luaO_rawequalObj key k)"
    using table_lookup_ok [OF assms] table_entries_content [OF c] by simp
qed

lemma next_visits_all_witness:
  "\<exists>es key. traverse 5 sample LNil = Inr es \<and> (key, LBoolean 1) \<in> set es \<and> luaO_rawequalObj key (key_of 1)"
proof -
  obtain es where es: "traverse (positions sample + 1) sample LNil = Inr es"
      "\<forall>k v. valid_key k \<longrightarrow> v \<noteq> LNil \<longrightarrow>
         (table_lookup sample k = Inr v \<longleftrightarrow> (\<exists>key. (key, v) \<in> set es \<and> luaO_rawequalObj key k))"
    using next_visits_all [OF wf_sample] by blast
  then obtain key where "(key, LBoolean 1) \<in> set es" "luaO_rawequalObj key (key_of 1)"
    using valid_key_1 lookup_sample by fastforce
  then show ?thesis
    using es(1) by (auto simp: positions_sample)
qed

text \<open>
  C32: the array part a rehash chooses is at most 2 ^ 24 long and at least half in use: \<open>numuse\<close>
  counts the entries with an integer key up to the new size and leaves the others to the hash part.
\<close>

theorem array_half_used:
  assumes "wf_table t"
  shows "\<exists>nasize. numuse t = (nasize, length (table_entries t) -
      length (filter (\<lambda>e. index_upto nasize (fst e)) (table_entries t))) \<and>
    nasize \<le> 2 ^ MAXBITS \<and> nasize \<le> 2 * length (filter (\<lambda>e. index_upto nasize (fst e)) (table_entries t))"
  using numuse_ok [of t] numuse_entries [of t] assms by (simp add: wf_table_def)

lemma array_half_used_witness:
  "\<exists>nasize. numuse sample = (nasize, length (table_entries sample) -
      length (filter (\<lambda>e. index_upto nasize (fst e)) (table_entries sample))) \<and>
    nasize \<le> 2 ^ MAXBITS \<and>
    nasize \<le> 2 * length (filter (\<lambda>e. index_upto nasize (fst e)) (table_entries sample))"
  by (rule array_half_used [OF wf_sample])

end
