(* ===== verification/TagMethods.thy ===== *)
theory TagMethods
  imports Vm TableOps
begin

text \<open>
  Tag methods and their cache: a bit of the flags of a metatable says that it has no such method.
  \<open>luaT_gettm\<close> sets it and \<open>luaH_set\<close> clears all of them.
\<close>

section \<open>The cache is right\<close>

definition fast_events :: "TMS list" where
  "fast_events = [TM_INDEX, TM_NEWINDEX, TM_GC, TM_MODE, TM_EQ]"

definition cached_absent :: "Table \<Rightarrow> TMS \<Rightarrow> bool" where
  "cached_absent t e \<longleftrightarrow> flags t AND push_bit (tm_num e) 1 \<noteq> 0"

definition cache_ok :: "Table \<Rightarrow> bool" where
  "cache_ok t \<longleftrightarrow> (\<forall>e \<in> set fast_events. cached_absent t e \<longrightarrow> content t (LString (tmname e)) = LNil)"

lemma cache_ok_cleared: "flags t = 0 \<Longrightarrow> cache_ok t"
  by (simp add: cache_ok_def cached_absent_def)

lemma getstr_val_content: "wf_table t \<Longrightarrow> getstr_val t s = Inr (content t (LString s))"
  by (simp add: getstr_val_def luaH_getstr_slot wf_table_def content_def)

lemma cached_absent_set:
  assumes "e \<in> set fast_events" "e' \<in> set fast_events"
  shows "cached_absent (t\<lparr>flags := flags t OR push_bit (tm_num e') 1\<rparr>) e \<longleftrightarrow> cached_absent t e \<or> e = e'"
proof -
  define p q where "p = (push_bit (tm_num e') 1 :: 8 word)" and "q = (push_bit (tm_num e) 1 :: 8 word)"
  have pq: "p AND q = (if e = e' then q else 0)" "q \<noteq> 0"
    using assms by (auto simp: p_def q_def fast_events_def)
  have "(f OR p) AND q = (f AND q) OR (p AND q)" "(f AND q) OR q = q" for f
    by (auto simp: bit_eq_iff bit_simps)
  then have "(flags t OR p) AND q \<noteq> 0 \<longleftrightarrow> flags t AND q \<noteq> 0 \<or> e = e'"
    using pq by simp
  then show ?thesis
    by (simp add: cached_absent_def p_def q_def)
qed

lemma luaH_set_slot_get:
  assumes "wf_table t" "valid_key k" "luaH_set t k = Inr (t', p)"
  shows "slot_get t' p = content t k" "wf_table t'" "metatable t' = metatable t" "p = slot_of t' k" "p \<noteq> SNil"
    "flags t' = 0" "\<And>x. valid_key x \<Longrightarrow> content t' x = content t x"
  using luaH_set_ok [OF assms(1,2)] assms(2,3) luaH_set_flags [OF assms(3)]
  by (auto simp: overflow_def inserts_def content_def)

text \<open>What an operation must leave as it was: everything but the flags.\<close>

definition heap_ok :: "lua_State \<Rightarrow> bool" where
  "heap_ok L \<longleftrightarrow> (\<forall>h. wf_table (tabs L h) \<and> cache_ok (tabs L h))"

definition same_view :: "lua_State \<Rightarrow> lua_State \<Rightarrow> bool" where
  "same_view L L' \<longleftrightarrow> L' = L\<lparr>tabs := tabs L'\<rparr> \<and>
     (\<forall>h. metatable (tabs L' h) = metatable (tabs L h) \<and>
       (\<forall>k. valid_key k \<longrightarrow> content (tabs L' h) k = content (tabs L h) k))"

lemma same_view_refl [simp]: "same_view L L"
  by (simp add: same_view_def)

lemma same_viewD: "same_view L L' \<Longrightarrow> metatable (tabs L' h) = metatable (tabs L h)"
  "same_view L L' \<Longrightarrow> valid_key k \<Longrightarrow> content (tabs L' h) k = content (tabs L h) k"
  by (simp_all add: same_view_def)

lemma tabs_set_table [simp]: "tabs (set_table h t L) h' = (if h' = h then t else tabs L h')"
  by (simp add: set_table_def)

lemma set_table_tabs [simp]: "(set_table h t L)\<lparr>tabs := x\<rparr> = L\<lparr>tabs := x\<rparr>"
  by (simp add: set_table_def)

lemma same_view_set_table:
  "metatable t = metatable (tabs L h) \<Longrightarrow> (\<And>k. valid_key k \<Longrightarrow> content t k = content (tabs L h) k) \<Longrightarrow>
    same_view L (set_table h t L)"
  by (simp add: same_view_def) (simp add: set_table_def)

lemma tmname_fast [simp]: "tmname TM_NEWINDEX = ''__newindex''" "tmname TM_INDEX = ''__index''"
  by (simp_all add: tmname_def luaT_eventname_def)

lemma fasttm_ok:
  assumes L: "heap_ok L" and e: "e \<in> set fast_events"
  obtains L' where "fasttm et e L = Inr (if content (tabs L et) (LString (tmname e)) = LNil then None
      else Some (content (tabs L et) (LString (tmname e))), L')" "heap_ok L'" "same_view L L'"
    "content (tabs L et) (LString (tmname e)) = LNil \<Longrightarrow> cached_absent (tabs L' et) e"
    "\<And>h e'. e' \<in> set fast_events \<Longrightarrow> cached_absent (tabs L' h) e' \<Longrightarrow> cached_absent (tabs L h) e' \<or> e' = e \<and> h = et"
    "\<And>h k. slot_of (tabs L' h) k = slot_of (tabs L h) k"
proof -
  let ?t = "tabs L et" and ?f = "LString (tmname e)"
  have t: "wf_table ?t" "cache_ok ?t"
    using L by (simp_all add: heap_ok_def)
  show thesis
  proof (cases "cached_absent ?t e")
    case True
    then have n: "content ?t ?f = LNil"
      using t(2) e by (simp add: cache_ok_def)
    have "fasttm et e L = Inr (None, L)"
      using True by (simp add: fasttm_def cached_absent_def)
    then show thesis
      using True n L by (intro that [of L]) simp_all
  next
    case False
    then have r: "fasttm et e L = (if content ?t ?f = LNil
        then Inr (None, set_table et (?t\<lparr>flags := flags ?t OR push_bit (tm_num e) 1\<rparr>) L) else Inr (Some (content ?t ?f), L))"
      by (simp add: fasttm_def cached_absent_def luaT_gettm_def getstr_val_content [OF t(1)] Let_def)
    show thesis
    proof (cases "content ?t ?f = LNil")
      case True
      let ?t' = "?t\<lparr>flags := flags ?t OR push_bit (tm_num e) 1\<rparr>"
      have "cache_ok ?t'"
        using t(2) True cached_absent_set [OF _ e, of _ ?t] by (auto simp: cache_ok_def)
      then have "heap_ok (set_table et ?t' L)"
        using L t(1) by (auto simp: heap_ok_def)
      moreover have "same_view L (set_table et ?t' L)"
        by (rule same_view_set_table) simp_all
      ultimately show thesis
        using True r cached_absent_set [OF _ e, of _ ?t] e
        by (intro that [of "set_table et ?t' L"]) (simp_all split: if_splits)
    qed (use r L in \<open>intro that [of L], simp_all\<close>)
  qed
qed

lemma fasttm_none:
  assumes L: "heap_ok L" "e \<in> set fast_events" and n: "content (tabs L et) (LString (tmname e)) = LNil"
  obtains L' where "fasttm et e L = Inr (None, L')" "heap_ok L'" "same_view L L'" "cached_absent (tabs L' et) e"
    "\<And>h e'. e' \<in> set fast_events \<Longrightarrow> cached_absent (tabs L' h) e' \<Longrightarrow> cached_absent (tabs L h) e' \<or> e' = e \<and> h = et"
    "\<And>h k. slot_of (tabs L' h) k = slot_of (tabs L h) k"
proof (rule fasttm_ok [OF L, of et])
  fix L'
  assume "fasttm et e L = Inr (if content (tabs L et) (LString (tmname e)) = LNil then None
      else Some (content (tabs L et) (LString (tmname e))), L')" "heap_ok L'" "same_view L L'"
    "content (tabs L et) (LString (tmname e)) = LNil \<Longrightarrow> cached_absent (tabs L' et) e"
    "\<And>h e'. e' \<in> set fast_events \<Longrightarrow> cached_absent (tabs L' h) e' \<Longrightarrow> cached_absent (tabs L h) e' \<or> e' = e \<and> h = et"
    "\<And>h k. slot_of (tabs L' h) k = slot_of (tabs L h) k"
  with n show thesis
    by (intro that [of L']) simp_all
qed

section \<open>Assignment\<close>

lemma heap_ok_set: "heap_ok L \<Longrightarrow> wf_table t \<Longrightarrow> cache_ok t \<Longrightarrow> heap_ok (set_table h t L)"
  by (simp add: heap_ok_def)

lemma key_is_string: "luaO_rawequalObj k (LString s) \<longleftrightarrow> k = LString s"
  by (cases k) (auto simp: luaO_rawequalObj_def)

text \<open>The first step of \<open>luaV_settable\<close> when it does not fail: a raw slot for the key, with the old value in it.\<close>

lemma settable_slot:
  assumes L: "heap_ok L" and k: "valid_key key" and s: "luaH_set (tabs L h) key = Inr (tb, p)"
  shows "heap_ok (set_table h tb L)" "same_view L (set_table h tb L)" "metatable tb = metatable (tabs L h)"
    "slot_get tb p = content (tabs L h) key" "p = slot_of tb key" "p \<noteq> SNil" "wf_table tb" "flags tb = 0"
proof -
  have t: "wf_table (tabs L h)"
    using L by (simp add: heap_ok_def)
  note w = luaH_set_slot_get [OF t k s]
  show "heap_ok (set_table h tb L)"
    using heap_ok_set [OF L w(2) cache_ok_cleared [OF w(6)]] .
  show "same_view L (set_table h tb L)"
    using w(3,7) by (rule same_view_set_table)
  show "metatable tb = metatable (tabs L h)" "slot_get tb p = content (tabs L h) key" "p = slot_of tb key" "p \<noteq> SNil"
    "wf_table tb" "flags tb = 0"
    using w by blast+
qed

definition assigned :: "lua_State \<Rightarrow> addr \<Rightarrow> TObject \<Rightarrow> TObject \<Rightarrow> lua_State \<Rightarrow> bool" where
  "assigned L h key val L' \<longleftrightarrow> (\<forall>h' k. valid_key k \<longrightarrow> content (tabs L' h') k =
     (if h' = h \<and> luaO_rawequalObj key k then val else content (tabs L h') k))"

lemma assignedD: "assigned L h key val L' \<Longrightarrow> valid_key k \<Longrightarrow>
    content (tabs L' h') k = (if h' = h \<and> luaO_rawequalObj key k then val else content (tabs L h') k)"
  by (simp add: assigned_def)

lemma assigned_slot:
  assumes "same_view L L1" "wf_table (tabs L1 h)" "valid_key key" "slot_of (tabs L1 h) key \<noteq> SNil"
  shows "assigned L h key val (set_table h (slot_set (tabs L1 h) (slot_of (tabs L1 h) key) val) L1)"
  using assms content_slot_set [of "tabs L1 h" key _ val] same_viewD(2) [OF assms(1)]
  by (simp add: assigned_def wf_table_def)

lemma slot_set_cached [simp]: "cached_absent (slot_set t p v) e = cached_absent t e"
  by (simp add: cached_absent_def)

text \<open>
  An assignment that no tag method takes: the value is stored, and the cache stays right unless the
  table is its own metatable and the key is the name of the tag method that was just looked up.
\<close>

lemma settable_stores:
  assumes L: "heap_ok L" and k: "valid_key key"
    and no: "content (tabs L h) key \<noteq> LNil \<or> content (tabs L (metatable (tabs L h))) (LString ''__newindex'') = LNil"
    and s: "luaH_set (tabs L h) key = Inr (tb, p)"
  obtains L1 where "luaV_settable call (LTable h) key val L = Inr (set_table h (slot_set (tabs L1 h) p val) L1)"
    "heap_ok L1" "same_view L L1" "p = slot_of (tabs L1 h) key" "p \<noteq> SNil"
    "\<And>e. e \<in> set fast_events \<Longrightarrow> cached_absent (tabs L1 h) e \<Longrightarrow> e = TM_NEWINDEX \<and> metatable (tabs L h) = h \<and> content (tabs L h) key = LNil"
    "content (tabs L h) key = LNil \<Longrightarrow> metatable (tabs L h) = h \<Longrightarrow> cached_absent (tabs L1 h) TM_NEWINDEX"
proof -
  let ?L = "set_table h tb L" and ?m = "metatable (tabs L h)"
  note w = settable_slot [OF L k s]
  have c: "\<not> cached_absent tb e" for e
    using w(8) by (simp add: cached_absent_def)
  show thesis
  proof (cases "content (tabs L h) key = LNil")
    case False
    have "luaV_settable call (LTable h) key val L = Inr (set_table h (slot_set (tabs ?L h) p val) ?L)"
      unfolding luaV_settable_def using s False w(4) by (subst settable_loop.simps) (simp add: set_table_def)
    then show thesis
      using w c False by (intro that [of ?L]) simp_all
  next
    case True
    have e: "TM_NEWINDEX \<in> set fast_events"
      by (simp add: fast_events_def)
    have n: "content (tabs ?L ?m) (LString ''__newindex'') = LNil"
      using no True same_viewD(2) [OF w(2), of "LString ''__newindex''"] by simp
    from fasttm_none [OF w(1) e] obtain L1 where L1: "fasttm ?m TM_NEWINDEX ?L = Inr (None, L1)" "heap_ok L1" "same_view ?L L1"
        "cached_absent (tabs L1 ?m) TM_NEWINDEX"
        "\<And>h e'. e' \<in> set fast_events \<Longrightarrow> cached_absent (tabs L1 h) e' \<Longrightarrow> cached_absent (tabs ?L h) e' \<or> e' = TM_NEWINDEX \<and> h = ?m"
        "\<And>h k. slot_of (tabs L1 h) k = slot_of (tabs ?L h) k"
      using n by (simp only: tmname_fast) blast
    have "same_view L L1"
      using w(2) L1(3) by (auto simp: same_view_def)
    moreover have "slot_of (tabs L1 h) key = p"
      using w(5) L1(6) by simp
    moreover have "luaV_settable call (LTable h) key val L = Inr (set_table h (slot_set (tabs L1 h) p val) L1)"
      unfolding luaV_settable_def using s True w(3,4) L1(1) by (subst settable_loop.simps) simp
    ultimately show thesis
      using L1 w(6) c True by (intro that [of L1]) fastforce+
  qed
qed

section \<open>Properties\<close>

text \<open>A state for examples: every table has the metatable 7 and one entry, and caches nothing.\<close>

definition sample_state :: lua_State where
  "sample_state = empty_state\<lparr>tabs := (\<lambda>_. sample)\<rparr>"

lemma tabs_sample [simp]: "tabs sample_state h = sample"
  by (simp add: sample_state_def)

lemma metatable_sample [simp]: "metatable sample = 7"
  by (simp add: sample_def)

lemma heap_ok_sample: "heap_ok sample_state"
  using wf_sample by (simp add: heap_ok_def cache_ok_cleared sample_def fresh_def)

lemma content_sample [simp]: "content sample (LString s) = LNil"
  by (simp add: sample_def content_fresh in_array_def arrayindex_def)

text \<open>
  C24: with a right cache, \<open>fasttm\<close> finds exactly the field of the metatable, whether it looks it up or
  trusts the flags, and leaves a right cache; everything but the flags is as before.
\<close>

theorem fasttm_reads_field:
  assumes "heap_ok L" "e \<in> set fast_events"
  shows "\<exists>L'. fasttm et e L = Inr (if content (tabs L et) (LString (tmname e)) = LNil then None
      else Some (content (tabs L et) (LString (tmname e))), L') \<and> heap_ok L' \<and> same_view L L'"
  by (rule fasttm_ok [OF assms, of et]) blast

lemma fasttm_reads_field_witness: "\<exists>L'. fasttm 7 TM_EQ sample_state = Inr (None, L') \<and> heap_ok L'"
  using fasttm_reads_field [OF heap_ok_sample, of TM_EQ 7] by (auto simp: fast_events_def)

text \<open>
  C23: \<open>luaV_settable\<close> on a table, when no tag method takes the assignment, stores the value and
  nothing else, and keeps tables and cache right --- unless the table is its own metatable and the key is
  \<open>__newindex\<close>.  Its only error is \<open>table overflow\<close>.
\<close>

theorem settable_raw:
  assumes "heap_ok L" "valid_key key"
    and "content (tabs L h) key \<noteq> LNil \<or> content (tabs L (metatable (tabs L h))) (LString ''__newindex'') = LNil"
    and "\<not> (metatable (tabs L h) = h \<and> key = LString ''__newindex'')"
  shows "luaV_settable call (LTable h) key val L = Inl (RunError ''table overflow'') \<and>
      2 ^ MAXBITS \<le> positions (tabs L h) \<or>
    (\<exists>L'. luaV_settable call (LTable h) key val L = Inr L' \<and> heap_ok L' \<and> assigned L h key val L')"
proof -
  have t: "wf_table (tabs L h)"
    using assms(1) by (simp add: heap_ok_def)
  show ?thesis
    using luaH_set_ok [OF t assms(2)]
  proof
    assume "overflow (tabs L h) (luaH_set (tabs L h) key)"
    then show ?thesis
      unfolding luaV_settable_def by (subst settable_loop.simps) (simp add: overflow_positions [OF t])
  next
    assume "\<exists>tb p. luaH_set (tabs L h) key = Inr (tb, p) \<and> inserts (tabs L h) key tb p \<and> metatable tb = metatable (tabs L h)"
    then obtain tb p where s: "luaH_set (tabs L h) key = Inr (tb, p)"
      by blast
    obtain L1 where L1: "luaV_settable call (LTable h) key val L = Inr (set_table h (slot_set (tabs L1 h) p val) L1)"
      "heap_ok L1" "same_view L L1" "p = slot_of (tabs L1 h) key" "p \<noteq> SNil"
      "\<And>e. e \<in> set fast_events \<Longrightarrow> cached_absent (tabs L1 h) e \<Longrightarrow> e = TM_NEWINDEX \<and> metatable (tabs L h) = h \<and> content (tabs L h) key = LNil"
      by (rule settable_stores [OF assms(1-3) s, of call val]) (rule that)
    let ?t = "slot_set (tabs L1 h) p val"
    have w: "wf_table (tabs L1 h)"
      using L1(2) by (simp add: heap_ok_def)
    have "cache_ok ?t"
      unfolding cache_ok_def
    proof (intro ballI impI)
      fix e assume "e \<in> set fast_events" "cached_absent ?t e"
      then have e: "e = TM_NEWINDEX" "metatable (tabs L h) = h" "content (tabs L h) key = LNil"
        using L1(6) by simp_all
      then have "\<not> luaO_rawequalObj key (LString ''__newindex'')"
        using assms(4) by (simp add: key_is_string)
      then have "content ?t (LString ''__newindex'') = content (tabs L h) (LString ''__newindex'')"
        using content_slot_set [of "tabs L1 h" key "LString ''__newindex''" val] w assms(2) L1(4,5) same_viewD(2) [OF L1(3)]
        by (simp add: wf_table_def)
      then show "content ?t (LString (tmname e)) = LNil"
        using assms(3) e by simp
    qed
    moreover have "wf_table ?t"
      using wf_table_slot_set [OF w assms(2)] L1(4) by simp
    ultimately have "heap_ok (set_table h ?t L1)"
      using L1(2) by (intro heap_ok_set)
    moreover have "assigned L h key val (set_table h ?t L1)"
      using assigned_slot [OF L1(3) w assms(2)] L1(4,5) by simp
    ultimately show ?thesis
      using L1(1) by blast
  qed
qed

lemma settable_raw_witness:
  "\<exists>L'. luaV_settable (\<lambda>f args n L. Inr ([], L)) (LTable 3) (LString ''x'') (LBoolean 1) sample_state = Inr L' \<and>
     heap_ok L' \<and> content (tabs L' 3) (LString ''x'') = LBoolean 1 \<and> content (tabs L' 4) (LString ''x'') = LNil"
  using settable_raw [OF heap_ok_sample, of "LString ''x''" 3 "\<lambda>f args n L. Inr ([], L)" "LBoolean 1"]
  by (auto simp: positions_sample MAXBITS_def assigned_def key_is_string)

text \<open>
  C38: the cache is wrong after \<open>__newindex\<close> is assigned to a table that is its own metatable: the
  lookup of the tag method between the insertion of the key, which clears the flags, and the store of the
  value notes its absence.  After that, \<open>fasttm\<close> does not find the tag method that the table has.
\<close>

theorem newindex_cache_stale:
  assumes "heap_ok L" "metatable (tabs L h) = h" "content (tabs L h) (LString ''__newindex'') = LNil"
  shows "luaV_settable call (LTable h) (LString ''__newindex'') val L = Inl (RunError ''table overflow'') \<and>
      2 ^ MAXBITS \<le> positions (tabs L h) \<or>
    (\<exists>L'. luaV_settable call (LTable h) (LString ''__newindex'') val L = Inr L' \<and>
       content (tabs L' h) (LString ''__newindex'') = val \<and> fasttm h TM_NEWINDEX L' = Inr (None, L'))"
proof -
  let ?k = "LString ''__newindex''"
  have t: "wf_table (tabs L h)"
    using assms(1) by (simp add: heap_ok_def)
  show ?thesis
    using luaH_set_ok [OF t, of ?k]
  proof
    assume "overflow (tabs L h) (luaH_set (tabs L h) ?k)"
    then show ?thesis
      unfolding luaV_settable_def by (subst settable_loop.simps) (simp add: overflow_positions [OF t])
  next
    assume "\<exists>tb p. luaH_set (tabs L h) ?k = Inr (tb, p) \<and> inserts (tabs L h) ?k tb p \<and> metatable tb = metatable (tabs L h)"
    then obtain tb p where s: "luaH_set (tabs L h) ?k = Inr (tb, p)"
      by blast
    obtain L1 where L1: "luaV_settable call (LTable h) ?k val L = Inr (set_table h (slot_set (tabs L1 h) p val) L1)"
      "heap_ok L1" "same_view L L1" "p = slot_of (tabs L1 h) ?k" "p \<noteq> SNil" "cached_absent (tabs L1 h) TM_NEWINDEX"
      using assms(2,3) by (rule_tac settable_stores [OF assms(1) _ _ s, of call val]) simp_all
    let ?L = "set_table h (slot_set (tabs L1 h) p val) L1"
    have "assigned L h ?k val ?L"
      using assigned_slot [OF L1(3), of h ?k val] L1(2,4,5) by (simp add: heap_ok_def)
    then have "content (tabs ?L h) ?k = val"
      using assignedD [of L h ?k val ?L ?k h] by (simp add: key_is_string)
    moreover have "fasttm h TM_NEWINDEX ?L = Inr (None, ?L)"
      using L1(6) by (simp add: fasttm_def cached_absent_def)
    ultimately show ?thesis
      using L1(1) by blast
  qed simp
qed

lemma newindex_cache_stale_witness:
  "\<exists>L'. luaV_settable (\<lambda>f args n L. Inr ([], L)) (LTable 7) (LString ''__newindex'') (LTable 5) sample_state = Inr L' \<and>
     content (tabs L' 7) (LString ''__newindex'') = LTable 5 \<and> fasttm 7 TM_NEWINDEX L' = Inr (None, L')"
  using newindex_cache_stale [OF heap_ok_sample, of 7 "\<lambda>f args n L. Inr ([], L)" "LTable 5"]
  by (auto simp: positions_sample MAXBITS_def)

lemma gettable_step:
  assumes "heap_ok L" "valid_key key" "content (tabs L h) key = LNil" "loop \<le> MAXTAGLOOP"
    "content (tabs L (metatable (tabs L h))) (LString ''__index'') = LTable g"
  obtains L' where "luaV_gettable call (LTable h) key loop L = luaV_gettable call (LTable g) key (loop + 1) L'"
    "heap_ok L'" "same_view L L'"
proof (rule fasttm_ok [OF assms(1), of TM_INDEX "metatable (tabs L h)"])
  fix L'
  assume "fasttm (metatable (tabs L h)) TM_INDEX L = Inr (if content (tabs L (metatable (tabs L h))) (LString (tmname TM_INDEX)) = LNil then None
      else Some (content (tabs L (metatable (tabs L h))) (LString (tmname TM_INDEX))), L')" "heap_ok L'" "same_view L L'"
  moreover have "table_lookup (tabs L h) key = Inr LNil"
    using assms(1-3) by (simp add: heap_ok_def table_lookup_ok)
  ultimately show thesis
    using assms(4,5) by (intro that [of L']) (subst luaV_gettable.simps, simp_all add: ttisfunction_def)
qed (simp add: fast_events_def)

text \<open>
  C39: a table that is the \<open>__index\<close> of its own metatable does not make \<open>luaV_gettable\<close> loop: the search
  of a key that it does not have ends with an error.
\<close>

theorem index_loop_detected:
  assumes "heap_ok L" "valid_key key" "content (tabs L h) key = LNil" 
    and "content (tabs L (metatable (tabs L h))) (LString ''__index'') = LTable h"
  shows "luaV_gettable call (LTable h) key 0 L = Inl (RunError ''loop in gettable'')"
proof -
  have "luaV_gettable call (LTable h) key loop L = Inl (RunError ''loop in gettable'')" for loop
    using assms
  proof (induction "MAXTAGLOOP + 1 - loop" arbitrary: loop L)
    case 0
    then show ?case
      by (subst luaV_gettable.simps) (simp add: luaG_runerror_def)
  next
    case (Suc d)
    obtain L' where L': "luaV_gettable call (LTable h) key loop L = luaV_gettable call (LTable h) key (loop + 1) L'"
      "heap_ok L'" "same_view L L'"
      using Suc.hyps(2) by (rule_tac gettable_step [OF Suc.prems(1-3) _ Suc.prems(4), of loop call]) simp_all
    have "luaV_gettable call (LTable h) key (loop + 1) L' = Inl (RunError ''loop in gettable'')"
      using Suc.hyps(2) Suc.prems same_viewD [OF L'(3)] L'(2) by (intro Suc.hyps(1)) simp_all
    then show ?case
      using L'(1) by simp
  qed
  then show ?thesis .
qed

text \<open>In the example the metatable of every table has the table 3 as its \<open>__index\<close>.\<close>

definition index_meta :: Table where
  "index_meta = (case table_store sample (LString ''__index'') (LTable 3) of Inr t \<Rightarrow> t | Inl e \<Rightarrow> sample)"

definition index_state :: lua_State where
  "index_state = empty_state\<lparr>tabs := (\<lambda>h. if h = 7 then index_meta else sample)\<rparr>"

lemma index_loop_detected_witness:
  "luaV_gettable (\<lambda>f args n L. Inr ([], L)) (LTable 3) (LString ''x'') 0 index_state = Inl (RunError ''loop in gettable'')"
proof -
  obtain t' p where t': "luaH_set sample (LString ''__index'') = Inr (t', p)"
    using luaH_set_ok [OF wf_sample, of "LString ''__index''"]
    by (auto simp: overflow_positions [OF wf_sample] positions_sample MAXBITS_def)
  then have m: "index_meta = slot_set t' p (LTable 3)" "flags t' = 0"
    using luaH_set_flags [OF t'] by (simp_all add: index_meta_def table_store_def)
  then have a: "assigns sample (LString ''__index'') (LTable 3) index_meta"
    using table_store_Inr [OF wf_sample, of "LString ''__index''" "LTable 3" index_meta] t' by (simp add: table_store_def)
  then have "content index_meta (LString ''__index'') = LTable 3" "wf_table index_meta" "cache_ok index_meta"
    using m(2) by (auto simp: assigns_def key_is_string cache_ok_cleared m(1))
  then show ?thesis
    using heap_ok_sample by (intro index_loop_detected) (auto simp: index_state_def heap_ok_def)
qed

end
