(* ===== verification/TabLib.thy ===== *)
theory TabLib
  imports Auxlib TableOps
begin

text \<open>
  The table library (\<open>lua/ltablib.c\<close>).  A C function of the library takes the state with its arguments
  on the stack and returns the number of its results and the state.  \<open>new\<close> is the address the next
  new table would have (\<open>luaL_setn\<close> and \<open>luaL_getn\<close> may make the table of sizes).
\<close>

section \<open>Traversal and sizes\<close>

type_synonym cfunction_result = "(nat \<times> lua_State) res"

definition lua_isnil :: "lua_State \<Rightarrow> int \<Rightarrow> bool res" where
  "lua_isnil L n = bindR (lua_type L n) (\<lambda>t. Inr (t = 0))"

definition aux_getn :: "addr \<Rightarrow> lua_State \<Rightarrow> int \<Rightarrow> (int \<times> lua_State) res" where
  "aux_getn new L n = bindR (luaL_checktype L n 5) (\<lambda>_. luaL_getn new L n)"

function foreachi_loop :: "caller \<Rightarrow> int \<Rightarrow> int \<Rightarrow> lua_State \<Rightarrow> cfunction_result" where
  "foreachi_loop call i n L =
    (if i \<le> n then
       bindR (lua_pushvalue L 2) (\<lambda>L.
       bindR (lua_rawgeti (lua_pushnumber L (num_of_int i)) 1 i) (\<lambda>L.
       bindR (lua_call call L 2 1) (\<lambda>L.
       bindR (lua_isnil L (-1)) (\<lambda>b.
         if \<not> b then Inr (1, L)
         else bindR (lua_pop L 1) (foreachi_loop call (i + 1) n)))))
     else Inr (0, L))"
  by pat_completeness auto
termination
  by (relation "measure (\<lambda>(call, i, n, L). nat (n + 1 - i))") auto

definition luaB_foreachi :: "caller \<Rightarrow> addr \<Rightarrow> lua_State \<Rightarrow> cfunction_result" where
  "luaB_foreachi call new L =
    bindR (aux_getn new L 1) (\<lambda>(n, L).
    bindR (luaL_checktype L 2 6) (\<lambda>_. foreachi_loop call 1 n L))"

text \<open>The function called may change the table, so the loop has fuel.\<close>

fun foreach_loop :: "nat \<Rightarrow> caller \<Rightarrow> lua_State \<Rightarrow> cfunction_result" where
  "foreach_loop 0 call L = Inl NoReturn"
| "foreach_loop (Suc fuel) call L =
    bindR (lua_next L 1) (\<lambda>(more, L).
      if \<not> more then Inr (0, L)
      else
        bindR (lua_pushvalue L 2) (\<lambda>L.
        bindR (lua_pushvalue L (-3)) (\<lambda>L.
        bindR (lua_pushvalue L (-3)) (\<lambda>L.
        bindR (lua_call call L 2 1) (\<lambda>L.
        bindR (lua_isnil L (-1)) (\<lambda>b.
          if \<not> b then Inr (1, L)
          else bindR (lua_pop L 2) (foreach_loop fuel call)))))))"

definition luaB_foreach :: "nat \<Rightarrow> caller \<Rightarrow> lua_State \<Rightarrow> cfunction_result" where
  "luaB_foreach fuel call L =
    bindR (luaL_checktype L 1 5) (\<lambda>_.
    bindR (luaL_checktype L 2 6) (\<lambda>_. foreach_loop fuel call (lua_pushnil L)))"

definition luaB_getn :: "addr \<Rightarrow> lua_State \<Rightarrow> cfunction_result" where
  "luaB_getn new L = bindR (aux_getn new L 1) (\<lambda>(n, L). Inr (1, lua_pushnumber L (num_of_int n)))"

definition luaB_setn :: "addr \<Rightarrow> lua_State \<Rightarrow> cfunction_result" where
  "luaB_setn new L =
    bindR (luaL_checktype L 1 5) (\<lambda>_.
    bindR (luaL_checkint L 2) (\<lambda>n.
    bindR (luaL_setn new L 1 n) (\<lambda>L. Inr (0, L))))"

section \<open>Insertion, removal and concatenation\<close>

text \<open>\<open>while (--n >= pos)\<close>: move elements up.\<close>

function move_up :: "int \<Rightarrow> int \<Rightarrow> lua_State \<Rightarrow> lua_State res" where
  "move_up n pos L =
    (if pos \<le> n - 1 then
       bindR (lua_rawgeti L 1 (n - 1)) (\<lambda>L.
       bindR (lua_rawseti L 1 n) (move_up (n - 1) pos))
     else Inr L)"
  by pat_completeness auto
termination
  by (relation "measure (\<lambda>(n, pos, L). nat (n - pos))") auto

definition luaB_tinsert :: "addr \<Rightarrow> lua_State \<Rightarrow> cfunction_result" where
  "luaB_tinsert new L =
    (let v = lua_gettop L
     in bindR (aux_getn new L 1) (\<lambda>(n, L).
          let n = int_wrap (n + 1)
          in bindR (if v = 2 then Inr (n, n, v)
                    else bindR (luaL_checkint L 2) (\<lambda>pos. Inr (pos, if n < pos then pos else n, 3))) (\<lambda>(pos, n, v).
             bindR (luaL_setn new L 1 n) (\<lambda>L.
             bindR (move_up n pos L) (\<lambda>L.
             bindR (lua_pushvalue L v) (\<lambda>L.
             bindR (lua_rawseti L 1 pos) (\<lambda>L. Inr (0, L))))))))"

text \<open>\<open>for ( ; pos < n; pos++)\<close>: move elements down.\<close>

function move_down :: "int \<Rightarrow> int \<Rightarrow> lua_State \<Rightarrow> lua_State res" where
  "move_down pos n L =
    (if pos < n then
       bindR (lua_rawgeti L 1 (pos + 1)) (\<lambda>L.
       bindR (lua_rawseti L 1 pos) (move_down (pos + 1) n))
     else Inr L)"
  by pat_completeness auto
termination
  by (relation "measure (\<lambda>(pos, n, L). nat (n - pos))") auto

definition luaB_tremove :: "addr \<Rightarrow> lua_State \<Rightarrow> cfunction_result" where
  "luaB_tremove new L =
    bindR (aux_getn new L 1) (\<lambda>(n, L).
    bindR (luaL_optint L 2 (num_of_int n)) (\<lambda>pos.
      if n \<le> 0 then Inr (0, L)
      else
        bindR (luaL_setn new L 1 (n - 1)) (\<lambda>L.
        bindR (lua_rawgeti L 1 pos) (\<lambda>L.
        bindR (move_down pos n L) (\<lambda>L.
        bindR (lua_rawseti (lua_pushnil L) 1 n) (\<lambda>L. Inr (1, L)))))))"

function concat_loop :: "caller \<Rightarrow> string \<Rightarrow> int \<Rightarrow> int \<Rightarrow> lua_State \<times> luaL_Buffer \<Rightarrow> (lua_State \<times> luaL_Buffer) res" where
  "concat_loop call sep i n LB =
    (if i \<le> n then
       bindR (lua_rawgeti (fst LB) 1 i) (\<lambda>L.
       bindR (lua_isstring L (-1)) (\<lambda>b.
       bindR (luaL_argcheck b 1 ''table contains non-strings'') (\<lambda>_.
       bindR (luaL_addvalue call (L, snd LB)) (\<lambda>LB.
       bindR (if i \<noteq> n then luaL_addlstring call sep LB else Inr LB) (concat_loop call sep (i + 1) n)))))
     else Inr LB)"
  by pat_completeness auto
termination
  by (relation "measure (\<lambda>(call, sep, i, n, LB). nat (n + 1 - i))") auto

definition tconcat :: "caller \<Rightarrow> addr \<Rightarrow> lua_State \<Rightarrow> cfunction_result" where
  "tconcat call new L =
    bindR (luaL_optlstring L 2 []) (\<lambda>(sep, L).
    bindR (luaL_optint L 3 (num_of_int 1)) (\<lambda>i.
    bindR (luaL_optint L 4 (num_of_int 0)) (\<lambda>n.
    bindR (luaL_checktype L 1 5) (\<lambda>_.
    bindR (if n = 0 then luaL_getn new L 1 else Inr (n, L)) (\<lambda>(n, L).
    bindR (concat_loop call sep i n (L, luaL_buffinit)) (\<lambda>LB.
    bindR (luaL_pushresult call LB) (\<lambda>(L, B). Inr (1, L))))))))"

declare foreachi_loop.simps [simp del] move_up.simps [simp del] move_down.simps [simp del]
  concat_loop.simps [simp del]

section \<open>Quicksort\<close>

definition set2 :: "lua_State \<Rightarrow> int \<Rightarrow> int \<Rightarrow> lua_State res" where
  "set2 L i j = bindR (lua_rawseti L 1 i) (\<lambda>L. lua_rawseti L 1 j)"

definition sort_comp :: "caller \<Rightarrow> lua_State \<Rightarrow> int \<Rightarrow> int \<Rightarrow> (bool \<times> lua_State) res" where
  "sort_comp call L a b =
    bindR (lua_isnil L 2) (\<lambda>nil.
      if \<not> nil then
        bindR (lua_pushvalue L 2) (\<lambda>L.
        bindR (lua_pushvalue L (a - 1)) (\<lambda>L.
        bindR (lua_pushvalue L (b - 2)) (\<lambda>L.
        bindR (lua_call call L 2 1) (\<lambda>L.
        bindR (lua_toboolean L (-1)) (\<lambda>res.
        bindR (lua_pop L 1) (\<lambda>L. Inr (res, L)))))))
      else lua_lessthan call L a b)"

text \<open>
  The inner loops.  \<open>i\<close> is the value before the increment; the result is the one after it, with the
  element left on the stack.
\<close>

function scan_up :: "caller \<Rightarrow> int \<Rightarrow> int \<Rightarrow> lua_State \<Rightarrow> (int \<times> lua_State) res" where
  "scan_up call u i L =
    (let i = i + 1
     in bindR (lua_rawgeti L 1 i) (\<lambda>L.
        bindR (sort_comp call L (-1) (-2)) (\<lambda>(b, L).
          if \<not> b then Inr (i, L)
          else if u < i then luaL_error ''invalid order function for sorting''
          else bindR (lua_pop L 1) (scan_up call u i))))"
  by pat_completeness auto
termination
  by (relation "measure (\<lambda>(call, u, i, L). nat (u + 1 - i))") auto

function scan_down :: "caller \<Rightarrow> int \<Rightarrow> int \<Rightarrow> lua_State \<Rightarrow> (int \<times> lua_State) res" where
  "scan_down call l j L =
    (let j = j - 1
     in bindR (lua_rawgeti L 1 j) (\<lambda>L.
        bindR (sort_comp call L (-3) (-1)) (\<lambda>(b, L).
          if \<not> b then Inr (j, L)
          else if j < l then luaL_error ''invalid order function for sorting''
          else bindR (lua_pop L 1) (scan_down call l j))))"
  by pat_completeness auto
termination
  by (relation "measure (\<lambda>(call, l, j, L). nat (j + 1 - l))") auto

declare scan_up.simps [simp del] scan_down.simps [simp del]

text \<open>The loop \<open>for (;;)\<close>.  \<open>i\<close> and \<open>j\<close> come closer in every round, so it has fuel for the distance.\<close>

fun partition_loop :: "nat \<Rightarrow> caller \<Rightarrow> int \<Rightarrow> int \<Rightarrow> int \<Rightarrow> int \<Rightarrow> lua_State \<Rightarrow> (int \<times> lua_State) res" where
  "partition_loop 0 call l u i j L = Inl NoReturn"
| "partition_loop (Suc fuel) call l u i j L =
    bindR (scan_up call u i L) (\<lambda>(i, L).
    bindR (scan_down call l j L) (\<lambda>(j, L).
      if j < i then bindR (lua_pop L 3) (\<lambda>L. Inr (i, L))
      else bindR (set2 L i j) (partition_loop fuel call l u i j)))"

text \<open>\<open>a[l]\<close>, \<open>a[i]\<close> and \<open>a[u]\<close> are put in order, in three steps.\<close>

definition order_ends :: "caller \<Rightarrow> int \<Rightarrow> int \<Rightarrow> lua_State \<Rightarrow> lua_State res" where
  "order_ends call l u L =
    bindR (lua_rawgeti L 1 l) (\<lambda>L.
    bindR (lua_rawgeti L 1 u) (\<lambda>L.
    bindR (sort_comp call L (-1) (-2)) (\<lambda>(b, L).
      if b then set2 L l u else lua_pop L 2)))"

definition order_middle :: "caller \<Rightarrow> int \<Rightarrow> int \<Rightarrow> int \<Rightarrow> lua_State \<Rightarrow> lua_State res" where
  "order_middle call l i u L =
    bindR (lua_rawgeti L 1 i) (\<lambda>L.
    bindR (lua_rawgeti L 1 l) (\<lambda>L.
    bindR (sort_comp call L (-2) (-1)) (\<lambda>(b, L).
      if b then set2 L i l
      else
        bindR (lua_pop L 1) (\<lambda>L.
        bindR (lua_rawgeti L 1 u) (\<lambda>L.
        bindR (sort_comp call L (-1) (-2)) (\<lambda>(b, L).
          if b then set2 L i u else lua_pop L 2))))))"

text \<open>The pivot moves to \<open>a[u-1]\<close> and stays on the stack.\<close>

definition take_pivot :: "int \<Rightarrow> int \<Rightarrow> lua_State \<Rightarrow> lua_State res" where
  "take_pivot i u L =
    bindR (lua_rawgeti L 1 i) (\<lambda>L.
    bindR (lua_pushvalue L (-1)) (\<lambda>L.
    bindR (lua_rawgeti L 1 (u - 1)) (\<lambda>L. set2 L i (u - 1))))"

definition put_pivot :: "int \<Rightarrow> int \<Rightarrow> lua_State \<Rightarrow> lua_State res" where
  "put_pivot i u L =
    bindR (lua_rawgeti L 1 (u - 1)) (\<lambda>L.
    bindR (lua_rawgeti L 1 i) (\<lambda>L. set2 L (u - 1) i))"

text \<open>
  \<open>auxsort\<close>.  The second call is the next round of the outer loop.  An order function that is none can
  make \<open>i\<close> exceed \<open>u\<close> and the loop run on; the fuel bounds calls and rounds.
\<close>

fun auxsort :: "nat \<Rightarrow> caller \<Rightarrow> int \<Rightarrow> int \<Rightarrow> lua_State \<Rightarrow> lua_State res" where
  "auxsort 0 call l u L = Inl NoReturn"
| "auxsort (Suc fuel) call l u L =
    (if \<not> l < u then Inr L
     else
       bindR (order_ends call l u L) (\<lambda>L.
         if u - l = 1 then Inr L
         else
           (let i = half (int_wrap (l + u))
            in bindR (order_middle call l i u L) (\<lambda>L.
                 if u - l = 2 then Inr L
                 else
                   bindR (take_pivot i u L) (\<lambda>L.
                   bindR (partition_loop (nat (u - l) + 1) call l u l (u - 1) L) (\<lambda>(i, L).
                   bindR (put_pivot i u L) (\<lambda>L.
                     let (j, i, l, u) = (if i - l < u - i then (l, i - 1, i + 1, u) else (i + 1, u, l, i - 1))
                     in bindR (auxsort fuel call j i L) (auxsort fuel call l u))))))))"

definition luaB_sort :: "nat \<Rightarrow> caller \<Rightarrow> addr \<Rightarrow> lua_State \<Rightarrow> cfunction_result" where
  "luaB_sort fuel call new L =
    bindR (aux_getn new L 1) (\<lambda>(n, L).
    bindR (luaL_checkstack L 40 []) (\<lambda>_.
    bindR (lua_isnoneornil L 2) (\<lambda>b.
    bindR (if \<not> b then luaL_checktype L 2 6 else Inr ()) (\<lambda>_.
    bindR (lua_settop L 2) (\<lambda>L.
    bindR (auxsort fuel call 1 n L) (\<lambda>L. Inr (0, L)))))))"

end
