(* ===== verification/TabSort.thy ===== *)
theory TabSort
  imports TabLib
begin

text \<open>
  \<open>table.sort\<close> sorts: with a strict weak order, \<open>auxsort\<close> permutes the elements of the array and puts
  them in order, in a bounded number of rounds and without an error.
\<close>

section \<open>The state while sorting\<close>

text \<open>
  The table at address \<open>h\<close> and the order are the two arguments; above them are the temporaries \<open>st\<close>.
  The elements \<open>1\<close> to \<open>n\<close> of the table are \<open>a\<close>; everything else is as in \<open>L0\<close>.
\<close>

definition array_of :: "lua_State \<Rightarrow> addr \<Rightarrow> int \<Rightarrow> (int \<Rightarrow> TObject) \<Rightarrow> Table \<Rightarrow> bool" where
  "array_of L0 h n a t \<longleftrightarrow> wf_table t \<and>
     (\<forall>i. 1 \<le> i \<longrightarrow> i \<le> n \<longrightarrow> content t (key_of i) = a i) \<and>
     (\<forall>k. valid_key k \<longrightarrow> (\<forall>i. 1 \<le> i \<longrightarrow> i \<le> n \<longrightarrow> \<not> luaO_rawequalObj (key_of i) k) \<longrightarrow>
        content t k = content (tabs L0 h) k)"

definition sort_state :: "lua_State \<Rightarrow> addr \<Rightarrow> TObject \<Rightarrow> Table \<Rightarrow> TObject list \<Rightarrow> lua_State" where
  "sort_state L0 h f t st = L0\<lparr>stk := LTable h # f # st, tabs := (tabs L0)(h := t)\<rparr>"

definition sorting :: "lua_State \<Rightarrow> addr \<Rightarrow> TObject \<Rightarrow> int \<Rightarrow> (int \<Rightarrow> TObject) \<Rightarrow> TObject list \<Rightarrow> lua_State \<Rightarrow> bool" where
  "sorting L0 h f n a st L \<longleftrightarrow> (\<exists>t. L = sort_state L0 h f t st \<and> array_of L0 h n a t)"

lemma sort_state_simps [simp]:
  "stk (sort_state L0 h f t st) = LTable h # f # st"
  "tabs (sort_state L0 h f t st) h = t"
  "(sort_state L0 h f t st)\<lparr>stk := LTable h # f # st'\<rparr> = sort_state L0 h f t st'"
  "set_table h t' (sort_state L0 h f t st) = sort_state L0 h f t' st"
  by (simp_all add: sort_state_def set_table_def)

lemma at_neg:
  assumes "stk L = xs @ ys" "1 \<le> k" "k \<le> length ys" "k < 10000"
  shows "at_index L (- int k) = Inr (ys ! (length ys - k))" "at_acceptable L (- int k) = Inr (Some (ys ! (length ys - k)))"
proof -
  have n: "nat (int (length xs) + int (length ys)) = length xs + length ys"
    by (simp add: nat_int_add)
  have "negindex L (- int k) = Inr (Some (Stk (length xs + length ys - k)))"
    using assms by (simp add: negindex_def stack_loc_def LUA_REGISTRYINDEX_def nat_diff_distrib' n)
  moreover have "length xs + length ys - k = length xs + (length ys - k)"
    using assms by simp
  then have "stk L ! (length xs + length ys - k) = ys ! (length ys - k)"
    by (simp only: assms(1) nth_append_length_plus)
  ultimately show "at_index L (- int k) = Inr (ys ! (length ys - k))"
    "at_acceptable L (- int k) = Inr (Some (ys ! (length ys - k)))"
    using assms(2) by (simp_all add: at_index_def at_acceptable_def luaA_index_def luaA_indexAcceptable_def)
qed

lemma at_1 [simp]: "at_index (sort_state L0 h f t st) 1 = Inr (LTable h)"
  by (simp add: at_index_def luaA_index_def stack_loc_def)

lemma settop_neg: "stk L = xs @ ys \<Longrightarrow> lua_settop L (- int (length ys) - 1) = Inr (L\<lparr>stk := xs\<rparr>)"
  by (simp add: lua_settop_def lua_gettop_def)

lemma rawgeti_sorting:
  assumes "sorting L0 h f n a st L" "1 \<le> i" "i \<le> n" "n \<le> INT_MAX"
  shows "succeeds (lua_rawgeti L 1 i) (sorting L0 h f n a (st @ [a i]))"
proof -
  obtain t where t: "L = sort_state L0 h f t st" "array_of L0 h n a t"
    using assms(1) by (auto simp: sorting_def)
  have "luaH_getnum t i = Inr (slot_of t (key_of i))"
    using t(2) assms(2-) by (intro luaH_getnum_slot) (simp_all add: wf_table_def INT_MIN_def array_of_def)
  moreover have "slot_get t (slot_of t (key_of i)) = a i"
    using t(2) assms(2,3) by (simp add: array_of_def content_def)
  ultimately have "lua_rawgeti L 1 i = Inr (sort_state L0 h f t (st @ [a i]))"
    by (simp add: lua_rawgeti_def hvalue_def luaA_pushobject_def t(1))
  then show ?thesis
    using t(2) by (auto simp: sorting_def)
qed

lemma key_of_inject: "INT_MIN \<le> i \<Longrightarrow> i \<le> INT_MAX \<Longrightarrow> INT_MIN \<le> j \<Longrightarrow> j \<le> INT_MAX \<Longrightarrow>
    luaO_rawequalObj (key_of i) (key_of j) \<longleftrightarrow> i = j"
  by (simp add: key_of_def luaO_rawequalObj_def num_of_int_inject INT_MIN_def INT_MAX_def)

lemma array_of_update:
  assumes "array_of L0 h n a t" "1 \<le> i" "i \<le> n" "n \<le> INT_MAX" "a i \<noteq> LNil"
  shows "array_of L0 h n (a(i := v)) (slot_set t (slot_of t (key_of i)) v)"
proof -
  have k: "valid_key (key_of i)" "wf_core t" "wf_table t"
    using assms by (simp_all add: INT_MIN_def wf_table_def array_of_def)
  have p: "slot_of t (key_of i) \<noteq> SNil"
    using assms(1-3,5) by (auto simp: array_of_def content_def)
  have "luaO_rawequalObj (key_of i) (key_of j) \<longleftrightarrow> i = j" "valid_key (key_of j)" if "1 \<le> j" "j \<le> n" for j
    using key_of_inject [of i j] assms(2-4) that by (simp_all add: INT_MIN_def)
  then show ?thesis
    using assms(1-3) wf_table_slot_set [OF k(3,1)] content_slot_set [OF k(2,1) _ p] by (simp add: array_of_def)
qed

lemma rawseti_sorting:
  assumes "sorting L0 h f n a (st @ [v]) L" "1 \<le> i" "i \<le> n" "n \<le> INT_MAX" "a i \<noteq> LNil"
  shows "succeeds (lua_rawseti L 1 i) (sorting L0 h f n (a(i := v)) st)"
proof -
  obtain t where t: "L = sort_state L0 h f t (st @ [v])" "array_of L0 h n a t"
    using assms(1) by (auto simp: sorting_def)
  have g: "luaH_getnum t i = Inr (slot_of t (key_of i))"
    using t(2) assms(2-) by (intro luaH_getnum_slot) (simp_all add: wf_table_def INT_MIN_def array_of_def)
  have p: "slot_of t (key_of i) \<noteq> SNil"
    using t(2) assms(2,3,5) by (auto simp: array_of_def content_def)
  let ?t = "slot_set t (slot_of t (key_of i)) v"
  have "lua_settop (sort_state L0 h f ?t (st @ [v])) (-2) = Inr (sort_state L0 h f ?t st)"
    using settop_neg [of "sort_state L0 h f ?t (st @ [v])" "LTable h # f # st" "[v]"] by simp
  then have "lua_rawseti L 1 i = Inr (sort_state L0 h f ?t st)"
    using g p by (simp add: t(1) lua_rawseti_def hvalue_def top_value_def nth_append luaH_setnum_def luaH_setnum_with_def)
  then show ?thesis
    using array_of_update [OF t(2) assms(2-)] by (auto simp: sorting_def)
qed

lemma pop_sorting:
  assumes "sorting L0 h f n a (st @ vs) L" "k = int (length vs)"
  shows "succeeds (lua_pop L k) (sorting L0 h f n a st)"
proof -
  obtain t where t: "L = sort_state L0 h f t (st @ vs)" "array_of L0 h n a t"
    using assms(1) by (auto simp: sorting_def)
  then show ?thesis
    using settop_neg [of L "LTable h # f # st" vs] by (auto simp: lua_pop_def assms(2) sorting_def)
qed

section \<open>The order\<close>

text \<open>What the order is, for the elements \<open>S\<close>: the function \<open>f\<close>, or \<open><\<close> when it is nil.\<close>

definition order_is :: "caller \<Rightarrow> TObject \<Rightarrow> (TObject \<Rightarrow> TObject \<Rightarrow> bool) \<Rightarrow> TObject set \<Rightarrow> bool" where
  "order_is call f lt S \<longleftrightarrow> (\<forall>x \<in> S. \<forall>y \<in> S. \<forall>L.
     if f = LNil then luaV_lessthan call x y L = Inr (lt x y, L)
     else \<exists>r. call f [x, y] 1 L = Inr ([r], L) \<and> lt x y = (\<not> l_isfalse r))"

lemma sort_comp_sorting:
  assumes s: "sorting L0 h f n a st L" and o: "order_is call f lt S"
    and p: "1 \<le> p" "p \<le> length st" "p < 1000" "1 \<le> q" "q \<le> length st" "q < 1000"
    and v: "x = st ! (length st - p)" "y = st ! (length st - q)" "x \<in> S" "y \<in> S"
  shows "succeeds (sort_comp call L (- int p) (- int q)) (\<lambda>(b, L). b = lt x y \<and> sorting L0 h f n a st L)"
proof -
  obtain t where t: "L = sort_state L0 h f t st" "array_of L0 h n a t"
    using s by (auto simp: sorting_def)
  have "lua_isnil L 2 = Inr (ttype f = 0)"
    by (simp add: t(1) lua_isnil_def lua_type_def at_acceptable_def luaA_indexAcceptable_def)
  then have nil: "lua_isnil L 2 = Inr (f = LNil)"
    by (cases f) simp_all
  have "sort_comp call L (- int p) (- int q) = Inr (lt x y, L)"
  proof (cases "f = LNil")
    case True
    have "at_acceptable L (- int p) = Inr (Some x)" "at_acceptable L (- int q) = Inr (Some y)"
      using at_neg(2) [of L "[LTable h, f]" st p] at_neg(2) [of L "[LTable h, f]" st q] p v by (simp_all add: t(1))
    then have "lua_lessthan call L (- int p) (- int q) = Inr (lt x y, L)"
      using o v(3,4) True by (simp add: lua_lessthan_def order_is_def)
    then show ?thesis
      using True by (simp add: sort_comp_def nil)
  next
    case False
    let ?L = "\<lambda>st. sort_state L0 h f t st"
    obtain r where r: "call f [x, y] 1 L = Inr ([r], L)" "lt x y = (\<not> l_isfalse r)"
      using o v(3,4) False unfolding order_is_def by (simp del: One_nat_def) blast
    have push: "lua_pushvalue L 2 = Inr (?L (st @ [f]))"
      by (simp add: t(1) lua_pushvalue_def at_index_def luaA_index_def stack_loc_def luaA_pushobject_def)
    have ix: "- int p - 1 = - int (p + 1)" "- int q - 2 = - int (q + 2)"
      by simp_all
    have "lua_pushvalue (?L (st @ [f])) (- int p - 1) = Inr (?L (st @ [f, x]))"
      using at_neg(1) [of "?L (st @ [f])" "[LTable h, f]" "st @ [f]" "p + 1"] p v(1)
      unfolding ix by (simp add: lua_pushvalue_def luaA_pushobject_def nth_append)
    moreover have "lua_pushvalue (?L (st @ [f, x])) (- int q - 2) = Inr (?L (st @ [f, x, y]))"
      using at_neg(1) [of "?L (st @ [f, x])" "[LTable h, f]" "st @ [f, x]" "q + 2"] p v(2)
      unfolding ix by (simp add: lua_pushvalue_def luaA_pushobject_def nth_append)
    moreover have "lua_call call (?L (st @ [f, x, y])) 2 1 = Inr (?L (st @ [r]))"
      using r(1) by (simp add: lua_call_def Let_def t(1))
    moreover have "lua_toboolean (?L (st @ [r])) (-1) = Inr (\<not> l_isfalse r)"
      using at_neg(2) [of "?L (st @ [r])" "LTable h # f # st" "[r]" 1] by (simp add: lua_toboolean_def)
    moreover have "lua_pop (?L (st @ [r])) 1 = Inr L"
      using settop_neg [of "?L (st @ [r])" "LTable h # f # st" "[r]"] by (simp add: lua_pop_def t(1))
    ultimately show ?thesis
      using False r(2) push by (simp add: sort_comp_def nil)
  qed
  then show ?thesis
    using s by simp
qed

section \<open>Steps\<close>

definition swapped :: "int \<Rightarrow> int \<Rightarrow> (int \<Rightarrow> TObject) \<Rightarrow> int \<Rightarrow> TObject" where
  "swapped i j a = a(i := a j, j := a i)"

lemma set2_sorting:
  assumes "sorting L0 h f n a (st @ [a i, a j]) L" "1 \<le> i" "i \<le> n" "1 \<le> j" "j \<le> n" "n \<le> INT_MAX" "a i \<noteq> LNil" "a j \<noteq> LNil"
  shows "succeeds (set2 L i j) (sorting L0 h f n (swapped i j a) st)"
proof -
  have "succeeds (lua_rawseti L 1 i) (sorting L0 h f n (a(i := a j)) (st @ [a i]))"
    using assms by (intro rawseti_sorting) simp_all
  moreover have "succeeds (lua_rawseti L' 1 j) (sorting L0 h f n (swapped i j a) st)"
    if "sorting L0 h f n (a(i := a j)) (st @ [a i]) L'" for L'
    unfolding swapped_def using that assms by (intro rawseti_sorting) simp_all
  ultimately show ?thesis
    unfolding set2_def by (rule succeeds_bind)
qed

text \<open>The elements that take part are in \<open>S\<close>, which nil is not.\<close>

definition elems_in :: "TObject set \<Rightarrow> int \<Rightarrow> (int \<Rightarrow> TObject) \<Rightarrow> bool" where
  "elems_in S n a \<longleftrightarrow> LNil \<notin> S \<and> n \<le> INT_MAX \<and> (\<forall>i. 1 \<le> i \<longrightarrow> i \<le> n \<longrightarrow> a i \<in> S)"

lemma elems_inD: "elems_in S n a \<Longrightarrow> 1 \<le> i \<Longrightarrow> i \<le> n \<Longrightarrow> a i \<in> S \<and> a i \<noteq> LNil" "elems_in S n a \<Longrightarrow> n \<le> INT_MAX"
  by (auto simp: elems_in_def)

lemma elems_in_swapped: "elems_in S n a \<Longrightarrow> 1 \<le> i \<Longrightarrow> i \<le> n \<Longrightarrow> 1 \<le> j \<Longrightarrow> j \<le> n \<Longrightarrow> elems_in S n (swapped i j a)"
  by (auto simp: elems_in_def swapped_def)

text \<open>Two elements are pushed, and swapped if they are in the wrong order.\<close>

definition put_in_order :: "(TObject \<Rightarrow> TObject \<Rightarrow> bool) \<Rightarrow> int \<Rightarrow> int \<Rightarrow> (int \<Rightarrow> TObject) \<Rightarrow> int \<Rightarrow> TObject" where
  "put_in_order lt i j a = (if lt (a j) (a i) then swapped i j a else a)"

lemma swapped_sym: "swapped i j = swapped j i"
  by (auto simp: swapped_def fun_eq_iff)

lemma pop2_sorting: "sorting L0 h f n a (st @ [x, y]) L \<Longrightarrow> succeeds (lua_pop L 2) (sorting L0 h f n a st)"
  using pop_sorting [of L0 h f n a st "[x, y]" L 2] by simp

lemma push2_sorting:
  assumes "sorting L0 h f n a st L" "elems_in S n a" "1 \<le> i" "i \<le> n" "1 \<le> j" "j \<le> n"
    and "\<And>L. sorting L0 h f n a (st @ [a i, a j]) L \<Longrightarrow> succeeds (k L) Q"
  shows "succeeds (bindR (lua_rawgeti L 1 i) (\<lambda>L. bindR (lua_rawgeti L 1 j) k)) Q"
proof (rule succeeds_bind [OF rawgeti_sorting [OF assms(1)]])
  fix L assume "sorting L0 h f n a (st @ [a i]) L"
  then have "succeeds (lua_rawgeti L 1 j) (sorting L0 h f n a ((st @ [a i]) @ [a j]))"
    using assms by (intro rawgeti_sorting) (simp_all add: elems_in_def)
  then show "succeeds (bindR (lua_rawgeti L 1 j) k) Q"
    by (rule succeeds_bind) (use assms(7) in simp)
qed (use assms in \<open>simp_all add: elems_in_def\<close>)

lemma comp2_sorting:
  assumes "sorting L0 h f n a (st @ [x, y]) L" "order_is call f lt S" "x \<in> S" "y \<in> S"
    and "\<And>L b. b = lt y x \<Longrightarrow> sorting L0 h f n a (st @ [x, y]) L \<Longrightarrow> succeeds (k (b, L)) Q"
  shows "succeeds (bindR (sort_comp call L (-1) (-2)) k) Q"
  by (rule succeeds_bind [OF sort_comp_sorting [OF assms(1,2), of 1 2 y x, simplified]])
    (use assms(3-) in \<open>auto simp: nth_append\<close>)

lemma comp2_sorting':
  assumes "sorting L0 h f n a (st @ [x, y]) L" "order_is call f lt S" "x \<in> S" "y \<in> S"
    and "\<And>L b. b = lt x y \<Longrightarrow> sorting L0 h f n a (st @ [x, y]) L \<Longrightarrow> succeeds (k (b, L)) Q"
  shows "succeeds (bindR (sort_comp call L (-2) (-1)) k) Q"
  by (rule succeeds_bind [OF sort_comp_sorting [OF assms(1,2), of 2 1 x y, simplified]])
    (use assms(3-) in \<open>auto simp: nth_append\<close>)

lemma comp3_sorting:
  assumes "sorting L0 h f n a (st @ [p, x, y]) L" "order_is call f lt S" "p \<in> S" "y \<in> S"
    and "\<And>L b. b = lt p y \<Longrightarrow> sorting L0 h f n a (st @ [p, x, y]) L \<Longrightarrow> succeeds (k (b, L)) Q"
  shows "succeeds (bindR (sort_comp call L (-3) (-1)) k) Q"
  by (rule succeeds_bind [OF sort_comp_sorting [OF assms(1,2), of 3 1 p y, simplified]])
    (use assms(3-) in \<open>auto simp: nth_append\<close>)

lemma order_ends_sorting:
  assumes "sorting L0 h f n a st L" "order_is call f lt S" "elems_in S n a" "1 \<le> l" "l \<le> n" "1 \<le> u" "u \<le> n"
  shows "succeeds (order_ends call l u L) (sorting L0 h f n (put_in_order lt l u a) st)"
  unfolding order_ends_def
proof (rule push2_sorting [OF assms(1,3-7)], rule comp2_sorting [OF _ assms(2)])
  fix L b
  assume b: "b = lt (a u) (a l)" and s: "sorting L0 h f n a (st @ [a l, a u]) L"
  show "succeeds (case (b, L) of (b, L) \<Rightarrow> if b then set2 L l u else lua_pop L 2) (sorting L0 h f n (put_in_order lt l u a) st)"
    using set2_sorting [OF s] pop2_sorting [OF s] elems_inD [OF assms(3)] assms(4-)
    by (auto simp: b put_in_order_def)
qed (use elems_inD [OF assms(3)] assms(4-) in auto)

lemma order_middle_sorting:
  assumes "sorting L0 h f n a st L" "order_is call f lt S" "elems_in S n a"
    and "1 \<le> l" "l \<le> n" "1 \<le> i" "i \<le> n" "1 \<le> u" "u \<le> n"
  shows "succeeds (order_middle call l i u L)
    (sorting L0 h f n (if lt (a i) (a l) then swapped i l a else put_in_order lt i u a) st)"
  unfolding order_middle_def
proof (rule push2_sorting [OF assms(1,3,6,7,4,5)], rule comp2_sorting' [OF _ assms(2)])
  fix L b
  let ?Q = "sorting L0 h f n (if lt (a i) (a l) then swapped i l a else put_in_order lt i u a) st"
  assume b: "b = lt (a i) (a l)" and s: "sorting L0 h f n a (st @ [a i, a l]) L"
  note e = elems_inD [OF assms(3)]
  have "succeeds (bindR (lua_pop L 1) (\<lambda>L. bindR (lua_rawgeti L 1 u) (\<lambda>L.
      bindR (sort_comp call L (-1) (-2)) (\<lambda>(b, L). if b then set2 L i u else lua_pop L 2)))) ?Q"
    if "\<not> lt (a i) (a l)"
  proof (rule succeeds_bind)
    show "succeeds (lua_pop L 1) (sorting L0 h f n a (st @ [a i]))"
      using pop_sorting [of L0 h f n a "st @ [a i]" "[a l]" L 1] s by simp
    fix L assume s: "sorting L0 h f n a (st @ [a i]) L"
    show "succeeds (bindR (lua_rawgeti L 1 u) (\<lambda>L.
        bindR (sort_comp call L (-1) (-2)) (\<lambda>(b, L). if b then set2 L i u else lua_pop L 2))) ?Q"
    proof (rule succeeds_bind)
      show "succeeds (lua_rawgeti L 1 u) (sorting L0 h f n a (st @ [a i, a u]))"
        using rawgeti_sorting [OF s, of u] assms(8,9) e(2) by simp
      fix L assume s: "sorting L0 h f n a (st @ [a i, a u]) L"
      show "succeeds (bindR (sort_comp call L (-1) (-2)) (\<lambda>(b, L). if b then set2 L i u else lua_pop L 2)) ?Q"
      proof (rule comp2_sorting [OF s assms(2)])
        fix L b assume b: "b = lt (a u) (a i)" and s: "sorting L0 h f n a (st @ [a i, a u]) L"
        show "succeeds (case (b, L) of (b, L) \<Rightarrow> if b then set2 L i u else lua_pop L 2) ?Q"
          using set2_sorting [OF s] pop2_sorting [OF s] e assms(4-) that by (auto simp: b put_in_order_def)
      qed (use e assms(4-) in auto)
    qed
  qed
  then show "succeeds (case (b, L) of (b, L) \<Rightarrow> if b then set2 L i l
      else bindR (lua_pop L 1) (\<lambda>L. bindR (lua_rawgeti L 1 u) (\<lambda>L.
        bindR (sort_comp call L (-1) (-2)) (\<lambda>(b, L). if b then set2 L i u else lua_pop L 2)))) ?Q"
    using set2_sorting [OF s] e assms(4-) by (auto simp: b)
qed (use elems_inD [OF assms(3)] assms(4-) in auto)

lemma take_pivot_sorting:
  assumes "sorting L0 h f n a st L" "elems_in S n a" "1 \<le> i" "i \<le> n" "1 \<le> u - 1" "u - 1 \<le> n"
  shows "succeeds (take_pivot i u L) (sorting L0 h f n (swapped i (u - 1) a) (st @ [a i]))"
  unfolding take_pivot_def
proof (rule succeeds_bind)
  note e = elems_inD [OF assms(2)]
  show "succeeds (lua_rawgeti L 1 i) (sorting L0 h f n a (st @ [a i]))"
    using rawgeti_sorting [OF assms(1)] assms(3,4) e(2) .
  fix L assume "sorting L0 h f n a (st @ [a i]) L"
  then obtain t where t: "L = sort_state L0 h f t (st @ [a i])" "array_of L0 h n a t"
    by (auto simp: sorting_def)
  have "lua_pushvalue L (-1) = Inr (sort_state L0 h f t (st @ [a i, a i]))"
    using at_neg(1) [of L "LTable h # f # st" "[a i]" 1] by (simp add: t(1) lua_pushvalue_def luaA_pushobject_def)
  then have s: "sorting L0 h f n a ((st @ [a i]) @ [a i]) (sort_state L0 h f t (st @ [a i, a i]))"
    "lua_pushvalue L (-1) = Inr (sort_state L0 h f t (st @ [a i, a i]))"
    using t(2) by (auto simp: sorting_def)
  show "succeeds (bindR (lua_pushvalue L (-1)) (\<lambda>L. bindR (lua_rawgeti L 1 (u - 1)) (\<lambda>L. set2 L i (u - 1))))
      (sorting L0 h f n (swapped i (u - 1) a) (st @ [a i]))"
    unfolding s(2) bindR_simps
  proof (rule succeeds_bind [OF rawgeti_sorting [OF s(1)]])
    fix L assume "sorting L0 h f n a (((st @ [a i]) @ [a i]) @ [a (u - 1)]) L"
    then show "succeeds (set2 L i (u - 1)) (sorting L0 h f n (swapped i (u - 1) a) (st @ [a i]))"
      using assms(3-) e by (intro set2_sorting) simp_all
  qed (use assms(5,6) e(2) in simp_all)
qed

lemma put_pivot_sorting:
  assumes "sorting L0 h f n a st L" "elems_in S n a" "1 \<le> i" "i \<le> n" "1 \<le> u - 1" "u - 1 \<le> n"
  shows "succeeds (put_pivot i u L) (sorting L0 h f n (swapped (u - 1) i a) st)"
  unfolding put_pivot_def
proof (rule push2_sorting [OF assms(1,2,5,6,3,4)])
  fix L assume "sorting L0 h f n a (st @ [a (u - 1), a i]) L"
  then show "succeeds (set2 L (u - 1) i) (sorting L0 h f n (swapped (u - 1) i a) st)"
    using assms(3-) elems_inD [OF assms(2)] by (intro set2_sorting) simp_all
qed

text \<open>The scans stop at the first element that is not smaller (or not greater) than the pivot.\<close>

lemma scan_up_sorting:
  assumes "sorting L0 h f n a (st @ [p]) L" "order_is call f lt S" "elems_in S n a" "p \<in> S"
    and "0 \<le> i" "i < m" "m \<le> n" "m \<le> u + 1" "\<not> lt (a m) p"
  shows "succeeds (scan_up call u i L) (\<lambda>(i', L). i < i' \<and> i' \<le> m \<and> (\<forall>k. i < k \<longrightarrow> k < i' \<longrightarrow> lt (a k) p) \<and>
    \<not> lt (a i') p \<and> sorting L0 h f n a (st @ [p, a i']) L)"
  using assms(1,5,6)
proof (induction "nat (m - i)" arbitrary: i L rule: less_induct)
  case less
  note e = elems_inD [OF assms(3)]
  let ?Q = "\<lambda>i (i', L). i < i' \<and> i' \<le> m \<and> (\<forall>k. i < k \<longrightarrow> k < i' \<longrightarrow> lt (a k) p) \<and>
    \<not> lt (a i') p \<and> sorting L0 h f n a (st @ [p, a i']) L"
  show ?case
  proof (subst scan_up.simps, unfold Let_def, rule succeeds_bind [OF rawgeti_sorting [OF less.prems(1)]])
    fix L assume "sorting L0 h f n a ((st @ [p]) @ [a (i + 1)]) L"
    then have s: "sorting L0 h f n a (st @ [p, a (i + 1)]) L"
      by simp
    show "succeeds (bindR (sort_comp call L (-1) (-2)) (\<lambda>(b, L). if \<not> b then Inr (i + 1, L)
        else if u < i + 1 then luaL_error ''invalid order function for sorting''
        else bindR (lua_pop L 1) (scan_up call u (i + 1)))) (?Q i)"
    proof (rule comp2_sorting [OF s assms(2,4)])
      fix L b assume b: "b = lt (a (i + 1)) p" and s: "sorting L0 h f n a (st @ [p, a (i + 1)]) L"
      show "succeeds (case (b, L) of (b, L) \<Rightarrow> if \<not> b then Inr (i + 1, L)
        else if u < i + 1 then luaL_error ''invalid order function for sorting''
        else bindR (lua_pop L 1) (scan_up call u (i + 1))) (?Q i)"
      proof (cases b)
        case True
        then have i: "i + 1 < m"
          using b assms(9) less.prems(3) by (cases "i + 1 = m") auto
        have "succeeds (bindR (lua_pop L 1) (scan_up call u (i + 1))) (?Q (i + 1))"
        proof (rule succeeds_bind)
          show "succeeds (lua_pop L 1) (sorting L0 h f n a (st @ [p]))"
            using pop_sorting [of L0 h f n a "st @ [p]" "[a (i + 1)]" L 1] s by simp
        qed (use less.hyps [of "i + 1"] less.prems(2,3) i in simp)
        then have "succeeds (bindR (lua_pop L 1) (scan_up call u (i + 1))) (?Q i)"
        proof (rule succeeds_mono)
          fix r assume "?Q (i + 1) r"
          moreover have "lt (a k) p" if "\<forall>k. i + 1 < k \<longrightarrow> k < i' \<longrightarrow> lt (a k) p" "i < k" "k < i'" for k i'
            using that True b by (cases "k = i + 1") auto
          ultimately show "?Q i r"
            by (auto split: prod.splits)
        qed
        then show ?thesis
          using True i assms(8) by simp
      next
        case False
        then show ?thesis
          using b s less.prems(3) by simp
      qed
    qed (use e less.prems assms(7) in auto)
  qed (use less.prems assms(7) e(2) in simp_all)
qed

lemma scan_down_sorting:
  assumes "sorting L0 h f n a (st @ [p, x]) L" "order_is call f lt S" "elems_in S n a" "p \<in> S"
    and "j \<le> n + 1" "m < j" "1 \<le> m" "l \<le> m" "\<not> lt p (a m)"
  shows "succeeds (scan_down call l j L) (\<lambda>(j', L). m \<le> j' \<and> j' < j \<and> (\<forall>k. j' < k \<longrightarrow> k < j \<longrightarrow> lt p (a k)) \<and>
    \<not> lt p (a j') \<and> sorting L0 h f n a (st @ [p, x, a j']) L)"
  using assms(1,5,6)
proof (induction "nat (j - m)" arbitrary: j L rule: less_induct)
  case less
  note e = elems_inD [OF assms(3)]
  let ?Q = "\<lambda>j (j', L). m \<le> j' \<and> j' < j \<and> (\<forall>k. j' < k \<longrightarrow> k < j \<longrightarrow> lt p (a k)) \<and>
    \<not> lt p (a j') \<and> sorting L0 h f n a (st @ [p, x, a j']) L"
  show ?case
  proof (subst scan_down.simps, unfold Let_def, rule succeeds_bind [OF rawgeti_sorting [OF less.prems(1)]])
    fix L assume "sorting L0 h f n a ((st @ [p, x]) @ [a (j - 1)]) L"
    then have s: "sorting L0 h f n a (st @ [p, x, a (j - 1)]) L"
      by simp
    show "succeeds (bindR (sort_comp call L (-3) (-1)) (\<lambda>(b, L). if \<not> b then Inr (j - 1, L)
        else if j - 1 < l then luaL_error ''invalid order function for sorting''
        else bindR (lua_pop L 1) (scan_down call l (j - 1)))) (?Q j)"
    proof (rule comp3_sorting [OF s assms(2,4)])
      fix L b assume b: "b = lt p (a (j - 1))" and s: "sorting L0 h f n a (st @ [p, x, a (j - 1)]) L"
      show "succeeds (case (b, L) of (b, L) \<Rightarrow> if \<not> b then Inr (j - 1, L)
        else if j - 1 < l then luaL_error ''invalid order function for sorting''
        else bindR (lua_pop L 1) (scan_down call l (j - 1))) (?Q j)"
      proof (cases b)
        case True
        then have j: "m < j - 1"
          using b assms(9) less.prems(3) by (cases "m = j - 1") auto
        have "succeeds (bindR (lua_pop L 1) (scan_down call l (j - 1))) (?Q (j - 1))"
        proof (rule succeeds_bind)
          show "succeeds (lua_pop L 1) (sorting L0 h f n a (st @ [p, x]))"
            using pop_sorting [of L0 h f n a "st @ [p, x]" "[a (j - 1)]" L 1] s by simp
        qed (use less.hyps [of "j - 1"] less.prems(2,3) j in simp)
        then have "succeeds (bindR (lua_pop L 1) (scan_down call l (j - 1))) (?Q j)"
        proof (rule succeeds_mono)
          fix r assume "?Q (j - 1) r"
          moreover have "lt p (a k)" if "\<forall>k. j' < k \<longrightarrow> k < j - 1 \<longrightarrow> lt p (a k)" "j' < k" "k < j" for k j'
            using that True b by (cases "k = j - 1") auto
          ultimately show "?Q j r"
            by (auto split: prod.splits)
        qed
        then show ?thesis
          using True j assms(8) by simp
      next
        case False
        then show ?thesis
          using b s less.prems(3) by simp
      qed
    qed (use e less.prems assms(7) in auto)
  qed (use less.prems assms(7) e(2) in simp_all)
qed

section \<open>Permutations and order\<close>

definition perm_on :: "int \<Rightarrow> int \<Rightarrow> (int \<Rightarrow> TObject) \<Rightarrow> (int \<Rightarrow> TObject) \<Rightarrow> bool" where
  "perm_on l u a b \<longleftrightarrow> (\<forall>i. i < l \<or> u < i \<longrightarrow> b i = a i) \<and>
     image_mset b (mset_set {l..u}) = image_mset a (mset_set {l..u})"

lemma perm_refl [simp]: "perm_on l u a a"
  by (simp add: perm_on_def)

lemma perm_trans: "perm_on l u a b \<Longrightarrow> perm_on l u b c \<Longrightarrow> perm_on l u a c"
  by (simp add: perm_on_def)

lemma perm_widen:
  assumes "perm_on l u a b" "l' \<le> l" "u \<le> u'"
  shows "perm_on l' u' a b"
proof -
  let ?R = "{l'..u'} - {l..u}"
  have "mset_set {l'..u'} = mset_set ({l'..u'} \<inter> {l..u}) + mset_set ?R"
    by (subst mset_set_Union [symmetric]) (auto intro!: arg_cong [where f = mset_set])
  moreover have "image_mset b (mset_set ?R) = image_mset a (mset_set ?R)"
    using assms(1) by (intro image_mset_cong) (auto simp: perm_on_def)
  moreover have "{l'..u'} \<inter> {l..u} = {l..u}"
    using assms(2,3) by auto
  ultimately show ?thesis
    using assms by (auto simp: perm_on_def)
qed

lemma perm_swapped:
  assumes "l \<le> i" "i \<le> u" "l \<le> j" "j \<le> u"
  shows "perm_on l u a (swapped i j a)"
proof (cases "i = j")
  case False
  let ?R = "{l..u} - {i, j}"
  have s: "{l..u} = insert i (insert j ?R)"
    using assms by auto
  have m: "mset_set {l..u} = add_mset i (add_mset j (mset_set ?R))"
    using False by (subst s) (subst mset_set.insert, simp_all)
  have "image_mset (swapped i j a) (mset_set ?R) = image_mset a (mset_set ?R)"
    by (intro image_mset_cong) (auto simp: swapped_def)
  then have "image_mset (swapped i j a) (mset_set {l..u}) = image_mset a (mset_set {l..u})"
    using False unfolding m by (simp add: swapped_def add_mset_commute)
  moreover have "swapped i j a k = a k" if "k < l \<or> u < k" for k
    using that assms by (auto simp: swapped_def)
  ultimately show ?thesis
    by (simp add: perm_on_def)
qed (simp add: swapped_def)

lemma perm_elem:
  assumes "perm_on l u a b" "l \<le> i" "i \<le> u"
  obtains j where "l \<le> j" "j \<le> u" "b i = a j"
proof -
  have "b i \<in># image_mset b (mset_set {l..u})"
    using assms(2,3) by simp
  then have "b i \<in># image_mset a (mset_set {l..u})"
    using assms(1) by (simp only: perm_on_def)
  then show thesis
    using that by auto
qed

lemma perm_elem_ex: "perm_on l u a b \<Longrightarrow> l \<le> i \<Longrightarrow> i \<le> u \<Longrightarrow> \<exists>j. l \<le> j \<and> j \<le> u \<and> b i = a j"
  using perm_elem [of l u a b i] by blast

lemma perm_outside: "perm_on l u a b \<Longrightarrow> i < l \<or> u < i \<Longrightarrow> b i = a i"
  by (auto simp: perm_on_def)

lemma perm_elems_in:
  assumes "perm_on l u a b" "elems_in S n a" "1 \<le> l" "u \<le> n"
  shows "elems_in S n b"
proof -
  have "b i \<in> S" if "1 \<le> i" "i \<le> n" for i
  proof (cases "l \<le> i \<and> i \<le> u")
    case True
    then obtain j where "l \<le> j" "j \<le> u" "b i = a j"
      using perm_elem [OF assms(1)] by blast
    then show ?thesis
      using assms(2-) by (simp add: elems_in_def)
  qed (use that assms in \<open>auto simp: perm_on_def elems_in_def\<close>)
  then show ?thesis
    using assms(2) by (simp add: elems_in_def)
qed

definition strict_order :: "(TObject \<Rightarrow> TObject \<Rightarrow> bool) \<Rightarrow> TObject set \<Rightarrow> bool" where
  "strict_order lt S \<longleftrightarrow> (\<forall>x \<in> S. \<forall>y \<in> S. lt x y \<longrightarrow> \<not> lt y x) \<and>
     (\<forall>x \<in> S. \<forall>y \<in> S. \<forall>z \<in> S. \<not> lt y x \<longrightarrow> \<not> lt z y \<longrightarrow> \<not> lt z x)"

lemma strict_orderD:
  assumes "strict_order lt S"
  shows "x \<in> S \<Longrightarrow> y \<in> S \<Longrightarrow> lt x y \<Longrightarrow> \<not> lt y x" "x \<in> S \<Longrightarrow> \<not> lt x x"
    "x \<in> S \<Longrightarrow> y \<in> S \<Longrightarrow> z \<in> S \<Longrightarrow> \<not> lt y x \<Longrightarrow> \<not> lt z y \<Longrightarrow> \<not> lt z x"
  using assms unfolding strict_order_def by blast+

definition sorted_on :: "(TObject \<Rightarrow> TObject \<Rightarrow> bool) \<Rightarrow> int \<Rightarrow> int \<Rightarrow> (int \<Rightarrow> TObject) \<Rightarrow> bool" where
  "sorted_on lt l u a \<longleftrightarrow> (\<forall>i j. l \<le> i \<longrightarrow> i < j \<longrightarrow> j \<le> u \<longrightarrow> \<not> lt (a j) (a i))"

text \<open>The array after the loop: the pivot \<open>p\<close> belongs to position \<open>m\<close>.\<close>

definition parted :: "(TObject \<Rightarrow> TObject \<Rightarrow> bool) \<Rightarrow> TObject \<Rightarrow> int \<Rightarrow> int \<Rightarrow> int \<Rightarrow> (int \<Rightarrow> TObject) \<Rightarrow> bool" where
  "parted lt p l m u b \<longleftrightarrow> (\<forall>k. l \<le> k \<longrightarrow> k < m \<longrightarrow> \<not> lt p (b k)) \<and> (\<forall>k. m \<le> k \<longrightarrow> k \<le> u \<longrightarrow> \<not> lt (b k) p)"

lemma partition_loop_sorting:
  assumes o: "order_is call f lt S" "strict_order lt S" and p: "p \<in> S" and lu: "1 \<le> l" "u \<le> n"
  shows "sorting L0 h f n a (st @ [p]) L \<Longrightarrow> elems_in S n a \<Longrightarrow> l \<le> i \<Longrightarrow> i \<le> j \<Longrightarrow> j \<le> u - 1 \<Longrightarrow> i < u - 1 \<Longrightarrow> l < j \<Longrightarrow>
    a (u - 1) = p \<Longrightarrow> (\<forall>k. l \<le> k \<longrightarrow> k \<le> i \<longrightarrow> \<not> lt p (a k)) \<Longrightarrow> (\<forall>k. j \<le> k \<longrightarrow> k \<le> u \<longrightarrow> \<not> lt (a k) p) \<Longrightarrow>
    u - i < int fuel \<Longrightarrow>
    succeeds (partition_loop fuel call l u i j L) (\<lambda>(m, L). \<exists>b. sorting L0 h f n b st L \<and> perm_on l u a b \<and>
      b (u - 1) = p \<and> l < m \<and> m \<le> u - 1 \<and> parted lt p l m u b)"
proof (induction fuel arbitrary: i j a L)
  case (Suc fuel)
  note e = elems_inD [OF Suc.prems(2)]
  let ?Q = "\<lambda>a (m, L). \<exists>b. sorting L0 h f n b st L \<and> perm_on l u a b \<and>
      b (u - 1) = p \<and> l < m \<and> m \<le> u - 1 \<and> parted lt p l m u b"
  have "succeeds (scan_up call u i L) (\<lambda>(i', L). i < i' \<and> i' \<le> u - 1 \<and> (\<forall>k. i < k \<longrightarrow> k < i' \<longrightarrow> lt (a k) p) \<and>
      \<not> lt (a i') p \<and> sorting L0 h f n a (st @ [p, a i']) L)"
    using Suc.prems lu p strict_orderD(2) [OF o(2)] by (intro scan_up_sorting [OF _ o(1)]) simp_all
  then show ?case
    unfolding partition_loop.simps
  proof (rule succeeds_bind, clarify)
    fix i' L
    assume i': "i < i'" "i' \<le> u - 1" "\<forall>k. i < k \<longrightarrow> k < i' \<longrightarrow> lt (a k) p" "\<not> lt (a i') p"
      and s: "sorting L0 h f n a (st @ [p, a i']) L"
    have low: "\<not> lt p (a k)" if "l \<le> k" "k < i'" for k
    proof (cases "k \<le> i")
      case False
      then show ?thesis
        using i'(3) that strict_orderD(1) [OF o(2) _ p] e(1) [of k] lu i'(2) by simp
    qed (use Suc.prems that in simp)
    have "succeeds (scan_down call l j L) (\<lambda>(j', L). l \<le> j' \<and> j' < j \<and> (\<forall>k. j' < k \<longrightarrow> k < j \<longrightarrow> lt p (a k)) \<and>
      \<not> lt p (a j') \<and> sorting L0 h f n a (st @ [p, a i', a j']) L)"
      using s Suc.prems lu p by (intro scan_down_sorting [OF _ o(1)]) simp_all
    then show "succeeds (bindR (scan_down call l j L) (\<lambda>(j, L).
        if j < i' then bindR (lua_pop L 3) (\<lambda>L. Inr (i', L))
        else bindR (set2 L i' j) (partition_loop fuel call l u i' j))) (?Q a)"
    proof (rule succeeds_bind, clarify)
      fix j' L
      assume j': "l \<le> j'" "j' < j" "\<forall>k. j' < k \<longrightarrow> k < j \<longrightarrow> lt p (a k)" "\<not> lt p (a j')"
        and s: "sorting L0 h f n a (st @ [p, a i', a j']) L"
      have high: "\<not> lt (a k) p" if "j' < k" "k \<le> u" for k
      proof (cases "k < j")
        case True
        then show ?thesis
          using j'(3) that(1) strict_orderD(1) [OF o(2) p, of "a k"] e(1) [of k] lu j'(1) Suc.prems(5) by simp
      qed (use Suc.prems that in simp)
      show "succeeds (if j' < i' then bindR (lua_pop L 3) (\<lambda>L. Inr (i', L))
        else bindR (set2 L i' j') (partition_loop fuel call l u i' j')) (?Q a)"
      proof (cases "j' < i'")
        case True
        have "\<not> lt (a k) p" if "i' \<le> k" "k \<le> u" for k
          using that True i'(4) high [of k] by (cases "k = i'") simp_all
        then have "parted lt p l i' u a"
          using low by (simp add: parted_def)
        moreover have "succeeds (lua_pop L 3) (sorting L0 h f n a st)"
          using pop_sorting [of L0 h f n a st "[p, a i', a j']" L 3] s by simp
        ultimately have "succeeds (bindR (lua_pop L 3) (\<lambda>L. Inr (i', L))) (?Q a)"
          using i'(1,2) Suc.prems(3,8) by (intro succeeds_bind [of _ "sorting L0 h f n a st"]) auto
        then show ?thesis
          using True by simp
      next
        case False
        let ?a = "swapped i' j' a"
        have r: "1 \<le> i'" "i' \<le> n" "1 \<le> j'" "j' \<le> n" "i' < u - 1" "j' < u - 1" "l \<le> i'"
          using False i' j' lu Suc.prems by linarith+
        have "succeeds (set2 L i' j') (sorting L0 h f n ?a (st @ [p]))"
          using s r e by (intro set2_sorting) simp_all
        then have "succeeds (bindR (set2 L i' j') (partition_loop fuel call l u i' j')) (?Q ?a)"
        proof (rule succeeds_bind)
          fix L assume "sorting L0 h f n ?a (st @ [p]) L"
          then show "succeeds (partition_loop fuel call l u i' j' L) (?Q ?a)"
          proof (rule Suc.IH)
            show "elems_in S n ?a"
              using elems_in_swapped [OF Suc.prems(2)] r by simp
            show "?a (u - 1) = p"
              using r Suc.prems(8) by (simp add: swapped_def)
            show "\<forall>k. l \<le> k \<longrightarrow> k \<le> i' \<longrightarrow> \<not> lt p (?a k)"
              using low j'(4) False by (auto simp: swapped_def)
            show "\<forall>k. j' \<le> k \<longrightarrow> k \<le> u \<longrightarrow> \<not> lt (?a k) p"
              using high i'(4) False by (auto simp: swapped_def)
          qed (use False i' j' r Suc.prems in linarith)+
        qed
        then have "succeeds (bindR (set2 L i' j') (partition_loop fuel call l u i' j')) (?Q a)"
        proof (rule succeeds_mono)
          have "perm_on l u a ?a"
            using r j' by (intro perm_swapped) linarith+
          then show "?Q a x" if "?Q ?a x" for x
            using that perm_trans by (auto split: prod.splits) 
        qed
        then show ?thesis
          using False by simp
      qed
    qed
  qed
qed simp

section \<open>The sort\<close>

lemma order3:
  assumes o: "strict_order lt S" and e: "a l \<in> S" "a i \<in> S" "a u \<in> S" and i: "l < i" "i < u"
    and b: "b = put_in_order lt l u a" and c: "c = (if lt (b i) (b l) then swapped i l b else put_in_order lt i u b)"
  shows "\<not> lt (c i) (c l)" "\<not> lt (c u) (c i)" "\<not> lt (c u) (c l)"
proof -
  have b3: "b l \<in> S" "b i \<in> S" "b u \<in> S" "\<not> lt (b u) (b l)"
    using e i strict_orderD(1) [OF o, of "a u" "a l"] by (auto simp: b put_in_order_def swapped_def)
  then show c3: "\<not> lt (c i) (c l)" "\<not> lt (c u) (c i)"
    using i strict_orderD(1) [OF o, of "b i" "b l"] strict_orderD(1) [OF o, of "b u" "b i"]
    by (auto simp: c put_in_order_def swapped_def)
  have "c l \<in> S" "c i \<in> S" "c u \<in> S"
    using b3 by (auto simp: c put_in_order_def swapped_def)
  then show "\<not> lt (c u) (c l)"
    using strict_orderD(3) [OF o] c3 by blast
qed

lemma sorted_parts:
  assumes o: "strict_order lt S" and e: "\<And>k. l \<le> k \<Longrightarrow> k \<le> u \<Longrightarrow> a k \<in> S"
    and s: "sorted_on lt l (m - 1) a" "sorted_on lt (m + 1) u a" "parted lt (a m) l m u a" and m: "l \<le> m" "m \<le> u"
  shows "sorted_on lt l u a"
  unfolding sorted_on_def
proof (intro allI impI)
  fix i j assume ij: "l \<le> i" "i < j" "j \<le> u"
  have low: "\<not> lt (a m) (a k)" if "l \<le> k" "k < m" for k
    using s(3) that by (simp add: parted_def)
  have high: "\<not> lt (a k) (a m)" if "m \<le> k" "k \<le> u" for k
    using s(3) that by (simp add: parted_def)
  consider "j < m" | "j = m" | "i < m" "m < j" | "i = m" | "m < i"
    using ij by linarith
  then show "\<not> lt (a j) (a i)"
  proof cases
    case 1
    then show ?thesis
      using s(1) ij by (simp add: sorted_on_def)
  next
    case 2
    then show ?thesis
      using low [of i] ij by simp
  next
    case 3
    then show ?thesis
      using strict_orderD(3) [OF o e e e, of i m j] low [of i] high [of j] ij m by simp
  next
    case 4
    then show ?thesis
      using high [of j] ij by simp
  next
    case 5
    then show ?thesis
      using s(2) ij by (simp add: sorted_on_def)
  qed
qed

lemma sorted_on_cong: "(\<And>k. l \<le> k \<Longrightarrow> k \<le> u \<Longrightarrow> b k = a k) \<Longrightarrow> sorted_on lt l u a \<Longrightarrow> sorted_on lt l u b"
  by (simp add: sorted_on_def)

text \<open>Sorting the two sides of the pivot, in either order, sorts the whole.\<close>

definition sorts :: "(TObject \<Rightarrow> TObject \<Rightarrow> bool) \<Rightarrow> int \<Rightarrow> int \<Rightarrow> (int \<Rightarrow> TObject) \<Rightarrow> (int \<Rightarrow> TObject) \<Rightarrow> bool" where
  "sorts lt l u a b \<longleftrightarrow> perm_on l u a b \<and> sorted_on lt l u b"

lemma sides_sorted:
  assumes o: "strict_order lt S" and c: "elems_in S n c" "parted lt (c m) l m u c" and m: "1 \<le> l" "l \<le> m" "m \<le> u" "u \<le> n"
    and e: "e m = c m" "\<And>k. l \<le> k \<Longrightarrow> k < m \<Longrightarrow> \<exists>j. l \<le> j \<and> j < m \<and> e k = c j"
      "\<And>k. m < k \<Longrightarrow> k \<le> u \<Longrightarrow> \<exists>j. m < j \<and> j \<le> u \<and> e k = c j"
    and s: "sorted_on lt l (m - 1) e" "sorted_on lt (m + 1) u e"
  shows "sorted_on lt l u e"
proof (rule sorted_parts [OF o _ s _ m(2,3)])
  note S = elems_inD(1) [OF c(1)]
  show "e k \<in> S" if "l \<le> k" "k \<le> u" for k
    using that e(1) e(2) [of k] e(3) [of k] S m by (cases "k < m"; cases "k = m") fastforce+
  have "\<not> lt (e m) (e k)" if "l \<le> k" "k < m" for k
    using e(1) e(2) [OF that] c(2) by (auto simp: parted_def)
  moreover have "\<not> lt (e k) (e m)" if "m \<le> k" "k \<le> u" for k
  proof (cases "k = m")
    case True
    then show ?thesis
      using strict_orderD(2) [OF o] S [of m] e(1) m by simp
  next
    case False
    then show ?thesis
      using e(1) e(3) [of k] c(2) that by (force simp: parted_def)
  qed
  ultimately show "parted lt (e m) l m u e"
    by (simp add: parted_def)
qed

lemma sorts_sides:
  assumes o: "strict_order lt S" and c: "elems_in S n c" "parted lt (c m) l m u c" and m: "1 \<le> l" "l \<le> m" "m \<le> u" "u \<le> n"
    and d: "sorts lt l (m - 1) c d \<and> sorts lt (m + 1) u d e \<or> sorts lt (m + 1) u c d \<and> sorts lt l (m - 1) d e"
  shows "sorts lt l u c e"
proof -
  have p: "perm_on l u c e"
    using d
  proof
    assume "sorts lt l (m - 1) c d \<and> sorts lt (m + 1) u d e"
    then show ?thesis
      using perm_widen [of l "m - 1" c d l u] perm_widen [of "m + 1" u d e l u] m perm_trans [of l u c d e]
      by (simp add: sorts_def)
  next
    assume "sorts lt (m + 1) u c d \<and> sorts lt l (m - 1) d e"
    then show ?thesis
      using perm_widen [of "m + 1" u c d l u] perm_widen [of l "m - 1" d e l u] m perm_trans [of l u c d e]
      by (simp add: sorts_def)
  qed
  moreover have "sorted_on lt l u e"
    using d
  proof
    assume d: "sorts lt l (m - 1) c d \<and> sorts lt (m + 1) u d e"
    then have dc: "d k = c k" if "m \<le> k" for k
      using that perm_outside [of l "m - 1" c d k] by (simp add: sorts_def)
    have ed: "e k = d k" if "k \<le> m" for k
      using d that perm_outside [of "m + 1" u d e k] by (simp add: sorts_def)
    show ?thesis
    proof (rule sides_sorted [OF o c m])
      show "e m = c m"
        using dc ed by simp
      show "\<exists>j. l \<le> j \<and> j < m \<and> e k = c j" if "l \<le> k" "k < m" for k
        using perm_elem_ex [of l "m - 1" c d k] d ed [of k] that by (simp add: sorts_def)
      show "\<exists>j. m < j \<and> j \<le> u \<and> e k = c j" if "m < k" "k \<le> u" for k
      proof -
        have "m + 1 \<le> k"
          using that by simp
        then have "\<exists>j. m + 1 \<le> j \<and> j \<le> u \<and> e k = d j"
          using d that(2) unfolding sorts_def by (intro perm_elem_ex) simp_all
        then obtain j where "m + 1 \<le> j" "j \<le> u" "e k = d j"
          by blast
        then show ?thesis
          using dc [of j] by (intro exI [of _ j]) simp
      qed
      show "sorted_on lt l (m - 1) e"
        using d sorted_on_cong [of l "m - 1" e d lt] ed by (simp add: sorts_def)
      show "sorted_on lt (m + 1) u e"
        using d by (simp add: sorts_def)
    qed
  next
    assume d: "sorts lt (m + 1) u c d \<and> sorts lt l (m - 1) d e"
    then have dc: "d k = c k" if "k \<le> m" for k
      using that perm_outside [of "m + 1" u c d k] by (simp add: sorts_def)
    have ed: "e k = d k" if "m \<le> k" for k
      using d that perm_outside [of l "m - 1" d e k] by (simp add: sorts_def)
    show ?thesis
    proof (rule sides_sorted [OF o c m])
      show "e m = c m"
        using dc ed by simp
      show "\<exists>j. l \<le> j \<and> j < m \<and> e k = c j" if "l \<le> k" "k < m" for k
      proof -
        have "\<exists>j. l \<le> j \<and> j \<le> m - 1 \<and> e k = d j"
          using d that unfolding sorts_def by (intro perm_elem_ex) simp_all
        then obtain j where "l \<le> j" "j \<le> m - 1" "e k = d j"
          by blast
        then show ?thesis
          using dc [of j] by (intro exI [of _ j]) simp
      qed
      show "\<exists>j. m < j \<and> j \<le> u \<and> e k = c j" if "m < k" "k \<le> u" for k
        using perm_elem_ex [of "m + 1" u c d k] d ed [of k] that by (simp add: sorts_def add1_zle_eq)
      show "sorted_on lt (m + 1) u e"
        using d sorted_on_cong [of "m + 1" u e d lt] ed by (simp add: sorts_def)
      show "sorted_on lt l (m - 1) e"
        using d by (simp add: sorts_def)
    qed
  qed
  ultimately show ?thesis
    by (simp add: sorts_def)
qed

lemma middle_between: "l < u \<Longrightarrow> u - l \<noteq> 1 \<Longrightarrow> 1 \<le> l \<Longrightarrow> l + u \<le> INT_MAX \<Longrightarrow>
    l < half (int_wrap (l + u)) \<and> half (int_wrap (l + u)) < u"
  by (simp add: int_wrap_small half_def INT_MIN_def) linarith

text \<open>One round, up to the two calls.\<close>

lemma partition_sorting:
  assumes o: "order_is call f lt S" "strict_order lt S" and s: "sorting L0 h f n c [] L" and e: "elems_in S n c"
    and lu: "1 \<le> l" "u \<le> n" "l < i" "i < u" "l + 2 < u" and c: "\<not> lt (c i) (c l)" "\<not> lt (c u) (c i)"
    and k: "\<And>m L d. sorting L0 h f n d [] L \<Longrightarrow> perm_on l u c d \<Longrightarrow> l < m \<Longrightarrow> m \<le> u - 1 \<Longrightarrow> parted lt (d m) l m u d \<Longrightarrow>
      succeeds (k m L) Q"
  shows "succeeds (bindR (take_pivot i u L) (\<lambda>L. bindR (partition_loop (nat (u - l) + 1) call l u l (u - 1) L) (\<lambda>(i, L).
    bindR (put_pivot i u L) (k i)))) Q"
proof (rule succeeds_bind)
  let ?d = "swapped i (u - 1) c"
  note S = elems_inD(1) [OF e]
  have pd: "perm_on l u c ?d"
    using lu by (intro perm_swapped) simp_all
  have Sd: "elems_in S n ?d"
    using elems_in_swapped [OF e] lu by simp
  show "succeeds (take_pivot i u L) (sorting L0 h f n ?d ([] @ [c i]))"
    using s e lu by (intro take_pivot_sorting) simp_all
  fix L assume s: "sorting L0 h f n ?d ([] @ [c i]) L"
  show "succeeds (bindR (partition_loop (nat (u - l) + 1) call l u l (u - 1) L) (\<lambda>(i, L). bindR (put_pivot i u L) (k i))) Q"
  proof (rule succeeds_bind)
    show "succeeds (partition_loop (nat (u - l) + 1) call l u l (u - 1) L) (\<lambda>(m, L). \<exists>b. sorting L0 h f n b [] L \<and>
        perm_on l u ?d b \<and> b (u - 1) = c i \<and> l < m \<and> m \<le> u - 1 \<and> parted lt (c i) l m u b)"
    proof (rule partition_loop_sorting [OF o _ lu(1,2) s Sd])
      show "\<forall>k. u - 1 \<le> k \<longrightarrow> k \<le> u \<longrightarrow> \<not> lt (?d k) (c i)"
      proof (intro allI impI)
        fix k assume "u - 1 \<le> k" "k \<le> u"
        then consider "k = u - 1" | "k = u"
          by linarith
        then show "\<not> lt (?d k) (c i)"
          using c(2) strict_orderD(2) [OF o(2), of "c i"] S lu by cases (auto simp: swapped_def)
      qed
      show "\<forall>k. l \<le> k \<longrightarrow> k \<le> l \<longrightarrow> \<not> lt (c i) (?d k)"
      proof (intro allI impI)
        fix k assume "l \<le> k" "k \<le> l"
        then have "?d k = c l"
          using lu by (simp add: swapped_def)
        then show "\<not> lt (c i) (?d k)"
          using c(1) by simp
      qed
    qed (use lu S in \<open>auto simp: swapped_def\<close>)
  next
    fix r assume "case r of (m, L) \<Rightarrow> \<exists>b. sorting L0 h f n b [] L \<and>
        perm_on l u ?d b \<and> b (u - 1) = c i \<and> l < m \<and> m \<le> u - 1 \<and> parted lt (c i) l m u b"
    then obtain m L b where r: "r = (m, L)" "sorting L0 h f n b [] L" "perm_on l u ?d b" "b (u - 1) = c i" "l < m" "m \<le> u - 1"
        "parted lt (c i) l m u b"
      by (auto split: prod.splits)
    let ?b = "swapped (u - 1) m b"
    have pb: "perm_on l u c ?b"
      using perm_trans [OF perm_trans [OF pd r(3)] perm_swapped, of "u - 1" m] lu r(5,6) by simp
    have "parted lt (?b m) l m u ?b"
    proof -
      have "?b m = c i"
        using r(4) by (simp add: swapped_def)
      moreover have "\<not> lt (c i) (?b k)" if "l \<le> k" "k < m" for k
        using that r(6,7) by (simp add: swapped_def parted_def)
      moreover have "\<not> lt (?b k) (c i)" if "m \<le> k" "k \<le> u" for k
        using that r(4,6,7) strict_orderD(2) [OF o(2), of "c i"] S lu by (auto simp: swapped_def parted_def)
      ultimately show ?thesis
        by (simp add: parted_def)
    qed
    then have kk: "succeeds (k m L) Q" if "sorting L0 h f n ?b [] L" for L
      using k [OF that pb r(5,6)] by blast
    have "elems_in S n b"
      using perm_elems_in [OF r(3) Sd lu(1,2)] .
    then have "succeeds (put_pivot m u L) (sorting L0 h f n ?b [])"
      using r lu by (intro put_pivot_sorting) simp_all
    then show "succeeds (case r of (i, L) \<Rightarrow> bindR (put_pivot i u L) (k i)) Q"
      unfolding r(1) prod.case by (rule succeeds_bind) (rule kk)
  qed
qed

lemma auxsort_sorting:
  assumes o: "order_is call f lt S" "strict_order lt S" and n: "2 * n \<le> INT_MAX"
  shows "sorting L0 h f n a [] L \<Longrightarrow> elems_in S n a \<Longrightarrow> 1 \<le> l \<Longrightarrow> u \<le> n \<Longrightarrow> u - l < int fuel \<Longrightarrow> 0 < fuel \<Longrightarrow>
    succeeds (auxsort fuel call l u L) (\<lambda>L. \<exists>b. sorting L0 h f n b [] L \<and> sorts lt l u a b)"
proof (induction fuel arbitrary: l u a L)
  case (Suc fuel)
  let ?Q = "\<lambda>a l u L. \<exists>b. sorting L0 h f n b [] L \<and> sorts lt l u a b"
  show ?case
  proof (cases "l < u")
    case False
    then show ?thesis
      using Suc.prems(1) by (auto simp: sorts_def sorted_on_def intro: exI [of _ a])
  next
    case lu: True
    define b where "b = put_in_order lt l u a"
    have ab: "perm_on l u a b"
      using perm_swapped [of l l u u a] lu by (simp add: b_def put_in_order_def)
    have Sb: "elems_in S n b"
      using perm_elems_in [OF ab Suc.prems(2)] Suc.prems(3,4) .
    have "succeeds (order_ends call l u L) (sorting L0 h f n b [])"
      unfolding b_def using Suc.prems lu by (intro order_ends_sorting [OF _ o(1)]) simp_all
    then show ?thesis
      unfolding auxsort.simps
    proof (simp only: lu not_True_eq_False if_False, rule_tac succeeds_bind)
      fix L assume sb: "sorting L0 h f n b [] L"
      define i where "i = half (int_wrap (l + u))"
      define c where "c = (if lt (b i) (b l) then swapped i l b else put_in_order lt i u b)"
      show "succeeds (if u - l = 1 then Inr L else let i = half (int_wrap (l + u))
          in bindR (order_middle call l i u L) (\<lambda>L. if u - l = 2 then Inr L
               else bindR (take_pivot i u L) (\<lambda>L.
                 bindR (partition_loop (nat (u - l) + 1) call l u l (u - 1) L) (\<lambda>(i, L).
                 bindR (put_pivot i u L) (\<lambda>L.
                   let (j, i, l, u) = (if i - l < u - i then (l, i - 1, i + 1, u) else (i + 1, u, l, i - 1))
                   in bindR (auxsort fuel call j i L) (auxsort fuel call l u)))))) (?Q a l u)"
      proof (cases "u - l = 1")
        case True
        have "\<not> lt (b u) (b l)"
          using strict_orderD(1) [OF o(2), of "a u" "a l"] elems_inD(1) [OF Suc.prems(2)] Suc.prems(3,4) lu
          by (auto simp: b_def put_in_order_def swapped_def)
        then have "sorted_on lt l u b"
          unfolding sorted_on_def using True by (metis add_diff_cancel_left' diff_add_cancel linorder_cases order.strict_trans1 zless_imp_add1_zle not_le)
        then show ?thesis
          using True sb ab by (auto simp: sorts_def)
      next
        case False
        have i: "l < i" "i < u"
          using middle_between [OF lu False Suc.prems(3)] Suc.prems(4) lu n by (simp_all add: i_def)
        have bc: "perm_on l u b c"
          using i perm_swapped [of l i u l b] perm_swapped [of l i u u b] by (simp add: c_def put_in_order_def)
        have c3: "\<not> lt (c i) (c l)" "\<not> lt (c u) (c i)" "\<not> lt (c u) (c l)"
          using order3 [OF o(2) _ _ _ i b_def c_def] elems_inD(1) [OF Suc.prems(2)] Suc.prems(3,4) i by auto
        have ac: "perm_on l u a c"
          using ab bc perm_trans by blast
        have Sc: "elems_in S n c"
          using perm_elems_in [OF ac Suc.prems(2)] Suc.prems(3,4) .
        have "succeeds (order_middle call l i u L) (sorting L0 h f n c [])"
          unfolding c_def using sb Sb i Suc.prems(3,4) by (intro order_middle_sorting [OF _ o(1)]) simp_all
        then have "succeeds (bindR (order_middle call l i u L) (\<lambda>L. if u - l = 2 then Inr L
               else bindR (take_pivot i u L) (\<lambda>L.
                 bindR (partition_loop (nat (u - l) + 1) call l u l (u - 1) L) (\<lambda>(i, L).
                 bindR (put_pivot i u L) (\<lambda>L.
                   let (j, i, l, u) = (if i - l < u - i then (l, i - 1, i + 1, u) else (i + 1, u, l, i - 1))
                   in bindR (auxsort fuel call j i L) (auxsort fuel call l u)))))) (?Q a l u)"
        proof (rule succeeds_bind)
          fix L assume sc: "sorting L0 h f n c [] L"
          show "succeeds (if u - l = 2 then Inr L
               else bindR (take_pivot i u L) (\<lambda>L.
                 bindR (partition_loop (nat (u - l) + 1) call l u l (u - 1) L) (\<lambda>(i, L).
                 bindR (put_pivot i u L) (\<lambda>L.
                   let (j, i, l, u) = (if i - l < u - i then (l, i - 1, i + 1, u) else (i + 1, u, l, i - 1))
                   in bindR (auxsort fuel call j i L) (auxsort fuel call l u))))) (?Q a l u)"
          proof (cases "u - l = 2")
            case True
            then have "k = l \<or> k = i \<or> k = u" if "l \<le> k" "k \<le> u" for k
              using i that by linarith
            then have "sorted_on lt l u c"
              unfolding sorted_on_def using c3 i by (smt (verit))
            then show ?thesis
              using True sc ac by (auto simp: sorts_def)
          next
            case f: False
            then have w: "l + 2 < u"
              using lu False by linarith
            have "succeeds (bindR (take_pivot i u L) (\<lambda>L.
                 bindR (partition_loop (nat (u - l) + 1) call l u l (u - 1) L) (\<lambda>(i, L).
                 bindR (put_pivot i u L) (\<lambda>L.
                   let (j, i, l, u) = (if i - l < u - i then (l, i - 1, i + 1, u) else (i + 1, u, l, i - 1))
                   in bindR (auxsort fuel call j i L) (auxsort fuel call l u))))) (?Q a l u)"
            proof (rule partition_sorting [OF o sc Sc Suc.prems(3,4) i w c3(1,2)])
              fix m L d
              assume d: "sorting L0 h f n d [] L" "perm_on l u c d" "l < m" "m \<le> u - 1" "parted lt (d m) l m u d"
              have Sd: "elems_in S n d"
                using perm_elems_in [OF d(2) Sc Suc.prems(3,4)] .
              have two: "succeeds (bindR (auxsort fuel call l1 u1 L) (auxsort fuel call l2 u2)) (?Q a l u)"
                if p: "l1 = l \<and> u1 = m - 1 \<and> l2 = m + 1 \<and> u2 = u \<or> l1 = m + 1 \<and> u1 = u \<and> l2 = l \<and> u2 = m - 1" for l1 u1 l2 u2
              proof (rule succeeds_bind)
                show "succeeds (auxsort fuel call l1 u1 L) (?Q d l1 u1)"
                  using p d(3,4) Suc.prems(3-) w by (intro Suc.IH [OF d(1) Sd]) auto
              next
                fix L assume "?Q d l1 u1 L"
                then obtain b1 where b1: "sorting L0 h f n b1 [] L" "sorts lt l1 u1 d b1"
                  by blast
                have S1: "elems_in S n b1"
                  using perm_elems_in [OF _ Sd, of l1 u1 b1] b1(2) p d(3,4) Suc.prems(3,4) by (auto simp: sorts_def)
                have "succeeds (auxsort fuel call l2 u2 L) (?Q b1 l2 u2)"
                  using p d(3,4) Suc.prems(3-) w by (intro Suc.IH [OF b1(1) S1]) auto
                then show "succeeds (auxsort fuel call l2 u2 L) (?Q a l u)"
                proof (rule succeeds_mono)
                  fix L assume "?Q b1 l2 u2 L"
                  then obtain b2 where "sorting L0 h f n b2 [] L" "sorts lt l2 u2 b1 b2"
                    by blast
                  moreover from this have "sorts lt l u d b2"
                    using b1(2) p d(3,4) Suc.prems(3,4)
                    by (intro sorts_sides [OF o(2) Sd d(5), of b1 b2]) auto
                  then have "sorts lt l u a b2"
                    using perm_trans [OF perm_trans [OF ac d(2)], of b2] by (simp add: sorts_def)
                  ultimately show "?Q a l u L"
                    by blast
                qed
              qed
              show "succeeds (let (j, i, l, u) = (if m - l < u - m then (l, m - 1, m + 1, u) else (m + 1, u, l, m - 1))
                   in bindR (auxsort fuel call j i L) (auxsort fuel call l u)) (?Q a l u)"
                using two [of l "m - 1" "m + 1" u] two [of "m + 1" u l "m - 1"] by (simp split: if_splits)
            qed
            then show ?thesis
              using f by simp
          qed
        qed
        then show ?thesis
          by (simp only: False if_False Let_def i_def)
      qed
    qed
  qed
qed simp

section \<open>Properties\<close>

definition elem :: "lua_State \<Rightarrow> addr \<Rightarrow> int \<Rightarrow> TObject" where
  "elem L h i = content (tabs L h) (key_of i)"

text \<open>The order of a sort without a function, on numbers.\<close>

definition number_less :: "TObject \<Rightarrow> TObject \<Rightarrow> bool" where
  "number_less x y \<longleftrightarrow> (case (x, y) of (LNumber m, LNumber n) \<Rightarrow> num_lt m n | _ \<Rightarrow> False)"

definition numbers :: "TObject set" where
  "numbers = {LNumber n |n. \<not> num_isnan n}"

lemma number_less_order: "strict_order number_less numbers"
  by (auto simp: strict_order_def numbers_def number_less_def num_lt_def)

lemma order_is_numbers: "order_is call LNil number_less numbers"
  by (auto simp: order_is_def numbers_def number_less_def luaV_lessthan_def)

text \<open>
  C17: with an order, be it a function that is one or \<open><\<close>, \<open>auxsort\<close> sorts: it returns, the elements 1 to n
  of the table are a permutation of what they were and no element is smaller than one before it, and the
  stack, all other entries of the table and all other tables are as they were.
\<close>

theorem auxsort_sorts:
  assumes "stk L = [LTable h, f]" "wf_table (tabs L h)"
    and "order_is call f lt S" "strict_order lt S" "LNil \<notin> S"
    and "\<forall>i. 1 \<le> i \<longrightarrow> i \<le> n \<longrightarrow> elem L h i \<in> S" "2 * n \<le> INT_MAX" "0 \<le> n" "n < int fuel"
  shows "\<exists>L'. auxsort fuel call 1 n L = Inr L' \<and> stk L' = stk L \<and>
    image_mset (elem L' h) (mset_set {1..n}) = image_mset (elem L h) (mset_set {1..n}) \<and>
    (\<forall>i j. 1 \<le> i \<longrightarrow> i < j \<longrightarrow> j \<le> n \<longrightarrow> \<not> lt (elem L' h j) (elem L' h i)) \<and>
    (\<forall>k. valid_key k \<longrightarrow> (\<forall>i. 1 \<le> i \<longrightarrow> i \<le> n \<longrightarrow> \<not> luaO_rawequalObj (key_of i) k) \<longrightarrow>
      content (tabs L' h) k = content (tabs L h) k) \<and>
    (\<forall>g. g \<noteq> h \<longrightarrow> tabs L' g = tabs L g)"
proof -
  have s: "sorting L h f n (elem L h) [] L"
    using assms(1,2) by (auto simp: sorting_def array_of_def elem_def sort_state_def intro!: exI [of _ "tabs L h"])
  have e: "elems_in S n (elem L h)"
    using assms(5-8) by (simp add: elems_in_def)
  have "succeeds (auxsort fuel call 1 n L) (\<lambda>L'. \<exists>b. sorting L h f n b [] L' \<and> sorts lt 1 n (elem L h) b)"
    using assms(8,9) by (intro auxsort_sorting [OF assms(3,4,7) s e]) auto
  then obtain L' t b where r: "auxsort fuel call 1 n L = Inr L'" "L' = sort_state L h f t []" "array_of L h n b t"
      "sorts lt 1 n (elem L h) b"
    by (auto simp: succeeds_def sorting_def)
  have b: "elem L' h i = b i" if "1 \<le> i" "i \<le> n" for i
    using r(2,3) that by (simp add: elem_def array_of_def)
  have "image_mset (elem L' h) (mset_set {1..n}) = image_mset b (mset_set {1..n})"
    by (intro image_mset_cong) (simp add: b)
  then show ?thesis
    using r assms(1) b by (auto simp: sorts_def perm_on_def sorted_on_def array_of_def sort_state_def)
qed

text \<open>The example: \<open>table.sort{3, 1, 2}\<close>.\<close>

definition three_numbers :: lua_State where
  "three_numbers = empty_state\<lparr>stk := [LTable 5, LNil], tabs := (\<lambda>_. fresh empty_table (map (LNumber \<circ> num_of_int) [3, 1, 2]) 0)\<rparr>"

lemma elem_three: "1 \<le> i \<Longrightarrow> i \<le> 3 \<Longrightarrow> elem three_numbers h i = LNumber (num_of_int ([3, 1, 2] ! nat (i - 1)))"
proof -
  assume i: "1 \<le> i" "i \<le> 3"
  then have "arrayindex (key_of i) = i"
    by (intro arrayindex_key_of) (simp_all add: MAXBITS_def)
  moreover have "i = 1 \<or> i = 2 \<or> i = 3"
    using i by linarith
  ultimately show ?thesis
    by (auto simp: elem_def three_numbers_def content_fresh in_array_def sizearray_def)
qed

lemma auxsort_sorts_witness:
  "\<exists>L'. auxsort 4 (\<lambda>f args n L. Inr ([], L)) 1 3 three_numbers = Inr L' \<and> stk L' = [LTable 5, LNil] \<and>
     image_mset (elem L' 5) (mset_set {1..3}) = image_mset (elem three_numbers 5) (mset_set {1..3}) \<and>
     \<not> number_less (elem L' 5 2) (elem L' 5 1) \<and> \<not> number_less (elem L' 5 3) (elem L' 5 2)"
proof -
  have "wf_table (tabs three_numbers 5)"
    unfolding three_numbers_def by (simp, rule wf_fresh) (simp_all add: MAXBITS_def)
  moreover have "\<forall>i. 1 \<le> i \<longrightarrow> i \<le> 3 \<longrightarrow> elem three_numbers 5 i \<in> numbers"
  proof (intro allI impI)
    fix i :: int assume i: "1 \<le> i" "i \<le> 3"
    then have "i = 1 \<or> i = 2 \<or> i = 3"
      by linarith
    then show "elem three_numbers 5 i \<in> numbers"
      using i by (auto simp: elem_three numbers_def num_of_int_finite)
  qed
  moreover have "stk three_numbers = [LTable 5, LNil]"
    by (simp add: three_numbers_def)
  moreover have "LNil \<notin> numbers"
    by (simp add: numbers_def)
  ultimately show ?thesis
    using auxsort_sorts [of three_numbers 5 LNil "\<lambda>f args n L. Inr ([], L)" number_less numbers 3 4]
      number_less_order order_is_numbers by (auto simp: INT_MAX_def)
qed

end
