(* ===== verification/SortOrder.thy ===== *)
theory SortOrder
  imports TabSort
begin

text \<open>A sort with an order function that is none (\<open>lua/ltablib.c\<close>), computed step by step.\<close>

section \<open>A table for the computation\<close>

text \<open>A table that has only an array part, on which the steps of a sort can be computed.\<close>

definition at_sort :: "TObject list \<Rightarrow> TObject list \<Rightarrow> lua_State" where
  "at_sort xs st = sort_state empty_state 5 (LFunction 9) (fresh empty_table xs 0) st"

lemma at_sort_array: "(fresh t xs 0)\<lparr>array := ys\<rparr> = fresh t ys 0"
  by (simp add: fresh_def)

lemma at_sort_num: "1 \<le> i \<Longrightarrow> i \<le> int (length xs) \<Longrightarrow> luaH_getnum (fresh t xs 0) i = Inr (SArr (nat (i - 1)))"
  by (simp add: luaH_getnum_def sizearray_def)

lemma at_sort_get: "1 \<le> i \<Longrightarrow> i \<le> int (length xs) \<Longrightarrow>
    lua_rawgeti (at_sort xs st) 1 i = Inr (at_sort xs (st @ [xs ! nat (i - 1)]))"
  by (simp add: at_sort_def lua_rawgeti_def hvalue_def at_sort_num luaA_pushobject_def)

lemma at_sort_settop: "lua_settop (at_sort xs (st @ vs)) (- int (length vs) - 1) = Inr (at_sort xs st)"
  using settop_neg [of "at_sort xs (st @ vs)" "LTable 5 # LFunction 9 # st" vs] by (simp add: at_sort_def)

lemma at_sort_set: "1 \<le> i \<Longrightarrow> i \<le> int (length xs) \<Longrightarrow>
    lua_rawseti (at_sort xs (st @ [v])) 1 i = Inr (at_sort (xs[nat (i - 1) := v]) st)"
  using at_sort_settop [of "xs[nat (i - 1) := v]" st "[v]"]
  by (simp add: at_sort_def lua_rawseti_def hvalue_def luaH_setnum_def luaH_setnum_with_def at_sort_num top_value_def
      nth_append at_sort_array)

lemma at_sort_set2: "1 \<le> i \<Longrightarrow> i \<le> int (length xs) \<Longrightarrow> 1 \<le> j \<Longrightarrow> j \<le> int (length xs) \<Longrightarrow>
    set2 (at_sort xs (st @ [v, w])) i j = Inr (at_sort (xs[nat (i - 1) := w, nat (j - 1) := v]) st)"
  using at_sort_set [of i xs "st @ [v]" w] at_sort_set [of j "xs[nat (i - 1) := w]" st v] by (simp add: set2_def)

section \<open>An order that is none\<close>

text \<open>A function that answers whether its second argument is one of two strings, and its first not nil.\<close>

definition odd_order :: "TObject \<Rightarrow> TObject \<Rightarrow> bool" where
  "odd_order x y \<longleftrightarrow> x \<noteq> LNil \<and> (y = LString ''p'' \<or> y = LString ''q'')"

definition odd_call :: caller where
  "odd_call f args n L = Inr ([LBoolean (if odd_order (args ! 0) (args ! 1) then 1 else 0)], L)"

lemma at_sort_comp:
  assumes "1 \<le> p" "p \<le> length st" "p < 1000" "1 \<le> q" "q \<le> length st" "q < 1000"
  shows "sort_comp odd_call (at_sort xs st) (- int p) (- int q) =
    Inr (odd_order (st ! (length st - p)) (st ! (length st - q)), at_sort xs st)"
proof -
  let ?x = "st ! (length st - p)" and ?y = "st ! (length st - q)" and ?L = "at_sort xs"
  have s: "stk (?L st) = [LTable 5, LFunction 9] @ st" for st
    by (simp add: at_sort_def)
  have push: "luaA_pushobject (?L st) v = ?L (st @ [v])" for st v
    by (simp add: at_sort_def luaA_pushobject_def)
  have ix: "- int p - 1 = - int (p + 1)" "- int q - 2 = - int (q + 2)"
    by simp_all
  have "lua_isnil (?L st) 2 = Inr False"
    by (simp add: at_sort_def lua_isnil_def lua_type_def at_acceptable_def luaA_indexAcceptable_def)
  moreover have "lua_pushvalue (?L st) 2 = Inr (?L (st @ [LFunction 9]))"
    by (simp add: lua_pushvalue_def at_index_def luaA_index_def stack_loc_def s push)
  moreover have "lua_pushvalue (?L (st @ [LFunction 9])) (- int p - 1) = Inr (?L (st @ [LFunction 9, ?x]))"
    using at_neg(1) [OF s, of "p + 1" "st @ [LFunction 9]"] assms
    unfolding ix by (simp add: lua_pushvalue_def push nth_append)
  moreover have "lua_pushvalue (?L (st @ [LFunction 9, ?x])) (- int q - 2) = Inr (?L (st @ [LFunction 9, ?x, ?y]))"
    using at_neg(1) [OF s, of "q + 2" "st @ [LFunction 9, ?x]"] assms
    unfolding ix by (simp add: lua_pushvalue_def push nth_append)
  moreover have "lua_call odd_call (?L (st @ [LFunction 9, ?x, ?y])) 2 1 =
      Inr (?L (st @ [LBoolean (if odd_order ?x ?y then 1 else 0)]))"
    by (simp add: lua_call_def odd_call_def at_sort_def)
  moreover have "lua_toboolean (?L (st @ [LBoolean (if b then 1 else 0)])) (-1) = Inr b" for b
    using at_neg(2) [of "?L (st @ [LBoolean (if b then 1 else 0)])" "LTable 5 # LFunction 9 # st" "[LBoolean (if b then 1 else 0)]" 1]
    by (simp add: lua_toboolean_def s l_isfalse_def)
  moreover have "lua_pop (?L (st @ [v])) 1 = Inr (?L st)" for v
    using at_sort_settop [of xs st "[v]"] by (simp add: lua_pop_def)
  ultimately show ?thesis
    by (simp add: sort_comp_def)
qed

lemma at_sort_comps:
  "sort_comp odd_call (at_sort xs (st @ [x, y])) (-1) (-2) = Inr (odd_order y x, at_sort xs (st @ [x, y]))"
  "sort_comp odd_call (at_sort xs (st @ [x, y])) (-2) (-1) = Inr (odd_order x y, at_sort xs (st @ [x, y]))"
  "sort_comp odd_call (at_sort xs (st @ [x, y, z])) (-3) (-1) = Inr (odd_order x z, at_sort xs (st @ [x, y, z]))"
  using at_sort_comp [of 1 "st @ [x, y]" 2 xs] at_sort_comp [of 2 "st @ [x, y]" 1 xs] at_sort_comp [of 3 "st @ [x, y, z]" 1 xs]
  by (simp_all add: nth_append)

lemma at_sort_pop: "n = int (length vs) \<Longrightarrow> lua_pop (at_sort xs (st @ vs)) n = Inr (at_sort xs st)"
  using at_sort_settop [of xs st vs] by (simp add: lua_pop_def)

lemma at_sort_dup: "lua_pushvalue (at_sort xs [x]) (-1) = Inr (at_sort xs [x, x])"
  using at_neg(1) [of "at_sort xs [x]" "[LTable 5, LFunction 9]" "[x]" 1]
  by (simp add: lua_pushvalue_def at_sort_def luaA_pushobject_def)

lemmas at_sort_steps =
  at_sort_get [of _ _ "[]", simplified] at_sort_get [of _ _ "[_]", simplified] at_sort_get [of _ _ "[_, _]", simplified]
  at_sort_set2 [of _ _ _ "[]", simplified] at_sort_set2 [of _ _ _ "[_]", simplified]
  at_sort_comps(1,2) [of _ "[]", simplified] at_sort_comps(1,2) [of _ "[_]", simplified] at_sort_comps(3) [of _ "[]", simplified]
  at_sort_pop [of _ "[_]" _ "[]", simplified] at_sort_pop [of _ "[_]" _ "[_]", simplified]
  at_sort_pop [of _ "[_]" _ "[_, _]", simplified]
  at_sort_pop [of _ "[_, _]" _ "[]", simplified] at_sort_pop [of _ "[_, _]" _ "[_]", simplified]
  at_sort_pop [of _ "[_, _, _]" _ "[]", simplified] at_sort_dup

lemma odd_order_simps [simp]:
  "\<not> odd_order LNil y" "\<not> odd_order x LNil" "\<not> odd_order x (LString ''a'')" "\<not> odd_order x (LString ''r'')"
  "odd_order (LString s) (LString ''p'')" "odd_order (LString s) (LString ''q'')"
  by (simp_all add: odd_order_def)

lemma odd_round:
  "order_ends odd_call 1 4 (at_sort [LString ''a'', LString ''p'', LString ''r'', LString ''q'', LNil] []) =
     Inr (at_sort [LString ''a'', LString ''p'', LString ''r'', LString ''q'', LNil] [])"
  "order_middle odd_call 1 2 4 (at_sort [LString ''a'', LString ''p'', LString ''r'', LString ''q'', LNil] []) =
     Inr (at_sort [LString ''a'', LString ''q'', LString ''r'', LString ''p'', LNil] [])"
  "take_pivot 2 4 (at_sort [LString ''a'', LString ''q'', LString ''r'', LString ''p'', LNil] []) =
     Inr (at_sort [LString ''a'', LString ''r'', LString ''q'', LString ''p'', LNil] [LString ''q''])"
  by (simp_all add: order_ends_def order_middle_def take_pivot_def at_sort_steps)

lemma odd_partition:
  "partition_loop 4 odd_call 1 4 1 3 (at_sort [LString ''a'', LString ''r'', LString ''q'', LString ''p'', LNil] [LString ''q'']) =
     Inr (5, at_sort [LString ''a'', LString ''r'', LString ''q'', LString ''p'', LNil] [])"
  by (simp add: numeral_eq_Suc scan_up.simps scan_down.simps at_sort_steps)

lemma odd_round2:
  "order_ends odd_call 1 4 (at_sort [LString ''a'', LString ''r'', LNil, LString ''p'', LString ''q''] []) =
     Inr (at_sort [LString ''a'', LString ''r'', LNil, LString ''p'', LString ''q''] [])"
  "order_middle odd_call 1 2 4 (at_sort [LString ''a'', LString ''r'', LNil, LString ''p'', LString ''q''] []) =
     Inr (at_sort [LString ''a'', LString ''r'', LNil, LString ''p'', LString ''q''] [])"
  "take_pivot 2 4 (at_sort [LString ''a'', LString ''r'', LNil, LString ''p'', LString ''q''] []) =
     Inr (at_sort [LString ''a'', LNil, LString ''r'', LString ''p'', LString ''q''] [LString ''r''])"
  "partition_loop 4 odd_call 1 4 1 3 (at_sort [LString ''a'', LNil, LString ''r'', LString ''p'', LString ''q''] [LString ''r'']) =
     Inr (3, at_sort [LString ''a'', LNil, LString ''r'', LString ''p'', LString ''q''] [])"
  "order_ends odd_call 1 2 (at_sort [LString ''a'', LNil, LString ''r'', LString ''p'', LString ''q''] []) =
     Inr (at_sort [LString ''a'', LNil, LString ''r'', LString ''p'', LString ''q''] [])"
  by (simp_all add: order_ends_def order_middle_def take_pivot_def at_sort_steps numeral_eq_Suc scan_up.simps scan_down.simps)

lemma odd_put:
  "put_pivot 5 4 (at_sort [LString ''a'', LString ''r'', LString ''q'', LString ''p'', LNil] []) =
     Inr (at_sort [LString ''a'', LString ''r'', LNil, LString ''p'', LString ''q''] [])"
  "put_pivot 3 4 (at_sort [LString ''a'', LNil, LString ''r'', LString ''p'', LString ''q''] []) =
     Inr (at_sort [LString ''a'', LNil, LString ''r'', LString ''p'', LString ''q''] [])"
  by (simp_all add: put_pivot_def at_sort_steps)

lemma half_5: "half (int_wrap 5) = 2"
  by (simp add: int_wrap_small half_def INT_MIN_def INT_MAX_def)

lemma odd_sort:
  "auxsort 5 odd_call 1 4 (at_sort [LString ''a'', LString ''p'', LString ''r'', LString ''q'', LNil] []) =
     Inr (at_sort [LString ''a'', LNil, LString ''r'', LString ''p'', LString ''q''] [])"
proof -
  have f: "5 = Suc (Suc (Suc (Suc (Suc 0))))"
    by simp
  show ?thesis
    unfolding f by (simp add: odd_round odd_partition odd_put odd_round2 half_5)
qed

text \<open>The sort returns, but the array of 4 elements has got a nil, and one of the elements is behind its end.\<close>

lemma odd_sort_leaves_array:
  "\<exists>L'. auxsort 5 odd_call 1 4 (at_sort [LString ''a'', LString ''p'', LString ''r'', LString ''q'', LNil] []) = Inr L' \<and>
     elem L' 5 2 = LNil \<and> elem L' 5 5 = LString ''q''"
proof -
  have a: "arrayindex (key_of 2) = 2" "arrayindex (key_of 5) = 5"
    by (rule arrayindex_key_of; simp add: MAXBITS_def)+
  then show ?thesis
    unfolding odd_sort by (simp add: elem_def at_sort_def content_fresh in_array_def sizearray_def)
qed

section \<open>The general case\<close>







end
