(* ===== verification/Formats.thy ===== *)
theory Formats
  imports CLib
begin

text \<open>
  \<open>sprintf\<close> with one conversion, as \<open>string.format\<close> uses it: flags, width, precision and the conversions
  \<open>c d i o u x X e E f g G s\<close>, in the \<open>C\<close> locale.
\<close>

section \<open>Specifications\<close>

record fmt_spec =
  left :: bool        \<comment> \<open>flag \<open>-\<close>\<close>
  plus :: bool        \<comment> \<open>flag \<open>+\<close>\<close>
  space :: bool       \<comment> \<open>flag blank\<close>
  alt :: bool         \<comment> \<open>flag \<open>#\<close>\<close>
  zero :: bool        \<comment> \<open>flag \<open>0\<close>\<close>
  width :: nat
  prec :: "nat option"

definition fmt_flags :: string where "fmt_flags = ''-+ #0''"

text \<open>What is between \<open>%\<close> and the conversion; an empty precision is 0.\<close>

definition parse_spec :: "string \<Rightarrow> fmt_spec" where
  "parse_spec s =
    (let fl = takeWhile (\<lambda>c. c \<in> set fmt_flags) s;
         r = dropWhile (\<lambda>c. c \<in> set fmt_flags) s;
         w = takeWhile isdigit r; r = dropWhile isdigit r
     in \<lparr>left = (CHR ''-'' \<in> set fl), plus = (CHR ''+'' \<in> set fl), space = (CHR '' '' \<in> set fl),
         alt = (CHR ''#'' \<in> set fl), zero = (CHR ''0'' \<in> set fl), width = digits_val 10 w,
         prec = (case r of c # r' \<Rightarrow> if c = CHR ''.'' then Some (digits_val 10 (takeWhile isdigit r')) else None
                 | [] \<Rightarrow> None)\<rparr>)"

text \<open>Padding: blanks on one side, or zeros between the sign (or prefix) and the digits.\<close>

definition pad :: "fmt_spec \<Rightarrow> bool \<Rightarrow> string \<Rightarrow> string \<Rightarrow> string" where
  "pad f zeros prefix body =
    (let n = width f - (length prefix + length body)
     in if left f then prefix @ body @ replicate n CHR '' ''
        else if zeros then prefix @ replicate n CHR ''0'' @ body
        else replicate n CHR '' '' @ prefix @ body)"

definition sign_of :: "fmt_spec \<Rightarrow> bool \<Rightarrow> string" where
  "sign_of f neg = (if neg then ''-'' else if plus f then ''+'' else if space f then '' '' else [])"

section \<open>Characters, strings and integers\<close>

definition fmt_c :: "fmt_spec \<Rightarrow> int \<Rightarrow> string" where
  "fmt_c f c = pad f False [] [char_of (nat (c mod 256))]"

definition fmt_s :: "fmt_spec \<Rightarrow> string \<Rightarrow> string" where
  "fmt_s f s = pad f False [] (case prec f of None \<Rightarrow> s | Some p \<Rightarrow> take p s)"

text \<open>At least \<open>p\<close> digits; a zero with precision 0 has none.\<close>

definition at_least :: "nat \<Rightarrow> string \<Rightarrow> string" where
  "at_least p ds = replicate (p - length ds) CHR ''0'' @ ds"

definition int_digits :: "fmt_spec \<Rightarrow> nat \<Rightarrow> string \<Rightarrow> string" where
  "int_digits f n ds = (case prec f of None \<Rightarrow> ds | Some p \<Rightarrow> if n = 0 \<and> p = 0 then [] else at_least p ds)"

definition fmt_int :: "fmt_spec \<Rightarrow> int \<Rightarrow> string" where
  "fmt_int f k = pad f (zero f \<and> prec f = None) (sign_of f (k < 0))
     (int_digits f (nat \<bar>k\<bar>) (dec_digits (nat \<bar>k\<bar>)))"

function based_digits :: "nat \<Rightarrow> string \<Rightarrow> nat \<Rightarrow> string" where
  "based_digits b ds n = (if n < b \<or> b < 2 then [ds ! n] else based_digits b ds (n div b) @ [ds ! (n mod b)])"
  by pat_completeness auto
termination
  by (relation "measure (\<lambda>(b, ds, n). n)") auto

declare based_digits.simps [simp del]

definition fmt_unsigned :: "fmt_spec \<Rightarrow> char \<Rightarrow> nat \<Rightarrow> string" where
  "fmt_unsigned f conv n =
    (let ds = (if conv = CHR ''u'' then dec_digits n
               else if conv = CHR ''o'' then based_digits 8 ''01234567'' n
               else if conv = CHR ''x'' then based_digits 16 ''0123456789abcdef'' n
               else based_digits 16 ''0123456789ABCDEF'' n);
         ds = int_digits f n ds;
         ds = (if conv = CHR ''o'' \<and> alt f \<and> take 1 ds \<noteq> ''0'' then CHR ''0'' # ds else ds);
         prefix = (if alt f \<and> n \<noteq> 0 \<and> (conv = CHR ''x'' \<or> conv = CHR ''X'') then [CHR ''0'', conv] else [])
     in pad f (zero f \<and> prec f = None) prefix ds)"

section \<open>Floating point\<close>

text \<open>
  The magnitude is the rational \<open>n / d\<close>.  In \<open>e\<close> style \<open>p\<close> digits follow the first one: exponent and
  digits, after rounding.
\<close>

definition e_parts :: "nat \<Rightarrow> nat \<Rightarrow> nat \<Rightarrow> int \<times> nat" where
  "e_parts p n d =
    (if n = 0 then (0, 0)
     else
       (let x = find_exp10 700 n d 309; s = int p - x;
            m = (if 0 \<le> s then round_div (n * 10 ^ nat s) d else round_div n (d * 10 ^ nat (- s)))
        in if m = 10 ^ (p + 1) then (x + 1, 10 ^ p) else (x, m)))"

definition with_dot :: "bool \<Rightarrow> string \<Rightarrow> string \<Rightarrow> string" where
  "with_dot keep i f = (if f = [] \<and> \<not> keep then i else i @ ''.'' @ f)"

definition exponent :: "char \<Rightarrow> int \<Rightarrow> string" where
  "exponent e x = [e, if x < 0 then CHR ''-'' else CHR ''+''] @ at_least 2 (dec_digits (nat \<bar>x\<bar>))"

definition e_style :: "bool \<Rightarrow> bool \<Rightarrow> char \<Rightarrow> nat \<Rightarrow> int \<times> nat \<Rightarrow> string" where
  "e_style keep strip e p xm =
    (let ds = at_least (p + 1) (dec_digits (snd xm)); f = drop 1 ds
     in with_dot keep (take 1 ds) (if strip then strip_zeros f else f) @ exponent e (fst xm))"

definition f_style :: "bool \<Rightarrow> bool \<Rightarrow> nat \<Rightarrow> nat \<Rightarrow> nat \<Rightarrow> string" where
  "f_style keep strip p n d =
    (let ds = at_least (p + 1) (dec_digits (round_div (n * 10 ^ p) d)); k = length ds - p; f = drop k ds
     in with_dot keep (take k ds) (if strip then strip_zeros f else f))"

definition g_style :: "bool \<Rightarrow> char \<Rightarrow> nat \<Rightarrow> nat \<Rightarrow> nat \<Rightarrow> string" where
  "g_style keep e p n d =
    (let p = max p 1; xm = e_parts (p - 1) n d; x = fst xm
     in if x < -4 \<or> int p \<le> x then e_style keep (\<not> keep) e (p - 1) xm
        else f_style keep (\<not> keep) (nat (int p - 1 - x)) n d)"

definition fmt_double :: "fmt_spec \<Rightarrow> char \<Rightarrow> lua_Number \<Rightarrow> string" where
  "fmt_double f conv x =
    (let sgn = sign_of f (num_neg_bit x); p = (case prec f of None \<Rightarrow> 6 | Some p \<Rightarrow> p);
         upper = isupper conv; n = mag_val (num_mag x); d = 2 ^ 1074
     in if num_isnan x \<or> num_isinf x then
          (let w = (if num_isnan x then ''nan'' else ''inf'')
           in pad f False sgn (if upper then map toupper w else w))
        else pad f (zero f) sgn
          (if conv = CHR ''f'' then f_style (alt f) False p n d
           else if conv = CHR ''e'' \<or> conv = CHR ''E'' then e_style (alt f) False conv p (e_parts p n d)
           else g_style (alt f) (if upper then CHR ''E'' else CHR ''e'') p n d))"

end
