(* ===== verification/StrLib.thy ===== *)
theory StrLib
  imports Auxlib Formats
begin

text \<open>
  The string library (\<open>lua/lstrlib.c\<close>) on top of the pattern matcher.  A C function of the library takes
  the state with its arguments on the stack and returns the number of its results and the state.
  \<open>string.dump\<close> is not part of the model: it needs the prototype of a function value.
\<close>

section \<open>Bytes and parts of strings\<close>

definition str_len :: "lua_State \<Rightarrow> (nat \<times> lua_State) res" where
  "str_len L = bindR (luaL_checklstring L 1) (\<lambda>(s, L). Inr (1, lua_pushnumber L (num_of_int (int (length s)))))"

definition posrelat :: "int \<Rightarrow> nat \<Rightarrow> int" where
  "posrelat pos len = (if 0 \<le> pos then pos else int len + pos + 1)"

definition str_sub :: "lua_State \<Rightarrow> (nat \<times> lua_State) res" where
  "str_sub L =
    bindR (luaL_checklstring L 1) (\<lambda>(s, L).
    bindR (luaL_checklong L 2) (\<lambda>start.
    bindR (luaL_optlong L 3 (num_of_int (-1))) (\<lambda>end'.
      (let l = length s; start = posrelat start l; end' = posrelat end' l;
           start = (if start < 1 then 1 else start);
           end' = (if int l < end' then int l else end')
       in if start \<le> end' then Inr (1, lua_pushlstring L (take (nat (end' - start + 1)) (drop (nat (start - 1)) s)))
          else Inr (1, lua_pushlstring L [])))))"

text \<open>A loop that puts one character after the other to a buffer is \<open>luaL_addlstring\<close>, which is such a loop.\<close>

definition str_lower :: "caller \<Rightarrow> lua_State \<Rightarrow> (nat \<times> lua_State) res" where
  "str_lower call L =
    bindR (luaL_checklstring L 1) (\<lambda>(s, L).
    bindR (luaL_addlstring call (map tolower s) (L, luaL_buffinit)) (\<lambda>LB.
    bindR (luaL_pushresult call LB) (\<lambda>(L, B). Inr (1, L))))"

definition str_upper :: "caller \<Rightarrow> lua_State \<Rightarrow> (nat \<times> lua_State) res" where
  "str_upper call L =
    bindR (luaL_checklstring L 1) (\<lambda>(s, L).
    bindR (luaL_addlstring call (map toupper s) (L, luaL_buffinit)) (\<lambda>LB.
    bindR (luaL_pushresult call LB) (\<lambda>(L, B). Inr (1, L))))"

fun rep_loop :: "caller \<Rightarrow> string \<Rightarrow> nat \<Rightarrow> lua_State \<times> luaL_Buffer \<Rightarrow> (lua_State \<times> luaL_Buffer) res" where
  "rep_loop call s 0 LB = Inr LB"
| "rep_loop call s (Suc n) LB = bindR (luaL_addlstring call s LB) (rep_loop call s n)"

definition str_rep :: "caller \<Rightarrow> lua_State \<Rightarrow> (nat \<times> lua_State) res" where
  "str_rep call L =
    bindR (luaL_checklstring L 1) (\<lambda>(s, L).
    bindR (luaL_checkint L 2) (\<lambda>n.
    bindR (rep_loop call s (nat n) (L, luaL_buffinit)) (\<lambda>LB.
    bindR (luaL_pushresult call LB) (\<lambda>(L, B). Inr (1, L)))))"

definition str_byte :: "lua_State \<Rightarrow> (nat \<times> lua_State) res" where
  "str_byte L =
    bindR (luaL_checklstring L 1) (\<lambda>(s, L).
    bindR (luaL_optlong L 2 (num_of_int 1)) (\<lambda>pos.
      (let pos = posrelat pos (length s)
       in if pos \<le> 0 \<or> int (length s) < pos then Inr (0, L)
          else Inr (1, lua_pushnumber L (num_of_int (int (uchar (s ! nat (pos - 1)))))))))"

function char_loop :: "caller \<Rightarrow> int \<Rightarrow> int \<Rightarrow> lua_State \<times> luaL_Buffer \<Rightarrow> (lua_State \<times> luaL_Buffer) res" where
  "char_loop call i n LB =
    (if i \<le> n then
       bindR (luaL_checkint (fst LB) i) (\<lambda>c.
       bindR (luaL_argcheck (c mod 256 = c) i ''invalid value'') (\<lambda>_.
       bindR (luaL_putchar call (char_of (nat c)) LB) (char_loop call (i + 1) n)))
     else Inr LB)"
  by pat_completeness auto
termination
  by (relation "measure (\<lambda>(call, i, n, LB). nat (n + 1 - i))") auto

declare char_loop.simps [simp del]

definition str_char :: "caller \<Rightarrow> lua_State \<Rightarrow> (nat \<times> lua_State) res" where
  "str_char call L =
    bindR (char_loop call 1 (lua_gettop L) (L, luaL_buffinit)) (\<lambda>LB.
    bindR (luaL_pushresult call LB) (\<lambda>(L, B). Inr (1, L)))"

section \<open>Searching\<close>

text \<open>
  The loop of \<open>lmemfind\<close>: \<open>memchr\<close> looks for the first byte of the pattern in the \<open>l1\<close> places where it
  can be; \<open>pos\<close> is how far the search has come.
\<close>

function memfind_loop :: "string \<Rightarrow> nat \<Rightarrow> char \<Rightarrow> string \<Rightarrow> nat \<Rightarrow> nat option" where
  "memfind_loop s1 l1 c s2 pos =
    (if 0 < l1 then
       (case find (\<lambda>i. s1 ! i = c) [0..<l1] of
          None \<Rightarrow> None
        | Some i \<Rightarrow>
            if take (length s2) (drop (i + 1) s1) = s2 then Some (pos + i)
            else memfind_loop (drop (i + 1) s1) (l1 - (i + 1)) c s2 (pos + (i + 1)))
     else None)"
  by pat_completeness auto
termination
  by (relation "measure (\<lambda>(s1, l1, c, s2, pos). l1)") auto

declare memfind_loop.simps [simp del]

definition lmemfind :: "string \<Rightarrow> string \<Rightarrow> nat option" where
  "lmemfind s1 s2 = (case s2 of
     [] \<Rightarrow> Some 0
   | c # s2' \<Rightarrow> if length s1 < length s2 then None
       else memfind_loop s1 (length s1 - length s2') c s2' 0)"

text \<open>A length is cut to an \<open>int\<close>.\<close>

definition push_onecapture :: "MatchState \<Rightarrow> nat \<Rightarrow> lua_State \<Rightarrow> lua_State res" where
  "push_onecapture ms i L =
    (let (init, len) = capture ms ! i; l = int_wrap len
     in if l = CAP_UNFINISHED then luaL_error ''unfinished capture''
        else if l = CAP_POSITION then Inr (lua_pushnumber L (num_of_int (int init + 1)))
        else if l < 0 \<or> int (src_end ms) < int init + l then Inl OutOfBounds
        else Inr (lua_pushlstring L (take (nat l) (drop init (src ms)))))"

fun push_each :: "MatchState \<Rightarrow> nat list \<Rightarrow> lua_State \<Rightarrow> lua_State res" where
  "push_each ms [] L = Inr L"
| "push_each ms (i # is) L = bindR (push_onecapture ms i L) (push_each ms is)"

text \<open>\<open>None\<close> is the NULL that \<open>str_find\<close> passes for the whole match.\<close>

definition push_captures :: "MatchState \<Rightarrow> (nat \<times> nat) option \<Rightarrow> lua_State \<Rightarrow> (nat \<times> lua_State) res" where
  "push_captures ms whole L =
    bindR (luaL_checkstack L (int (level ms)) ''too many captures'') (\<lambda>_.
      case whole of
        Some (s, e) \<Rightarrow>
          if level ms = 0 then Inr (1, lua_pushlstring L (take (e - s) (drop s (src ms))))
          else bindR (push_each ms [0..<level ms] L) (\<lambda>L. Inr (level ms, L))
      | None \<Rightarrow> bindR (push_each ms [0..<level ms] L) (\<lambda>L. Inr (level ms, L)))"

text \<open>The loop over the places where a match may start.  The result is the start and the end.\<close>

fun find_loop :: "string \<Rightarrow> bool \<Rightarrow> string \<Rightarrow> nat list \<Rightarrow> (nat \<times> nat \<times> MatchState) option res" where
  "find_loop s anchor p [] = Inr None"
| "find_loop s anchor p (s1 # ss) =
    bindR (match p \<lparr>src = s, capture = []\<rparr> s1) (\<lambda>(res, ms). case res of
        Some e \<Rightarrow> Inr (Some (s1, e, ms))
      | None \<Rightarrow> if anchor then Inr None else find_loop s anchor p ss)"

definition strip_anchor :: "string \<Rightarrow> bool \<times> string" where
  "strip_anchor p = (case p of c # p' \<Rightarrow> if c = CHR ''^'' then (True, p') else (False, p) | [] \<Rightarrow> (False, p))"

definition str_find :: "lua_State \<Rightarrow> (nat \<times> lua_State) res" where
  "str_find L =
    bindR (luaL_checklstring L 1) (\<lambda>(s, L).
    bindR (luaL_checklstring L 2) (\<lambda>(p, L).
    bindR (luaL_optlong L 3 (num_of_int 1)) (\<lambda>i.
    bindR (lua_toboolean L 4) (\<lambda>plain.
      (let init = posrelat i (length s) - 1;
           init = (if init < 0 then 0 else if length s < nat init then length s else nat init)
       in if plain \<or> \<not> (\<exists>c \<in> set (cstr p). c \<in> set SPECIALS) then
            (case lmemfind (drop init s) p of
               Some i \<Rightarrow> Inr (2, lua_pushnumber (lua_pushnumber L (num_of_int (int (init + i) + 1)))
                   (num_of_int (int (init + i + length p))))
             | None \<Rightarrow> Inr (1, lua_pushnil L))
          else
            (let (anchor, p) = strip_anchor (cstr p)
             in bindR (find_loop s anchor p [init..<length s + 1]) (\<lambda>r. case r of
                  None \<Rightarrow> Inr (1, lua_pushnil L)
                | Some (s1, e, ms) \<Rightarrow>
                    bindR (push_captures ms None (lua_pushnumber (lua_pushnumber L (num_of_int (int s1 + 1))) (num_of_int (int e)))) (\<lambda>(n, L).
                      Inr (n + 2, L)))))))))"

text \<open>The iterator of \<open>string.gfind\<close>; string, pattern and position are its upvalues.\<close>

definition gfind_aux :: "lua_State \<Rightarrow> (nat \<times> lua_State) res" where
  "gfind_aux L =
    bindR (lua_tostring L (lua_upvalueindex 1)) (\<lambda>(s, L).
    bindR (lua_tostring L (lua_upvalueindex 2)) (\<lambda>(p, L).
    bindR (lua_tonumber L (lua_upvalueindex 3)) (\<lambda>d.
      case (s, p) of
        (Some s, Some p) \<Rightarrow>
          bindR (find_loop s False (cstr p) [nat (lua_number2long d)..<length s + 1]) (\<lambda>r. case r of
              None \<Rightarrow> Inr (0, L)
            | Some (s1, e, ms) \<Rightarrow>
                bindR (lua_replace (lua_pushnumber L (num_of_int (int_wrap (int e) + (if e = s1 then 1 else 0)))) (lua_upvalueindex 3)) (\<lambda>L.
                  push_captures ms (Some (s1, e)) L))
      | _ \<Rightarrow> Inl OutOfBounds)))"

section \<open>Substitution\<close>

text \<open>
  The replacement string: \<open>%1\<close> to \<open>%9\<close> are captures, another \<open>%\<close> quotes the next character; behind a
  \<open>%\<close> at the end is the NUL of the C string.
\<close>

function add_s_loop :: "caller \<Rightarrow> MatchState \<Rightarrow> string \<Rightarrow> lua_State \<times> luaL_Buffer \<Rightarrow> (lua_State \<times> luaL_Buffer) res" where
  "add_s_loop call ms news LB =
    (case news of
       [] \<Rightarrow> Inr LB
     | c # cs \<Rightarrow>
         if c \<noteq> ESC then bindR (luaL_putchar call c LB) (add_s_loop call ms cs)
         else if \<not> isdigit (peek cs) then bindR (luaL_putchar call (peek cs) LB) (add_s_loop call ms (drop 1 cs))
         else
           bindR (check_capture ms (peek cs)) (\<lambda>level.
           bindR (push_onecapture ms level (fst LB)) (\<lambda>L.
           bindR (luaL_addvalue call (L, snd LB)) (add_s_loop call ms (drop 1 cs)))))"
  by pat_completeness auto
termination
  by (relation "measure (\<lambda>(call, ms, news, LB). length news)") auto

declare add_s_loop.simps [simp del]

definition add_s :: "caller \<Rightarrow> MatchState \<Rightarrow> nat \<Rightarrow> nat \<Rightarrow> lua_State \<times> luaL_Buffer \<Rightarrow> (lua_State \<times> luaL_Buffer) res" where
  "add_s call ms s e LB =
    bindR (lua_isstring (fst LB) 3) (\<lambda>b.
      if b then
        bindR (lua_tostring (fst LB) 3) (\<lambda>(news, L).
          add_s_loop call ms (case news of None \<Rightarrow> [] | Some news \<Rightarrow> news) (L, snd LB))
      else
        bindR (lua_pushvalue (fst LB) 3) (\<lambda>L.
        bindR (push_captures ms (Some (s, e)) L) (\<lambda>(n, L).
        bindR (lua_call call L n 1) (\<lambda>L.
        bindR (lua_isstring L (-1)) (\<lambda>b.
          if b then luaL_addvalue call (L, snd LB)
          else bindR (lua_pop L 1) (\<lambda>L. Inr (L, snd LB)))))))"

text \<open>Each round of the loop consumes a character of the subject or is the last; so there is fuel for one more.\<close>

fun gsub_loop ::
  "nat \<Rightarrow> caller \<Rightarrow> string \<Rightarrow> string \<Rightarrow> bool \<Rightarrow> int \<Rightarrow> nat \<Rightarrow> int \<Rightarrow> lua_State \<times> luaL_Buffer \<Rightarrow>
     (nat \<times> int \<times> lua_State \<times> luaL_Buffer) res" where
  "gsub_loop 0 call s p anchor max_s pos n LB = Inl NoReturn"
| "gsub_loop (Suc fuel) call s p anchor max_s pos n LB =
    (if n < max_s then
       bindR (match p \<lparr>src = s, capture = []\<rparr> pos) (\<lambda>(e, ms).
       bindR (case e of Some e \<Rightarrow> bindR (add_s call ms pos e LB) (\<lambda>LB. Inr (n + 1, LB)) | None \<Rightarrow> Inr (n, LB)) (\<lambda>(n, LB).
         if (case e of Some e \<Rightarrow> pos < e | None \<Rightarrow> False) then
           (if anchor then Inr (the e, n, LB) else gsub_loop fuel call s p anchor max_s (the e) n LB)
         else if pos < length s then
           bindR (luaL_putchar call (s ! pos) LB) (\<lambda>LB.
             if anchor then Inr (pos + 1, n, LB) else gsub_loop fuel call s p anchor max_s (pos + 1) n LB)
         else Inr (pos, n, LB)))
     else Inr (pos, n, LB))"

definition lua_isfunction :: "lua_State \<Rightarrow> int \<Rightarrow> bool res" where
  "lua_isfunction L n = bindR (lua_type L n) (\<lambda>t. Inr (t = 6))"

definition str_gsub :: "caller \<Rightarrow> lua_State \<Rightarrow> (nat \<times> lua_State) res" where
  "str_gsub call L =
    bindR (luaL_checklstring L 1) (\<lambda>(s, L).
    bindR (luaL_checklstring L 2) (\<lambda>(p, L).
    bindR (luaL_optint L 4 (num_of_int (int (length s) + 1))) (\<lambda>max_s.
    bindR (if 3 \<le> lua_gettop L then bindR (lua_isstring L 3) (\<lambda>b. if b then Inr True else lua_isfunction L 3)
           else Inr False) (\<lambda>b.
    bindR (luaL_argcheck b 3 ''string or function expected'') (\<lambda>_.
      (let (anchor, p) = strip_anchor (cstr p)
       in bindR (gsub_loop (length s + 2) call s p anchor max_s 0 0 (L, luaL_buffinit)) (\<lambda>(pos, n, LB).
          bindR (luaL_addlstring call (drop pos s) LB) (\<lambda>LB.
          bindR (luaL_pushresult call LB) (\<lambda>(L, B). Inr (2, lua_pushnumber L (num_of_int n))))))))))) "

section \<open>Formatting\<close>

definition MAX_FORMAT :: nat where "MAX_FORMAT = 20"

fun add_quoted :: "caller \<Rightarrow> string \<Rightarrow> lua_State \<times> luaL_Buffer \<Rightarrow> (lua_State \<times> luaL_Buffer) res" where
  "add_quoted call [] LB = Inr LB"
| "add_quoted call (c # cs) LB =
    bindR
      (if c = CHR 0x22 \<or> c = CHR 0x5C \<or> c = CHR 0x0A then
         bindR (luaL_putchar call CHR 0x5C LB) (luaL_putchar call c)
       else if c = NUL then luaL_addlstring call [CHR 0x5C, CHR ''0'', CHR ''0'', CHR ''0''] LB
       else luaL_putchar call c LB)
      (add_quoted call cs)"

definition luaI_addquoted :: "caller \<Rightarrow> int \<Rightarrow> lua_State \<times> luaL_Buffer \<Rightarrow> (lua_State \<times> luaL_Buffer) res" where
  "luaI_addquoted call arg LB =
    bindR (luaL_checklstring (fst LB) arg) (\<lambda>(s, L).
    bindR (luaL_putchar call CHR 0x22 (L, snd LB)) (\<lambda>LB.
    bindR (add_quoted call s LB) (\<lambda>LB.
      luaL_putchar call CHR 0x22 LB)))"

text \<open>
  \<open>scanformat\<close> on what is left of the format.  \<open>strchr\<close> finds the NUL that ends its first argument too,
  so a NUL counts as a flag, also the one that ends the format, behind which there is nothing to read.
  The result is the specification with its conversion, and whether it has a precision.
\<close>

definition skip_digit :: "string \<Rightarrow> string" where
  "skip_digit p = (if isdigit (peek p) then drop 1 p else p)"

fun skip_flags :: "string \<Rightarrow> string res" where
  "skip_flags [] = Inl OutOfBounds"
| "skip_flags (c # p) = (if c \<in> set fmt_flags \<or> c = NUL then skip_flags p else Inr (c # p))"

definition scanformat :: "string \<Rightarrow> (string \<times> bool) res" where
  "scanformat strfrmt =
    bindR (skip_flags strfrmt) (\<lambda>p.
      (let p = skip_digit (skip_digit p);
           hasprecision = (peek p = CHR ''.'');
           p = (if hasprecision then skip_digit (skip_digit (drop 1 p)) else p);
           n = length strfrmt - length p
       in if isdigit (peek p) then luaL_error ''invalid format (width or precision too long)''
          else if MAX_FORMAT < n + 2 then luaL_error ''invalid format (too long)''
          else if MAX_FORMAT \<le> n + 2 then Inl OutOfBounds  \<comment> \<open>\<open>form[p-strfrmt+2] = 0\<close>\<close>
          else Inr (take n strfrmt @ [peek p], hasprecision)))"

text \<open>\<open>(unsigned int)d\<close> for a double, as the compiler of x86-64 does it.\<close>

definition number2uint :: "lua_Number \<Rightarrow> nat" where
  "number2uint d = nat (lua_number2long d mod 2 ^ 32)"

text \<open>
  The item for a conversion, which \<open>strlen\<close> cuts at a NUL.  \<open>strncpy\<close> cuts the specification at a NUL; then
  \<open>sprintf\<close> sees no conversion, and what \<open>buff\<close> holds is undefined.
\<close>

definition format_item :: "caller \<Rightarrow> int \<Rightarrow> string \<Rightarrow> bool \<Rightarrow> lua_State \<times> luaL_Buffer \<Rightarrow> (lua_State \<times> luaL_Buffer) res" where
  "format_item call arg form hasprecision LB =
    (let conv = last form; spec = butlast form; f = parse_spec spec;
         add = (\<lambda>s LB. if NUL \<in> set spec then Inl OutOfBounds else luaL_addlstring call (cstr s) LB)
     in if conv \<in> set ''cdi'' then
          bindR (luaL_checkint (fst LB) arg) (\<lambda>k. add (if conv = CHR ''c'' then fmt_c f k else fmt_int f k) LB)
        else if conv \<in> set ''ouxX'' then
          bindR (luaL_checknumber (fst LB) arg) (\<lambda>d. add (fmt_unsigned f conv (number2uint d)) LB)
        else if conv \<in> set ''eEfgG'' then
          bindR (luaL_checknumber (fst LB) arg) (\<lambda>d. add (fmt_double f conv d) LB)
        else if conv = CHR ''q'' then luaI_addquoted call arg LB
        else if conv = CHR ''s'' then
          bindR (luaL_checklstring (fst LB) arg) (\<lambda>(s, L).
            if \<not> hasprecision \<and> 100 \<le> length s then
              bindR (lua_pushvalue L arg) (\<lambda>L. luaL_addvalue call (L, snd LB))
            else add (fmt_s f (cstr s)) (L, snd LB))
        else luaL_error (''invalid option to '' @ quoted ''format''))"

function format_loop :: "caller \<Rightarrow> int \<Rightarrow> string \<Rightarrow> lua_State \<times> luaL_Buffer \<Rightarrow> (lua_State \<times> luaL_Buffer) res" where
  "format_loop call arg fmt LB =
    (case fmt of
       [] \<Rightarrow> Inr LB
     | c # r \<Rightarrow>
         if c \<noteq> CHR ''%'' then bindR (luaL_putchar call c LB) (format_loop call arg r)
         else if peek r = CHR ''%'' then bindR (luaL_putchar call CHR ''%'' LB) (format_loop call arg (drop 1 r))
         else if isdigit (peek r) \<and> peek (drop 1 r) = CHR ''$'' then
           luaL_error (''obsolete option (d$) to '' @ quoted ''format'')
         else
           bindR (scanformat r) (\<lambda>(form, hasprecision).
           bindR (format_item call (arg + 1) form hasprecision LB)
             (format_loop call (arg + 1) (drop (length form) r))))"
  by pat_completeness auto
termination
  by (relation "measure (\<lambda>(call, arg, fmt, LB). length fmt)") auto

declare format_loop.simps [simp del]

definition str_format :: "caller \<Rightarrow> lua_State \<Rightarrow> (nat \<times> lua_State) res" where
  "str_format call L =
    bindR (luaL_checklstring L 1) (\<lambda>(fmt, L).
    bindR (format_loop call 1 fmt (L, luaL_buffinit)) (\<lambda>LB.
    bindR (luaL_pushresult call LB) (\<lambda>(L, B). Inr (1, L))))"

section \<open>Searching finds the first place\<close>

lemma find_over_append: "find P (xs @ ys) = (case find P xs of None \<Rightarrow> find P ys | Some x \<Rightarrow> Some x)"
  by (induction xs) auto

lemma find_map_some: "find P (map f xs) = map_option f (find (\<lambda>j. P (f j)) xs)"
  by (induction xs) auto

lemma find_upt_split:
  assumes "i < n" "\<forall>j<i. \<not> P j"
  shows "find P [0..<n] =
    (if P i then Some i else map_option (\<lambda>j. Suc (i + j)) (find (\<lambda>j. P (Suc (i + j))) [0..<n - Suc i]))"
proof -
  have none: "find P [0..<i] = None"
    using assms(2) by (simp add: find_None_iff)
  have "[0..<n] = [0..<i] @ i # [Suc i..<n]"
    using assms(1) upt_add_eq_append [of 0 i "n - i"] by (simp add: upt_conv_Cons)
  moreover have "[Suc i..<n] = map (\<lambda>j. Suc (i + j)) [0..<n - Suc i]"
    using map_add_upt [of "Suc i" "n - Suc i"] assms(1) by (simp add: add.commute)
  ultimately show ?thesis
    using none by (simp add: find_over_append find_map_some)
qed

lemma plus_Suc: "(+) (Suc k) = (\<lambda>a. Suc (a + k))"
  by auto

lemma plus_zero: "map_option ((+) (0 :: nat)) x = x"
  by (cases x) simp_all

lemma find_first:
  "find P [0..<n] = Some i \<Longrightarrow> i < n \<and> P i \<and> (\<forall>j<i. \<not> P j)"
  by (auto simp: find_Some_iff)

lemma memfind_loop_spec:
  "l1 + length p \<le> length s \<Longrightarrow> memfind_loop s l1 c p pos =
    map_option ((+) pos) (find (\<lambda>i. take (Suc (length p)) (drop i s) = c # p) [0..<l1])"
proof (induction s l1 c p pos rule: memfind_loop.induct)
  case (1 s l1 c p pos)
  let ?P = "\<lambda>i. take (Suc (length p)) (drop i s) = c # p"
  have at: "?P i \<longleftrightarrow> s ! i = c \<and> take (length p) (drop (Suc i) s) = p" if "i < l1" for i
    using that 1(2) by (simp add: Cons_nth_drop_Suc [symmetric])
  show ?case
  proof (cases "0 < l1 \<and> find (\<lambda>i. s ! i = c) [0..<l1] \<noteq> None")
    case True
    then obtain i where i: "find (\<lambda>i. s ! i = c) [0..<l1] = Some i" "0 < l1"
      by blast
    note f = find_first [OF i(1)]
    have split: "find ?P [0..<l1] =
        (if ?P i then Some i else map_option (\<lambda>j. Suc (i + j)) (find (\<lambda>j. ?P (Suc (i + j))) [0..<l1 - Suc i]))"
      using f at by (intro find_upt_split) auto
    show ?thesis
    proof (cases "?P i")
      case True
      then show ?thesis
        using i split f at by (subst memfind_loop.simps) simp
    next
      case False
      then have no: "take (length p) (drop (i + 1) s) \<noteq> p"
        using f at by simp
      have "memfind_loop (drop (i + 1) s) (l1 - (i + 1)) c p (pos + (i + 1)) =
          map_option (\<lambda>j. Suc (pos + (i + j))) (find (\<lambda>j. ?P (Suc (i + j))) [0..<l1 - Suc i])"
        using 1(1) [OF i(2,1) no] 1(2) f by (simp add: add.commute add.left_commute plus_Suc)
      then show ?thesis
        using i no split False by (subst memfind_loop.simps) (simp add: option.map_comp o_def add.assoc)
    qed
  next
    case False
    then have "find ?P [0..<l1] = None"
      using at by (auto simp: find_None_iff)
    then show ?thesis
      using False by (subst memfind_loop.simps) (auto split: option.splits)
  qed
qed

text \<open>
  C21: \<open>lmemfind\<close> finds the first place where the second string occurs in the first, and none if there is
  none; an empty string is found at the start.  (The search looks for the first byte with \<open>memchr\<close> and
  goes on behind each place where the rest does not fit.)
\<close>

theorem lmemfind_first:
  "lmemfind s p = find (\<lambda>i. take (length p) (drop i s) = p) [0..<length s + 1]"
proof (cases p)
  case Nil
  then show ?thesis
    by (simp add: lmemfind_def upt_conv_Cons del: upt_Suc)
next
  case (Cons c q)
  have late: "take (length p) (drop i s) \<noteq> p" if "length s - length q \<le> i" for i
  proof
    assume "take (length p) (drop i s) = p"
    then have "length p \<le> length s - i"
      by (metis length_drop length_take min.cobounded1 min.commute)
    with that Cons show False
      by simp
  qed
  show ?thesis
  proof (cases "length s < length p")
    case True
    then have "take (length p) (drop i s) \<noteq> p" for i
      using Cons late by simp
    then have "find (\<lambda>i. take (length p) (drop i s) = p) [0..<length s + 1] = None"
      by (simp add: find_None_iff del: upt_Suc)
    then show ?thesis
      using True Cons by (simp add: lmemfind_def del: upt_Suc)
  next
    case False
    define n where "n = length s - length q"
    have "[0..<length s + 1] = [0..<n] @ [n..<length s + 1]"
      using upt_add_eq_append [of 0 n "length q + 1"] False Cons by (simp add: n_def del: upt_Suc)
    moreover have "find (\<lambda>i. take (length p) (drop i s) = p) [n..<length s + 1] = None"
      using late by (auto simp: find_None_iff n_def simp del: upt_Suc)
    ultimately have "find (\<lambda>i. take (length p) (drop i s) = p) [0..<length s + 1] =
        find (\<lambda>i. take (length p) (drop i s) = p) [0..<n]"
      by (simp only: find_over_append) (simp split: option.split)
    moreover have "lmemfind s p = memfind_loop s n c q 0"
      using False Cons by (simp add: lmemfind_def n_def)
    ultimately show ?thesis
      using memfind_loop_spec [of n q s c 0] False Cons by (simp only: plus_zero) (simp add: n_def)
  qed
qed

end
