(* ===== verification/Quote.thy ===== *)
theory Quote
  imports StrLib Lexer
begin

text \<open>
  The conversion \<open>%q\<close> of \<open>string.format\<close> against the scanner: what \<open>luaI_addquoted\<close> writes, \<open>luaX_lex\<close>
  reads back.
\<close>

section \<open>The scanner on a known input\<close>

text \<open>The scanner reads \<open>r\<close>, has \<open>b\<close> in its buffer with room for \<open>n\<close> more, and is in line \<open>k\<close>.\<close>

definition reading :: "nat \<Rightarrow> string \<Rightarrow> string \<Rightarrow> int \<Rightarrow> LexState \<Rightarrow> bool" where
  "reading n r b k l \<longleftrightarrow> wf_lex l \<and> input l = r \<and> lex_buff l = b \<and> linenumber l = k \<and> room n l"

lemma reading_at: "reading n (c # r) b k l \<Longrightarrow> current l = char2int c"
  by (auto simp: reading_def dest: input_Cons)

lemma reading_room: "reading n r b k l \<Longrightarrow> m \<le> n \<Longrightarrow> reading m r b k l"
  by (auto simp: reading_def intro: room_mono)

lemma lex_next_line: "lex_next ls = Inr l \<Longrightarrow> linenumber l = linenumber ls"
  by (auto simp: lex_next_def bindR_eq_Inr)

lemma next_reading: "reading n (c # r) b k l \<Longrightarrow> succeeds (lex_next l) (reading n r b k)"
  using lex_next_input [of l c r] lex_next_line [of l] by (force simp: reading_def succeeds_def room_def)

lemma save_reading:
  "reading (Suc n) r b k l \<Longrightarrow> succeeds (save x l) (reading n r (b @ [char_of (nat (x mod 256))]) k)"
  by (auto simp: reading_def save_room room_append)

lemma save_and_next_reading:
  assumes "reading (Suc n) (c # r) b k l"
  shows "succeeds (save_and_next l) (reading n r (b @ [c]) k)"
  unfolding save_and_next_def
proof (rule succeeds_bind [OF save_reading [OF assms]])
  fix m
  assume "reading n (c # r) (b @ [char_of (nat (current l mod 256))]) k m"
  moreover have "char_of (nat (current l mod 256)) = c"
    using char2int_range [of c] by (simp add: reading_at [OF assms])
  ultimately show "succeeds (lex_next m) (reading n r (b @ [c]) k)"
    using next_reading by simp
qed

lemma check_reading:
  "reading n r b k l \<Longrightarrow> length b + 40 < MAX_SIZET \<Longrightarrow> succeeds (checkbuffer l) (reading 5 r b k)"
  using checkbuffer_ok [of l] by (auto simp: reading_def room_def)

lemma line_reading:
  assumes "reading n (c # r) b k l" "k < MAX_INT"
  shows "succeeds (inclinenumber l) (reading n r b (k + 1))"
  unfolding inclinenumber_def
proof (rule succeeds_bind [OF next_reading [OF assms(1)]])
  fix m
  assume "reading n r b k m"
  then show "succeeds (let ls = m\<lparr>linenumber := linenumber m + 1\<rparr>
      in bindR (luaX_checklimit ls (linenumber ls) MAX_INT ''lines in a chunk'') (\<lambda>_. Inr ls)) (reading n r b (k + 1))"
    using assms(2) by (auto simp: reading_def luaX_checklimit_def wf_lex_def input_def room_def)
qed

section \<open>Escapes\<close>

definition quote_char :: "char \<Rightarrow> string" where
  "quote_char c =
    (if c = CHR 0x22 \<or> c = CHR 0x5C \<or> c = CHR 0x0A then [CHR 0x5C, c]
     else if c = NUL then [CHR 0x5C, CHR ''0'', CHR ''0'', CHR ''0''] else [c])"

definition quote :: "string \<Rightarrow> string" where
  "quote s = CHR 0x22 # concat (map quote_char s) @ [CHR 0x22]"

lemma inj_char2int [simp]: "char2int a = char2int b \<longleftrightarrow> a = b"
  by (simp add: char2int_def uchar_def)

lemma is_char_char2int [simp]: "is_char p (char2int c) = p c"
  using char2int_range(1) [of c] by (simp add: is_char_def)

text \<open>How many lines a character adds.\<close>

definition newlines :: "string \<Rightarrow> int" where
  "newlines s = int (length (filter (\<lambda>c. c = NL) s))"

lemma newlines_simps [simp]: "newlines [] = 0" "newlines (c # s) = newlines s + (if c = NL then 1 else 0)"
  by (simp_all add: newlines_def)

lemma newlines_nonneg [simp]: "0 \<le> newlines s"
  by (simp add: newlines_def)

lemma decimal_step:
  assumes "reading n (CHR ''0'' # r) b k l"
    "\<And>m. reading n r b k m \<Longrightarrow> i < 2 \<and> is_char isdigit (current m) \<Longrightarrow> succeeds (decimal_escape 0 (Suc i) m) Q"
    "\<And>m. reading n r b k m \<Longrightarrow> \<not> (i < 2 \<and> is_char isdigit (current m)) \<Longrightarrow> Q (0, m)"
  shows "succeeds (decimal_escape 0 i l) Q"
proof -
  have z: "current l = 48"
    by (simp add: reading_at [OF assms(1)] char2int_def uchar_def)
  have t: "i + 1 < 3 \<longleftrightarrow> i < 2"
    by auto
  show ?thesis
    unfolding decimal_escape.simps [of 0 i l] Let_def z t
    by (rule succeeds_bind [OF next_reading [OF assms(1)]]) (use assms(2,3) in simp)
qed

lemma zeros_reading:
  assumes "reading n (CHR ''0'' # CHR ''0'' # CHR ''0'' # r) b k l"
  shows "succeeds (decimal_escape 0 0 l) (\<lambda>(c, m). c = 0 \<and> reading n r b k m)"
proof -
  have z: "isdigit CHR ''0''"
    by (simp add: ctype_defs)
  show ?thesis
  proof (rule decimal_step [OF assms])
    fix l1
    assume l1: "reading n (CHR ''0'' # CHR ''0'' # r) b k l1"
    then show "succeeds (decimal_escape 0 (Suc 0) l1) (\<lambda>(c, m). c = 0 \<and> reading n r b k m)"
    proof (rule decimal_step)
      fix l2
      assume "reading n (CHR ''0'' # r) b k l2"
      then show "succeeds (decimal_escape 0 (Suc (Suc 0)) l2) (\<lambda>(c, m). c = 0 \<and> reading n r b k m)"
        by (rule decimal_step) simp_all
    qed (auto dest!: reading_at simp: z)
  qed (auto dest!: reading_at simp: z)
qed

lemma char_of_10: "char_of (10 :: nat) = NL"
  by code_simp

lemma escape_reading:
  assumes "reading 5 (quote_char c @ r) b k l" "current l = char2int CHR 0x5C" "k + newlines [c] \<le> MAX_INT"
  shows "succeeds (bindR (lex_next l) read_escape) (reading 4 r (b @ [c]) (k + newlines [c]))"
proof -
  have q: "(c = CHR 0x22 \<or> c = CHR 0x5C) \<or> c = NL \<or> c = NUL \<and> c \<notin> {CHR 0x22, CHR 0x5C, NL}"
    using assms(1,2) by (auto simp: quote_char_def dest!: reading_at split: if_splits)
  then consider "c = CHR 0x22 \<or> c = CHR 0x5C" | "c = NL" | "c = NUL" "c \<notin> {CHR 0x22, CHR 0x5C, NL}"
    by blast
  then show ?thesis
  proof cases
    case 1
    then have "reading 5 (CHR 0x5C # c # r) b k l" "\<not> isdigit c" "newlines [c] = 0"
      using assms(1) by (auto simp: quote_char_def ctype_defs)
    note r = this
    show ?thesis
    proof (rule succeeds_bind [OF next_reading [OF r(1)]])
      fix m
      assume m: "reading 5 (c # r) b k m"
      have "read_escape m = save_and_next m"
        using 1 r(2) by (auto simp: read_escape_def reading_at [OF m])
      then show "succeeds (read_escape m) (reading 4 r (b @ [c]) (k + newlines [c]))"
        using save_and_next_reading [of 4 c r b k m] m r(3) by simp
    qed
  next
    case 2
    then have r: "reading 5 (CHR 0x5C # NL # r) b k l"
      using assms(1) by (simp add: quote_char_def)
    show ?thesis
    proof (rule succeeds_bind [OF next_reading [OF r]])
      fix m
      assume m: "reading 5 (NL # r) b k m"
      have "read_escape m = bindR (save 10 m) inclinenumber"
        by (simp add: read_escape_def reading_at [OF m])
      moreover have "succeeds (bindR (save 10 m) inclinenumber) (reading 4 r (b @ [NL]) (k + 1))"
      proof (rule succeeds_bind)
        show "succeeds (save 10 m) (reading 4 (NL # r) (b @ [NL]) k)"
          using save_reading [of 4 "NL # r" b k m 10] m by (simp add: char_of_10)
      qed (use line_reading assms(3) 2 in force)
      ultimately show "succeeds (read_escape m) (reading 4 r (b @ [c]) (k + newlines [c]))"
        using 2 by simp
    qed
  next
    case 3
    then have r: "reading 5 (CHR 0x5C # CHR ''0'' # CHR ''0'' # CHR ''0'' # r) b k l"
      using assms(1) by (auto simp: quote_char_def)
    show ?thesis
    proof (rule succeeds_bind [OF next_reading [OF r]])
      fix m
      assume m: "reading 5 (CHR ''0'' # CHR ''0'' # CHR ''0'' # r) b k m"
      have d: "isdigit CHR ''0''"
        by (simp add: ctype_defs)
      have "succeeds (bindR (decimal_escape 0 0 m) (\<lambda>(c, ls).
            if UCHAR_MAX < c then bindR (save 0 ls) (\<lambda>ls. luaX_lexerror ls ''escape sequence too large'' TK_STRING)
            else save c ls)) (reading 4 r (b @ [NUL]) k)"
        using save_reading [of 4 r b k _ 0] char_of_zero
        by (auto simp: UCHAR_MAX_def intro!: succeeds_bind [OF zeros_reading [OF m]])
      then show "succeeds (read_escape m) (reading 4 r (b @ [c]) (k + newlines [c]))"
        using 3 by (simp add: read_escape_def reading_at [OF m] d)
    qed
  qed
qed


section \<open>Strings\<close>

lemma string_loop_more:
  assumes r: "reading 4 (c # q) b k l" and c: "c \<noteq> CHR 0x22" "c \<noteq> NL" and b: "length b + 40 < MAX_SIZET"
    and step: "\<And>m. reading 5 (c # q) b k m \<Longrightarrow>
      succeeds (bindR (if c = CHR 0x5C then bindR (lex_next m) read_escape else save_and_next m) (string_loop CHR 0x22)) Q"
  shows "succeeds (string_loop CHR 0x22 l) Q"
proof -
  have more: "current l \<noteq> char2int CHR 0x22"
    unfolding reading_at [OF r] using c(1) by simp
  show ?thesis
    unfolding string_loop.simps [of "CHR 0x22" l] if_not_P [OF more]
  proof (rule succeeds_bind [OF check_reading [OF r b]])
    fix m
    assume m: "reading 5 (c # q) b k m"
    show "succeeds (if current m = EOZ then bindR (save 0 m) (\<lambda>ls. luaX_lexerror ls ''unfinished string'' TK_EOS)
      else if at m NL then bindR (save 0 m) (\<lambda>ls. luaX_lexerror ls ''unfinished string'' TK_STRING)
      else if at m CHR 0x5C then bindR (bindR (lex_next m) read_escape) (\<lambda>ls. string_loop CHR 0x22 ls)
      else bindR (save_and_next m) (\<lambda>ls. string_loop CHR 0x22 ls)) Q"
      using step [OF m] c(2) unfolding reading_at [OF m] inj_char2int
      by (cases "c = CHR 0x5C") (simp_all only: if_True if_False refl char2int_EOZ)
  qed
qed

lemma string_loop_reading:
  "reading 4 (concat (map quote_char s) @ CHR 0x22 # r) b k l \<Longrightarrow> length b + length s + 40 < MAX_SIZET \<Longrightarrow>
   k + newlines s \<le> MAX_INT \<Longrightarrow>
   succeeds (string_loop CHR 0x22 l) (reading 4 (CHR 0x22 # r) (b @ s) (k + newlines s))"
proof (induction s arbitrary: b k l)
  case Nil
  then show ?case
    by (subst string_loop.simps) (simp add: reading_at)
next
  case (Cons c s)
  let ?rest = "concat (map quote_char s) @ CHR 0x22 # r"
  have r: "reading 4 (quote_char c @ ?rest) b k l"
    using Cons.prems(1) by simp
  have k1: "k + newlines [c] \<le> MAX_INT"
    using Cons.prems(3) newlines_nonneg [of s] by (simp del: newlines_nonneg split: if_splits)
  have rec: "succeeds (string_loop CHR 0x22 m) (reading 4 (CHR 0x22 # r) (b @ c # s) (k + newlines (c # s)))"
    if "reading 4 ?rest (b @ [c]) (k + newlines [c]) m" for m
    using Cons.IH [OF that] Cons.prems(2,3) by (simp add: ac_simps)
  show ?case
  proof (cases "hd (quote_char c) = CHR 0x5C")
    case True
    then obtain q where q: "quote_char c @ ?rest = CHR 0x5C # q"
      by (auto simp: quote_char_def split: if_splits)
    show ?thesis
    proof (rule string_loop_more [OF r [unfolded q]])
      fix m
      assume m: "reading 5 (CHR 0x5C # q) b k m"
      show "succeeds (bindR (if CHR 0x5C = CHR 0x5C then bindR (lex_next m) read_escape else save_and_next m)
          (string_loop CHR 0x22)) (reading 4 (CHR 0x22 # r) (b @ c # s) (k + newlines (c # s)))"
        using succeeds_bind [OF escape_reading [OF m [folded q] reading_at [OF m] k1] rec] by simp
    qed (use Cons.prems(2) in simp_all)
  next
    case False
    then have q: "quote_char c @ ?rest = c # ?rest" and c: "c \<notin> {CHR 0x22, CHR 0x5C, NL}"
      by (auto simp: quote_char_def split: if_splits)
    show ?thesis
    proof (rule string_loop_more [OF r [unfolded q]])
      fix m
      assume m: "reading 5 (c # ?rest) b k m"
      show "succeeds (bindR (if c = CHR 0x5C then bindR (lex_next m) read_escape else save_and_next m)
          (string_loop CHR 0x22)) (reading 4 (CHR 0x22 # r) (b @ c # s) (k + newlines (c # s)))"
        using c succeeds_bind [OF save_and_next_reading [of 4 c ?rest b k m] rec] m by simp
    qed (use c Cons.prems(2) in simp_all)
  qed
qed

lemma luaX_lex_string:
  assumes "wf_lex ls" "input ls = quote s @ r" "length s + 50 < MAX_SIZET" "linenumber ls + newlines s \<le> MAX_INT"
  shows "succeeds (luaX_lex ls si) (\<lambda>(k, v, l). k = TK_STRING \<and> v = SemTs s \<and> wf_lex l \<and> input l = r)"
proof -
  let ?k = "linenumber ls" and ?Q = "\<lambda>(k, v, l). k = TK_STRING \<and> v = SemTs s \<and> wf_lex l \<and> input l = r"
  let ?in = "concat (map quote_char s) @ CHR 0x22 # r"
  have q: "input ls = CHR 0x22 # ?in"
    using assms(2) by (simp add: quote_def)
  have 0: "reading 0 (CHR 0x22 # ?in) [] ?k (ls\<lparr>lex_buff := []\<rparr>)"
    using assms(1) q by (simp add: reading_def room_def)
  have "luaX_lex ls si = bindR (read_string ls CHR 0x22) (\<lambda>(s, ls). Inr (TK_STRING, SemTs s, ls))"
    using input_Cons(1) [OF assms(1) q] by (subst luaX_lex.simps) (simp add: char_of_char2int)
  also have "succeeds (bindR (read_string ls CHR 0x22) (\<lambda>(s, ls). Inr (TK_STRING, SemTs s, ls))) ?Q"
  proof (rule succeeds_bind)
    show "succeeds (read_string ls CHR 0x22) (\<lambda>(s', l). s' = s \<and> wf_lex l \<and> input l = r)"
      unfolding read_string_def
    proof (rule succeeds_bind [OF check_reading [OF 0]])
      fix l1
      assume "reading 5 (CHR 0x22 # ?in) [] ?k l1"
      then have "succeeds (save_and_next l1) (reading 4 ?in ([] @ [CHR 0x22]) ?k)"
        by (intro save_and_next_reading) simp
      then show "succeeds (bindR (save_and_next l1) (\<lambda>ls. bindR (string_loop CHR 0x22 ls) (\<lambda>ls.
          bindR (save_and_next ls) (\<lambda>ls. bindR (save 0 ls) (\<lambda>ls.
          Inr (take (length (lex_buff ls) - 3) (drop 1 (lex_buff ls)), ls))))))
        (\<lambda>(s', l). s' = s \<and> wf_lex l \<and> input l = r)"
      proof (rule succeeds_bind)
        fix l2
        assume l2: "reading 4 ?in ([] @ [CHR 0x22]) ?k l2"
        show "succeeds (bindR (string_loop CHR 0x22 l2) (\<lambda>ls.
            bindR (save_and_next ls) (\<lambda>ls. bindR (save 0 ls) (\<lambda>ls.
            Inr (take (length (lex_buff ls) - 3) (drop 1 (lex_buff ls)), ls)))))
          (\<lambda>(s', l). s' = s \<and> wf_lex l \<and> input l = r)"
        proof (rule succeeds_bind [OF string_loop_reading [OF l2]])
          fix l3
          assume "reading 4 (CHR 0x22 # r) (([] @ [CHR 0x22]) @ s) (?k + newlines s) l3"
          then have "reading (Suc (Suc 0)) (CHR 0x22 # r) (CHR 0x22 # s) (?k + newlines s) l3"
            by (auto intro: reading_room)
          then show "succeeds (bindR (save_and_next l3) (\<lambda>ls. bindR (save 0 ls) (\<lambda>ls.
              Inr (take (length (lex_buff ls) - 3) (drop 1 (lex_buff ls)), ls))))
            (\<lambda>(s', l). s' = s \<and> wf_lex l \<and> input l = r)"
            by (rule succeeds_bind [OF save_and_next_reading])
              (erule succeeds_bind [OF save_reading], simp add: reading_def)
        qed (use assms(3,4) in simp_all)
      qed
    qed (simp add: MAX_SIZET_def)
  qed auto
  finally show ?thesis .
qed

section \<open>The writer\<close>

lemma putchar_succeeds:
  "buffered L0 s LB \<Longrightarrow> length s < MAX_SIZET \<Longrightarrow> succeeds (luaL_putchar call c LB) (buffered L0 (s @ [c]))"
  using putchar_buffered [of L0 s LB call c] by (auto simp: succeeds_def)

lemma addlstring_succeeds:
  "buffered L0 s LB \<Longrightarrow> length (s @ cs) \<le> MAX_SIZET \<Longrightarrow> succeeds (luaL_addlstring call cs LB) (buffered L0 (s @ cs))"
  using addlstring_buffered [of L0 s LB cs call] by (auto simp: succeeds_def)

lemma quote_char_length: "length (quote_char c) \<le> 4"
  by (simp add: quote_char_def)

lemma add_quoted_succeeds:
  "buffered L0 b LB \<Longrightarrow> length b + 4 * length s \<le> MAX_SIZET \<Longrightarrow>
   succeeds (add_quoted call s LB) (buffered L0 (b @ concat (map quote_char s)))"
proof (induction s arbitrary: b LB)
  case (Cons c s)
  have step: "succeeds (if c = CHR 0x22 \<or> c = CHR 0x5C \<or> c = CHR 0x0A then
         bindR (luaL_putchar call CHR 0x5C LB) (luaL_putchar call c)
       else if c = NUL then luaL_addlstring call [CHR 0x5C, CHR ''0'', CHR ''0'', CHR ''0''] LB
       else luaL_putchar call c LB) (buffered L0 (b @ quote_char c))"
    using Cons.prems addlstring_succeeds [OF Cons.prems(1), of "[CHR 0x5C, CHR ''0'', CHR ''0'', CHR ''0'']" call]
      putchar_succeeds [OF Cons.prems(1), of call] putchar_succeeds [of L0 "b @ [CHR 0x5C]" _ call c]
    by (auto simp: quote_char_def intro!: succeeds_bind [where P = "buffered L0 (b @ [CHR 0x5C])"])
  show ?case
    unfolding add_quoted.simps
    by (rule succeeds_bind [OF step])
      (use Cons.IH [of "b @ quote_char c"] Cons.prems(2) quote_char_length [of c] in force)
qed simp

lemma addquoted_succeeds:
  assumes "buffered L0 b LB" "luaL_checklstring (fst LB) arg = Inr (s, fst LB)" "length b + 4 * length s + 2 \<le> MAX_SIZET"
  shows "succeeds (luaI_addquoted call arg LB) (buffered L0 (b @ quote s))"
proof -
  have le: "length (concat (map quote_char s)) \<le> 4 * length s"
    by (induction s) (auto intro: order_trans [OF add_mono [OF quote_char_length]])
  have 1: "succeeds (luaL_putchar call CHR 0x22 LB) (buffered L0 (b @ [CHR 0x22]))"
    using assms by (intro putchar_succeeds) auto
  have 2: "succeeds (add_quoted call s m) (buffered L0 ((b @ [CHR 0x22]) @ concat (map quote_char s)))"
    if "buffered L0 (b @ [CHR 0x22]) m" for m
    using add_quoted_succeeds [OF that] assms(3) by simp
  have 3: "succeeds (luaL_putchar call CHR 0x22 m) (buffered L0 (b @ quote s))"
    if "buffered L0 ((b @ [CHR 0x22]) @ concat (map quote_char s)) m" for m
    using putchar_succeeds [OF that, of call] le assms(3) by (simp add: quote_def)
  show ?thesis
    unfolding luaI_addquoted_def assms(2) bindR_simps prod.case surjective_pairing [symmetric]
    by (rule succeeds_bind [OF 1], rule succeeds_bind [OF 2], assumption, rule 3)
qed

text \<open>
  C18: the conversion \<open>%q\<close> of \<open>string.format\<close> writes a string so that the scanner reads it back:
  \<open>luaI_addquoted\<close> adds the bytes \<open>quote s\<close> to the buffer, and wherever a chunk goes on with them,
  the next token is a string with the same bytes, quotes, newlines, backslashes and zeros included,
  and what follows is left.
\<close>

theorem quoted_string_scans:
  assumes "buffered L0 b LB" "luaL_checklstring (fst LB) arg = Inr (s, fst LB)" "length b + 4 * length s + 60 \<le> MAX_SIZET"
    "wf_lex ls" "input ls = quote s @ r" "linenumber ls + newlines s \<le> MAX_INT"
  shows "succeeds (luaI_addquoted call arg LB) (buffered L0 (b @ quote s)) \<and>
    succeeds (luaX_lex ls si) (\<lambda>(k, v, l). k = TK_STRING \<and> v = SemTs s \<and> wf_lex l \<and> input l = r)"
  using assms by (intro conjI addquoted_succeeds luaX_lex_string) simp_all

lemma quoted_string_scans_witness:
  "succeeds (luaI_addquoted (\<lambda>f args n L. Inl ErrErr) 1 (empty_state\<lparr>stk := [LString [NL, CHR ''a'']]\<rparr>, luaL_buffinit))
     (buffered (empty_state\<lparr>stk := [LString [NL, CHR ''a'']]\<rparr>) [CHR 0x22, CHR 0x5C, NL, CHR ''a'', CHR 0x22]) \<and>
   succeeds (luaX_lex (lex_start (CHR 0x22) [CHR 0x5C, NL, CHR ''a'', CHR 0x22, CHR '';'']) SemNone)
     (\<lambda>(k, v, l). k = TK_STRING \<and> v = SemTs [NL, CHR ''a''] \<and> wf_lex l \<and> input l = '';'')"
proof -
  let ?L = "empty_state\<lparr>stk := [LString [NL, CHR ''a'']]\<rparr>"
  let ?ls = "lex_start (CHR 0x22) [CHR 0x5C, NL, CHR ''a'', CHR 0x22, CHR '';'']"
  have c: "luaL_checklstring ?L 1 = Inr ([NL, CHR ''a''], ?L)"
    by code_simp
  have q: "quote [NL, CHR ''a''] = [CHR 0x22, CHR 0x5C, NL, CHR ''a'', CHR 0x22]"
    by code_simp
  have i: "input ?ls = quote [NL, CHR ''a''] @ '';''"
    by (simp add: q input_def lex_start_def wf_luaZ_init)
  have ln: "linenumber ?ls = 1"
    by (simp add: lex_start_def)
  show ?thesis
    using quoted_string_scans [OF buffered_init [of ?L] _ _ _ i, of 1 "\<lambda>f args n L. Inl ErrErr" SemNone]
      c wf_lex_start [of "[CHR 0x5C, NL, CHR ''a'', CHR 0x22, CHR '';'']" "CHR 0x22"]
    ln by (simp add: q MAX_SIZET_def MAX_INT_def INT_MAX_def)
qed

end
