(* ===== verification/Codegen.thy ===== *)
theory Codegen
  imports Lexer CodeCheck Tables
begin

text \<open>
  The code generator (\<open>lua/lcode.c\<close>, \<open>lua/lcode.h\<close>, the types of \<open>lua/lparser.h\<close>).

  A function that is being compiled is a \<open>FuncState\<close>.  The prototype it points to is part of it here
  (the fields \<open>h_\<dots>\<close>), with the sizes of its arrays; a list holds what has been written.  The instructions
  in use are the first \<open>fs_pc\<close> ones: the generator may take instructions back.  The constant table
  \<open>fs_h\<close> has the address \<open>fs_haddr\<close>, which is the key for nil.

  The state of the compiler is the state of the scanner, the function that is being compiled, and the
  functions around it, the innermost first.  An operation takes the state and returns a result and the
  state, or an error; expression descriptors, which the C code changes in place, are arguments and results.
\<close>

section \<open>State\<close>

datatype expkind =
  VVOID | VNIL | VTRUE | VFALSE | VK | VLOCAL | VUPVAL | VGLOBAL | VINDEXED | VJMP | VRELOCABLE |
  VNONRELOC | VCALL

record expdesc =
  e_k :: expkind
  e_info :: int
  e_aux :: int
  e_t :: int
  e_f :: int

record BlockCnt =
  breaklist :: int
  bl_nactvar :: int
  bl_upval :: bool
  isbreakable :: bool

record FuncState =
  h_code :: "Instruction list"
  h_sizecode :: int
  h_lineinfo :: "int list"
  h_sizelineinfo :: int
  h_k :: "Konst list"
  h_sizek :: int
  h_p :: "Proto list"
  h_sizep :: int
  h_locvars :: "LocVar list"
  h_sizelocvars :: int
  h_upvalues :: "string option list"
  h_sizeupvalues :: int
  h_source :: "string option"
  h_lineDefined :: int
  h_nups :: "8 word"
  h_numparams :: "8 word"
  h_is_vararg :: "8 word"
  h_maxstacksize :: "8 word"
  fs_h :: Table
  fs_haddr :: addr
  fs_bl :: "BlockCnt list"       \<comment> \<open>the chain of blocks, the current one first\<close>
  fs_pc :: int
  fs_lasttarget :: int
  fs_jpc :: int
  fs_freereg :: int
  fs_nk :: int
  fs_np :: int
  fs_nlocvars :: int
  fs_nactvar :: int
  fs_upvalues :: "expdesc list"  \<comment> \<open>those in use\<close>
  fs_actvar :: "int list"

record CompState =
  c_ls :: LexState
  c_fs :: FuncState
  c_prev :: "FuncState list"

text \<open>Operations on the state, and their composition.\<close>

type_synonym 'a comp = "CompState \<Rightarrow> ('a \<times> CompState) res"

definition retC :: "'a \<Rightarrow> 'a comp" where
  "retC x s = Inr (x, s)"

definition bindC :: "'a comp \<Rightarrow> ('a \<Rightarrow> 'b comp) \<Rightarrow> 'b comp" where
  "bindC m f s = bindR (m s) (\<lambda>(x, s). f x s)"

definition thenC :: "'a comp \<Rightarrow> 'b comp \<Rightarrow> 'b comp" where
  "thenC m n = bindC m (\<lambda>_. n)"

text \<open>A result that does not change the state, and the fields of the current function.\<close>

definition liftC :: "'a res \<Rightarrow> 'a comp" where
  "liftC r s = bindR r (\<lambda>x. Inr (x, s))"

definition getF :: "(FuncState \<Rightarrow> 'a) \<Rightarrow> 'a comp" where
  "getF f s = Inr (f (c_fs s), s)"

definition modF :: "(FuncState \<Rightarrow> FuncState) \<Rightarrow> unit comp" where
  "modF f s = Inr ((), s\<lparr>c_fs := f (c_fs s)\<rparr>)"

definition getL :: "(LexState \<Rightarrow> 'a) \<Rightarrow> 'a comp" where
  "getL f s = Inr (f (c_ls s), s)"

definition syntaxerrorC :: "string \<Rightarrow> 'a comp" where
  "syntaxerrorC msg s = luaX_syntaxerror (c_ls s) msg"

lemma comp_simps [simp]:
  "retC x s = Inr (x, s)"
  "bindC m f s = bindR (m s) (\<lambda>(x, s). f x s)"
  "thenC m n s = bindR (m s) (\<lambda>(x, s). n s)"
  "liftC r s = bindR r (\<lambda>x. Inr (x, s))"
  "getF g s = Inr (g (c_fs s), s)"
  "modF h s = Inr ((), s\<lparr>c_fs := h (c_fs s)\<rparr>)"
  "getL l s = Inr (l (c_ls s), s)"
  by (simp_all add: retC_def bindC_def thenC_def liftC_def getF_def modF_def getL_def split_def)

section \<open>Arrays\<close>

text \<open>\<open>luaM_growvector\<close>: the size of an array with room for one more element behind \<open>nelems\<close>.\<close>

definition luaM_growvector :: "int \<Rightarrow> int \<Rightarrow> nat \<Rightarrow> int \<Rightarrow> string \<Rightarrow> int res" where
  "luaM_growvector nelems sz size_elem limit e =
    (if sz < nelems + 1 then luaM_growaux sz size_elem limit e else Inr sz)"

definition put_at :: "int \<Rightarrow> 'a \<Rightarrow> 'a list \<Rightarrow> 'a list" where
  "put_at i v xs = take (nat i) xs @ [v] @ drop (Suc (nat i)) xs"

definition read_at :: "int \<Rightarrow> 'a list \<Rightarrow> 'a res" where
  "read_at i xs = (if 0 \<le> i \<and> i < int (length xs) then Inr (xs ! nat i) else Inl OutOfBounds)"

definition instr_at :: "int \<Rightarrow> Instruction comp" where
  "instr_at i = bindC (getF h_code) (\<lambda>code. liftC (read_at i code))"

text \<open>A change of an instruction in place.\<close>

definition patch :: "int \<Rightarrow> (Instruction \<Rightarrow> Instruction) \<Rightarrow> unit comp" where
  "patch i f =
    bindC (instr_at i) (\<lambda>w. modF (\<lambda>fs. fs\<lparr>h_code := (h_code fs)[nat i := f w]\<rparr>))"

abbreviation getcode :: "expdesc \<Rightarrow> Instruction comp" where
  "getcode e \<equiv> instr_at (e_info e)"

section \<open>Jump lists\<close>

definition NO_JUMP :: int where "NO_JUMP = -1"

definition hasjumps :: "expdesc \<Rightarrow> bool" where
  "hasjumps e \<longleftrightarrow> e_t e \<noteq> e_f e"

definition luaK_fixjump :: "int \<Rightarrow> int \<Rightarrow> unit comp" where
  "luaK_fixjump pc dest =
    (let offset = dest - (pc + 1)
     in if MAXARG_sBx < \<bar>offset\<bar> then syntaxerrorC ''control structure too long''
        else patch pc (\<lambda>jmp. SETARG_sBx jmp offset))"

definition luaK_getlabel :: "int comp" where
  "luaK_getlabel = thenC (modF (\<lambda>fs. fs\<lparr>fs_lasttarget := fs_pc fs\<rparr>)) (getF fs_pc)"

text \<open>The jump behind the one at \<open>pc\<close> in its list.\<close>

definition jump_dest :: "Instruction \<Rightarrow> int \<Rightarrow> int" where
  "jump_dest w pc = (let offset = GETARG_sBx w in if offset = NO_JUMP then NO_JUMP else (pc + 1) + offset)"

definition luaK_getjump :: "int \<Rightarrow> int comp" where
  "luaK_getjump pc = bindC (instr_at pc) (\<lambda>w. retC (jump_dest w pc))"

text \<open>The position of the instruction that controls a jump.\<close>

definition getjumpcontrol :: "int \<Rightarrow> int comp" where
  "getjumpcontrol pc =
    (if 1 \<le> pc then
       bindC (instr_at (pc - 1)) (\<lambda>w. case testOpMode (GET_OPCODE w) OpModeT of
           None \<Rightarrow> liftC (Inl OutOfBounds)
         | Some b \<Rightarrow> retC (if b then pc - 1 else pc))
     else retC pc)"

text \<open>
  The loops along a jump list have fuel for as many jumps as there are instructions, and for the end of
  the list.
\<close>

definition list_fuel :: "nat comp" where
  "list_fuel = getF (\<lambda>fs. Suc (length (h_code fs)))"

fun need_value_loop :: "nat \<Rightarrow> int \<Rightarrow> int \<Rightarrow> bool comp" where
  "need_value_loop 0 list cond = liftC (Inl NoReturn)"
| "need_value_loop (Suc fuel) list cond =
    (if list = NO_JUMP then retC False
     else
       bindC (getjumpcontrol list) (\<lambda>c.
       bindC (instr_at c) (\<lambda>i.
         if GET_OPCODE i \<noteq> op_num OP_TEST \<or> GETARG_C i \<noteq> cond then retC True
         else bindC (luaK_getjump list) (\<lambda>list. need_value_loop fuel list cond))))"

definition need_value :: "int \<Rightarrow> int \<Rightarrow> bool comp" where
  "need_value list cond = bindC list_fuel (\<lambda>fuel. need_value_loop fuel list cond)"

definition patchtestreg :: "int \<Rightarrow> int \<Rightarrow> unit comp" where
  "patchtestreg i reg = patch i (\<lambda>w. SETARG_A w (if reg = NO_REG then GETARG_B w else reg))"

fun patchlist_loop :: "nat \<Rightarrow> int \<Rightarrow> int \<Rightarrow> int \<Rightarrow> int \<Rightarrow> int \<Rightarrow> int \<Rightarrow> unit comp" where
  "patchlist_loop 0 list ttarget treg ftarget freg dtarget = liftC (Inl NoReturn)"
| "patchlist_loop (Suc fuel) list ttarget treg ftarget freg dtarget =
    (if list = NO_JUMP then retC ()
     else
       bindC (luaK_getjump list) (\<lambda>next.
       bindC (getjumpcontrol list) (\<lambda>c.
       bindC (instr_at c) (\<lambda>i.
       thenC
         (if GET_OPCODE i \<noteq> op_num OP_TEST then luaK_fixjump list dtarget
          else if GETARG_C i \<noteq> 0 then thenC (patchtestreg c treg) (luaK_fixjump list ttarget)
          else thenC (patchtestreg c freg) (luaK_fixjump list ftarget))
         (patchlist_loop fuel next ttarget treg ftarget freg dtarget)))))"

definition luaK_patchlistaux :: "int \<Rightarrow> int \<Rightarrow> int \<Rightarrow> int \<Rightarrow> int \<Rightarrow> int \<Rightarrow> unit comp" where
  "luaK_patchlistaux list ttarget treg ftarget freg dtarget =
    bindC list_fuel (\<lambda>fuel. patchlist_loop fuel list ttarget treg ftarget freg dtarget)"

definition luaK_dischargejpc :: "unit comp" where
  "luaK_dischargejpc =
    bindC (getF id) (\<lambda>fs.
    thenC (luaK_patchlistaux (fs_jpc fs) (fs_pc fs) NO_REG (fs_pc fs) NO_REG (fs_pc fs))
      (modF (\<lambda>fs. fs\<lparr>fs_jpc := NO_JUMP\<rparr>)))"

text \<open>\<open>luaK_concat\<close> returns the new value of the list \<open>*l1\<close>.\<close>

fun last_jump :: "nat \<Rightarrow> int \<Rightarrow> int comp" where
  "last_jump 0 list = liftC (Inl NoReturn)"
| "last_jump (Suc fuel) list =
    bindC (luaK_getjump list) (\<lambda>next. if next \<noteq> NO_JUMP then last_jump fuel next else retC list)"

definition luaK_concat :: "int \<Rightarrow> int \<Rightarrow> int comp" where
  "luaK_concat l1 l2 =
    (if l2 = NO_JUMP then retC l1
     else if l1 = NO_JUMP then retC l2
     else
       bindC list_fuel (\<lambda>fuel.
       bindC (last_jump fuel l1) (\<lambda>list.
       thenC (luaK_fixjump list l2) (retC l1))))"

definition luaK_patchtohere :: "int \<Rightarrow> unit comp" where
  "luaK_patchtohere list =
    thenC luaK_getlabel
      (bindC (getF fs_jpc) (\<lambda>jpc.
       bindC (luaK_concat jpc list) (\<lambda>jpc. modF (\<lambda>fs. fs\<lparr>fs_jpc := jpc\<rparr>))))"

definition luaK_patchlist :: "int \<Rightarrow> int \<Rightarrow> unit comp" where
  "luaK_patchlist list target =
    bindC (getF fs_pc) (\<lambda>pc.
      if target = pc then luaK_patchtohere list
      else luaK_patchlistaux list target NO_REG target NO_REG target)"

section \<open>Instructions\<close>

definition luaK_code :: "Instruction \<Rightarrow> int \<Rightarrow> int comp" where
  "luaK_code i line =
    thenC luaK_dischargejpc
      (bindC (getF id) (\<lambda>fs.
       bindC (liftC (luaM_growvector (fs_pc fs) (h_sizecode fs) 8 MAX_INT ''code size overflow'')) (\<lambda>sz.
       thenC (modF (\<lambda>fs. fs\<lparr>h_sizecode := sz, h_code := put_at (fs_pc fs) i (h_code fs)\<rparr>))
      (bindC (liftC (luaM_growvector (fs_pc fs) (h_sizelineinfo fs) 4 MAX_INT ''code size overflow'')) (\<lambda>sz.
       thenC (modF (\<lambda>fs. fs\<lparr>h_sizelineinfo := sz, h_lineinfo := put_at (fs_pc fs) line (h_lineinfo fs),
                            fs_pc := fs_pc fs + 1\<rparr>))
         (retC (fs_pc fs)))))))"

definition luaK_codeABC :: "OpCode \<Rightarrow> int \<Rightarrow> int \<Rightarrow> int \<Rightarrow> int comp" where
  "luaK_codeABC o' a b c = bindC (getL lastline) (luaK_code (CREATE_ABC (op_num o') a b c))"

text \<open>The argument \<open>bc\<close> is an \<open>unsigned int\<close>.\<close>

definition luaK_codeABx :: "OpCode \<Rightarrow> int \<Rightarrow> int \<Rightarrow> int comp" where
  "luaK_codeABx o' a bc = bindC (getL lastline) (luaK_code (CREATE_ABx (op_num o') a (bc mod 2 ^ 32)))"

definition luaK_codeAsBx :: "OpCode \<Rightarrow> int \<Rightarrow> int \<Rightarrow> int comp" where
  "luaK_codeAsBx o' A sBx = luaK_codeABx o' A (sBx + MAXARG_sBx)"

definition luaK_fixline :: "int \<Rightarrow> unit comp" where
  "luaK_fixline line =
    bindC (getF id) (\<lambda>fs.
      if 0 < fs_pc fs \<and> fs_pc fs \<le> int (length (h_lineinfo fs))
      then modF (\<lambda>fs. fs\<lparr>h_lineinfo := (h_lineinfo fs)[nat (fs_pc fs - 1) := line]\<rparr>)
      else liftC (Inl OutOfBounds))"

definition luaK_nil :: "int \<Rightarrow> int \<Rightarrow> unit comp" where
  "luaK_nil from' n =
    (let new = thenC (luaK_codeABC OP_LOADNIL from' (from' + n - 1) 0) (retC ())
     in bindC (getF id) (\<lambda>fs.
          if fs_lasttarget fs < fs_pc fs then
            bindC (instr_at (fs_pc fs - 1)) (\<lambda>previous.
              if GET_OPCODE previous = op_num OP_LOADNIL then
                (let pfrom = GETARG_A previous; pto = GETARG_B previous
                 in if pfrom \<le> from' \<and> from' \<le> pto + 1 then
                      (if pto < from' + n - 1 then patch (fs_pc fs - 1) (\<lambda>w. SETARG_B w (from' + n - 1)) else retC ())
                    else new)
              else new)
          else new))"

definition luaK_jump :: "int comp" where
  "luaK_jump =
    bindC (getF fs_jpc) (\<lambda>jpc.
    thenC (modF (\<lambda>fs. fs\<lparr>fs_jpc := NO_JUMP\<rparr>))
      (bindC (luaK_codeAsBx OP_JMP 0 NO_JUMP) (\<lambda>j. luaK_concat j jpc)))"

definition luaK_condjump :: "OpCode \<Rightarrow> int \<Rightarrow> int \<Rightarrow> int \<Rightarrow> int comp" where
  "luaK_condjump op A B C = thenC (luaK_codeABC op A B C) luaK_jump"

section \<open>Registers and constants\<close>

definition luaK_checkstack :: "int \<Rightarrow> unit comp" where
  "luaK_checkstack n =
    bindC (getF id) (\<lambda>fs.
      (let newstack = fs_freereg fs + n
       in if uint (h_maxstacksize fs) < newstack then
            (if MAXSTACK \<le> newstack then syntaxerrorC ''function or expression too complex''
             else modF (\<lambda>fs. fs\<lparr>h_maxstacksize := word_of_int newstack\<rparr>))
          else retC ()))"

definition luaK_reserveregs :: "int \<Rightarrow> unit comp" where
  "luaK_reserveregs n = thenC (luaK_checkstack n) (modF (\<lambda>fs. fs\<lparr>fs_freereg := fs_freereg fs + n\<rparr>))"

definition freereg :: "int \<Rightarrow> unit comp" where
  "freereg reg =
    modF (\<lambda>fs. if fs_nactvar fs \<le> reg \<and> reg < MAXSTACK then fs\<lparr>fs_freereg := fs_freereg fs - 1\<rparr> else fs)"

definition freeexp :: "expdesc \<Rightarrow> unit comp" where
  "freeexp e = (if e_k e = VNONRELOC then freereg (e_info e) else retC ())"

definition addk :: "TObject \<Rightarrow> Konst \<Rightarrow> int comp" where
  "addk k v =
    bindC (getF id) (\<lambda>fs.
    bindC (liftC (luaH_get (fs_h fs) k)) (\<lambda>idx.
      case slot_get (fs_h fs) idx of
        LNumber n \<Rightarrow> retC (lua_number2int n)
      | _ \<Rightarrow>
          bindC (liftC (luaM_growvector (fs_nk fs) (h_sizek fs) 16 MAXARG_Bx ''constant table overflow'')) (\<lambda>sz.
          thenC (modF (\<lambda>fs. fs\<lparr>h_sizek := sz, h_k := put_at (fs_nk fs) v (h_k fs)\<rparr>))
          (bindC (liftC (luaH_set (fs_h fs) k)) (\<lambda>(h, p).
           thenC (modF (\<lambda>fs. fs\<lparr>fs_h := slot_set h p (LNumber (num_of_int (fs_nk fs))), fs_nk := fs_nk fs + 1\<rparr>))
             (retC (fs_nk fs)))))))"

definition luaK_stringK :: "string \<Rightarrow> int comp" where
  "luaK_stringK s = addk (LString s) (KString (Some s))"

definition luaK_numberK :: "lua_Number \<Rightarrow> int comp" where
  "luaK_numberK r = addk (LNumber r) (KNumber r)"

definition nil_constant :: "int comp" where
  "nil_constant = bindC (getF fs_haddr) (\<lambda>a. addk (LTable a) KNil)"

section \<open>Expressions\<close>

definition luaK_setcallreturns :: "expdesc \<Rightarrow> int \<Rightarrow> expdesc comp" where
  "luaK_setcallreturns e nresults =
    (if e_k e = VCALL then
       thenC (patch (e_info e) (\<lambda>w. SETARG_C w (nresults + 1)))
         (if nresults = 1 then
            bindC (getcode e) (\<lambda>w. retC (e\<lparr>e_k := VNONRELOC, e_info := GETARG_A w\<rparr>))
          else retC e)
     else retC e)"

definition luaK_dischargevars :: "expdesc \<Rightarrow> expdesc comp" where
  "luaK_dischargevars e = (case e_k e of
     VLOCAL \<Rightarrow> retC (e\<lparr>e_k := VNONRELOC\<rparr>)
   | VUPVAL \<Rightarrow> bindC (luaK_codeABC OP_GETUPVAL 0 (e_info e) 0) (\<lambda>i. retC (e\<lparr>e_info := i, e_k := VRELOCABLE\<rparr>))
   | VGLOBAL \<Rightarrow> bindC (luaK_codeABx OP_GETGLOBAL 0 (e_info e)) (\<lambda>i. retC (e\<lparr>e_info := i, e_k := VRELOCABLE\<rparr>))
   | VINDEXED \<Rightarrow>
       thenC (freereg (e_aux e)) (thenC (freereg (e_info e))
         (bindC (luaK_codeABC OP_GETTABLE 0 (e_info e) (e_aux e)) (\<lambda>i. retC (e\<lparr>e_info := i, e_k := VRELOCABLE\<rparr>))))
   | VCALL \<Rightarrow> luaK_setcallreturns e 1
   | _ \<Rightarrow> retC e)"

definition code_label :: "int \<Rightarrow> int \<Rightarrow> int \<Rightarrow> int comp" where
  "code_label A b jump = thenC luaK_getlabel (luaK_codeABC OP_LOADBOOL A b jump)"

definition discharge2reg :: "expdesc \<Rightarrow> int \<Rightarrow> expdesc comp" where
  "discharge2reg e reg =
    bindC (luaK_dischargevars e) (\<lambda>e.
      (let done' = retC (e\<lparr>e_info := reg, e_k := VNONRELOC\<rparr>)
       in case e_k e of
            VNIL \<Rightarrow> thenC (luaK_nil reg 1) done'
          | VFALSE \<Rightarrow> thenC (luaK_codeABC OP_LOADBOOL reg 0 0) done'
          | VTRUE \<Rightarrow> thenC (luaK_codeABC OP_LOADBOOL reg 1 0) done'
          | VK \<Rightarrow> thenC (luaK_codeABx OP_LOADK reg (e_info e)) done'
          | VRELOCABLE \<Rightarrow> thenC (patch (e_info e) (\<lambda>w. SETARG_A w reg)) done'
          | VNONRELOC \<Rightarrow>
              (if reg \<noteq> e_info e then thenC (luaK_codeABC OP_MOVE reg (e_info e) 0) done' else done')
          | _ \<Rightarrow> retC e))"

definition discharge2anyreg :: "expdesc \<Rightarrow> expdesc comp" where
  "discharge2anyreg e =
    (if e_k e \<noteq> VNONRELOC then
       thenC (luaK_reserveregs 1) (bindC (getF fs_freereg) (\<lambda>r. discharge2reg e (r - 1)))
     else retC e)"

text \<open>\<open>luaK_exp2reg\<close> in two steps: the jumps of the expression, and the rest.\<close>

definition exp2reg_jumps :: "expdesc \<Rightarrow> int \<Rightarrow> unit comp" where
  "exp2reg_jumps e reg =
    bindC (need_value (e_t e) 1) (\<lambda>nt.
    bindC (if nt then retC True else need_value (e_f e) 0) (\<lambda>need.
    bindC
      (if need then
         bindC (if e_k e \<noteq> VJMP then luaK_jump else retC NO_JUMP) (\<lambda>fj.
         bindC (code_label reg 0 1) (\<lambda>p_f.
         bindC (code_label reg 1 0) (\<lambda>p_t.
         thenC (luaK_patchtohere fj) (retC (p_f, p_t)))))
       else retC (NO_JUMP, NO_JUMP)) (\<lambda>(p_f, p_t).
    bindC luaK_getlabel (\<lambda>final.
    thenC (luaK_patchlistaux (e_f e) p_f NO_REG final reg p_f)
      (luaK_patchlistaux (e_t e) final reg p_t NO_REG p_t)))))"

definition luaK_exp2reg :: "expdesc \<Rightarrow> int \<Rightarrow> expdesc comp" where
  "luaK_exp2reg e reg =
    bindC (discharge2reg e reg) (\<lambda>e.
    bindC (if e_k e = VJMP then bindC (luaK_concat (e_t e) (e_info e)) (\<lambda>t. retC (e\<lparr>e_t := t\<rparr>)) else retC e) (\<lambda>e.
    thenC (if hasjumps e then exp2reg_jumps e reg else retC ())
      (retC (e\<lparr>e_f := NO_JUMP, e_t := NO_JUMP, e_info := reg, e_k := VNONRELOC\<rparr>))))"

definition luaK_exp2nextreg :: "expdesc \<Rightarrow> expdesc comp" where
  "luaK_exp2nextreg e =
    bindC (luaK_dischargevars e) (\<lambda>e.
    thenC (freeexp e) (thenC (luaK_reserveregs 1)
      (bindC (getF fs_freereg) (\<lambda>r. luaK_exp2reg e (r - 1)))))"

text \<open>The register is the \<open>info\<close> of the resulting expression.\<close>

definition luaK_exp2anyreg :: "expdesc \<Rightarrow> expdesc comp" where
  "luaK_exp2anyreg e =
    bindC (luaK_dischargevars e) (\<lambda>e.
    bindC (getF fs_nactvar) (\<lambda>nactvar.
      if e_k e = VNONRELOC \<and> \<not> hasjumps e then retC e
      else if e_k e = VNONRELOC \<and> nactvar \<le> e_info e then luaK_exp2reg e (e_info e)
      else luaK_exp2nextreg e))"

definition luaK_exp2val :: "expdesc \<Rightarrow> expdesc comp" where
  "luaK_exp2val e = (if hasjumps e then luaK_exp2anyreg e else luaK_dischargevars e)"

text \<open>A register, or a constant behind the registers.\<close>

definition luaK_exp2RK :: "expdesc \<Rightarrow> (int \<times> expdesc) comp" where
  "luaK_exp2RK e =
    bindC (luaK_exp2val e) (\<lambda>e.
    bindC (getF fs_nk) (\<lambda>nk.
      if e_k e = VNIL \<and> nk + MAXSTACK \<le> MAXARG_C then
        bindC nil_constant (\<lambda>i. retC (i + MAXSTACK, e\<lparr>e_info := i, e_k := VK\<rparr>))
      else if e_k e = VK \<and> e_info e + MAXSTACK \<le> MAXARG_C then retC (e_info e + MAXSTACK, e)
      else bindC (luaK_exp2anyreg e) (\<lambda>e. retC (e_info e, e))))"

definition luaK_storevar :: "expdesc \<Rightarrow> expdesc \<Rightarrow> expdesc comp" where
  "luaK_storevar var ex = (case e_k var of
     VLOCAL \<Rightarrow> thenC (freeexp ex) (luaK_exp2reg ex (e_info var))
   | VUPVAL \<Rightarrow>
       bindC (luaK_exp2anyreg ex) (\<lambda>ex.
       thenC (luaK_codeABC OP_SETUPVAL (e_info ex) (e_info var) 0) (thenC (freeexp ex) (retC ex)))
   | VGLOBAL \<Rightarrow>
       bindC (luaK_exp2anyreg ex) (\<lambda>ex.
       thenC (luaK_codeABx OP_SETGLOBAL (e_info ex) (e_info var)) (thenC (freeexp ex) (retC ex)))
   | VINDEXED \<Rightarrow>
       bindC (luaK_exp2RK ex) (\<lambda>(r, ex).
       thenC (luaK_codeABC OP_SETTABLE (e_info var) (e_aux var) r) (thenC (freeexp ex) (retC ex)))
   | _ \<Rightarrow> thenC (freeexp ex) (retC ex))"

definition luaK_self :: "expdesc \<Rightarrow> expdesc \<Rightarrow> expdesc comp" where
  "luaK_self e key =
    bindC (luaK_exp2anyreg e) (\<lambda>e.
    thenC (freeexp e)
      (bindC (getF fs_freereg) (\<lambda>func.
       thenC (luaK_reserveregs 2)
         (bindC (luaK_exp2RK key) (\<lambda>(r, key).
          thenC (luaK_codeABC OP_SELF func (e_info e) r)
            (thenC (freeexp key) (retC (e\<lparr>e_info := func, e_k := VNONRELOC\<rparr>))))))))"

section \<open>Conditions\<close>

definition invertjump :: "expdesc \<Rightarrow> unit comp" where
  "invertjump e = bindC (getjumpcontrol (e_info e)) (\<lambda>c. patch c (\<lambda>w. SETARG_A w (if GETARG_A w = 0 then 1 else 0)))"

definition jumponcond :: "expdesc \<Rightarrow> int \<Rightarrow> (int \<times> expdesc) comp" where
  "jumponcond e cond =
    (let through =
        bindC (discharge2anyreg e) (\<lambda>e.
        thenC (freeexp e)
          (bindC (luaK_condjump OP_TEST NO_REG (e_info e) cond) (\<lambda>pc. retC (pc, e))))
     in if e_k e = VRELOCABLE then
          bindC (getcode e) (\<lambda>ie.
            if GET_OPCODE ie = op_num OP_NOT then
              thenC (modF (\<lambda>fs. fs\<lparr>fs_pc := fs_pc fs - 1\<rparr>))
                (bindC (luaK_condjump OP_TEST NO_REG (GETARG_B ie) (if cond = 0 then 1 else 0)) (\<lambda>pc. retC (pc, e)))
            else through)
        else through)"

definition luaK_goiftrue :: "expdesc \<Rightarrow> expdesc comp" where
  "luaK_goiftrue e =
    bindC (luaK_dischargevars e) (\<lambda>e.
    bindC (case e_k e of
        VK \<Rightarrow> retC (NO_JUMP, e)
      | VTRUE \<Rightarrow> retC (NO_JUMP, e)
      | VFALSE \<Rightarrow> bindC luaK_jump (\<lambda>pc. retC (pc, e))
      | VJMP \<Rightarrow> thenC (invertjump e) (retC (e_info e, e))
      | _ \<Rightarrow> jumponcond e 0) (\<lambda>(pc, e).
    bindC (luaK_concat (e_f e) pc) (\<lambda>f. retC (e\<lparr>e_f := f\<rparr>))))"

definition luaK_goiffalse :: "expdesc \<Rightarrow> expdesc comp" where
  "luaK_goiffalse e =
    bindC (luaK_dischargevars e) (\<lambda>e.
    bindC (case e_k e of
        VNIL \<Rightarrow> retC (NO_JUMP, e)
      | VFALSE \<Rightarrow> retC (NO_JUMP, e)
      | VTRUE \<Rightarrow> bindC luaK_jump (\<lambda>pc. retC (pc, e))
      | VJMP \<Rightarrow> retC (e_info e, e)
      | _ \<Rightarrow> jumponcond e 1) (\<lambda>(pc, e).
    bindC (luaK_concat (e_t e) pc) (\<lambda>t. retC (e\<lparr>e_t := t\<rparr>))))"

definition codenot :: "expdesc \<Rightarrow> expdesc comp" where
  "codenot e =
    bindC (luaK_dischargevars e) (\<lambda>e.
    bindC
      (if e_k e = VNIL \<or> e_k e = VFALSE then retC (e\<lparr>e_k := VTRUE\<rparr>)
       else if e_k e = VK \<or> e_k e = VTRUE then retC (e\<lparr>e_k := VFALSE\<rparr>)
       else if e_k e = VJMP then thenC (invertjump e) (retC e)
       else if e_k e = VRELOCABLE \<or> e_k e = VNONRELOC then
         bindC (discharge2anyreg e) (\<lambda>e.
         thenC (freeexp e)
           (bindC (luaK_codeABC OP_NOT 0 (e_info e) 0) (\<lambda>i. retC (e\<lparr>e_info := i, e_k := VRELOCABLE\<rparr>))))
       else retC e) (\<lambda>e.
    retC (e\<lparr>e_f := e_t e, e_t := e_f e\<rparr>)))"

section \<open>Operators\<close>

datatype BinOpr =
  OPR_ADD | OPR_SUB | OPR_MULT | OPR_DIV | OPR_POW | OPR_CONCAT | OPR_NE | OPR_EQ | OPR_LT | OPR_LE |
  OPR_GT | OPR_GE | OPR_AND | OPR_OR | OPR_NOBINOPR

datatype UnOpr = OPR_MINUS | OPR_NOT | OPR_NOUNOPR

definition luaK_indexed :: "expdesc \<Rightarrow> expdesc \<Rightarrow> expdesc comp" where
  "luaK_indexed t key = bindC (luaK_exp2RK key) (\<lambda>(r, key). retC (t\<lparr>e_aux := r, e_k := VINDEXED\<rparr>))"

definition luaK_prefix :: "UnOpr \<Rightarrow> expdesc \<Rightarrow> expdesc comp" where
  "luaK_prefix op e =
    (if op = OPR_MINUS then
       bindC (luaK_exp2val e) (\<lambda>e.
       bindC (if e_k e = VK then bindC (getF h_k) (\<lambda>k. liftC (read_at (e_info e) k)) else retC KNil) (\<lambda>v.
         case v of
           KNumber n \<Rightarrow> bindC (luaK_numberK (num_neg n)) (\<lambda>i. retC (e\<lparr>e_info := i\<rparr>))
         | _ \<Rightarrow>
             bindC (luaK_exp2anyreg e) (\<lambda>e.
             thenC (freeexp e)
               (bindC (luaK_codeABC OP_UNM 0 (e_info e) 0) (\<lambda>i. retC (e\<lparr>e_info := i, e_k := VRELOCABLE\<rparr>))))))
     else codenot e)"

definition luaK_infix :: "BinOpr \<Rightarrow> expdesc \<Rightarrow> expdesc comp" where
  "luaK_infix op v = (case op of
     OPR_AND \<Rightarrow>
       bindC (luaK_goiftrue v) (\<lambda>v. thenC (luaK_patchtohere (e_t v)) (retC (v\<lparr>e_t := NO_JUMP\<rparr>)))
   | OPR_OR \<Rightarrow>
       bindC (luaK_goiffalse v) (\<lambda>v. thenC (luaK_patchtohere (e_f v)) (retC (v\<lparr>e_f := NO_JUMP\<rparr>)))
   | OPR_CONCAT \<Rightarrow> luaK_exp2nextreg v
   | _ \<Rightarrow> bindC (luaK_exp2RK v) (\<lambda>(_, v). retC v))"

text \<open>The opcodes of the arithmetic operators, and of the tests with \<open>cond\<close> and the order of the operands.\<close>

fun arith_op :: "BinOpr \<Rightarrow> OpCode option" where
  "arith_op OPR_ADD = Some OP_ADD"
| "arith_op OPR_SUB = Some OP_SUB"
| "arith_op OPR_MULT = Some OP_MUL"
| "arith_op OPR_DIV = Some OP_DIV"
| "arith_op OPR_POW = Some OP_POW"
| "arith_op _ = None"

fun test_op :: "BinOpr \<Rightarrow> (OpCode \<times> int \<times> bool) option" where
  "test_op OPR_NE = Some (OP_EQ, 0, False)"
| "test_op OPR_EQ = Some (OP_EQ, 1, False)"
| "test_op OPR_LT = Some (OP_LT, 1, False)"
| "test_op OPR_LE = Some (OP_LE, 1, False)"
| "test_op OPR_GT = Some (OP_LT, 1, True)"
| "test_op OPR_GE = Some (OP_LE, 1, True)"
| "test_op _ = None"

definition codebinop :: "expdesc \<Rightarrow> BinOpr \<Rightarrow> int \<Rightarrow> int \<Rightarrow> expdesc comp" where
  "codebinop res op o1 o2 = (case arith_op op of
     Some opc \<Rightarrow> bindC (luaK_codeABC opc 0 o1 o2) (\<lambda>i. retC (res\<lparr>e_info := i, e_k := VRELOCABLE\<rparr>))
   | None \<Rightarrow>
      (case test_op op of
         Some (opc, cond, swap) \<Rightarrow>
           bindC (luaK_condjump opc cond (if swap then o2 else o1) (if swap then o1 else o2)) (\<lambda>i.
             retC (res\<lparr>e_info := i, e_k := VJMP\<rparr>))
       | None \<Rightarrow> liftC (Inl OutOfBounds)))"

definition luaK_posfix :: "BinOpr \<Rightarrow> expdesc \<Rightarrow> expdesc \<Rightarrow> expdesc comp" where
  "luaK_posfix op e1 e2 = (case op of
     OPR_AND \<Rightarrow>
       bindC (luaK_dischargevars e2) (\<lambda>e2.
       bindC (luaK_concat (e_f e1) (e_f e2)) (\<lambda>f.
       retC (e1\<lparr>e_f := f, e_k := e_k e2, e_info := e_info e2, e_aux := e_aux e2, e_t := e_t e2\<rparr>)))
   | OPR_OR \<Rightarrow>
       bindC (luaK_dischargevars e2) (\<lambda>e2.
       bindC (luaK_concat (e_t e1) (e_t e2)) (\<lambda>t.
       retC (e1\<lparr>e_t := t, e_k := e_k e2, e_info := e_info e2, e_aux := e_aux e2, e_f := e_f e2\<rparr>)))
   | OPR_CONCAT \<Rightarrow>
       bindC (luaK_exp2val e2) (\<lambda>e2.
       bindC (if e_k e2 = VRELOCABLE then bindC (getcode e2) (\<lambda>w. retC (GET_OPCODE w = op_num OP_CONCAT))
              else retC False) (\<lambda>chain.
         if chain then
           thenC (freeexp e1)
             (thenC (patch (e_info e2) (\<lambda>w. SETARG_B w (e_info e1)))
               (retC (e1\<lparr>e_k := e_k e2, e_info := e_info e2\<rparr>)))
         else
           bindC (luaK_exp2nextreg e2) (\<lambda>e2.
           thenC (freeexp e2) (thenC (freeexp e1)
             (bindC (luaK_codeABC OP_CONCAT 0 (e_info e1) (e_info e2)) (\<lambda>i.
               retC (e1\<lparr>e_info := i, e_k := VRELOCABLE\<rparr>)))))))
   | _ \<Rightarrow>
       bindC (luaK_exp2RK e1) (\<lambda>(o1, e1).
       bindC (luaK_exp2RK e2) (\<lambda>(o2, e2).
       thenC (freeexp e2) (thenC (freeexp e1)
         (codebinop e1 op o1 o2)))))"

end
