(* ===== verification/Parser.thy ===== *)
theory Parser
  imports Codegen
begin

text \<open>
  The parser (\<open>lua/lparser.c\<close>), which drives the code generator.

  The C code recurses through \<open>expr\<close> and \<open>chunk\<close>, which it declares first, and inside \<open>subexpr\<close>.  Here the
  rules take these two as arguments: \<open>sub\<close> is \<open>subexpr\<close> as a function of the limit, \<open>ch\<close> is \<open>chunk\<close>, and
  \<open>parse_levels\<close> ties the knot.  Both count their level and stop at \<open>LUA_MAXPARSERLEVEL\<close>, so that many
  levels, and one, are enough.  The argument \<open>n\<close> of a rule with a loop is the fuel of the loop: every round
  takes at least a token, so the length of the chunk is enough.
\<close>

section \<open>Tokens\<close>

definition TK_AND :: int where "TK_AND = FIRST_RESERVED"
definition TK_BREAK :: int where "TK_BREAK = FIRST_RESERVED + 1"
definition TK_DO :: int where "TK_DO = FIRST_RESERVED + 2"
definition TK_ELSE :: int where "TK_ELSE = FIRST_RESERVED + 3"
definition TK_ELSEIF :: int where "TK_ELSEIF = FIRST_RESERVED + 4"
definition TK_END :: int where "TK_END = FIRST_RESERVED + 5"
definition TK_FALSE :: int where "TK_FALSE = FIRST_RESERVED + 6"
definition TK_FOR :: int where "TK_FOR = FIRST_RESERVED + 7"
definition TK_FUNCTION :: int where "TK_FUNCTION = FIRST_RESERVED + 8"
definition TK_IF :: int where "TK_IF = FIRST_RESERVED + 9"
definition TK_IN :: int where "TK_IN = FIRST_RESERVED + 10"
definition TK_LOCAL :: int where "TK_LOCAL = FIRST_RESERVED + 11"
definition TK_NIL :: int where "TK_NIL = FIRST_RESERVED + 12"
definition TK_NOT :: int where "TK_NOT = FIRST_RESERVED + 13"
definition TK_OR :: int where "TK_OR = FIRST_RESERVED + 14"
definition TK_REPEAT :: int where "TK_REPEAT = FIRST_RESERVED + 15"
definition TK_RETURN :: int where "TK_RETURN = FIRST_RESERVED + 16"
definition TK_THEN :: int where "TK_THEN = FIRST_RESERVED + 17"
definition TK_TRUE :: int where "TK_TRUE = FIRST_RESERVED + 18"
definition TK_UNTIL :: int where "TK_UNTIL = FIRST_RESERVED + 19"

abbreviation tkc :: "char \<Rightarrow> int" where
  "tkc c \<equiv> char2int c"

definition LUA_MAXPARSERLEVEL :: int where "LUA_MAXPARSERLEVEL = 200"
definition MAXVARS :: int where "MAXVARS = 200"
definition MAXUPVALUES :: int where "MAXUPVALUES = 32"
definition MAXPARAMS :: int where "MAXPARAMS = 100"

section \<open>State of the compiler\<close>

text \<open>
  What the compiler uses of the global state: the default metatable, and the address that the allocator
  gives to the next constant table.
\<close>

definition modL :: "(LexState \<Rightarrow> LexState) \<Rightarrow> unit comp" where
  "modL f s = Inr ((), s\<lparr>c_ls := f (c_ls s)\<rparr>)"

lemma modL_simp [simp]: "modL f s = Inr ((), s\<lparr>c_ls := f (c_ls s)\<rparr>)"
  by (simp add: modL_def)

definition curtok :: "int comp" where
  "curtok = getL (\<lambda>ls. token (tok ls))"

definition enterlevel :: "unit comp" where
  "enterlevel =
    thenC (modL (\<lambda>ls. ls\<lparr>nestlevel := nestlevel ls + 1\<rparr>))
      (bindC (getL nestlevel) (\<lambda>k.
        if LUA_MAXPARSERLEVEL < k then syntaxerrorC ''too many syntax levels'' else retC ()))"

definition leavelevel :: "unit comp" where
  "leavelevel = modL (\<lambda>ls. ls\<lparr>nestlevel := nestlevel ls - 1\<rparr>)"

definition next_tok :: "unit comp" where
  "next_tok s =
    (let ls = (c_ls s)\<lparr>lastline := linenumber (c_ls s)\<rparr>
     in if token (lookahead ls) \<noteq> TK_EOS then
          Inr ((), s\<lparr>c_ls := ls\<lparr>tok := lookahead ls, lookahead := (lookahead ls)\<lparr>token := TK_EOS\<rparr>\<rparr>\<rparr>)
        else
          bindR (luaX_lex ls (seminfo (tok ls))) (\<lambda>(k, si, ls).
            Inr ((), s\<lparr>c_ls := ls\<lparr>tok := \<lparr>token = k, seminfo = si\<rparr>\<rparr>\<rparr>)))"

definition lookahead_tok :: "unit comp" where
  "lookahead_tok s =
    bindR (luaX_lex (c_ls s) (seminfo (lookahead (c_ls s)))) (\<lambda>(k, si, ls).
      Inr ((), s\<lparr>c_ls := ls\<lparr>lookahead := \<lparr>token = k, seminfo = si\<rparr>\<rparr>\<rparr>))"

definition pushfstringC :: "string \<Rightarrow> fmtarg list \<Rightarrow> string comp" where
  "pushfstringC fmt args = liftC (case luaO_pushvfstring fmt args of Some m \<Rightarrow> Inr m | None \<Rightarrow> Inl OutOfBounds)"

definition error_expected :: "int \<Rightarrow> 'a comp" where
  "error_expected token' =
    bindC (liftC (luaX_token2str token')) (\<lambda>t.
    bindC (pushfstringC (''`%s'' @ [CHR 0x27] @ '' expected'') [FmtS t]) syntaxerrorC)"

definition testnext :: "int \<Rightarrow> bool comp" where
  "testnext c = bindC curtok (\<lambda>t. if t = c then thenC next_tok (retC True) else retC False)"

definition check :: "int \<Rightarrow> unit comp" where
  "check c = bindC (testnext c) (\<lambda>b. if b then retC () else error_expected c)"

definition check_condition :: "bool \<Rightarrow> string \<Rightarrow> unit comp" where
  "check_condition c msg = (if c then retC () else syntaxerrorC msg)"

definition check_match :: "int \<Rightarrow> int \<Rightarrow> int \<Rightarrow> unit comp" where
  "check_match what who where' =
    bindC (testnext what) (\<lambda>b.
      if b then retC ()
      else bindC (getL linenumber) (\<lambda>line.
        if where' = line then error_expected what
        else
          bindC (liftC (luaX_token2str what)) (\<lambda>t1.
          bindC (liftC (luaX_token2str who)) (\<lambda>t2.
          bindC (pushfstringC (''`%s'' @ [CHR 0x27] @ '' expected (to close `%s'' @ [CHR 0x27] @ '' at line %d)'')
              [FmtS t1, FmtS t2, FmtD where']) syntaxerrorC))))"

definition str_checkname :: "string comp" where
  "str_checkname =
    bindC (getL tok) (\<lambda>t.
    thenC (check_condition (token t = TK_NAME) ''<name> expected'')
      (case seminfo t of
         SemTs ts \<Rightarrow> thenC next_tok (retC ts)
       | _ \<Rightarrow> liftC (Inl OutOfBounds)))"

definition init_exp :: "expkind \<Rightarrow> int \<Rightarrow> expdesc" where
  "init_exp k i = \<lparr>e_k = k, e_info = i, e_aux = 0, e_t = NO_JUMP, e_f = NO_JUMP\<rparr>"

definition codestring :: "string \<Rightarrow> expdesc comp" where
  "codestring s = bindC (luaK_stringK s) (\<lambda>i. retC (init_exp VK i))"

definition checkname :: "expdesc comp" where
  "checkname = bindC str_checkname codestring"

section \<open>Variables\<close>

definition luaX_checklimitC :: "int \<Rightarrow> int \<Rightarrow> string \<Rightarrow> unit comp" where
  "luaX_checklimitC val limit msg s = bindR (luaX_checklimit (c_ls s) val limit msg) (\<lambda>_. Inr ((), s))"

definition luaI_registerlocalvar :: "string \<Rightarrow> int comp" where
  "luaI_registerlocalvar varname' =
    bindC (getF id) (\<lambda>fs.
    bindC (liftC (luaM_growvector (fs_nlocvars fs) (h_sizelocvars fs) 16 MAX_INT [])) (\<lambda>sz.
    thenC (modF (\<lambda>fs. fs\<lparr>h_sizelocvars := sz,
        h_locvars := put_at (fs_nlocvars fs) \<lparr>varname = Some varname', startpc = 0, endpc = 0\<rparr> (h_locvars fs),
        fs_nlocvars := fs_nlocvars fs + 1\<rparr>))
      (retC (fs_nlocvars fs))))"

definition new_localvar :: "string \<Rightarrow> int \<Rightarrow> unit comp" where
  "new_localvar name n =
    bindC (getF fs_nactvar) (\<lambda>nactvar.
    thenC (luaX_checklimitC (nactvar + n + 1) MAXVARS ''local variables'')
      (bindC (luaI_registerlocalvar name) (\<lambda>i.
        modF (\<lambda>fs. fs\<lparr>fs_actvar := put_at (nactvar + n) i (fs_actvar fs)\<rparr>))))"

text \<open>\<open>getlocvar\<close>: the index of a variable, and a change of it.\<close>

definition locvar_index :: "FuncState \<Rightarrow> int \<Rightarrow> int res" where
  "locvar_index fs i =
    bindR (read_at i (fs_actvar fs)) (\<lambda>j. bindR (read_at j (h_locvars fs)) (\<lambda>_. Inr j))"

definition mod_locvar :: "int \<Rightarrow> (LocVar \<Rightarrow> LocVar) \<Rightarrow> unit comp" where
  "mod_locvar i f =
    bindC (getF id) (\<lambda>fs.
    bindC (liftC (locvar_index fs i)) (\<lambda>j.
      modF (\<lambda>fs. fs\<lparr>h_locvars := (h_locvars fs)[nat j := f (h_locvars fs ! nat j)]\<rparr>)))"

fun start_locvars :: "nat \<Rightarrow> unit comp" where
  "start_locvars 0 = retC ()"
| "start_locvars (Suc nvars) =
    bindC (getF id) (\<lambda>fs.
    thenC (mod_locvar (fs_nactvar fs - int (Suc nvars)) (\<lambda>v. v\<lparr>startpc := fs_pc fs\<rparr>))
      (start_locvars nvars))"

definition adjustlocalvars :: "int \<Rightarrow> unit comp" where
  "adjustlocalvars nvars =
    thenC (modF (\<lambda>fs. fs\<lparr>fs_nactvar := fs_nactvar fs + nvars\<rparr>)) (start_locvars (nat nvars))"

fun removevars_loop :: "nat \<Rightarrow> unit comp" where
  "removevars_loop 0 = retC ()"
| "removevars_loop (Suc k) =
    thenC (modF (\<lambda>fs. fs\<lparr>fs_nactvar := fs_nactvar fs - 1\<rparr>))
      (bindC (getF id) (\<lambda>fs.
       thenC (mod_locvar (fs_nactvar fs) (\<lambda>v. v\<lparr>endpc := fs_pc fs\<rparr>))
         (removevars_loop k)))"

definition removevars :: "int \<Rightarrow> unit comp" where
  "removevars tolevel = bindC (getF fs_nactvar) (\<lambda>nactvar. removevars_loop (nat (nactvar - tolevel)))"

definition create_local :: "string \<Rightarrow> unit comp" where
  "create_local name = thenC (new_localvar name 0) (adjustlocalvars 1)"

text \<open>
  The search for a variable goes through the functions from the innermost one outwards; it works on the
  list of them.
\<close>

definition indexupvalue :: "LexState \<Rightarrow> FuncState \<Rightarrow> string \<Rightarrow> expdesc \<Rightarrow> (int \<times> FuncState) res" where
  "indexupvalue ls fs name v =
    (let nups = uint (h_nups fs)
     in case find (\<lambda>i. e_k (fs_upvalues fs ! i) = e_k v \<and> e_info (fs_upvalues fs ! i) = e_info v) [0..<nat nups] of
          Some i \<Rightarrow> Inr (int i, fs)
        | None \<Rightarrow>
            bindR (luaX_checklimit ls (nups + 1) MAXUPVALUES ''upvalues'') (\<lambda>_.
            bindR (luaM_growvector nups (h_sizeupvalues fs) 8 MAX_INT []) (\<lambda>sz.
              Inr (nups, fs\<lparr>h_sizeupvalues := sz, h_upvalues := put_at nups (Some name) (h_upvalues fs),
                            fs_upvalues := put_at nups v (fs_upvalues fs), h_nups := h_nups fs + 1\<rparr>))))"

fun searchvar_loop :: "nat \<Rightarrow> FuncState \<Rightarrow> string \<Rightarrow> int res" where
  "searchvar_loop 0 fs n = Inr (-1)"
| "searchvar_loop (Suc i) fs n =
    bindR (locvar_index fs (int i)) (\<lambda>j.
      if varname (h_locvars fs ! nat j) = Some n then Inr (int i) else searchvar_loop i fs n)"

definition searchvar :: "FuncState \<Rightarrow> string \<Rightarrow> int res" where
  "searchvar fs n = searchvar_loop (nat (fs_nactvar fs)) fs n"

fun mark_block :: "int \<Rightarrow> BlockCnt list \<Rightarrow> BlockCnt list" where
  "mark_block level [] = []"
| "mark_block level (bl # bls) =
    (if level < bl_nactvar bl then bl # mark_block level bls else bl\<lparr>bl_upval := True\<rparr> # bls)"

definition markupval :: "FuncState \<Rightarrow> int \<Rightarrow> FuncState" where
  "markupval fs level = fs\<lparr>fs_bl := mark_block level (fs_bl fs)\<rparr>"

fun singlevaraux :: "LexState \<Rightarrow> FuncState list \<Rightarrow> string \<Rightarrow> bool \<Rightarrow> (expdesc \<times> FuncState list) res" where
  "singlevaraux ls [] n base = Inr (init_exp VGLOBAL NO_REG, [])"
| "singlevaraux ls (fs # prev) n base =
    bindR (searchvar fs n) (\<lambda>v.
      if 0 \<le> v then Inr (init_exp VLOCAL v, (if \<not> base then markupval fs v else fs) # prev)
      else
        bindR (singlevaraux ls prev n False) (\<lambda>(var, prev).
          if e_k var = VGLOBAL then
            (if base then
               bindR (luaK_stringK n \<lparr>c_ls = ls, c_fs = fs, c_prev = prev\<rparr>) (\<lambda>(i, s).
                 Inr (var\<lparr>e_info := i\<rparr>, c_fs s # prev))
             else Inr (var, fs # prev))
          else
            bindR (indexupvalue ls fs n var) (\<lambda>(i, fs). Inr (var\<lparr>e_info := i, e_k := VUPVAL\<rparr>, fs # prev))))"

definition singlevar :: "expdesc comp" where
  "singlevar =
    bindC str_checkname (\<lambda>name s.
    bindR (singlevaraux (c_ls s) (c_fs s # c_prev s) name True) (\<lambda>(var, fss).
      Inr (var, s\<lparr>c_fs := hd fss, c_prev := tl fss\<rparr>)))"

definition adjust_assign :: "int \<Rightarrow> int \<Rightarrow> expdesc \<Rightarrow> unit comp" where
  "adjust_assign nvars nexps e =
    (let extra = nvars - nexps
     in if e_k e = VCALL then
          (let extra = extra + 1
           in if extra \<le> 0 then thenC (luaK_setcallreturns e 0) (retC ())
              else thenC (luaK_reserveregs (extra - 1)) (thenC (luaK_setcallreturns e extra) (retC ())))
        else
          thenC (if e_k e \<noteq> VVOID then thenC (luaK_exp2nextreg e) (retC ()) else retC ())
            (if 0 < extra then
               bindC (getF fs_freereg) (\<lambda>reg. thenC (luaK_reserveregs extra) (luaK_nil reg extra))
             else retC ()))"

definition code_params :: "int \<Rightarrow> bool \<Rightarrow> unit comp" where
  "code_params nparams dots =
    thenC (adjustlocalvars nparams)
      (bindC (getF fs_nactvar) (\<lambda>nactvar.
       thenC (luaX_checklimitC nactvar MAXPARAMS ''parameters'')
         (thenC (modF (\<lambda>fs. fs\<lparr>h_numparams := word_of_int nactvar, h_is_vararg := (if dots then 1 else 0)\<rparr>))
           (thenC (if dots then create_local ''arg'' else retC ())
             (bindC (getF fs_nactvar) luaK_reserveregs)))))"

section \<open>Blocks and functions\<close>

definition enterblock :: "bool \<Rightarrow> unit comp" where
  "enterblock isbreakable' =
    modF (\<lambda>fs. fs\<lparr>fs_bl := \<lparr>breaklist = NO_JUMP, bl_nactvar = fs_nactvar fs, bl_upval = False,
                           isbreakable = isbreakable'\<rparr> # fs_bl fs\<rparr>)"

definition leaveblock :: "unit comp" where
  "leaveblock =
    bindC (getF fs_bl) (\<lambda>bls. case bls of
        [] \<Rightarrow> liftC (Inl OutOfBounds)
      | bl # previous \<Rightarrow>
          thenC (modF (\<lambda>fs. fs\<lparr>fs_bl := previous\<rparr>))
            (thenC (removevars (bl_nactvar bl))
              (thenC (if bl_upval bl then thenC (luaK_codeABC OP_CLOSE (bl_nactvar bl) 0 0) (retC ()) else retC ())
                (thenC (modF (\<lambda>fs. fs\<lparr>fs_freereg := fs_nactvar fs\<rparr>))
                  (luaK_patchtohere (breaklist bl))))))"

fun code_upvalues :: "expdesc list \<Rightarrow> unit comp" where
  "code_upvalues [] = retC ()"
| "code_upvalues (u # us) =
    thenC (luaK_codeABC (if e_k u = VLOCAL then OP_MOVE else OP_GETUPVAL) 0 (e_info u) 0) (code_upvalues us)"

definition pushclosure :: "Proto \<Rightarrow> expdesc list \<Rightarrow> expdesc comp" where
  "pushclosure f upvals =
    bindC (getF id) (\<lambda>fs.
    bindC (liftC (luaM_growvector (fs_np fs) (h_sizep fs) 8 MAXARG_Bx ''constant table overflow'')) (\<lambda>sz.
    thenC (modF (\<lambda>fs. fs\<lparr>h_sizep := sz, h_p := put_at (fs_np fs) f (h_p fs), fs_np := fs_np fs + 1\<rparr>))
      (bindC (luaK_codeABx OP_CLOSURE 0 (fs_np fs)) (\<lambda>pc.
       thenC (code_upvalues (take (nat (uint (f_nups f))) upvals)) (retC (init_exp VRELOCABLE pc))))))"

text \<open>
  A new function.  The address of its constant table stands for itself as a key; it moves on by the
  size of a table from that of the function around it.
\<close>

definition new_func :: "LexState \<Rightarrow> addr \<Rightarrow> FuncState res" where
  "new_func ls a =
    bindR (luaH_new 0 0 0) (\<lambda>h.
      Inr \<lparr>h_code = [], h_sizecode = 0, h_lineinfo = [], h_sizelineinfo = 0, h_k = [], h_sizek = 0,
           h_p = [], h_sizep = 0, h_locvars = [], h_sizelocvars = 0, h_upvalues = [], h_sizeupvalues = 0,
           h_source = Some (lex_source ls), h_lineDefined = 0, h_nups = 0, h_numparams = 0, h_is_vararg = 0,
           h_maxstacksize = 2, fs_h = h, fs_haddr = a, fs_bl = [], fs_pc = 0, fs_lasttarget = 0,
           fs_jpc = NO_JUMP, fs_freereg = 0, fs_nk = 0, fs_np = 0, fs_nlocvars = 0, fs_nactvar = 0,
           fs_upvalues = [], fs_actvar = []\<rparr>)"

definition open_func :: "unit comp" where
  "open_func s =
    bindR (new_func (c_ls s) (fs_haddr (c_fs s) + 64)) (\<lambda>fs.
      Inr ((), s\<lparr>c_fs := fs, c_prev := c_fs s # c_prev s\<rparr>))"

definition proto_of :: "FuncState \<Rightarrow> Proto" where
  "proto_of fs =
    Proto (take (nat (fs_nk fs)) (h_k fs)) (take (nat (fs_pc fs)) (h_code fs)) (take (nat (fs_np fs)) (h_p fs))
      (take (nat (fs_pc fs)) (h_lineinfo fs)) (take (nat (fs_nlocvars fs)) (h_locvars fs))
      (take (nat (uint (h_nups fs))) (h_upvalues fs)) (h_source fs) (h_lineDefined fs) (h_nups fs)
      (h_numparams fs) (h_is_vararg fs) (h_maxstacksize fs)"

text \<open>\<open>close_func\<close> up to the last statement, which goes back to the function around this one.\<close>

definition close_func :: "Proto comp" where
  "close_func =
    thenC (removevars 0)
      (thenC (luaK_codeABC OP_RETURN 0 1 0) (bindC (getF id) (\<lambda>fs. retC (proto_of fs))))"

definition leave_func :: "unit comp" where
  "leave_func s = (case c_prev s of
     [] \<Rightarrow> Inl OutOfBounds
   | fs # prev \<Rightarrow> Inr ((), s\<lparr>c_fs := fs, c_prev := prev\<rparr>))"

section \<open>Constructors\<close>

type_synonym subexpr = "int \<Rightarrow> (BinOpr \<times> expdesc) comp"

definition expr :: "subexpr \<Rightarrow> expdesc comp" where
  "expr sub = bindC (sub (-1)) (\<lambda>(_, v). retC v)"

definition luaY_field :: "expdesc \<Rightarrow> expdesc comp" where
  "luaY_field v =
    bindC (luaK_exp2anyreg v) (\<lambda>v.
    thenC next_tok (bindC checkname (luaK_indexed v)))"

definition luaY_index :: "subexpr \<Rightarrow> expdesc comp" where
  "luaY_index sub =
    thenC next_tok
      (bindC (expr sub) (\<lambda>v.
       bindC (luaK_exp2val v) (\<lambda>v. thenC (check (tkc CHR '']'')) (retC v))))"

record ConsControl =
  cc_v :: expdesc
  cc_nh :: int
  cc_na :: int
  cc_tostore :: int

text \<open>
  The descriptor \<open>t\<close> of the table is fixed in a register.  The two calls of \<open>luaK_exp2RK\<close> among the arguments of
  \<open>luaK_codeABC\<close> are made in an order that C does not fix; the first one finds a constant or a register
  already, and codes nothing.
\<close>

definition recfield :: "subexpr \<Rightarrow> expdesc \<Rightarrow> ConsControl \<Rightarrow> ConsControl comp" where
  "recfield sub t cc =
    bindC (getF fs_freereg) (\<lambda>reg.
    bindC curtok (\<lambda>k.
    bindC
      (if k = TK_NAME then
         thenC (luaX_checklimitC (cc_nh cc) MAX_INT ''items in a constructor'')
           (bindC checkname (\<lambda>key. retC (key, cc\<lparr>cc_nh := cc_nh cc + 1\<rparr>)))
       else bindC (luaY_index sub) (\<lambda>key. retC (key, cc))) (\<lambda>(key, cc).
    thenC (check (tkc CHR ''=''))
      (bindC (luaK_exp2RK key) (\<lambda>(_, key).
       bindC (expr sub) (\<lambda>val.
       bindC (luaK_exp2RK key) (\<lambda>(rk, key).
       bindC (luaK_exp2RK val) (\<lambda>(rv, val).
       thenC (luaK_codeABC OP_SETTABLE (e_info t) rk rv)
         (thenC (modF (\<lambda>fs. fs\<lparr>fs_freereg := reg\<rparr>)) (retC cc))))))))))"

definition closelistfield :: "expdesc \<Rightarrow> ConsControl \<Rightarrow> ConsControl comp" where
  "closelistfield t cc =
    (if e_k (cc_v cc) = VVOID then retC cc
     else
       bindC (luaK_exp2nextreg (cc_v cc)) (\<lambda>v.
         (let cc = cc\<lparr>cc_v := v\<lparr>e_k := VVOID\<rparr>\<rparr>
          in if cc_tostore cc = LFIELDS_PER_FLUSH then
               thenC (luaK_codeABx OP_SETLIST (e_info t) (cc_na cc - 1))
                 (thenC (modF (\<lambda>fs. fs\<lparr>fs_freereg := e_info t + 1\<rparr>)) (retC (cc\<lparr>cc_tostore := 0\<rparr>)))
             else retC cc)))"

definition lastlistfield :: "expdesc \<Rightarrow> ConsControl \<Rightarrow> unit comp" where
  "lastlistfield t cc =
    (if cc_tostore cc = 0 then retC ()
     else
       thenC
         (if e_k (cc_v cc) = VCALL then
            thenC (luaK_setcallreturns (cc_v cc) LUA_MULTRET) (luaK_codeABx OP_SETLISTO (e_info t) (cc_na cc - 1))
          else
            thenC (if e_k (cc_v cc) \<noteq> VVOID then thenC (luaK_exp2nextreg (cc_v cc)) (retC ()) else retC ())
              (luaK_codeABx OP_SETLIST (e_info t) (cc_na cc - 1)))
         (modF (\<lambda>fs. fs\<lparr>fs_freereg := e_info t + 1\<rparr>)))"

definition listfield :: "subexpr \<Rightarrow> ConsControl \<Rightarrow> ConsControl comp" where
  "listfield sub cc =
    bindC (expr sub) (\<lambda>v.
    thenC (luaX_checklimitC (cc_na cc) MAXARG_Bx ''items in a constructor'')
      (retC (cc\<lparr>cc_v := v, cc_na := cc_na cc + 1, cc_tostore := cc_tostore cc + 1\<rparr>)))"

fun cons_loop :: "nat \<Rightarrow> subexpr \<Rightarrow> expdesc \<Rightarrow> ConsControl \<Rightarrow> ConsControl comp" where
  "cons_loop 0 sub t cc = liftC (Inl NoReturn)"
| "cons_loop (Suc n) sub t cc =
    thenC (testnext (tkc CHR '';''))
      (bindC curtok (\<lambda>k.
        if k = tkc CHR ''}'' then retC cc
        else
          bindC (closelistfield t cc) (\<lambda>cc.
          bindC
            (if k = TK_NAME then
               thenC lookahead_tok
                 (bindC (getL (\<lambda>ls. token (lookahead ls))) (\<lambda>l.
                   if l \<noteq> tkc CHR ''='' then listfield sub cc else recfield sub t cc))
             else if k = tkc CHR ''['' then recfield sub t cc
             else listfield sub cc) (\<lambda>cc.
          bindC (testnext (tkc CHR '','')) (\<lambda>b1.
          bindC (if b1 then retC True else testnext (tkc CHR '';'')) (\<lambda>b2.
            if b2 then cons_loop n sub t cc else retC cc))))))"

definition constructor :: "nat \<Rightarrow> subexpr \<Rightarrow> expdesc comp" where
  "constructor n sub =
    bindC (getL linenumber) (\<lambda>line.
    bindC (luaK_codeABC OP_NEWTABLE 0 0 0) (\<lambda>pc.
    bindC (luaK_exp2nextreg (init_exp VRELOCABLE pc)) (\<lambda>t.
    thenC (check (tkc CHR ''{''))
      (bindC (cons_loop n sub t \<lparr>cc_v = init_exp VVOID 0, cc_nh = 0, cc_na = 0, cc_tostore = 0\<rparr>) (\<lambda>cc.
       thenC (check_match (tkc CHR ''}'') (tkc CHR ''{'') line)
         (thenC (lastlistfield t cc)
           (thenC (patch pc (\<lambda>w. SETARG_B w (int (luaO_int2fb (word_of_int (cc_na cc))))))
             (thenC (patch pc (\<lambda>w. SETARG_C w (luaO_log2 (word_of_int (cc_nh cc)) + 1)))
               (retC t)))))))))"

section \<open>Function bodies and arguments\<close>

fun param_loop :: "nat \<Rightarrow> int \<Rightarrow> (int \<times> bool) comp" where
  "param_loop 0 nparams = liftC (Inl NoReturn)"
| "param_loop (Suc n) nparams =
    bindC curtok (\<lambda>k.
    bindC
      (if k = TK_DOTS then thenC next_tok (retC (nparams, True))
       else if k = TK_NAME then
         bindC str_checkname (\<lambda>name. thenC (new_localvar name nparams) (retC (nparams + 1, False)))
       else syntaxerrorC (''<name> or `...'' @ [CHR 0x27] @ '' expected'')) (\<lambda>(nparams, dots).
      if dots then retC (nparams, dots)
      else bindC (testnext (tkc CHR '','')) (\<lambda>b. if b then param_loop n nparams else retC (nparams, dots))))"

definition parlist :: "nat \<Rightarrow> unit comp" where
  "parlist n =
    bindC curtok (\<lambda>k.
    bindC (if k \<noteq> tkc CHR '')'' then param_loop n 0 else retC (0, False)) (\<lambda>(nparams, dots).
      code_params nparams dots))"

definition body :: "nat \<Rightarrow> unit comp \<Rightarrow> bool \<Rightarrow> int \<Rightarrow> expdesc comp" where
  "body n ch needself line =
    thenC open_func
      (thenC (modF (\<lambda>fs. fs\<lparr>h_lineDefined := line\<rparr>))
        (thenC (check (tkc CHR ''(''))
          (thenC (if needself then create_local ''self'' else retC ())
            (thenC (parlist n)
              (thenC (check (tkc CHR '')''))
                (thenC ch
                  (thenC (check_match TK_END TK_FUNCTION line)
                    (bindC close_func (\<lambda>f.
                     bindC (getF fs_upvalues) (\<lambda>upvals.
                     thenC leave_func (pushclosure f upvals))))))))))) "

fun explist_loop :: "nat \<Rightarrow> subexpr \<Rightarrow> int \<Rightarrow> expdesc \<Rightarrow> (int \<times> expdesc) comp" where
  "explist_loop 0 sub k v = liftC (Inl NoReturn)"
| "explist_loop (Suc n) sub k v =
    bindC (testnext (tkc CHR '','')) (\<lambda>b.
      if b then thenC (luaK_exp2nextreg v) (bindC (expr sub) (explist_loop n sub (k + 1)))
      else retC (k, v))"

definition explist1 :: "nat \<Rightarrow> subexpr \<Rightarrow> (int \<times> expdesc) comp" where
  "explist1 n sub = bindC (expr sub) (explist_loop n sub 1)"

definition funcargs :: "nat \<Rightarrow> subexpr \<Rightarrow> expdesc \<Rightarrow> expdesc comp" where
  "funcargs n sub f =
    bindC (getL linenumber) (\<lambda>line.
    bindC (getL id) (\<lambda>ls.
    bindC
      (if token (tok ls) = tkc CHR ''('' then
         thenC (if line \<noteq> lastline ls
                then syntaxerrorC ''ambiguous syntax (function call x new statement)'' else retC ())
           (thenC next_tok
             (bindC curtok (\<lambda>k.
              bindC
                (if k = tkc CHR '')'' then retC (init_exp VVOID 0)
                 else bindC (explist1 n sub) (\<lambda>(_, args). luaK_setcallreturns args LUA_MULTRET)) (\<lambda>args.
              thenC (check_match (tkc CHR '')'') (tkc CHR ''('') line) (retC args)))))
       else if token (tok ls) = tkc CHR ''{'' then constructor n sub
       else if token (tok ls) = TK_STRING then
         (case seminfo (tok ls) of
            SemTs ts \<Rightarrow> bindC (codestring ts) (\<lambda>args. thenC next_tok (retC args))
          | _ \<Rightarrow> liftC (Inl OutOfBounds))
       else syntaxerrorC ''function arguments expected'') (\<lambda>args.
    (let base = e_info f
     in bindC
          (if e_k args = VCALL then retC LUA_MULTRET
           else
             thenC (if e_k args \<noteq> VVOID then thenC (luaK_exp2nextreg args) (retC ()) else retC ())
               (bindC (getF fs_freereg) (\<lambda>r. retC (r - (base + 1))))) (\<lambda>nparams.
        bindC (luaK_codeABC OP_CALL base (nparams + 1) 2) (\<lambda>pc.
        thenC (luaK_fixline line)
          (thenC (modF (\<lambda>fs. fs\<lparr>fs_freereg := base + 1\<rparr>))
            (retC (f\<lparr>e_k := VCALL, e_info := pc, e_t := NO_JUMP, e_f := NO_JUMP\<rparr>)))))))))"

section \<open>Expressions\<close>

definition prefixexp :: "subexpr \<Rightarrow> expdesc comp" where
  "prefixexp sub =
    bindC curtok (\<lambda>k.
      if k = tkc CHR ''('' then
        bindC (getL linenumber) (\<lambda>line.
        thenC next_tok
          (bindC (expr sub) (\<lambda>v.
           thenC (check_match (tkc CHR '')'') (tkc CHR ''('') line) (luaK_dischargevars v))))
      else if k = TK_NAME then singlevar
      else syntaxerrorC ''unexpected symbol'')"

fun primary_loop :: "nat \<Rightarrow> subexpr \<Rightarrow> expdesc \<Rightarrow> expdesc comp" where
  "primary_loop 0 sub v = liftC (Inl NoReturn)"
| "primary_loop (Suc n) sub v =
    bindC curtok (\<lambda>k.
      if k = tkc CHR ''.'' then bindC (luaY_field v) (primary_loop n sub)
      else if k = tkc CHR ''['' then
        bindC (luaK_exp2anyreg v) (\<lambda>v.
        bindC (luaY_index sub) (\<lambda>key.
        bindC (luaK_indexed v key) (primary_loop n sub)))
      else if k = tkc CHR '':'' then
        thenC next_tok
          (bindC checkname (\<lambda>key.
           bindC (luaK_self v key) (\<lambda>v.
           bindC (funcargs n sub v) (primary_loop n sub))))
      else if k = tkc CHR ''('' \<or> k = TK_STRING \<or> k = tkc CHR ''{'' then
        bindC (luaK_exp2nextreg v) (\<lambda>v. bindC (funcargs n sub v) (primary_loop n sub))
      else retC v)"

definition primaryexp :: "nat \<Rightarrow> subexpr \<Rightarrow> expdesc comp" where
  "primaryexp n sub = bindC (prefixexp sub) (primary_loop n sub)"

definition simpleexp :: "nat \<Rightarrow> subexpr \<Rightarrow> unit comp \<Rightarrow> expdesc comp" where
  "simpleexp n sub ch =
    bindC (getL tok) (\<lambda>t.
      if token t = TK_NUMBER then
        (case seminfo t of
           SemR r \<Rightarrow> bindC (luaK_numberK r) (\<lambda>i. thenC next_tok (retC (init_exp VK i)))
         | _ \<Rightarrow> liftC (Inl OutOfBounds))
      else if token t = TK_STRING then
        (case seminfo t of
           SemTs ts \<Rightarrow> bindC (codestring ts) (\<lambda>v. thenC next_tok (retC v))
         | _ \<Rightarrow> liftC (Inl OutOfBounds))
      else if token t = TK_NIL then thenC next_tok (retC (init_exp VNIL 0))
      else if token t = TK_TRUE then thenC next_tok (retC (init_exp VTRUE 0))
      else if token t = TK_FALSE then thenC next_tok (retC (init_exp VFALSE 0))
      else if token t = tkc CHR ''{'' then constructor n sub
      else if token t = TK_FUNCTION then
        thenC next_tok (bindC (getL linenumber) (body n ch False))
      else primaryexp n sub)"

definition getunopr :: "int \<Rightarrow> UnOpr" where
  "getunopr op = (if op = TK_NOT then OPR_NOT else if op = tkc CHR ''-'' then OPR_MINUS else OPR_NOUNOPR)"

definition getbinopr :: "int \<Rightarrow> BinOpr" where
  "getbinopr op =
    (if op = tkc CHR ''+'' then OPR_ADD
     else if op = tkc CHR ''-'' then OPR_SUB
     else if op = tkc CHR ''*'' then OPR_MULT
     else if op = tkc CHR ''/'' then OPR_DIV
     else if op = tkc CHR ''^'' then OPR_POW
     else if op = TK_CONCAT then OPR_CONCAT
     else if op = TK_NE then OPR_NE
     else if op = TK_EQ then OPR_EQ
     else if op = tkc CHR ''<'' then OPR_LT
     else if op = TK_LE then OPR_LE
     else if op = tkc CHR ''>'' then OPR_GT
     else if op = TK_GE then OPR_GE
     else if op = TK_AND then OPR_AND
     else if op = TK_OR then OPR_OR
     else OPR_NOBINOPR)"

text \<open>The table \<open>priority\<close>: left and right priority.\<close>

fun priority :: "BinOpr \<Rightarrow> int \<times> int" where
  "priority OPR_ADD = (6, 6)"
| "priority OPR_SUB = (6, 6)"
| "priority OPR_MULT = (7, 7)"
| "priority OPR_DIV = (7, 7)"
| "priority OPR_POW = (10, 9)"
| "priority OPR_CONCAT = (5, 4)"
| "priority OPR_AND = (2, 2)"
| "priority OPR_OR = (1, 1)"
| "priority _ = (3, 3)"

definition UNARY_PRIORITY :: int where "UNARY_PRIORITY = 8"

fun subexpr_loop :: "nat \<Rightarrow> subexpr \<Rightarrow> int \<Rightarrow> BinOpr \<Rightarrow> expdesc \<Rightarrow> (BinOpr \<times> expdesc) comp" where
  "subexpr_loop 0 sub limit op v = liftC (Inl NoReturn)"
| "subexpr_loop (Suc n) sub limit op v =
    (if op \<noteq> OPR_NOBINOPR \<and> limit < fst (priority op) then
       thenC next_tok
         (bindC (luaK_infix op v) (\<lambda>v.
          bindC (sub (snd (priority op))) (\<lambda>(nextop, v2).
          bindC (luaK_posfix op v v2) (subexpr_loop n sub limit nextop))))
     else retC (op, v))"

definition subexpr :: "nat \<Rightarrow> subexpr \<Rightarrow> unit comp \<Rightarrow> subexpr" where
  "subexpr n sub ch limit =
    thenC enterlevel
      (bindC curtok (\<lambda>k.
       bindC
         (let uop = getunopr k
          in if uop \<noteq> OPR_NOUNOPR then
               thenC next_tok (bindC (sub UNARY_PRIORITY) (\<lambda>(_, v). luaK_prefix uop v))
             else simpleexp n sub ch) (\<lambda>v.
       bindC curtok (\<lambda>k.
       bindC (subexpr_loop n sub limit (getbinopr k) v) (\<lambda>(op, v).
       thenC leavelevel (retC (op, v)))))))"

section \<open>Statements\<close>

definition block_follow :: "int \<Rightarrow> bool" where
  "block_follow k \<longleftrightarrow> k = TK_ELSE \<or> k = TK_ELSEIF \<or> k = TK_END \<or> k = TK_UNTIL \<or> k = TK_EOS"

definition block :: "unit comp \<Rightarrow> unit comp" where
  "block ch = thenC (enterblock False) (thenC ch leaveblock)"

text \<open>
  The variables on the left-hand side of an assignment, the last one first: the chain of
  \<open>struct LHS_assign\<close>.
\<close>

definition rename_reg :: "int \<Rightarrow> int \<Rightarrow> expdesc \<Rightarrow> expdesc" where
  "rename_reg reg extra v =
    (if e_k v = VINDEXED then
       v\<lparr>e_info := (if e_info v = reg then extra else e_info v), e_aux := (if e_aux v = reg then extra else e_aux v)\<rparr>
     else v)"

definition check_conflict :: "expdesc list \<Rightarrow> expdesc \<Rightarrow> expdesc list comp" where
  "check_conflict lh v =
    bindC (getF fs_freereg) (\<lambda>extra.
      if \<exists>w \<in> set lh. e_k w = VINDEXED \<and> (e_info w = e_info v \<or> e_aux w = e_info v) then
        thenC (luaK_codeABC OP_MOVE extra (e_info v) 0)
          (thenC (luaK_reserveregs 1) (retC (map (rename_reg (e_info v) extra) lh)))
      else retC lh)"

text \<open>The result is what has become of the variables behind the first one.\<close>

fun assignment :: "nat \<Rightarrow> subexpr \<Rightarrow> expdesc list \<Rightarrow> int \<Rightarrow> expdesc list comp" where
  "assignment 0 sub lhs nvars = liftC (Inl NoReturn)"
| "assignment (Suc n) sub lhs nvars =
    (case lhs of
       [] \<Rightarrow> liftC (Inl OutOfBounds)
     | lh # rest \<Rightarrow>
         thenC (check_condition (e_k lh \<in> {VLOCAL, VUPVAL, VGLOBAL, VINDEXED}) ''syntax error'')
           (bindC (testnext (tkc CHR '','')) (\<lambda>b.
             if b then
               bindC (primaryexp n sub) (\<lambda>nv.
               bindC (if e_k nv = VLOCAL then check_conflict lhs nv else retC lhs) (\<lambda>lhs.
               bindC (assignment n sub (nv # lhs) (nvars + 1)) (\<lambda>lhs.
               bindC (getF fs_freereg) (\<lambda>r.
               thenC (luaK_storevar (hd lhs) (init_exp VNONRELOC (r - 1))) (retC (tl lhs))))))
             else
               thenC (check (tkc CHR ''=''))
                 (bindC (explist1 n sub) (\<lambda>(nexps, e).
                   if nexps \<noteq> nvars then
                     thenC (adjust_assign nvars nexps e)
                       (thenC (if nvars < nexps
                               then modF (\<lambda>fs. fs\<lparr>fs_freereg := fs_freereg fs - (nexps - nvars)\<rparr>) else retC ())
                         (bindC (getF fs_freereg) (\<lambda>r.
                          thenC (luaK_storevar lh (init_exp VNONRELOC (r - 1))) (retC rest))))
                   else
                     bindC (luaK_setcallreturns e 1) (\<lambda>e. thenC (luaK_storevar lh e) (retC rest)))))))"

definition cond :: "subexpr \<Rightarrow> expdesc comp" where
  "cond sub =
    bindC (expr sub) (\<lambda>v.
    bindC (luaK_goiftrue (if e_k v = VNIL then v\<lparr>e_k := VFALSE\<rparr> else v)) (\<lambda>v.
    thenC (luaK_patchtohere (e_t v)) (retC v)))"

definition MAXEXPWHILE :: int where "MAXEXPWHILE = 100"

fun code_again :: "Instruction list \<Rightarrow> int \<Rightarrow> unit comp" where
  "code_again [] line = retC ()"
| "code_again (i # is) line = thenC (luaK_code i line) (code_again is line)"

definition whilestat :: "nat \<Rightarrow> subexpr \<Rightarrow> unit comp \<Rightarrow> int \<Rightarrow> unit comp" where
  "whilestat n sub ch line =
    thenC next_tok
      (bindC luaK_jump (\<lambda>whileinit.
       bindC luaK_getlabel (\<lambda>expinit.
       bindC (expr sub) (\<lambda>v.
       bindC (getL linenumber) (\<lambda>lineexp.
       bindC (luaK_goiffalse (if e_k v = VK then v\<lparr>e_k := VTRUE\<rparr> else v)) (\<lambda>v.
       bindC (getF fs_jpc) (\<lambda>jpc.
       bindC (luaK_concat (e_f v) jpc) (\<lambda>vf.
       thenC (modF (\<lambda>fs. fs\<lparr>fs_jpc := NO_JUMP\<rparr>))
         (bindC (getF id) (\<lambda>fs.
           (let sizeexp = fs_pc fs - expinit; codeexp = take (nat sizeexp) (drop (nat expinit) (h_code fs))
            in thenC (if MAXEXPWHILE < sizeexp
                      then syntaxerrorC (''`while'' @ [CHR 0x27] @ '' condition too complex'') else retC ())
              (thenC (modF (\<lambda>fs. fs\<lparr>fs_pc := expinit\<rparr>))
                (thenC (enterblock True)
                  (thenC (check TK_DO)
                    (bindC luaK_getlabel (\<lambda>blockinit.
                     thenC (block ch)
                       (thenC (luaK_patchtohere whileinit)
                         (bindC (getF fs_pc) (\<lambda>pc.
                           (let vt = (if e_t v \<noteq> NO_JUMP then e_t v + (pc - expinit) else e_t v);
                                vf = (if vf \<noteq> NO_JUMP then vf + (pc - expinit) else vf)
                            in thenC (code_again codeexp lineexp)
                              (thenC (check_match TK_END TK_WHILE line)
                                (thenC leaveblock
                                  (thenC (luaK_patchlist vt blockinit) (luaK_patchtohere vf))))))))))))))))))))))))"

definition repeatstat :: "subexpr \<Rightarrow> unit comp \<Rightarrow> int \<Rightarrow> unit comp" where
  "repeatstat sub ch line =
    bindC luaK_getlabel (\<lambda>repeat_init.
    thenC (enterblock True)
      (thenC next_tok
        (thenC (block ch)
          (thenC (check_match TK_UNTIL TK_REPEAT line)
            (bindC (cond sub) (\<lambda>v. thenC (luaK_patchlist (e_f v) repeat_init) leaveblock))))))"

definition exp1 :: "subexpr \<Rightarrow> expkind comp" where
  "exp1 sub = bindC (expr sub) (\<lambda>e. thenC (luaK_exp2nextreg e) (retC (e_k e)))"

definition forbody :: "unit comp \<Rightarrow> int \<Rightarrow> int \<Rightarrow> int \<Rightarrow> bool \<Rightarrow> unit comp" where
  "forbody ch base line nvars isnum =
    thenC (adjustlocalvars nvars)
      (thenC (check TK_DO)
        (thenC (enterblock True)
          (bindC luaK_getlabel (\<lambda>prep.
           thenC (block ch)
             (thenC (luaK_patchtohere (prep - 1))
               (bindC (if isnum then luaK_codeAsBx OP_FORLOOP base NO_JUMP
                       else luaK_codeABC OP_TFORLOOP base 0 (nvars - 3)) (\<lambda>endfor.
                thenC (luaK_fixline line)
                  (bindC (if isnum then retC endfor else luaK_jump) (\<lambda>j.
                   thenC (luaK_patchlist j prep) leaveblock)))))))))"

definition fornum :: "subexpr \<Rightarrow> unit comp \<Rightarrow> string \<Rightarrow> int \<Rightarrow> unit comp" where
  "fornum sub ch varname' line =
    bindC (getF fs_freereg) (\<lambda>base.
    thenC (new_localvar varname' 0)
      (thenC (new_localvar ''(for limit)'' 1)
        (thenC (new_localvar ''(for step)'' 2)
          (thenC (check (tkc CHR ''=''))
            (thenC (exp1 sub)
              (thenC (check (tkc CHR '',''))
                (thenC (exp1 sub)
                  (bindC (testnext (tkc CHR '','')) (\<lambda>b.
                   thenC
                     (if b then thenC (exp1 sub) (retC ())
                      else
                        bindC (getF fs_freereg) (\<lambda>r.
                        bindC (luaK_numberK (num_of_int 1)) (\<lambda>k.
                        thenC (luaK_codeABx OP_LOADK r k) (luaK_reserveregs 1))))
                     (bindC (getF fs_freereg) (\<lambda>r.
                      thenC (luaK_codeABC OP_SUB (r - 3) (r - 3) (r - 1))
                        (thenC luaK_jump (forbody ch base line 3 True)))))))))))))"

fun forvars_loop :: "nat \<Rightarrow> int \<Rightarrow> int comp" where
  "forvars_loop 0 nvars = liftC (Inl NoReturn)"
| "forvars_loop (Suc n) nvars =
    bindC (testnext (tkc CHR '','')) (\<lambda>b.
      if b then bindC str_checkname (\<lambda>name. thenC (new_localvar name nvars) (forvars_loop n (nvars + 1)))
      else retC nvars)"

definition forlist :: "nat \<Rightarrow> subexpr \<Rightarrow> unit comp \<Rightarrow> string \<Rightarrow> unit comp" where
  "forlist n sub ch indexname =
    bindC (getF fs_freereg) (\<lambda>base.
    thenC (new_localvar ''(for generator)'' 0)
      (thenC (new_localvar ''(for state)'' 1)
        (thenC (new_localvar indexname 2)
          (bindC (forvars_loop n 3) (\<lambda>nvars.
           thenC (check TK_IN)
             (bindC (getL linenumber) (\<lambda>line.
              bindC (explist1 n sub) (\<lambda>(nexps, e).
              thenC (adjust_assign nvars nexps e)
                (thenC (luaK_checkstack 3)
                  (thenC (luaK_codeAsBx OP_TFORPREP base NO_JUMP)
                    (forbody ch base line nvars False)))))))))))"

definition forstat :: "nat \<Rightarrow> subexpr \<Rightarrow> unit comp \<Rightarrow> int \<Rightarrow> unit comp" where
  "forstat n sub ch line =
    thenC (enterblock False)
      (thenC next_tok
        (bindC str_checkname (\<lambda>varname.
         bindC curtok (\<lambda>k.
         thenC
           (if k = tkc CHR ''='' then fornum sub ch varname line
            else if k = tkc CHR '','' \<or> k = TK_IN then forlist n sub ch varname
            else syntaxerrorC (''`='' @ [CHR 0x27] @ '' or `in'' @ [CHR 0x27] @ '' expected''))
           (thenC (check_match TK_END TK_FOR line) leaveblock)))))"

definition test_then_block :: "subexpr \<Rightarrow> unit comp \<Rightarrow> expdesc comp" where
  "test_then_block sub ch =
    thenC next_tok (bindC (cond sub) (\<lambda>v. thenC (check TK_THEN) (thenC (block ch) (retC v))))"

fun elseif_loop :: "nat \<Rightarrow> subexpr \<Rightarrow> unit comp \<Rightarrow> int \<Rightarrow> expdesc \<Rightarrow> (int \<times> expdesc) comp" where
  "elseif_loop 0 sub ch escapelist v = liftC (Inl NoReturn)"
| "elseif_loop (Suc n) sub ch escapelist v =
    bindC curtok (\<lambda>k.
      if k = TK_ELSEIF then
        bindC luaK_jump (\<lambda>j.
        bindC (luaK_concat escapelist j) (\<lambda>escapelist.
        thenC (luaK_patchtohere (e_f v))
          (bindC (test_then_block sub ch) (elseif_loop n sub ch escapelist))))
      else retC (escapelist, v))"

definition ifstat :: "nat \<Rightarrow> subexpr \<Rightarrow> unit comp \<Rightarrow> int \<Rightarrow> unit comp" where
  "ifstat n sub ch line =
    bindC (test_then_block sub ch) (\<lambda>v.
    bindC (elseif_loop n sub ch NO_JUMP v) (\<lambda>(escapelist, v).
    bindC curtok (\<lambda>k.
    bindC
      (if k = TK_ELSE then
         bindC luaK_jump (\<lambda>j.
         bindC (luaK_concat escapelist j) (\<lambda>escapelist.
         thenC (luaK_patchtohere (e_f v)) (thenC next_tok (thenC (block ch) (retC escapelist)))))
       else luaK_concat escapelist (e_f v)) (\<lambda>escapelist.
    thenC (luaK_patchtohere escapelist) (check_match TK_END TK_IF line)))))"

definition localfunc :: "nat \<Rightarrow> unit comp \<Rightarrow> unit comp" where
  "localfunc n ch =
    bindC str_checkname (\<lambda>name.
    thenC (new_localvar name 0)
      (bindC (getF fs_freereg) (\<lambda>r.
       thenC (luaK_reserveregs 1)
         (thenC (adjustlocalvars 1)
           (bindC (getL linenumber) (\<lambda>line.
            bindC (body n ch False line) (\<lambda>b.
            thenC (luaK_storevar (init_exp VLOCAL r) b)
              (bindC (getF id) (\<lambda>fs. mod_locvar (fs_nactvar fs - 1) (\<lambda>v. v\<lparr>startpc := fs_pc fs\<rparr>))))))))))"

fun localvars_loop :: "nat \<Rightarrow> int \<Rightarrow> int comp" where
  "localvars_loop 0 nvars = liftC (Inl NoReturn)"
| "localvars_loop (Suc n) nvars =
    bindC str_checkname (\<lambda>name.
    thenC (new_localvar name nvars)
      (bindC (testnext (tkc CHR '','')) (\<lambda>b. if b then localvars_loop n (nvars + 1) else retC (nvars + 1))))"

definition localstat :: "nat \<Rightarrow> subexpr \<Rightarrow> unit comp" where
  "localstat n sub =
    bindC (localvars_loop n 0) (\<lambda>nvars.
    bindC (testnext (tkc CHR ''='')) (\<lambda>b.
    bindC (if b then explist1 n sub else retC (0, init_exp VVOID 0)) (\<lambda>(nexps, e).
    thenC (adjust_assign nvars nexps e) (adjustlocalvars nvars))))"

fun fields_loop :: "nat \<Rightarrow> expdesc \<Rightarrow> expdesc comp" where
  "fields_loop 0 v = liftC (Inl NoReturn)"
| "fields_loop (Suc n) v =
    bindC curtok (\<lambda>k. if k = tkc CHR ''.'' then bindC (luaY_field v) (fields_loop n) else retC v)"

definition funcname :: "nat \<Rightarrow> (bool \<times> expdesc) comp" where
  "funcname n =
    bindC singlevar (\<lambda>v.
    bindC (fields_loop n v) (\<lambda>v.
    bindC curtok (\<lambda>k.
      if k = tkc CHR '':'' then bindC (luaY_field v) (\<lambda>v. retC (True, v)) else retC (False, v))))"

definition funcstat :: "nat \<Rightarrow> unit comp \<Rightarrow> int \<Rightarrow> unit comp" where
  "funcstat n ch line =
    thenC next_tok
      (bindC (funcname n) (\<lambda>(needself, v).
       bindC (body n ch needself line) (\<lambda>b. thenC (luaK_storevar v b) (luaK_fixline line))))"

definition exprstat :: "nat \<Rightarrow> subexpr \<Rightarrow> unit comp" where
  "exprstat n sub =
    bindC (primaryexp n sub) (\<lambda>v.
      if e_k v = VCALL then thenC (luaK_setcallreturns v 0) (retC ())
      else thenC (assignment n sub [v] 1) (retC ()))"

definition retstat :: "nat \<Rightarrow> subexpr \<Rightarrow> unit comp" where
  "retstat n sub =
    thenC next_tok
      (bindC curtok (\<lambda>k.
       bindC
         (if block_follow k \<or> k = tkc CHR '';'' then retC (0, 0)
          else
            bindC (explist1 n sub) (\<lambda>(nret, e).
              if e_k e = VCALL then
                bindC (luaK_setcallreturns e LUA_MULTRET) (\<lambda>e.
                thenC (if nret = 1 then patch (e_info e) (\<lambda>w. SET_OPCODE w (op_num OP_TAILCALL)) else retC ())
                  (bindC (getF fs_nactvar) (\<lambda>first. retC (first, LUA_MULTRET))))
              else if nret = 1 then bindC (luaK_exp2anyreg e) (\<lambda>e. retC (e_info e, nret))
              else thenC (luaK_exp2nextreg e) (bindC (getF fs_nactvar) (\<lambda>first. retC (first, nret)))))
         (\<lambda>(first, nret). thenC (luaK_codeABC OP_RETURN first (nret + 1) 0) (retC ()))))"

text \<open>The innermost loop among the blocks, and whether an upvalue was declared inside of it.\<close>

fun find_loop_block :: "BlockCnt list \<Rightarrow> bool \<Rightarrow> nat \<Rightarrow> (nat \<times> bool) option" where
  "find_loop_block [] u i = None"
| "find_loop_block (bl # bls) u i =
    (if isbreakable bl then Some (i, u) else find_loop_block bls (u \<or> bl_upval bl) (Suc i))"

definition breakstat :: "unit comp" where
  "breakstat =
    bindC (getF fs_bl) (\<lambda>bls.
    thenC next_tok
      (case find_loop_block bls False 0 of
         None \<Rightarrow> syntaxerrorC ''no loop to break''
       | Some (i, upval) \<Rightarrow>
           thenC (if upval then thenC (luaK_codeABC OP_CLOSE (bl_nactvar (bls ! i)) 0 0) (retC ()) else retC ())
             (bindC luaK_jump (\<lambda>j.
              bindC (luaK_concat (breaklist (bls ! i)) j) (\<lambda>l.
                modF (\<lambda>fs. fs\<lparr>fs_bl := (fs_bl fs)[i := (fs_bl fs ! i)\<lparr>breaklist := l\<rparr>]\<rparr>))))))"

text \<open>The result is whether the statement must be the last one.\<close>

definition statement :: "nat \<Rightarrow> subexpr \<Rightarrow> unit comp \<Rightarrow> bool comp" where
  "statement n sub ch =
    bindC (getL linenumber) (\<lambda>line.
    bindC curtok (\<lambda>k.
      if k = TK_IF then thenC (ifstat n sub ch line) (retC False)
      else if k = TK_WHILE then thenC (whilestat n sub ch line) (retC False)
      else if k = TK_DO then
        thenC next_tok (thenC (block ch) (thenC (check_match TK_END TK_DO line) (retC False)))
      else if k = TK_FOR then thenC (forstat n sub ch line) (retC False)
      else if k = TK_REPEAT then thenC (repeatstat sub ch line) (retC False)
      else if k = TK_FUNCTION then thenC (funcstat n ch line) (retC False)
      else if k = TK_LOCAL then
        thenC next_tok
          (bindC (testnext TK_FUNCTION) (\<lambda>b.
           thenC (if b then localfunc n ch else localstat n sub) (retC False)))
      else if k = TK_RETURN then thenC (retstat n sub) (retC True)
      else if k = TK_BREAK then thenC breakstat (retC True)
      else thenC (exprstat n sub) (retC False)))"

fun chunk_loop :: "nat \<Rightarrow> nat \<Rightarrow> subexpr \<Rightarrow> unit comp \<Rightarrow> bool \<Rightarrow> unit comp" where
  "chunk_loop 0 n sub ch islast = liftC (Inl NoReturn)"
| "chunk_loop (Suc m) n sub ch islast =
    bindC curtok (\<lambda>k.
      if \<not> islast \<and> \<not> block_follow k then
        bindC (statement n sub ch) (\<lambda>islast.
        thenC (testnext (tkc CHR '';''))
          (thenC (modF (\<lambda>fs. fs\<lparr>fs_freereg := fs_nactvar fs\<rparr>))
            (chunk_loop m n sub ch islast)))
      else retC ())"

definition chunk :: "nat \<Rightarrow> subexpr \<Rightarrow> unit comp \<Rightarrow> unit comp" where
  "chunk n sub ch = thenC enterlevel (thenC (chunk_loop n n sub ch False) leavelevel)"

section \<open>The parser\<close>

primrec parse_levels :: "nat \<Rightarrow> nat \<Rightarrow> subexpr \<times> unit comp" where
  "parse_levels 0 n = (\<lambda>limit. liftC (Inl NoReturn), liftC (Inl NoReturn))"
| "parse_levels (Suc k) n =
    (case parse_levels k n of (sub, ch) \<Rightarrow> (subexpr n sub ch, chunk n sub ch))"

definition MAX_LEVELS :: nat where "MAX_LEVELS = 201"

text \<open>
  \<open>luaY_parser\<close> on a stream with \<open>name\<close>, for a token buffer of \<open>buffsize\<close> bytes; \<open>a\<close> is where the first
  constant table is allocated.
\<close>

definition luaY_parser :: "ZIO \<Rightarrow> string \<Rightarrow> nat \<Rightarrow> addr \<Rightarrow> Proto res" where
  "luaY_parser z name buffsize a =
    (let n = Suc (Suc (unread z));
         ls = \<lparr>current = EOZ, linenumber = 0, lastline = 0, tok = \<lparr>token = TK_EOS, seminfo = SemNone\<rparr>,
               lookahead = \<lparr>token = TK_EOS, seminfo = SemNone\<rparr>, lex_z = z, lex_buff = [],
               lex_buffsize = buffsize, lex_source = name, nestlevel = 0\<rparr>
     in bindR (luaX_setinput ls z name) (\<lambda>ls.
        bindR (new_func ls a) (\<lambda>fs.
        bindR
          (thenC next_tok
             (thenC (snd (parse_levels MAX_LEVELS n))
               (bindC curtok (\<lambda>k.
                thenC (check_condition (k = TK_EOS) ''<eof> expected'') close_func)))
             \<lparr>c_ls = ls, c_fs = fs, c_prev = []\<rparr>) (\<lambda>(f, s). Inr f))))"

end
