(* ===== verification/JumpLists.thy ===== *)
theory JumpLists
  imports Codegen
begin

text \<open>
  The jump lists of the code generator.  The jumps that wait for the same target are linked through their
  own arguments; \<open>jlist code l ps\<close> says that the list with the head \<open>l\<close> is the sequence \<open>ps\<close> of
  positions.  The operations on lists are operations on these sequences.
\<close>

section \<open>Arguments of a patched instruction\<close>

lemma GETARG_sBx_patched:
  assumes "\<bar>b\<bar> \<le> MAXARG_sBx"
  shows "GETARG_sBx (SETARG_sBx i b) = b"
proof -
  have "uint (word_of_int (b + MAXARG_sBx) :: 32 word) = b + MAXARG_sBx"
    unfolding uint_word_of_int_eq using assms
    by (intro take_bit_int_eq_self) (simp_all add: MAXARG_sBx_def MAXARG_Bx_def instr_simps)
  moreover have "GETARG_Bx (SETARG_Bx i v) = v" if "0 \<le> v" "v < 2 ^ 18" for v
    using that field_get_set [of 6 18 i "word_of_int v"]
    by (simp add: GETARG_Bx_eq SETARG_Bx_def layout_defs word_of_int_take_bit_self)
  ultimately show ?thesis
    using assms by (simp add: GETARG_sBx_def SETARG_sBx_def MAXARG_sBx_def MAXARG_Bx_def layout_defs)
qed

lemma SETARG_sBx_other [simp]: "GET_OPCODE (SETARG_sBx i b) = GET_OPCODE i"
proof -
  have "take_bit 6 (SETARG_Bx i v) = take_bit 6 i" for v
    by (rule bit_word_eqI) (auto simp: SETARG_Bx_def bit_simps layout_defs dest: bit_lt_64)
  then show ?thesis
    by (simp add: GET_OPCODE_eq SETARG_sBx_def)
qed

lemma SETARG_A_other [simp]:
  "GET_OPCODE (SETARG_A i a) = GET_OPCODE i" "GETARG_C (SETARG_A i a) = GETARG_C i"
  "GETARG_sBx (SETARG_A i a) = GETARG_sBx i"
proof -
  have "take_bit 6 (SETARG_A i a) = take_bit 6 i"
    by (rule bit_word_eqI) (auto simp: SETARG_A_def bit_simps layout_defs dest: bit_lt_64)
  then show "GET_OPCODE (SETARG_A i a) = GET_OPCODE i"
    by (simp add: GET_OPCODE_eq)
  show "GETARG_C (SETARG_A i a) = GETARG_C i"
    using field_get_set_other [of 6 9 24 8 i "word_of_int a"] by (simp add: GETARG_C_eq SETARG_A_def layout_defs)
  show "GETARG_sBx (SETARG_A i a) = GETARG_sBx i"
    using field_get_set_other [of 6 18 24 8 i "word_of_int a"]
    by (simp add: GETARG_sBx_def GETARG_Bx_eq SETARG_A_def layout_defs)
qed

section \<open>The code of a state\<close>

abbreviation codeof :: "CompState \<Rightarrow> Instruction list" where
  "codeof s \<equiv> h_code (c_fs s)"

definition with_code :: "CompState \<Rightarrow> Instruction list \<Rightarrow> CompState" where
  "with_code s code = s\<lparr>c_fs := (c_fs s)\<lparr>h_code := code\<rparr>\<rparr>"

lemma with_code_simps [simp]:
  "codeof (with_code s code) = code" "with_code (with_code s c) code = with_code s code"
  "with_code s (codeof s) = s" "c_ls (with_code s code) = c_ls s" "c_prev (with_code s code) = c_prev s"
  "fs_pc (c_fs (with_code s code)) = fs_pc (c_fs s)" "fs_jpc (c_fs (with_code s code)) = fs_jpc (c_fs s)"
  by (simp_all add: with_code_def)

definition in_code :: "CompState \<Rightarrow> int \<Rightarrow> bool" where
  "in_code s i \<longleftrightarrow> 0 \<le> i \<and> i < int (length (codeof s))"

lemma code_at_eq: "in_code s i \<Longrightarrow> instr_at i s = Inr (codeof s ! nat i, s)"
  by (simp add: instr_at_def read_at_def in_code_def)

lemma patch_eq: "in_code s i \<Longrightarrow> patch i f s = Inr ((), with_code s ((codeof s)[nat i := f (codeof s ! nat i)]))"
  by (simp add: patch_def code_at_eq with_code_def)

lemma fixjump_eq:
  assumes "in_code s p" "\<bar>d - (p + 1)\<bar> \<le> MAXARG_sBx"
  shows "luaK_fixjump p d s =
    Inr ((), with_code s ((codeof s)[nat p := SETARG_sBx (codeof s ! nat p) (d - (p + 1))]))"
  using assms by (simp add: luaK_fixjump_def patch_eq)

lemma getjump_eq: "in_code s p \<Longrightarrow> luaK_getjump p s = Inr (jump_dest (codeof s ! nat p) p, s)"
  by (simp add: luaK_getjump_def code_at_eq)

section \<open>Lists\<close>

fun jlist :: "Instruction list \<Rightarrow> int \<Rightarrow> int list \<Rightarrow> bool" where
  "jlist code l [] \<longleftrightarrow> l = NO_JUMP"
| "jlist code l (p # ps) \<longleftrightarrow>
    l = p \<and> 0 \<le> p \<and> p < int (length code) \<and> jlist code (jump_dest (code ! nat p) p) ps"

lemma jlist_positions: "jlist code l ps \<Longrightarrow> p \<in> set ps \<Longrightarrow> 0 \<le> p \<and> p < int (length code)"
  by (induction ps arbitrary: l) auto

lemma nth_patched: "0 \<le> p \<Longrightarrow> 0 \<le> q \<Longrightarrow> q \<noteq> p \<Longrightarrow> code[nat p := w] ! nat q = code ! nat q"
  by (simp add: eq_nat_nat_iff)

lemma jlist_update:
  assumes "0 \<le> p" "p \<notin> set ps"
  shows "jlist (code[nat p := w]) l ps = jlist code l ps"
  using assms(2)
proof (induction ps arbitrary: l)
  case (Cons q ps)
  show ?case
  proof (cases "0 \<le> q")
    case True
    then show ?thesis
      using Cons.prems Cons.IH nth_patched [OF assms(1), of q code w] by simp
  qed simp
qed simp

lemma jlist_cong:
  assumes "length code' = length code"
    "\<And>p. p \<in> set ps \<Longrightarrow> jump_dest (code' ! nat p) p = jump_dest (code ! nat p) p"
  shows "jlist code' l ps = jlist code l ps"
  using assms(2)
proof (induction ps arbitrary: l)
  case (Cons p ps)
  have "jump_dest (code' ! nat p) p = jump_dest (code ! nat p) p"
    using Cons.prems by simp
  moreover have "jlist code' k ps = jlist code k ps" for k
    using Cons.prems by (intro Cons.IH) simp
  ultimately show ?case
    using assms(1) by simp
qed simp

lemma distinct_positions:
  assumes "distinct ps" "\<And>p. p \<in> set ps \<Longrightarrow> 0 \<le> p \<and> p < int n"
  shows "length ps \<le> n"
proof -
  have "nat ` set ps \<subseteq> {..<n}"
    using assms(2) by (fastforce simp: nat_less_iff)
  moreover have "inj_on nat (set ps)"
    using assms(2) by (auto intro!: inj_onI simp: eq_nat_nat_iff)
  then have "card (nat ` set ps) = length ps"
    using assms(1) by (simp add: card_image distinct_card)
  ultimately show ?thesis
    using card_mono [of "{..<n}" "nat ` set ps"] by simp
qed

lemma list_fuel_eq: "list_fuel s = Inr (Suc (length (codeof s)), s)"
  by (simp add: list_fuel_def)

text \<open>A jump that is not to itself is linked.\<close>

lemma jump_dest_patched:
  "\<bar>d - (p + 1)\<bar> \<le> MAXARG_sBx \<Longrightarrow> d \<noteq> p \<Longrightarrow> jump_dest (SETARG_sBx w (d - (p + 1))) p = d"
  by (simp add: jump_dest_def GETARG_sBx_patched NO_JUMP_def)

lemma last_jump_eq:
  "jlist (codeof s) l (ps @ [p]) \<Longrightarrow> length ps < fuel \<Longrightarrow> last_jump fuel l s = Inr (p, s)"
proof (induction ps arbitrary: l fuel)
  case Nil
  then obtain k where "fuel = Suc k"
    by (cases fuel) auto
  with Nil show ?case
    by (simp add: getjump_eq in_code_def)
next
  case (Cons q ps)
  then obtain k where k: "fuel = Suc k"
    by (cases fuel) auto
  have "jlist (codeof s) (jump_dest (codeof s ! nat q) q) (ps @ [p])" "in_code s q" "l = q"
    using Cons.prems by (auto simp: in_code_def)
  moreover from this have "jump_dest (codeof s ! nat q) q \<noteq> NO_JUMP"
    by (cases ps) (auto simp: NO_JUMP_def)
  ultimately show ?case
    using Cons.IH [of _ k] Cons.prems(2) by (simp add: k getjump_eq)
qed

lemma jlist_append:
  "jlist code l (ps @ [p]) \<Longrightarrow> jlist code' l (ps @ [p] @ qs)"
  if "length code' = length code" "\<And>q. q \<in> set ps \<Longrightarrow> code' ! nat q = code ! nat q"
    "jlist code' (jump_dest (code' ! nat p) p) qs"
  using that by (induction ps arbitrary: l) auto

definition only_changed :: "int set \<Rightarrow> Instruction list \<Rightarrow> Instruction list \<Rightarrow> bool" where
  "only_changed P code code' \<longleftrightarrow>
    length code' = length code \<and> (\<forall>i. int i \<notin> P \<longrightarrow> code' ! i = code ! i) \<and>
    (\<forall>i < length code. GET_OPCODE (code' ! i) = GET_OPCODE (code ! i))"

lemma only_changed_jlist:
  assumes "only_changed P code code'" "set rs \<inter> P = {}" "jlist code l rs"
  shows "jlist code' l rs"
proof -
  have "code' ! nat p = code ! nat p" if "p \<in> set rs" for p
  proof -
    have "0 \<le> p" "int (nat p) \<notin> P"
      using that assms(2) jlist_positions [OF assms(3) that] by auto
    then show ?thesis
      using assms(1) by (simp add: only_changed_def)
  qed
  then have "jlist code' l rs = jlist code l rs"
    using assms(1) by (intro jlist_cong) (simp_all add: only_changed_def)
  with assms(3) show ?thesis
    by simp
qed

lemma concat_lists:
  assumes "jlist (codeof s) l1 ps" "jlist (codeof s) l2 qs" "distinct (ps @ qs)"
    "int (length (codeof s)) \<le> MAXARG_sBx"
  shows "\<exists>l code. luaK_concat l1 l2 s = Inr (l, with_code s code) \<and> jlist code l (ps @ qs) \<and>
    only_changed (set ps) (codeof s) code"
proof (cases "ps = [] \<or> qs = []")
  case True
  then show ?thesis
    using assms(1,2)
    by (intro exI [of _ "if qs = [] then l1 else l2"] exI [of _ "codeof s"])
      (cases ps; cases qs; auto simp: luaK_concat_def only_changed_def NO_JUMP_def)
next
  case False
  then obtain ps' p q qs' where s: "ps = ps' @ [p]" "qs = q # qs'"
    by (metis rev_exhaust neq_Nil_conv)
  have pq: "0 \<le> p" "p < int (length (codeof s))" "0 \<le> q" "q < int (length (codeof s))" "q \<noteq> p" "l2 = q"
    using assms(1-3) jlist_positions [OF assms(1)] by (auto simp: s)
  have heads: "l1 \<noteq> NO_JUMP" "l2 \<noteq> NO_JUMP"
    using assms(1,2) by (cases ps'; auto simp: s NO_JUMP_def)+
  have "length ps \<le> length (codeof s)"
    using assms(3) jlist_positions [OF assms(1)] by (intro distinct_positions) auto
  then have last: "last_jump (Suc (length (codeof s))) l1 s = Inr (p, s)"
    using assms(1) by (intro last_jump_eq) (auto simp: s)
  have off: "\<bar>q - (p + 1)\<bar> \<le> MAXARG_sBx"
    using pq assms(4) by linarith
  let ?code = "(codeof s)[nat p := SETARG_sBx (codeof s ! nat p) (q - (p + 1))]"
  have "luaK_concat l1 l2 s = Inr (l1, with_code s ?code)"
    using heads last pq off by (simp add: luaK_concat_def list_fuel_eq fixjump_eq in_code_def)
  moreover have "jlist ?code l1 (ps' @ [p] @ qs)"
  proof (rule jlist_append)
    have "?code ! nat p = SETARG_sBx (codeof s ! nat p) (q - (p + 1))"
      using pq by simp
    then show "jlist ?code (jump_dest (?code ! nat p) p) qs"
      using pq assms(2,3) jump_dest_patched [OF off pq(5)] jlist_update [of p qs] by (simp add: s del: jlist.simps)
    fix r
    assume "r \<in> set ps'"
    then have "0 \<le> r" "r \<noteq> p"
      using jlist_positions [OF assms(1), of r] assms(3) by (auto simp: s)
    then show "?code ! nat r = codeof s ! nat r"
      by (rule nth_patched [OF pq(1)])
  qed (use assms(1) in \<open>simp_all add: s\<close>)
  moreover have "only_changed (set ps) (codeof s) ?code"
    using pq by (auto simp: only_changed_def s nth_list_update nat_less_iff)
  ultimately show ?thesis
    by (auto simp: s)
qed

section \<open>Targets\<close>

text \<open>Where a jump goes when it is executed.\<close>

definition target :: "Instruction list \<Rightarrow> int \<Rightarrow> int" where
  "target code p = p + 1 + GETARG_sBx (code ! nat p)"

text \<open>The jumps of a list, and the instructions that control them, are as the generator makes them.\<close>

definition jumps :: "Instruction list \<Rightarrow> int set \<Rightarrow> bool" where
  "jumps code P \<longleftrightarrow> (\<forall>p \<in> P. 0 \<le> p \<and> p < int (length code) \<and> GET_OPCODE (code ! nat p) = op_num OP_JMP) \<and>
    (\<forall>i < length code. GET_OPCODE (code ! i) < NUM_OPCODES)"

definition control :: "Instruction list \<Rightarrow> int \<Rightarrow> int" where
  "control code p =
    (if 1 \<le> p \<and> testOpMode (GET_OPCODE (code ! nat (p - 1))) OpModeT = Some True then p - 1 else p)"

lemma getjumpcontrol_eq:
  assumes "in_code s p" "\<forall>i < length (codeof s). GET_OPCODE (codeof s ! i) < NUM_OPCODES"
  shows "getjumpcontrol p s = Inr (control (codeof s) p, s)" "in_code s (control (codeof s) p)"
proof -
  have "length luaP_opmodes = NUM_OPCODES"
    by (simp add: luaP_opmodes_def NUM_OPCODES_eq)
  then have "\<exists>b. testOpMode (GET_OPCODE (codeof s ! i)) OpModeT = Some b" if "i < length (codeof s)" for i
    using assms(2) that by (simp add: testOpMode_def)
  then have "1 \<le> p \<Longrightarrow> \<exists>b. testOpMode (GET_OPCODE (codeof s ! nat (p - 1))) OpModeT = Some b"
    using assms(1) by (simp add: in_code_def)
  then show "getjumpcontrol p s = Inr (control (codeof s) p, s)"
    using assms(1) by (cases "1 \<le> p") (auto simp: getjumpcontrol_def code_at_eq in_code_def control_def)
qed (use assms(1) in \<open>auto simp: in_code_def control_def\<close>)

text \<open>A control instruction is a test, so it is no jump itself.\<close>

lemma jump_no_test: "testOpMode (op_num OP_JMP) OpModeT = Some False"
  by code_simp

lemma control_not_jump:
  "jumps code P \<Longrightarrow> p \<in> P \<Longrightarrow> control code p \<noteq> p \<Longrightarrow> control code p \<notin> P"
  using jump_no_test by (auto simp: control_def jumps_def split: if_splits)

lemma JMP_no_TEST: "op_num OP_JMP \<noteq> op_num OP_TEST"
  by simp

text \<open>Two instructions that differ in their register \<open>A\<close> only, as far as jumps are concerned.\<close>

definition similar :: "Instruction \<Rightarrow> Instruction \<Rightarrow> bool" where
  "similar w w' \<longleftrightarrow> GET_OPCODE w' = GET_OPCODE w \<and> GETARG_C w' = GETARG_C w \<and> GETARG_sBx w' = GETARG_sBx w"

lemma similar_refl [simp]: "similar w w"
  by (simp add: similar_def)

lemma similar_trans: "similar u v \<Longrightarrow> similar v w \<Longrightarrow> similar u w"
  by (simp add: similar_def)

lemma similar_SETARG_A [simp]: "similar w (SETARG_A w a)"
  by (simp add: similar_def)

definition similar_but :: "int set \<Rightarrow> Instruction list \<Rightarrow> Instruction list \<Rightarrow> bool" where
  "similar_but P code code' \<longleftrightarrow> length code' = length code \<and>
    (\<forall>i < length code. GET_OPCODE (code' ! i) = GET_OPCODE (code ! i)) \<and>
    (\<forall>i < length code. int i \<notin> P \<longrightarrow> similar (code ! i) (code' ! i))"

lemma only_changed_similar: "only_changed P code code' \<Longrightarrow> similar_but P code code'"
  by (auto simp: only_changed_def similar_but_def)

lemma similar_but_trans:
  "similar_but P c1 c2 \<Longrightarrow> similar_but Q c2 c3 \<Longrightarrow> similar_but (P \<union> Q) c1 c3"
  by (auto simp: similar_but_def intro: similar_trans)

lemma similar_but_at:
  "similar_but P code code' \<Longrightarrow> 0 \<le> p \<Longrightarrow> p < int (length code) \<Longrightarrow> p \<notin> P \<Longrightarrow> similar (code ! nat p) (code' ! nat p)"
  by (auto simp: similar_but_def)

lemma similar_but_jlist:
  assumes "similar_but P code code'" "set rs \<inter> P = {}" "jlist code l rs"
  shows "jlist code' l rs"
proof -
  have "jump_dest (code' ! nat p) p = jump_dest (code ! nat p) p" if "p \<in> set rs" for p
  proof -
    have "p \<notin> P"
      using that assms(2) by auto
    then show ?thesis
      using similar_but_at [OF assms(1), of p] jlist_positions [OF assms(3) that]
      by (simp add: similar_def jump_dest_def)
  qed
  then have "jlist code' l rs = jlist code l rs"
    using assms(1) by (intro jlist_cong) (simp_all add: similar_but_def)
  with assms(3) show ?thesis
    by simp
qed

lemma similar_but_target:
  "similar_but P code code' \<Longrightarrow> 0 \<le> p \<Longrightarrow> p < int (length code) \<Longrightarrow> p \<notin> P \<Longrightarrow> target code' p = target code p"
  using similar_but_at [of P code code' p] by (simp add: target_def similar_def)

lemma similar_but_control:
  "similar_but P code code' \<Longrightarrow> p < int (length code) \<Longrightarrow> control code' p = control code p"
  by (auto simp: control_def similar_but_def)

lemma similar_but_jumps: "similar_but P code code' \<Longrightarrow> jumps code Q \<Longrightarrow> jumps code' Q"
  by (auto simp: jumps_def similar_but_def)

text \<open>The target that \<open>luaK_patchlistaux\<close> gives to a jump.\<close>

definition new_target :: "Instruction list \<Rightarrow> int \<Rightarrow> int \<Rightarrow> int \<Rightarrow> int \<Rightarrow> int" where
  "new_target code ttarget ftarget dtarget p =
    (let w = code ! nat (control code p)
     in if GET_OPCODE w \<noteq> op_num OP_TEST then dtarget else if GETARG_C w \<noteq> 0 then ttarget else ftarget)"

lemma similar_but_new_target:
  assumes "similar_but {p} code code'" "jumps code {p, q}" "q \<noteq> p"
  shows "new_target code' tt ft dt q = new_target code tt ft dt q"
proof -
  have q: "0 \<le> q" "q < int (length code)"
    using assms(2) by (auto simp: jumps_def)
  have "control code q \<noteq> p"
    using control_not_jump [OF assms(2), of q] assms(3) by auto
  moreover have "0 \<le> control code q" "control code q < int (length code)"
    using q by (auto simp: control_def)
  ultimately have "similar (code ! nat (control code q)) (code' ! nat (control code q))"
    using similar_but_at [OF assms(1), of "control code q"] by simp
  then show ?thesis
    using similar_but_control [OF assms(1) q(2)] by (simp add: new_target_def similar_def)
qed

lemma similar_but_patch_A:
  "in_code s c \<Longrightarrow> similar_but {} (codeof s) ((codeof s)[nat c := SETARG_A (codeof s ! nat c) a])"
  by (auto simp: similar_but_def nth_list_update in_code_def nat_less_iff)

lemma similar_but_patch_sBx:
  "in_code s p \<Longrightarrow> similar_but {p} (codeof s) ((codeof s)[nat p := SETARG_sBx (codeof s ! nat p) b])"
  by (auto simp: similar_but_def nth_list_update in_code_def nat_less_iff)

lemma fix_target:
  assumes "in_code s p" "- 1 \<le> d" "d \<le> int (length (codeof s))" "int (length (codeof s)) < MAXARG_sBx"
  shows "\<exists>code. luaK_fixjump p d s = Inr ((), with_code s code) \<and> target code p = d \<and>
    similar_but {p} (codeof s) code"
proof -
  have off: "\<bar>d - (p + 1)\<bar> \<le> MAXARG_sBx"
    using assms by (auto simp: in_code_def)
  let ?code = "(codeof s)[nat p := SETARG_sBx (codeof s ! nat p) (d - (p + 1))]"
  have "target ?code p = d"
    using assms(1) GETARG_sBx_patched [OF off] by (simp add: target_def in_code_def nat_less_iff)
  then show ?thesis
    using fixjump_eq [OF assms(1) off] similar_but_patch_sBx [OF assms(1)] by blast
qed

lemma test_then_fix:
  assumes "in_code s c" "in_code s p" "- 1 \<le> d" "d \<le> int (length (codeof s))" "int (length (codeof s)) < MAXARG_sBx"
  shows "\<exists>code. thenC (patchtestreg c reg) (luaK_fixjump p d) s = Inr ((), with_code s code) \<and> target code p = d \<and>
    similar_but {p} (codeof s) code"
proof -
  obtain a where a: "patchtestreg c reg s = Inr ((), with_code s ((codeof s)[nat c := SETARG_A (codeof s ! nat c) a]))"
    using patch_eq [OF assms(1)] by (auto simp: patchtestreg_def)
  let ?s = "with_code s ((codeof s)[nat c := SETARG_A (codeof s ! nat c) a])"
  obtain code where "luaK_fixjump p d ?s = Inr ((), with_code ?s code)" "target code p = d"
    "similar_but {p} (codeof ?s) code"
    using fix_target [of ?s p d] assms by (auto simp: in_code_def)
  moreover from this have "similar_but {p} (codeof s) code"
    using similar_but_trans [OF similar_but_patch_A [OF assms(1), of a]] by force
  ultimately show ?thesis
    using a by auto
qed

lemma patchlist_loop_ok:
  "jlist (codeof s) l ps \<Longrightarrow> distinct ps \<Longrightarrow> jumps (codeof s) (set ps) \<Longrightarrow> length ps < fuel \<Longrightarrow>
   int (length (codeof s)) < MAXARG_sBx \<Longrightarrow> {tt, ft, dt} \<subseteq> {-1..int (length (codeof s))} \<Longrightarrow>
   \<exists>code. patchlist_loop fuel l tt tr ft fr dt s = Inr ((), with_code s code) \<and>
     (\<forall>p \<in> set ps. target code p = new_target (codeof s) tt ft dt p) \<and> similar_but (set ps) (codeof s) code"
proof (induction ps arbitrary: s l fuel)
  case Nil
  then obtain k where "fuel = Suc k"
    by (cases fuel) auto
  with Nil show ?case
    by (intro exI [of _ "codeof s"]) (simp add: similar_but_def)
next
  case (Cons p ps)
  then obtain k where k: "fuel = Suc k" "length ps < k"
    by (cases fuel) auto
  have p: "in_code s p" "l = p" "p \<noteq> NO_JUMP"
    using Cons.prems(1) by (auto simp: in_code_def NO_JUMP_def)
  have ops: "\<forall>i < length (codeof s). GET_OPCODE (codeof s ! i) < NUM_OPCODES"
    using Cons.prems(3) by (simp add: jumps_def)
  note c = getjumpcontrol_eq [OF p(1) ops]
  let ?c = "control (codeof s) p" and ?d = "new_target (codeof s) tt ft dt p"
  have d: "- 1 \<le> ?d" "?d \<le> int (length (codeof s))"
    using Cons.prems(6) by (auto simp: new_target_def Let_def)
  obtain code where code: "(if GET_OPCODE (codeof s ! nat ?c) \<noteq> op_num OP_TEST then luaK_fixjump p dt
          else if GETARG_C (codeof s ! nat ?c) \<noteq> 0 then thenC (patchtestreg ?c tr) (luaK_fixjump p tt)
          else thenC (patchtestreg ?c fr) (luaK_fixjump p ft)) s = Inr ((), with_code s code)"
    "target code p = ?d" "similar_but {p} (codeof s) code"
  proof (cases "GET_OPCODE (codeof s ! nat ?c) \<noteq> op_num OP_TEST")
    case True
    then show ?thesis
      using fix_target [OF p(1) d Cons.prems(5)] that by (auto simp: new_target_def)
  next
    case test: False
    show ?thesis
    proof (cases "GETARG_C (codeof s ! nat ?c) = 0")
      case True
      then show ?thesis
        using test test_then_fix [OF c(2) p(1) d Cons.prems(5), of fr] that by (auto simp: new_target_def)
    next
      case False
      then show ?thesis
        using test test_then_fix [OF c(2) p(1) d Cons.prems(5), of tr] that by (auto simp: new_target_def)
    qed
  qed
  have rest: "jlist code (jump_dest (codeof s ! nat p) p) ps"
    using similar_but_jlist [OF code(3), of ps] Cons.prems(1,2) by simp
  have js: "jumps code (set ps)"
    using similar_but_jumps [OF code(3), of "set ps"] Cons.prems(3) by (auto simp: jumps_def)
  have len: "length code = length (codeof s)"
    using code(3) by (simp add: similar_but_def)
  obtain code' where code': "patchlist_loop k (jump_dest (codeof s ! nat p) p) tt tr ft fr dt (with_code s code) =
      Inr ((), with_code s code')"
    "\<forall>q \<in> set ps. target code' q = new_target code tt ft dt q" "similar_but (set ps) code code'"
    using Cons.IH [of "with_code s code" _ k] rest js k(2) Cons.prems len by auto
  have "target code' p = ?d"
    using similar_but_target [OF code'(3), of p] p(1) Cons.prems(2) code(2) len by (simp add: in_code_def)
  moreover have "target code' q = new_target (codeof s) tt ft dt q" if "q \<in> set ps" for q
  proof -
    have "new_target code tt ft dt q = new_target (codeof s) tt ft dt q"
      using that Cons.prems(2,3) by (intro similar_but_new_target [OF code(3)]) (auto simp: jumps_def)
    with code'(2) that show ?thesis
      by simp
  qed
  moreover have "similar_but (set (p # ps)) (codeof s) code'"
    using similar_but_trans [OF code(3) code'(3)] by simp
  moreover have "patchlist_loop fuel l tt tr ft fr dt s = Inr ((), with_code s code')"
    using p code(1) code'(1) by (simp add: k(1) getjump_eq c(1) code_at_eq [OF c(2)])
  ultimately show ?case
    by auto
qed

lemma patchlistaux_ok:
  assumes "jlist (codeof s) l ps" "distinct ps" "jumps (codeof s) (set ps)"
    "int (length (codeof s)) < MAXARG_sBx" "{tt, ft, dt} \<subseteq> {-1..int (length (codeof s))}"
  shows "\<exists>code. luaK_patchlistaux l tt tr ft fr dt s = Inr ((), with_code s code) \<and>
     (\<forall>p \<in> set ps. target code p = new_target (codeof s) tt ft dt p) \<and> similar_but (set ps) (codeof s) code"
proof -
  have "length ps \<le> length (codeof s)"
    using assms(2) jlist_positions [OF assms(1)] by (intro distinct_positions) auto
  then show ?thesis
    using patchlist_loop_ok [OF assms(1-3) _ assms(4,5), of "Suc (length (codeof s))" tr fr]
    by (simp add: luaK_patchlistaux_def list_fuel_eq)
qed

section \<open>The exact effect of patching to one target\<close>

text \<open>
  What \<open>luaK_patchlistaux\<close> makes of the instruction at \<open>i\<close> when all targets are \<open>t\<close> and no register is
  given: a jump of the list gets the offset; an \<open>OP_TEST\<close> in front of one gets its argument \<open>B\<close> for
  register \<open>A\<close>; everything else stays as it is.
\<close>

definition patched :: "int \<Rightarrow> int set \<Rightarrow> Instruction list \<Rightarrow> int \<Rightarrow> Instruction" where
  "patched t P code i =
    (let w = code ! nat i
     in if i \<in> P then SETARG_sBx w (t - (i + 1))
        else if GET_OPCODE w = op_num OP_TEST \<and> i + 1 \<in> P then SETARG_A w (GETARG_B w)
        else w)"

definition is_patched :: "int \<Rightarrow> int set \<Rightarrow> Instruction list \<Rightarrow> Instruction list \<Rightarrow> bool" where
  "is_patched t P code code' \<longleftrightarrow>
    length code' = length code \<and> (\<forall>i < length code. code' ! i = patched t P code (int i))"

lemma patched_opcode [simp]: "GET_OPCODE (patched t P code i) = GET_OPCODE (code ! nat i)"
  by (simp add: patched_def Let_def)

lemma is_patched_similar: "is_patched t P code code' \<Longrightarrow> similar_but P code code'"
  by (auto simp: is_patched_def similar_but_def patched_def Let_def)

lemma patched_jump:
  assumes "jumps code Q" "i \<in> Q" "i \<notin> P"
  shows "patched t P code i = code ! nat i"
proof -
  have "GET_OPCODE (code ! nat i) = op_num OP_JMP"
    using assms(1,2) by (simp add: jumps_def)
  then have "GET_OPCODE (code ! nat i) \<noteq> op_num OP_TEST"
    using JMP_no_TEST by presburger
  with assms(3) show ?thesis
    by (simp add: patched_def)
qed

lemma is_patched_insert:
  assumes "is_patched t {p} c c1" "is_patched t Q c1 c2" "p \<notin> Q" "jumps c (insert p Q)"
  shows "is_patched t (insert p Q) c c2"
proof -
  have len: "length c1 = length c" "length c2 = length c"
    using assms(1,2) by (simp_all add: is_patched_def)
  have "c2 ! i = patched t (insert p Q) c (int i)" if i: "i < length c" for i
  proof -
    have c1: "c1 ! i = patched t {p} c (int i)" and c2: "c2 ! i = patched t Q c1 (int i)"
      using assms(1,2) i len by (simp_all add: is_patched_def)
    consider "int i \<in> Q" | "int i = p" | "int i \<notin> Q" "int i \<noteq> p"
      by blast
    then show ?thesis
    proof cases
      case 1
      then have "c1 ! i = c ! i"
        using patched_jump [OF assms(4), of "int i" "{p}" t] assms(3) c1 by auto
      with 1 c2 show ?thesis
        by (simp add: patched_def)
    next
      case 2
      then have "GET_OPCODE (c1 ! i) = op_num OP_JMP"
        using assms(4) c1 by (auto simp: jumps_def)
      then have "c2 ! i = c1 ! i"
        using 2 assms(3) c2 JMP_no_TEST by (auto simp: patched_def Let_def)
      with 2 c1 show ?thesis
        by (simp add: patched_def)
    next
      case 3
      then show ?thesis
        using c1 c2 assms(3) by (auto simp: patched_def Let_def)
    qed
  qed
  with len show ?thesis
    by (simp add: is_patched_def)
qed

lemma TEST_is_test: "testOpMode (op_num OP_TEST) OpModeT = Some True"
  by code_simp

lemma patch_step:
  assumes "in_code s p" "jumps (codeof s) {p}" "\<bar>t - (p + 1)\<bar> \<le> MAXARG_sBx"
  shows "\<exists>code. (if GET_OPCODE (codeof s ! nat (control (codeof s) p)) \<noteq> op_num OP_TEST then luaK_fixjump p t
      else thenC (patchtestreg (control (codeof s) p) NO_REG) (luaK_fixjump p t)) s = Inr ((), with_code s code) \<and>
    is_patched t {p} (codeof s) code"
proof -
  let ?c = "codeof s" and ?q = "control (codeof s) p"
  have jmp: "GET_OPCODE (?c ! nat p) = op_num OP_JMP" and p: "0 \<le> p" "p < int (length ?c)"
    using assms(1,2) by (auto simp: jumps_def in_code_def)
  show ?thesis
  proof (cases "GET_OPCODE (?c ! nat ?q) = op_num OP_TEST")
    case True
    with jmp JMP_no_TEST have q: "?q = p - 1" "1 \<le> p"
      by (auto simp: control_def split: if_splits)
    let ?c1 = "?c[nat (p - 1) := SETARG_A (?c ! nat (p - 1)) (GETARG_B (?c ! nat (p - 1)))]"
    have "thenC (patchtestreg ?q NO_REG) (luaK_fixjump p t) s =
        Inr ((), with_code s (?c1[nat p := SETARG_sBx (?c1 ! nat p) (t - (p + 1))]))"
      using q p patch_eq [of s "p - 1"] fixjump_eq [of "with_code s ?c1" p t] assms(3)
      by (simp add: patchtestreg_def in_code_def)
    moreover have "is_patched t {p} ?c (?c1[nat p := SETARG_sBx (?c1 ! nat p) (t - (p + 1))])"
      using True q p by (auto simp: is_patched_def patched_def nth_list_update Let_def nat_diff_distrib nat_add_distrib)
    ultimately show ?thesis
      using True by auto
  next
    case False
    have "GET_OPCODE (?c ! nat (p - 1)) \<noteq> op_num OP_TEST" if "1 \<le> p"
      using False that TEST_is_test by (auto simp: control_def split: if_splits)
    then have "is_patched t {p} ?c (?c[nat p := SETARG_sBx (?c ! nat p) (t - (p + 1))])"
      using p by (auto simp: is_patched_def patched_def nth_list_update Let_def nat_diff_distrib nat_add_distrib)
    then show ?thesis
      using False fixjump_eq [OF assms(1,3)] by auto
  qed
qed

lemma patchlist_loop_exact:
  "jlist (codeof s) l ps \<Longrightarrow> distinct ps \<Longrightarrow> jumps (codeof s) (set ps) \<Longrightarrow> length ps < fuel \<Longrightarrow>
   int (length (codeof s)) < MAXARG_sBx \<Longrightarrow> t \<in> {-1..int (length (codeof s))} \<Longrightarrow>
   \<exists>code. patchlist_loop fuel l t NO_REG t NO_REG t s = Inr ((), with_code s code) \<and>
     is_patched t (set ps) (codeof s) code"
proof (induction ps arbitrary: s l fuel)
  case Nil
  then obtain k where "fuel = Suc k"
    by (cases fuel) auto
  with Nil show ?case
    by (intro exI [of _ "codeof s"]) (simp add: is_patched_def patched_def)
next
  case (Cons p ps)
  then obtain k where k: "fuel = Suc k" "length ps < k"
    by (cases fuel) auto
  have p: "in_code s p" "l = p" "p \<noteq> NO_JUMP" "\<bar>t - (p + 1)\<bar> \<le> MAXARG_sBx"
    using Cons.prems(1,5,6) by (auto simp: in_code_def NO_JUMP_def)
  have "\<forall>i < length (codeof s). GET_OPCODE (codeof s ! i) < NUM_OPCODES" and j: "jumps (codeof s) {p}"
    using Cons.prems(3) by (simp_all add: jumps_def)
  note c = getjumpcontrol_eq [OF p(1) this(1)]
  obtain code where code: "(if GET_OPCODE (codeof s ! nat (control (codeof s) p)) \<noteq> op_num OP_TEST then luaK_fixjump p t
      else thenC (patchtestreg (control (codeof s) p) NO_REG) (luaK_fixjump p t)) s = Inr ((), with_code s code)"
    "is_patched t {p} (codeof s) code"
    using patch_step [OF p(1) j p(4)] by blast
  note sim = is_patched_similar [OF code(2)]
  have len: "length code = length (codeof s)"
    using code(2) by (simp add: is_patched_def)
  have rest: "jlist code (jump_dest (codeof s ! nat p) p) ps"
    using similar_but_jlist [OF sim, of ps] Cons.prems(1,2) by simp
  have js: "jumps code (set ps)"
    using similar_but_jumps [OF sim, of "set ps"] Cons.prems(3) by (auto simp: jumps_def)
  obtain code' where code': "patchlist_loop k (jump_dest (codeof s ! nat p) p) t NO_REG t NO_REG t (with_code s code) =
      Inr ((), with_code s code')" "is_patched t (set ps) code code'"
    using Cons.IH [of "with_code s code" _ k] rest js k(2) Cons.prems len by auto
  have "is_patched t (insert p (set ps)) (codeof s) code'"
    using Cons.prems(2,3) by (intro is_patched_insert [OF code(2) code'(2)]) simp_all
  moreover have "patchlist_loop fuel l t NO_REG t NO_REG t s = Inr ((), with_code s code')"
    using p code(1) code'(1) by (simp add: k(1) getjump_eq c(1) code_at_eq [OF c(2)] split: if_splits)
  ultimately show ?case
    by auto
qed

lemma is_patched_target:
  assumes "is_patched t P code code'" "p \<in> P" "0 \<le> p" "p < int (length code)" "\<bar>t - (p + 1)\<bar> \<le> MAXARG_sBx"
  shows "target code' p = t"
proof -
  have "code' ! nat p = SETARG_sBx (code ! nat p) (t - (p + 1))"
    using assms(1-4) by (simp add: is_patched_def patched_def nat_less_iff)
  then show ?thesis
    using GETARG_sBx_patched [OF assms(5)] by (simp add: target_def)
qed

section \<open>Jumps to the next instruction\<close>

lemma growvector_ok:
  assumes "0 \<le> sz" "sz < 2 ^ 20" "es \<le> 16" "2 ^ 22 \<le> limit"
  shows "\<exists>sz'. luaM_growvector n sz es limit e = Inr sz'"
proof -
  have "signed_take_bit 31 (sz * 2) = sz * 2"
    using assms(1,2) by (intro signed_take_bit_int_eq_self) simp_all
  moreover have "nat (sz * 2) * es \<le> 2 ^ 21 * 16"
    using assms by (intro mult_mono) simp_all
  ultimately show ?thesis
    using assms by (auto simp: luaM_growvector_def luaM_growaux_def luaM_realloc_def MAX_SIZET_def MINSIZEARRAY_def Let_def)
qed

lemma put_at_nth:
  assumes "0 \<le> i" "i \<le> int (length xs)"
  shows "put_at i v xs ! nat i = v" "\<And>j. j < nat i \<Longrightarrow> put_at i v xs ! j = xs ! j"
    "length (put_at i v xs) = max (length xs) (Suc (nat i))"
  using assms by (auto simp: put_at_def nth_append)

lemma patchtohere_ok:
  assumes "jlist (codeof s) l ps" "jlist (codeof s) (fs_jpc (c_fs s)) js" "distinct (js @ ps)"
    "int (length (codeof s)) < MAXARG_sBx"
  shows "\<exists>code j. luaK_patchtohere l s =
      Inr ((), s\<lparr>c_fs := (c_fs s)\<lparr>fs_lasttarget := fs_pc (c_fs s), h_code := code, fs_jpc := j\<rparr>\<rparr>) \<and>
    jlist code j (js @ ps) \<and> only_changed (set js) (codeof s) code"
proof -
  let ?s = "s\<lparr>c_fs := (c_fs s)\<lparr>fs_lasttarget := fs_pc (c_fs s)\<rparr>\<rparr>"
  obtain j code where "luaK_concat (fs_jpc (c_fs s)) l ?s = Inr (j, with_code ?s code)" "jlist code j (js @ ps)"
    "only_changed (set js) (codeof s) code"
    using concat_lists [of ?s "fs_jpc (c_fs s)" js l ps] assms by auto
  then show ?thesis
    by (intro exI [of _ code] exI [of _ j]) (simp add: luaK_patchtohere_def luaK_getlabel_def with_code_def)
qed

lemma dischargejpc_ok:
  assumes "jlist (codeof s) (fs_jpc (c_fs s)) js" "distinct js" "jumps (codeof s) (set js)"
    "int (length (codeof s)) < MAXARG_sBx" "0 \<le> fs_pc (c_fs s)" "fs_pc (c_fs s) \<le> int (length (codeof s))"
  shows "\<exists>code. luaK_dischargejpc s = Inr ((), s\<lparr>c_fs := (c_fs s)\<lparr>h_code := code, fs_jpc := NO_JUMP\<rparr>\<rparr>) \<and>
    (\<forall>p \<in> set js. target code p = fs_pc (c_fs s)) \<and> similar_but (set js) (codeof s) code"
proof -
  let ?pc = "fs_pc (c_fs s)"
  obtain code where "luaK_patchlistaux (fs_jpc (c_fs s)) ?pc NO_REG ?pc NO_REG ?pc s = Inr ((), with_code s code)"
    "\<forall>p \<in> set js. target code p = ?pc" "similar_but (set js) (codeof s) code"
    using patchlistaux_ok [OF assms(1-4), of ?pc ?pc ?pc NO_REG NO_REG] assms(5,6)
    by (auto simp: new_target_def Let_def)
  then show ?thesis
    by (intro exI [of _ code]) (simp add: luaK_dischargejpc_def with_code_def)
qed

definition room_for_code :: "CompState \<Rightarrow> bool" where
  "room_for_code s \<longleftrightarrow> 0 \<le> fs_pc (c_fs s) \<and> fs_pc (c_fs s) \<le> int (length (codeof s)) \<and>
    int (length (codeof s)) < MAXARG_sBx \<and> 0 \<le> h_sizecode (c_fs s) \<and> h_sizecode (c_fs s) < 2 ^ 20 \<and>
    0 \<le> h_sizelineinfo (c_fs s) \<and> h_sizelineinfo (c_fs s) < 2 ^ 20"

lemma code_ok:
  assumes "jlist (codeof s) (fs_jpc (c_fs s)) js" "distinct js" "jumps (codeof s) (set js)"
    "\<forall>p \<in> set js. p < fs_pc (c_fs s)" "room_for_code s"
  shows "\<exists>s'. luaK_code i line s = Inr (fs_pc (c_fs s), s') \<and> codeof s' ! nat (fs_pc (c_fs s)) = i \<and>
    fs_pc (c_fs s') = fs_pc (c_fs s) + 1 \<and> fs_jpc (c_fs s') = NO_JUMP \<and>
    (\<forall>p \<in> set js. target (codeof s') p = fs_pc (c_fs s)) \<and>
    (\<forall>j. int j < fs_pc (c_fs s) \<and> int j \<notin> set js \<longrightarrow> similar (codeof s ! j) (codeof s' ! j))"
proof -
  let ?pc = "fs_pc (c_fs s)"
  have r: "0 \<le> ?pc" "?pc \<le> int (length (codeof s))" "int (length (codeof s)) < MAXARG_sBx"
    "0 \<le> h_sizecode (c_fs s)" "h_sizecode (c_fs s) < 2 ^ 20" "0 \<le> h_sizelineinfo (c_fs s)"
    "h_sizelineinfo (c_fs s) < 2 ^ 20"
    using assms(5) by (simp_all add: room_for_code_def)
  obtain code where code: "luaK_dischargejpc s = Inr ((), s\<lparr>c_fs := (c_fs s)\<lparr>h_code := code, fs_jpc := NO_JUMP\<rparr>\<rparr>)"
    "\<forall>p \<in> set js. target code p = ?pc" "similar_but (set js) (codeof s) code"
    using dischargejpc_ok [OF assms(1-3) r(3,1,2)] by blast
  have m: "(2 :: int) ^ 22 \<le> MAX_INT"
    by (simp add: MAX_INT_def INT_MAX_def)
  obtain s1 s2 where g: "luaM_growvector ?pc (h_sizecode (c_fs s)) 8 MAX_INT ''code size overflow'' = Inr s1"
    "luaM_growvector ?pc (h_sizelineinfo (c_fs s)) 4 MAX_INT ''code size overflow'' = Inr s2"
    using growvector_ok [OF r(4,5) _ m, of 8] growvector_ok [OF r(6,7) _ m, of 4] by force
  have len: "length code = length (codeof s)"
    using code(3) by (simp add: similar_but_def)
  have pc: "0 \<le> ?pc" "?pc \<le> int (length code)"
    using r by (simp_all add: len)
  have old: "put_at ?pc i code ! nat p = code ! nat p" if "0 \<le> p" "p < ?pc" for p
    using put_at_nth(2) [OF pc, of "nat p"] that by simp
  have "target (put_at ?pc i code) p = ?pc" if "p \<in> set js" for p
    using that old [of p] assms(4) code(2) jlist_positions [OF assms(1) that] by (simp add: target_def)
  moreover have "similar (codeof s ! j) (put_at ?pc i code ! j)" if "int j < ?pc" "int j \<notin> set js" for j
    using that old [of "int j"] code(3) r(2) by (simp add: similar_but_def)
  ultimately show ?thesis
    using code(1) g put_at_nth(1) [OF pc, of i] by (auto simp: luaK_code_def)
qed

section \<open>Properties\<close>

text \<open>
  C19: \<open>luaK_concat\<close> joins two lists of jumps.  Lists that share no jump become one list of all their
  jumps, in order; every other list is as it was.  The offsets fit as long as the code of the function
  has fewer than \<open>MAXARG_sBx\<close> instructions; a cycle in the lists, which would make the loop endless, cannot
  come up.
\<close>

theorem concat_joins_lists:
  assumes "jlist (codeof s) l1 ps" "jlist (codeof s) l2 qs" "distinct (ps @ qs)"
    "int (length (codeof s)) < MAXARG_sBx" "jlist (codeof s) l3 rs" "set rs \<inter> set ps = {}"
  shows "\<exists>l code. luaK_concat l1 l2 s = Inr (l, with_code s code) \<and> jlist code l (ps @ qs) \<and> jlist code l3 rs"
proof -
  obtain l code where "luaK_concat l1 l2 s = Inr (l, with_code s code)" "jlist code l (ps @ qs)"
    "only_changed (set ps) (codeof s) code"
    using concat_lists [OF assms(1-3)] assms(4) by auto
  with only_changed_jlist [OF this(3) assms(6,5)] show ?thesis
    by blast
qed

text \<open>
  C20: \<open>luaK_patchlist\<close> on a target behind which code has been generated sends every jump of the list to the
  target, and the code it leaves is known at every position: a jump of the list has the new offset, an \<open>OP_TEST\<close>
  in front of one has its argument \<open>B\<close> for register \<open>A\<close> (it tests the register without a copy, as there is
  no register for the value), and every other instruction is as it was, bit for bit.
\<close>

theorem patchlist_sets_targets:
  assumes "jlist (codeof s) l ps" "distinct ps" "jumps (codeof s) (set ps)" "int (length (codeof s)) < MAXARG_sBx"
    "0 \<le> t" "t < fs_pc (c_fs s)" "fs_pc (c_fs s) \<le> int (length (codeof s))"
  shows "\<exists>code. luaK_patchlist l t s = Inr ((), with_code s code) \<and> (\<forall>p \<in> set ps. target code p = t) \<and>
    length code = length (codeof s) \<and>
    (\<forall>i < length (codeof s). code ! i = patched t (set ps) (codeof s) (int i))"
proof -
  have "length ps \<le> length (codeof s)"
    using assms(2) jlist_positions [OF assms(1)] by (intro distinct_positions) auto
  then obtain code where code: "luaK_patchlist l t s = Inr ((), with_code s code)" "is_patched t (set ps) (codeof s) code"
    using patchlist_loop_exact [OF assms(1-3) _ assms(4), of "Suc (length (codeof s))" t] assms(5-7)
    by (auto simp: luaK_patchlist_def luaK_patchlistaux_def list_fuel_eq)
  moreover have "target code p = t" if "p \<in> set ps" for p
    using jlist_positions [OF assms(1) that] assms(4-7) by (intro is_patched_target [OF code(2) that]) auto
  ultimately show ?thesis
    by (auto simp: is_patched_def)
qed

text \<open>
  C6: \<open>luaK_patchtohere\<close> and the next \<open>luaK_code\<close> make the jumps of a list, and those that were waiting
  already, go to the instruction that comes next, wherever it is put; no jump waits any more, and the
  position is marked as the target of a jump.
\<close>

theorem jumps_land_here:
  assumes "jlist (codeof s) l ps" "jlist (codeof s) (fs_jpc (c_fs s)) js" "distinct (js @ ps)"
    "jumps (codeof s) (set (js @ ps))" "\<forall>p \<in> set (js @ ps). p < fs_pc (c_fs s)" "room_for_code s"
  shows "\<exists>s'. thenC (luaK_patchtohere l) (luaK_code i line) s = Inr (fs_pc (c_fs s), s') \<and>
    codeof s' ! nat (fs_pc (c_fs s)) = i \<and> (\<forall>p \<in> set (js @ ps). target (codeof s') p = fs_pc (c_fs s)) \<and>
    fs_jpc (c_fs s') = NO_JUMP \<and> fs_pc (c_fs s') = fs_pc (c_fs s) + 1"
proof -
  have len: "int (length (codeof s)) < MAXARG_sBx"
    using assms(6) by (simp add: room_for_code_def)
  obtain code j where c: "luaK_patchtohere l s =
      Inr ((), s\<lparr>c_fs := (c_fs s)\<lparr>fs_lasttarget := fs_pc (c_fs s), h_code := code, fs_jpc := j\<rparr>\<rparr>)"
    "jlist code j (js @ ps)" "only_changed (set js) (codeof s) code"
    using patchtohere_ok [OF assms(1-3) len] by blast
  have "jumps code (set (js @ ps))"
    using similar_but_jumps [OF only_changed_similar [OF c(3)] assms(4)] .
  then show ?thesis
    using code_ok [of "s\<lparr>c_fs := (c_fs s)\<lparr>fs_lasttarget := fs_pc (c_fs s), h_code := code, fs_jpc := j\<rparr>\<rparr>" "js @ ps" i line]
      c assms(3,5,6) by (auto simp: room_for_code_def only_changed_def)
qed

text \<open>Four jumps, of which the first and the third, and the second, are lists.\<close>

definition four_jumps :: CompState where
  "four_jumps =
    (let jmp = (\<lambda>b. CREATE_ABx (op_num OP_JMP) 0 (b + MAXARG_sBx))
     in \<lparr>c_ls = lex_start CHR ''x'' [],
         c_fs = \<lparr>h_code = [jmp 1, jmp (-1), jmp (-1), jmp (-1)], h_sizecode = 4, h_lineinfo = [1, 1, 1, 1],
           h_sizelineinfo = 4, h_k = [], h_sizek = 0, h_p = [], h_sizep = 0, h_locvars = [], h_sizelocvars = 0,
           h_upvalues = [], h_sizeupvalues = 0, h_source = None, h_lineDefined = 0, h_nups = 0, h_numparams = 0,
           h_is_vararg = 0, h_maxstacksize = 2,
           fs_h = \<lparr>flags = 0, lsizenode = 0, metatable = 0, array = [], node = [free_node], firstfree = 0\<rparr>,
           fs_haddr = 64, fs_bl = [], fs_pc = 4, fs_lasttarget = 0, fs_jpc = -1, fs_freereg = 0, fs_nk = 0,
           fs_np = 0, fs_nlocvars = 0, fs_nactvar = 0, fs_upvalues = [], fs_actvar = []\<rparr>,
         c_prev = []\<rparr>)"

lemma four_jumps_lists:
  "jlist (codeof four_jumps) 0 [0, 2]" "jlist (codeof four_jumps) 1 [1]" "jlist (codeof four_jumps) 3 [3]"
  "jlist (codeof four_jumps) (fs_jpc (c_fs four_jumps)) []" "length (codeof four_jumps) = 4"
  "fs_pc (c_fs four_jumps) = 4" "jumps (codeof four_jumps) {0, 1, 2, 3}" "room_for_code four_jumps"
  by code_simp+

lemma concat_joins_lists_witness:
  "\<exists>l code. luaK_concat 0 1 four_jumps = Inr (l, with_code four_jumps code) \<and> jlist code l [0, 2, 1] \<and> jlist code 3 [3]"
  using concat_joins_lists [OF four_jumps_lists(1,2) _ _ four_jumps_lists(3)] four_jumps_lists(5)
  by (simp add: MAXARG_sBx_def MAXARG_Bx_def layout_defs)

lemma patchlist_sets_targets_witness:
  "\<exists>code. luaK_patchlist 0 3 four_jumps = Inr ((), with_code four_jumps code) \<and> target code 0 = 3 \<and> target code 2 = 3 \<and>
    code ! 1 = codeof four_jumps ! 1 \<and> code ! 3 = codeof four_jumps ! 3"
proof -
  have "jumps (codeof four_jumps) (set [0, 2])"
    using four_jumps_lists(7) by (simp add: jumps_def)
  from patchlist_sets_targets [OF four_jumps_lists(1) _ this, of 3] four_jumps_lists(5,6) obtain code where
    "luaK_patchlist 0 3 four_jumps = Inr ((), with_code four_jumps code)" "target code 0 = 3" "target code 2 = 3"
    "\<forall>i < 4. code ! i = patched 3 {0, 2} (codeof four_jumps) (int i)"
    by (auto simp: MAXARG_sBx_def MAXARG_Bx_def layout_defs)
  moreover from this(4) have "code ! 1 = patched 3 {0, 2} (codeof four_jumps) 1" "code ! 3 = patched 3 {0, 2} (codeof four_jumps) 3"
    by (auto dest: spec [of _ 1] spec [of _ 3])
  moreover have "patched 3 {0, 2} (codeof four_jumps) 1 = codeof four_jumps ! 1"
    "patched 3 {0, 2} (codeof four_jumps) 3 = codeof four_jumps ! 3"
    using patched_jump [OF four_jumps_lists(7), of 1 "{0, 2}" 3] patched_jump [OF four_jumps_lists(7), of 3 "{0, 2}" 3]
    by simp_all
  ultimately show ?thesis
    by auto
qed

lemma jumps_land_here_witness:
  "\<exists>s'. thenC (luaK_patchtohere 0) (luaK_code 27 1) four_jumps = Inr (4, s') \<and> codeof s' ! nat 4 = 27 \<and>
    target (codeof s') 0 = 4 \<and> target (codeof s') 2 = 4 \<and> fs_jpc (c_fs s') = NO_JUMP \<and> fs_pc (c_fs s') = 5"
proof -
  have "jumps (codeof four_jumps) (set ([] @ [0, 2]))"
    using four_jumps_lists(7) by (simp add: jumps_def)
  from jumps_land_here [OF four_jumps_lists(1,4) _ this _ four_jumps_lists(8), of 27 1] four_jumps_lists(6)
  show ?thesis
    by simp
qed

end
