(* ===== verification/Constants.thy ===== *)
theory Constants
  imports JumpLists TableOps
begin

text \<open>
  The constant table of a function that is being compiled (\<open>addk\<close> of \<open>lua/lcode.c\<close>): the table \<open>fs_h\<close>
  maps every constant to its index in \<open>h_k\<close>, so that a constant is stored once.  It rests on the facts
  about tables of \<open>TableRehash\<close> and \<open>TableOps\<close>.
\<close>

section \<open>The table and the list of constants\<close>

text \<open>The key of a constant; nil, which is no key, is stored under the table itself.\<close>

fun const_key :: "addr \<Rightarrow> Konst \<Rightarrow> TObject" where
  "const_key a KNil = LTable a"
| "const_key a (KNumber n) = LNumber n"
| "const_key a (KString (Some s)) = LString s"
| "const_key a (KString None) = LNone"

abbreviation key_of_k :: "FuncState \<Rightarrow> nat \<Rightarrow> TObject" where
  "key_of_k fs i \<equiv> const_key (fs_haddr fs) (h_k fs ! i)"

definition wf_consts :: "FuncState \<Rightarrow> bool" where
  "wf_consts fs \<longleftrightarrow> wf_table (fs_h fs) \<and> fs_nk fs = int (length (h_k fs)) \<and>
     fs_nk fs \<le> h_sizek fs \<and> h_sizek fs \<le> MAXARG_Bx \<and>
     (\<forall>i < length (h_k fs). valid_key (key_of_k fs i) \<and> content (fs_h fs) (key_of_k fs i) = LNumber (num_of_int (int i))) \<and>
     (\<forall>k. valid_key k \<longrightarrow> content (fs_h fs) k \<noteq> LNil \<longrightarrow> (\<exists>i < length (h_k fs). luaO_rawequalObj k (key_of_k fs i)))"

lemma MAXARG_Bx_eq: "MAXARG_Bx = 262143"
  by (simp add: MAXARG_Bx_def layout_defs)

lemma index_of_const [simp]: "0 \<le> i \<Longrightarrow> i \<le> MAXARG_Bx \<Longrightarrow> lua_number2int (num_of_int i) = i"
  by (simp add: MAXARG_Bx_eq INT_MIN_def INT_MAX_def)

lemma content_same: "luaO_rawequalObj k k' \<Longrightarrow> content t k = content t k'"
  by (simp add: content_def slot_of_cong [of k k'])

lemma wf_constsD:
  assumes "wf_consts fs"
  shows "wf_table (fs_h fs)" "fs_nk fs = int (length (h_k fs))" "fs_nk fs \<le> h_sizek fs" "h_sizek fs \<le> MAXARG_Bx"
    "i < length (h_k fs) \<Longrightarrow> valid_key (key_of_k fs i)"
    "i < length (h_k fs) \<Longrightarrow> content (fs_h fs) (key_of_k fs i) = LNumber (num_of_int (int i))"
  using assms by (simp_all add: wf_consts_def)

lemma const_content:
  assumes "wf_consts fs" "valid_key k"
  shows "content (fs_h fs) k = LNil \<and> (\<forall>i < length (h_k fs). \<not> luaO_rawequalObj k (key_of_k fs i)) \<or>
    (\<exists>i < length (h_k fs). luaO_rawequalObj k (key_of_k fs i) \<and> content (fs_h fs) k = LNumber (num_of_int (int i)))"
proof (cases "content (fs_h fs) k = LNil")
  case True
  then show ?thesis
    using content_same wf_constsD(6) [OF assms(1)] by fastforce
next
  case False
  then obtain i where "i < length (h_k fs)" "luaO_rawequalObj k (key_of_k fs i)"
    using assms unfolding wf_consts_def by blast
  then show ?thesis
    using content_same wf_constsD(6) [OF assms(1)] by auto
qed

text \<open>The constants are pairwise different: equal keys have the same content.\<close>

lemma consts_distinct:
  assumes "wf_consts fs" "i < length (h_k fs)" "j < length (h_k fs)" "luaO_rawequalObj (key_of_k fs i) (key_of_k fs j)"
  shows "i = j"
proof -
  have "num_of_int (int i) = num_of_int (int j)"
    using content_same [OF assms(4), of "fs_h fs"] wf_constsD(6) [OF assms(1)] assms(2,3) by simp
  then have "lua_number2int (num_of_int (int i)) = lua_number2int (num_of_int (int j))"
    by simp
  then show ?thesis
    using wf_constsD(2-4) [OF assms(1)] assms(2,3) by simp
qed

section \<open>Adding a constant\<close>

lemma growvector_consts:
  assumes "0 \<le> nk" "nk \<le> sz" "sz \<le> MAXARG_Bx"
  shows "luaM_growvector nk sz 16 MAXARG_Bx e = Inl (RunError e) \<and> MAXARG_Bx - MINSIZEARRAY \<le> nk \<or>
    (\<exists>sz'. luaM_growvector nk sz 16 MAXARG_Bx e = Inr sz' \<and> nk < sz' \<and> sz' \<le> MAXARG_Bx)"
proof (cases "nk < sz")
  case True
  then show ?thesis
    using assms(3) by (simp add: luaM_growvector_def)
next
  case False
  then have sz: "sz = nk"
    using assms(2) by simp
  have w: "signed_take_bit 31 (nk * 2) = nk * 2"
    using assms by (intro signed_take_bit_int_eq_self) (auto simp: MAXARG_Bx_eq)
  have "nat (nk * 2) * 16 < MAX_SIZET"
    using assms by (simp add: MAXARG_Bx_eq MAX_SIZET_def)
  then have r: "luaM_realloc (nat (nk * 2) * 16) = Inr (nat (nk * 2) * 16)"
    by (simp add: luaM_realloc_def)
  show ?thesis
    using assms by (simp add: sz w r luaM_growvector_def luaM_growaux_def Let_def MAXARG_Bx_eq MINSIZEARRAY_def)
      (simp add: luaM_realloc_def MAX_SIZET_def)
qed

text \<open>What a call of \<open>addk\<close> does: it fails for want of room, or finds the constant, or appends it.\<close>

definition no_room :: "FuncState \<Rightarrow> 'a res \<Rightarrow> bool" where
  "no_room fs r \<longleftrightarrow>
     r = Inl (RunError ''constant table overflow'') \<and> MAXARG_Bx - MINSIZEARRAY \<le> fs_nk fs \<or> overflow (fs_h fs) r"

definition const_at :: "FuncState \<Rightarrow> Konst \<Rightarrow> int \<Rightarrow> bool" where
  "const_at fs v i \<longleftrightarrow> 0 \<le> i \<and> i < fs_nk fs \<and> luaO_rawequalObj (const_key (fs_haddr fs) v) (key_of_k fs (nat i))"

definition appended :: "Konst \<Rightarrow> FuncState \<Rightarrow> FuncState \<Rightarrow> bool" where
  "appended v fs fs' \<longleftrightarrow> fs' = fs\<lparr>h_sizek := h_sizek fs', h_k := h_k fs @ [v], fs_h := fs_h fs', fs_nk := fs_nk fs + 1\<rparr>"

lemma addk_found:
  assumes wf: "wf_consts (c_fs s)" and key: "valid_key (const_key (fs_haddr (c_fs s)) v)" and at: "const_at (c_fs s) v i"
  shows "addk (const_key (fs_haddr (c_fs s)) v) v s = Inr (i, s)"
proof -
  let ?fs = "c_fs s" and ?k = "const_key (fs_haddr (c_fs s)) v"
  have i: "0 \<le> i" "nat i < length (h_k ?fs)"
    using at wf_constsD(2) [OF wf] by (auto simp: const_at_def)
  have "slot_get (fs_h ?fs) (slot_of (fs_h ?fs) ?k) = LNumber (num_of_int i)"
    using content_same [of ?k "key_of_k ?fs (nat i)" "fs_h ?fs"] at i(1) wf_constsD(6) [OF wf i(2)]
    by (simp add: const_at_def flip: content_def)
  moreover have "luaH_get (fs_h ?fs) ?k = Inr (slot_of (fs_h ?fs) ?k)"
    using luaH_get_slot [OF _ key, of "fs_h ?fs"] wf_constsD(1) [OF wf] by (simp add: wf_table_def)
  ultimately show ?thesis
    using at wf_constsD(3,4) [OF wf] by (simp add: addk_def const_at_def)
qed

lemma wf_consts_append:
  assumes wf: "wf_consts fs" and key: "valid_key (const_key (fs_haddr fs) v)"
    and new: "content (fs_h fs) (const_key (fs_haddr fs) v) = LNil"
    and h: "assigns (fs_h fs) (const_key (fs_haddr fs) v) (LNumber (num_of_int (fs_nk fs))) h"
    and sz: "fs_nk fs < sz" "sz \<le> MAXARG_Bx"
  shows "wf_consts (fs\<lparr>h_sizek := sz, h_k := h_k fs @ [v], fs_h := h, fs_nk := fs_nk fs + 1\<rparr>)" (is "wf_consts ?fs")
proof -
  let ?k = "const_key (fs_haddr fs) v"
  note d = wf_constsD [OF wf]
  have c: "content h k = (if luaO_rawequalObj ?k k then LNumber (num_of_int (fs_nk fs)) else content (fs_h fs) k)"
    if "valid_key k" for k
    using h that by (simp add: assigns_def)
  have old: "key_of_k ?fs i = key_of_k fs i" if "i < length (h_k fs)" for i
    using that by (simp add: nth_append)
  have last: "key_of_k ?fs (length (h_k fs)) = ?k"
    by simp
  have differ: "\<not> luaO_rawequalObj ?k (key_of_k fs i)" if "i < length (h_k fs)" for i
    using const_content [OF wf key] that new by auto
  have at: "valid_key (key_of_k ?fs i) \<and> content h (key_of_k ?fs i) = LNumber (num_of_int (int i))"
    if "i < length (h_k fs) + 1" for i
  proof (cases "i < length (h_k fs)")
    case True
    then show ?thesis
      using old [OF True] d(5,6) [OF True] c [OF d(5) [OF True]] differ [OF True] by simp
  next
    case False
    then have "i = length (h_k fs)"
      using that by simp
    then show ?thesis
      using last key c [OF key] d(2) by simp
  qed
  have only: "\<exists>i < length (h_k fs) + 1. luaO_rawequalObj k (key_of_k ?fs i)"
    if k: "valid_key k" "content h k \<noteq> LNil" for k
  proof (cases "luaO_rawequalObj ?k k")
    case True
    then show ?thesis
      using last rawequal_sym by (intro exI [of _ "length (h_k fs)"]) simp
  next
    case False
    then obtain i where "i < length (h_k fs)" "luaO_rawequalObj k (key_of_k fs i)"
      using k c [OF k(1)] const_content [OF wf k(1)] by auto
    then show ?thesis
      using old by (intro exI [of _ i]) simp
  qed
  have "wf_table h"
    using h by (simp add: assigns_def)
  with at only sz d(2) show ?thesis
    by (simp add: wf_consts_def)
qed

lemma addk_new:
  assumes wf: "wf_consts (c_fs s)" and key: "valid_key (const_key (fs_haddr (c_fs s)) v)"
    and new: "content (fs_h (c_fs s)) (const_key (fs_haddr (c_fs s)) v) = LNil"
  shows "no_room (c_fs s) (addk (const_key (fs_haddr (c_fs s)) v) v s) \<or>
    (\<exists>fs. addk (const_key (fs_haddr (c_fs s)) v) v s = Inr (fs_nk (c_fs s), s\<lparr>c_fs := fs\<rparr>) \<and>
      appended v (c_fs s) fs \<and> wf_consts fs)"
proof -
  let ?fs = "c_fs s" and ?k = "const_key (fs_haddr (c_fs s)) v"
  note d = wf_constsD [OF wf]
  have g: "luaH_get (fs_h ?fs) ?k = Inr (slot_of (fs_h ?fs) ?k)" "slot_get (fs_h ?fs) (slot_of (fs_h ?fs) ?k) = LNil"
    using luaH_get_slot [OF _ key, of "fs_h ?fs"] d(1) new by (simp_all add: wf_table_def content_def)
  have app: "put_at (fs_nk ?fs) v (h_k ?fs) = h_k ?fs @ [v]"
    by (simp add: put_at_def d(2))
  let ?grow = "luaM_growvector (fs_nk ?fs) (h_sizek ?fs) 16 MAXARG_Bx ''constant table overflow''"
  show ?thesis
  proof (cases ?grow)
    case (Inl e)
    then show ?thesis
      using growvector_consts [OF _ d(3,4), of "''constant table overflow''"] g d(2)
      by (simp add: addk_def no_room_def)
  next
    case (Inr sz)
    then have sz: "fs_nk ?fs < sz" "sz \<le> MAXARG_Bx"
      using growvector_consts [OF _ d(3,4), of "''constant table overflow''"] d(2) by auto
    from luaH_set_ok [OF d(1) key] show ?thesis
    proof
      assume "overflow (fs_h ?fs) (luaH_set (fs_h ?fs) ?k)"
      then show ?thesis
        using g Inr by (simp add: addk_def no_room_def overflow_def)
    next
      assume "\<exists>t' p. luaH_set (fs_h ?fs) ?k = Inr (t', p) \<and> inserts (fs_h ?fs) ?k t' p \<and> metatable t' = metatable (fs_h ?fs)"
      then obtain h p where h: "luaH_set (fs_h ?fs) ?k = Inr (h, p)" "inserts (fs_h ?fs) ?k h p"
        by blast
      have "addk ?k v s = Inr (fs_nk ?fs, s\<lparr>c_fs := ?fs\<lparr>h_sizek := sz, h_k := h_k ?fs @ [v],
          fs_h := slot_set h p (LNumber (num_of_int (fs_nk ?fs))), fs_nk := fs_nk ?fs + 1\<rparr>\<rparr>)"
        using g Inr h(1) app by (simp add: addk_def)
      then show ?thesis
        using wf_consts_append [OF wf key new inserts_assigns [OF h(2) key] sz] by (auto simp: appended_def)
    qed
  qed
qed

section \<open>The properties\<close>

text \<open>The operation that adds a constant of each kind.\<close>

fun constantK :: "Konst \<Rightarrow> int comp" where
  "constantK KNil = nil_constant"
| "constantK (KNumber n) = luaK_numberK n"
| "constantK (KString (Some str)) = luaK_stringK str"
| "constantK (KString None) = retC 0"

fun constant_of :: "Konst \<Rightarrow> bool" where
  "constant_of (KNumber n) \<longleftrightarrow> \<not> num_isnan n"
| "constant_of v \<longleftrightarrow> v \<noteq> KString None"

lemma constantK_addk:
  "constant_of v \<Longrightarrow> constantK v s = addk (const_key (fs_haddr (c_fs s)) v) v s"
  by (cases v rule: constantK.cases) (simp_all add: luaK_numberK_def luaK_stringK_def nil_constant_def)

lemma constant_key: "constant_of v \<Longrightarrow> valid_key (const_key a v)"
  by (cases v rule: constantK.cases) (simp_all add: valid_key_def)

lemma appended_const_at:
  assumes "wf_consts (c_fs s)" "constant_of v" "appended v (c_fs s) fs"
  shows "const_at fs v (fs_nk (c_fs s))" "fs_haddr fs = fs_haddr (c_fs s)"
proof -
  have fs: "fs_nk fs = fs_nk (c_fs s) + 1" "h_k fs = h_k (c_fs s) @ [v]" "fs_haddr fs = fs_haddr (c_fs s)"
    using arg_cong [OF assms(3) [unfolded appended_def], of fs_nk] arg_cong [OF assms(3) [unfolded appended_def], of h_k]
      arg_cong [OF assms(3) [unfolded appended_def], of fs_haddr]
    by simp_all
  then show "const_at fs v (fs_nk (c_fs s))" "fs_haddr fs = fs_haddr (c_fs s)"
    using wf_constsD(2) [OF assms(1)] constant_key [OF assms(2)] by (simp_all add: const_at_def)
qed

text \<open>
  C7: Adding a constant (a string, a number that is not NaN, or nil) to a function whose constant table is
  well-formed fails only when there is no more room; else it gives the index of an equal constant, which it
  appends if there is none, and changes nothing else.  The table is well-formed again, and adding the same
  constant again gives the same index and changes nothing.
\<close>

theorem constants_shared:
  assumes "wf_consts (c_fs s)" "constant_of v"
  shows "no_room (c_fs s) (constantK v s) \<or>
    (\<exists>i fs. constantK v s = Inr (i, s\<lparr>c_fs := fs\<rparr>) \<and> (fs = c_fs s \<or> appended v (c_fs s) fs) \<and>
      wf_consts fs \<and> const_at fs v i \<and> constantK v (s\<lparr>c_fs := fs\<rparr>) = Inr (i, s\<lparr>c_fs := fs\<rparr>))"
proof -
  note key = constant_key [OF assms(2), of "fs_haddr (c_fs s)"] and eq = constantK_addk [OF assms(2)]
  from const_content [OF assms(1) key] show ?thesis
  proof
    assume "content (fs_h (c_fs s)) (const_key (fs_haddr (c_fs s)) v) = LNil \<and>
      (\<forall>i < length (h_k (c_fs s)). \<not> luaO_rawequalObj (const_key (fs_haddr (c_fs s)) v) (key_of_k (c_fs s) i))"
    then have new: "content (fs_h (c_fs s)) (const_key (fs_haddr (c_fs s)) v) = LNil"
      by blast
    from addk_new [OF assms(1) key new] show ?thesis
    proof
      assume "\<exists>fs. addk (const_key (fs_haddr (c_fs s)) v) v s = Inr (fs_nk (c_fs s), s\<lparr>c_fs := fs\<rparr>) \<and>
        appended v (c_fs s) fs \<and> wf_consts fs"
      then obtain fs where fs: "constantK v s = Inr (fs_nk (c_fs s), s\<lparr>c_fs := fs\<rparr>)" "appended v (c_fs s) fs" "wf_consts fs"
        by (auto simp: eq)
      note at = appended_const_at [OF assms fs(2)]
      have "constantK v (s\<lparr>c_fs := fs\<rparr>) = Inr (fs_nk (c_fs s), s\<lparr>c_fs := fs\<rparr>)"
        using addk_found [of "s\<lparr>c_fs := fs\<rparr>" v] fs(3) at(1) constant_key [OF assms(2)] by (simp add: eq)
      with fs at show ?thesis
        by blast
    qed (simp add: eq)
  next
    assume "\<exists>i < length (h_k (c_fs s)). luaO_rawequalObj (const_key (fs_haddr (c_fs s)) v) (key_of_k (c_fs s) i) \<and>
      content (fs_h (c_fs s)) (const_key (fs_haddr (c_fs s)) v) = LNumber (num_of_int (int i))"
    then obtain i where "const_at (c_fs s) v (int i)"
      using wf_constsD(2) [OF assms(1)] by (auto simp: const_at_def)
    with addk_found [OF assms(1) key this] assms(1) eq show ?thesis
      by (intro disjI2 exI [of _ "int i"] exI [of _ "c_fs s"]) simp
  qed
qed

lemma num_eq_num_neg:
  assumes "num_eq n (num_of_int 0)"
  shows "num_eq (num_neg n) n"
proof -
  have "num_val n = 0"
    using assms num_of_int_exact(1) [of 0] by (simp add: num_eq_def)
  then have "num_mag n = 0"
    by (simp add: num_val_0_iff)
  then show ?thesis
    using num_val_0_iff [of n] num_val_0_iff [of "num_neg n"] by (simp add: num_eq_def num_neg_def num_isnan_def)
qed

text \<open>
  C36: The unary minus before a constant that is zero (of either sign) is lost: the generator asks for a constant
  equal to its negation and gets the same one, so it leaves the expression and the function as they are.
\<close>

theorem minus_zero_lost:
  assumes "wf_consts (c_fs s)" "e_k e = VK" "\<not> hasjumps e" "0 \<le> e_info e" "e_info e < fs_nk (c_fs s)"
    and "h_k (c_fs s) ! nat (e_info e) = KNumber n" "num_eq n (num_of_int 0)"
  shows "luaK_prefix OPR_MINUS e s = Inr (e, s)"
proof -
  have n: "num_eq (num_neg n) n"
    using assms(7) by (simp add: num_eq_num_neg)
  then have v: "\<not> num_isnan (num_neg n)"
    by (simp add: num_eq_def)
  have at: "const_at (c_fs s) (KNumber (num_neg n)) (e_info e)"
    using assms(4-6) n by (simp add: const_at_def rawequal_iff)
  have "luaK_numberK (num_neg n) s = Inr (e_info e, s)"
    using addk_found [OF assms(1) _ at] v by (simp add: luaK_numberK_def)
  then show ?thesis
    using assms(2-6) wf_constsD(2) [OF assms(1)] 
    by (simp add: luaK_prefix_def luaK_exp2val_def luaK_dischargevars_def read_at_def nat_less_iff)
qed

section \<open>Witnesses\<close>

lemma four_jumps_consts: "wf_consts (c_fs four_jumps)"
proof -
  obtain t where t: "luaH_new 0 0 0 = Inr t" "wf_table t" "\<And>k. content t k = LNil"
    using wf_luaH_new [of 0 0 0] by auto
  have "luaH_new 0 0 0 = Inr ((fs_h (c_fs four_jumps))\<lparr>flags := NOT 0\<rparr>)"
    by code_simp
  with t(1) have "t = (fs_h (c_fs four_jumps))\<lparr>flags := NOT 0\<rparr>"
    by simp
  then have "wf_table (fs_h (c_fs four_jumps))" "content (fs_h (c_fs four_jumps)) k = LNil" for k
    using t(2) t(3) [of k] by simp_all
  then show ?thesis
    by (simp add: wf_consts_def) (simp add: four_jumps_def MAXARG_Bx_eq)
qed

lemma four_jumps_room: "\<not> no_room (c_fs four_jumps) r"
  by (simp add: no_room_def overflow_def four_jumps_def MAXARG_Bx_eq MINSIZEARRAY_def MAXBITS_def sizearray_def)

lemma constants_shared_witness:
  "\<exists>i fs. constantK (KNumber 0) four_jumps = Inr (i, four_jumps\<lparr>c_fs := fs\<rparr>) \<and> wf_consts fs \<and> const_at fs (KNumber 0) i \<and>
     constantK (KNumber 0) (four_jumps\<lparr>c_fs := fs\<rparr>) = Inr (i, four_jumps\<lparr>c_fs := fs\<rparr>)"
proof -
  have "constant_of (KNumber 0)" "\<not> no_room (c_fs four_jumps) (constantK (KNumber 0) four_jumps)"
    by (simp_all add: four_jumps_room num_isnan_def num_mag_def)
  with constants_shared [OF four_jumps_consts, of "KNumber 0"] show ?thesis
    by blast
qed

text \<open>A function whose only constant is 0.\<close>

lemma zero_constant:
  obtains fs where "wf_consts fs" "h_k fs = [KNumber 0]" "fs_nk fs = 1"
proof -
  have k: "constant_of (KNumber 0)"
    by (simp add: num_isnan_def num_mag_def)
  have "content (fs_h (c_fs four_jumps)) (const_key (fs_haddr (c_fs four_jumps)) (KNumber 0)) = LNil"
    using const_content [OF four_jumps_consts constant_key [OF k]] by (simp add: four_jumps_def)
  then obtain fs where fs: "appended (KNumber 0) (c_fs four_jumps) fs" "wf_consts fs"
    using addk_new [OF four_jumps_consts constant_key [OF k]] four_jumps_room by blast
  have "h_k fs = [KNumber 0]" "fs_nk fs = 1"
    using arg_cong [OF fs(1) [unfolded appended_def], of h_k] arg_cong [OF fs(1) [unfolded appended_def], of fs_nk]
    by (simp_all add: four_jumps_def)
  with that fs(2) show thesis
    by blast
qed

lemma minus_zero_lost_witness:
  "\<exists>s e. h_k (c_fs s) = [KNumber 0] \<and> luaK_prefix OPR_MINUS e s = Inr (e, s)"
proof -
  obtain fs where fs: "wf_consts fs" "h_k fs = [KNumber 0]" "fs_nk fs = 1"
    using zero_constant .
  have "num_val 0 = 0"
    by (simp add: num_val_0_iff num_mag_def)
  then have "num_eq 0 (num_of_int 0)"
    using num_of_int_exact(1) [of 0] num_of_int_finite(1) [of 0] by (simp add: num_eq_def num_isnan_def num_mag_def)
  then show ?thesis
    using minus_zero_lost [of "four_jumps\<lparr>c_fs := fs\<rparr>" "\<lparr>e_k = VK, e_info = 0, e_aux = 0, e_t = NO_JUMP, e_f = NO_JUMP\<rparr>" 0] fs
    by (intro exI [of _ "four_jumps\<lparr>c_fs := fs\<rparr>"]) (auto simp: hasjumps_def)
qed

end
