(* ===== verification/Calls.thy ===== *)
theory Calls
  imports Vm CodeCheck
begin

text \<open>
  The stack and calls (\<open>lua/ldo.c\<close>).  A pointer into the stack is its index; the size of the stack is the length
  of the list.  Hooks are off, and no function yields: coroutines are not modelled.

  A C function is known by a number.  The parameter \<open>cfuns\<close> gives what it does, on a state whose \<open>stk\<close> is its
  frame; it may call back through the caller it gets.  \<open>luaD_call\<close> and \<open>luaV_execute\<close> call each other; here
  \<open>luaD_call\<close> takes \<open>luaV_execute\<close> as an argument.
\<close>

type_synonym cfunctions = "caller \<Rightarrow> nat \<Rightarrow> lua_State \<Rightarrow> (nat \<times> lua_State) res"

definition modFr :: "(Frames \<Rightarrow> Frames) \<Rightarrow> lua_State \<Rightarrow> lua_State" where
  "modFr f L = L\<lparr>fr := f (fr L)\<rparr>"

definition onF :: "(Frames \<Rightarrow> Frames res) \<Rightarrow> lua_State \<Rightarrow> lua_State res" where
  "onF f L = bindR (f (fr L)) (\<lambda>F. Inr (L\<lparr>fr := F\<rparr>))"

section \<open>Access to the stack\<close>

definition getslot :: "int \<Rightarrow> lua_State \<Rightarrow> TObject res" where
  "getslot i L = (if 0 \<le> i then get_stack (nat i) (fr L) else Inl OutOfBounds)"

definition setslot :: "int \<Rightarrow> TObject \<Rightarrow> lua_State \<Rightarrow> lua_State res" where
  "setslot i v L = (if 0 \<le> i then onF (set_stack (nat i) v) L else Inl OutOfBounds)"

definition getslots :: "nat \<Rightarrow> nat \<Rightarrow> lua_State \<Rightarrow> TObject list res" where
  "getslots i n L =
    (if i + n \<le> length (fr_stack (fr L)) then Inr (take n (drop i (fr_stack (fr L)))) else Inl OutOfBounds)"

definition set_top :: "nat \<Rightarrow> lua_State \<Rightarrow> lua_State" where
  "set_top i = modFr (\<lambda>F. F\<lparr>fr_top := i\<rparr>)"

abbreviation top_of :: "lua_State \<Rightarrow> nat" where
  "top_of L \<equiv> fr_top (fr L)"

abbreviation base_of :: "lua_State \<Rightarrow> nat" where
  "base_of L \<equiv> fr_base (fr L)"

section \<open>Growing the stack and the list of calls\<close>

definition EXTRA_STACK :: nat where "EXTRA_STACK = 5"
definition LUA_MAXCALLS :: nat where "LUA_MAXCALLS = 4096"
definition LUA_MAXCCALLS :: int where "LUA_MAXCCALLS = 200"
definition LUA_MINSTACK :: nat where "LUA_MINSTACK = 20"

text \<open>New places have any contents; they are written before they are read.\<close>

definition luaD_reallocstack :: "nat \<Rightarrow> Frames \<Rightarrow> Frames res" where
  "luaD_reallocstack newsize F =
    bindR (luaM_realloc (newsize * 16)) (\<lambda>_.
      Inr (F\<lparr>fr_stack := take newsize (fr_stack F) @ replicate (newsize - length (fr_stack F)) LNil\<rparr>))"

definition luaD_reallocCI :: "nat \<Rightarrow> Frames \<Rightarrow> Frames" where
  "luaD_reallocCI newsize F = F\<lparr>fr_size_ci := newsize mod 2 ^ 16\<rparr>"

definition luaD_growstack :: "nat \<Rightarrow> Frames \<Rightarrow> Frames res" where
  "luaD_growstack n F =
    (if n \<le> length (fr_stack F) then luaD_reallocstack (2 * length (fr_stack F)) F
     else luaD_reallocstack (length (fr_stack F) + n + EXTRA_STACK) F)"

definition luaD_growCI :: "lua_State \<Rightarrow> lua_State res" where
  "luaD_growCI L =
    (if LUA_MAXCALLS < fr_size_ci (fr L) then Inl ErrErr
     else
       (let L = modFr (\<lambda>F. luaD_reallocCI (2 * fr_size_ci F) F) L
        in if LUA_MAXCALLS < fr_size_ci (fr L) then luaG_runerror ''stack overflow'' else Inr L))"

definition luaD_checkstack :: "nat \<Rightarrow> lua_State \<Rightarrow> lua_State res" where
  "luaD_checkstack n L =
    (let stack_last = int (length (fr_stack (fr L))) - 1 - int EXTRA_STACK
     in if stack_last - int (top_of L) \<le> int n then onF (luaD_growstack n) L else Inr L)"

definition incr_top :: "lua_State \<Rightarrow> lua_State res" where
  "incr_top L = bindR (luaD_checkstack 1 L) (\<lambda>L. Inr (set_top (top_of L + 1) L))"

section \<open>Entering a function\<close>

definition new_table :: "Table \<Rightarrow> lua_State \<Rightarrow> addr \<times> lua_State" where
  "new_table t L = (let a = fr_next (fr L) in (a, set_table a t (modFr (\<lambda>F. F\<lparr>fr_next := a + 64\<rparr>) L)))"

fun push_nils :: "nat \<Rightarrow> lua_State \<Rightarrow> lua_State res" where
  "push_nils 0 L = Inr L"
| "push_nils (Suc n) L = bindR (setslot (int (top_of L)) LNil L) (\<lambda>L. push_nils n (set_top (top_of L + 1) L))"

fun extra_args :: "Table \<Rightarrow> TObject list \<Rightarrow> int \<Rightarrow> Table res" where
  "extra_args t [] i = Inr t"
| "extra_args t (x # xs) i = bindR (luaH_setnum t (i + 1)) (\<lambda>(t, p). extra_args (slot_set t p x) xs (i + 1))"

definition adjust_varargs :: "nat \<Rightarrow> nat \<Rightarrow> lua_State \<Rightarrow> lua_State res" where
  "adjust_varargs nfixargs base L =
    (let actual = top_of L - base
     in bindR
          (if actual < nfixargs then
             bindR (luaD_checkstack (nfixargs - actual) L) (push_nils (nfixargs - actual))
           else Inr L) (\<lambda>L.
        (let actual = (if actual < nfixargs then nfixargs else actual) - nfixargs
         in bindR (luaH_new (defaultmeta L) actual 1) (\<lambda>htab.
            bindR (getslots (top_of L - actual) actual L) (\<lambda>xs.
            bindR (extra_args htab xs 0) (\<lambda>htab.
            bindR (luaH_set htab (LString ''n'')) (\<lambda>(htab, p).
              (case new_table (slot_set htab p (LNumber (num_of_int (int actual)))) L of (a, L) \<Rightarrow>
                (let L = set_top (top_of L - actual) L
                 in bindR (setslot (int (top_of L)) (LTable a) L) incr_top)))))))))"

text \<open>The hole for the tag method: the value at \<open>func\<close> and those behind it move up by one.\<close>

fun shift_up :: "nat \<Rightarrow> int \<Rightarrow> lua_State \<Rightarrow> lua_State res" where
  "shift_up 0 func L = Inr L"
| "shift_up (Suc k) func L =
    bindR (getslot (func + int k) L) (\<lambda>v.
    bindR (setslot (func + int k + 1) v L) (shift_up k func))"

definition tryfuncTM :: "int \<Rightarrow> lua_State \<Rightarrow> lua_State res" where
  "tryfuncTM func L =
    bindR (getslot func L) (\<lambda>f.
    bindR (luaT_gettmbyobj f TM_CALL L) (\<lambda>tm.
      if \<not> ttisfunction tm then luaG_typeerror f ''call''
      else
        bindR (shift_up (nat (int (top_of L) - func)) func L) (\<lambda>L.
        bindR (incr_top L) (setslot func tm))))"

definition enter :: "int \<Rightarrow> nat \<Rightarrow> bool \<Rightarrow> lua_State \<Rightarrow> lua_State" where
  "enter base ctop isC = modFr (\<lambda>F. F\<lparr>fr_base := nat base,
     fr_ci := \<lparr>ci_base = nat base, ci_top = ctop, ci_C = isC, ci_calling = False, savedpc = 0, tailcalls = 0\<rparr> # fr_ci F\<rparr>)"

text \<open>
  The frame of a C function is in \<open>stk\<close> while it runs, and its upvalues in \<open>upvals\<close>; this writes them to their
  places.
\<close>

definition put_frame :: "lua_State \<Rightarrow> lua_State res" where
  "put_frame L =
    bindR (getslot (int (base_of L) - 1) L) (\<lambda>f. case f of
        LFunction a \<Rightarrow>
          (case fr_funcs (fr L) a of
             CClosure n us \<Rightarrow>
               Inr (modFr (\<lambda>F.
                 (let k = fr_base F + length (stk L)
                  in F\<lparr>fr_stack := take (fr_base F) (fr_stack F) @ stk L @ drop k (fr_stack F), fr_top := k,
                       fr_funcs := (fr_funcs F)(a := CClosure n (upvals L))\<rparr>)) L)
           | _ \<Rightarrow> Inl OutOfBounds)
      | _ \<Rightarrow> Inl OutOfBounds)"

text \<open>\<open>None\<close> is the result \<open>NULL\<close> for a Lua function.\<close>

definition luaD_precall :: "cfunctions \<Rightarrow> caller \<Rightarrow> int \<Rightarrow> lua_State \<Rightarrow> (int option \<times> lua_State) res" where
  "luaD_precall cfuns call func L =
    bindR (getslot func L) (\<lambda>f.
    bindR (if ttisfunction f then Inr L else tryfuncTM func L) (\<lambda>L.
    bindR (if length (fr_ci (fr L)) = fr_size_ci (fr L) then luaD_growCI L else Inr L) (\<lambda>L.
    bindR (getslot func L) (\<lambda>f. case f of
        LFunction a \<Rightarrow>
          (case fr_funcs (fr L) a of
             LClosure p g us \<Rightarrow>
               bindR (if f_is_vararg p \<noteq> 0 then adjust_varargs (unat (f_numparams p)) (nat (func + 1)) L else Inr L) (\<lambda>L.
               bindR (luaD_checkstack (unat (f_maxstacksize p)) L) (\<lambda>L.
                 (let ctop = nat (func + 1) + unat (f_maxstacksize p)
                  in bindR (push_nils (ctop - top_of L) (enter (func + 1) ctop False L)) (\<lambda>L. Inr (None, set_top ctop L)))))
           | CClosure n us \<Rightarrow>
               bindR (luaD_checkstack LUA_MINSTACK L) (\<lambda>L.
               bindR (getslots (nat (func + 1)) (top_of L - nat (func + 1)) L) (\<lambda>args.
                 (let outer = (stk L, upvals L);
                      L = enter (func + 1) (top_of L + LUA_MINSTACK) True L
                  in bindR (cfuns call n (L\<lparr>stk := args, upvals := us\<rparr>)) (\<lambda>(n, L).
                     bindR (put_frame L) (\<lambda>L.
                       Inr (Some (int (top_of L) - int n), L\<lparr>stk := fst outer, upvals := snd outer\<rparr>)))))))
      | _ \<Rightarrow> Inl OutOfBounds))))"

section \<open>Returning\<close>

fun move_results :: "nat \<Rightarrow> int \<Rightarrow> int \<Rightarrow> int \<Rightarrow> lua_State \<Rightarrow> (int \<times> int \<times> lua_State) res" where
  "move_results 0 wanted res first L = Inr (wanted, res, L)"
| "move_results (Suc k) wanted res first L =
    (if wanted = 0 then Inr (wanted, res, L)
     else
       bindR (getslot first L) (\<lambda>v.
       bindR (setslot res v L) (move_results k (wanted - 1) (res + 1) (first + 1))))"

fun nil_results :: "nat \<Rightarrow> int \<Rightarrow> lua_State \<Rightarrow> (int \<times> lua_State) res" where
  "nil_results 0 res L = Inr (res, L)"
| "nil_results (Suc k) res L = bindR (setslot res LNil L) (nil_results k (res + 1))"

definition luaD_poscall :: "int \<Rightarrow> int \<Rightarrow> lua_State \<Rightarrow> lua_State res" where
  "luaD_poscall wanted firstResult L = (case tl (fr_ci (fr L)) of
     [] \<Rightarrow> Inl OutOfBounds
   | ci # cis \<Rightarrow>
       (let res = int (base_of L) - 1;
            L = modFr (\<lambda>F. F\<lparr>fr_ci := ci # cis, fr_base := ci_base ci\<rparr>) L
        in bindR (move_results (nat (int (top_of L) - firstResult)) wanted res firstResult L) (\<lambda>(wanted, res, L).
           bindR (nil_results (nat wanted) res L) (\<lambda>(res, L). Inr (set_top (nat res) L)))))"

section \<open>Calls\<close>

definition luaD_call ::
  "cfunctions \<Rightarrow> caller \<Rightarrow> (lua_State \<Rightarrow> (int \<times> lua_State) res) \<Rightarrow> int \<Rightarrow> int \<Rightarrow> lua_State \<Rightarrow> lua_State res" where
  "luaD_call cfuns call execute func nResults L =
    (let L = modFr (\<lambda>F. F\<lparr>fr_nCcalls := fr_nCcalls F + 1\<rparr>) L; n = fr_nCcalls (fr L)
     in if n = LUA_MAXCCALLS then luaG_runerror ''C stack overflow''
        else if LUA_MAXCCALLS + drop_bit 3 LUA_MAXCCALLS \<le> n then Inl ErrErr
        else
          bindR (luaD_precall cfuns call func L) (\<lambda>(r, L).
          bindR (case r of Some first \<Rightarrow> Inr (first, L) | None \<Rightarrow> execute L) (\<lambda>(first, L).
          bindR (luaD_poscall nResults first L) (\<lambda>L.
            Inr (modFr (\<lambda>F. F\<lparr>fr_nCcalls := fr_nCcalls F - 1\<rparr>) L)))))"

text \<open>
  A call from C code or for a tag method: function and arguments go on top of the stack, the results come
  off it again.
\<close>

fun push_values :: "TObject list \<Rightarrow> lua_State \<Rightarrow> lua_State res" where
  "push_values [] L = Inr L"
| "push_values (v # vs) L = bindR (setslot (int (top_of L)) v L) (\<lambda>L. push_values vs (set_top (top_of L + 1) L))"

definition in_C :: "lua_State \<Rightarrow> bool" where
  "in_C L = (case getslot (int (base_of L) - 1) L of
     Inr (LFunction a) \<Rightarrow> (case fr_funcs (fr L) a of CClosure n us \<Rightarrow> True | _ \<Rightarrow> False)
   | _ \<Rightarrow> False)"

text \<open>The upvalues of the C function that runs, read again after a call.\<close>

definition own_upvals :: "lua_State \<Rightarrow> TObject list \<Rightarrow> TObject list" where
  "own_upvals L us = (case getslot (int (base_of L) - 1) L of
     Inr (LFunction a) \<Rightarrow> (case fr_funcs (fr L) a of CClosure n vs \<Rightarrow> vs | _ \<Rightarrow> us)
   | _ \<Rightarrow> us)"

definition caller_of :: "(int \<Rightarrow> int \<Rightarrow> lua_State \<Rightarrow> lua_State res) \<Rightarrow> caller" where
  "caller_of dcall f args n L =
    (let frame = stk L; us = upvals L
     in bindR (if in_C L then put_frame L else Inr L) (\<lambda>L.
        (let func = top_of L
         in bindR (luaD_checkstack (1 + length args) L) (\<lambda>L.
            bindR (push_values (f # args) L) (\<lambda>L.
            bindR (dcall (int func) (int n) L) (\<lambda>L.
            bindR (getslots func (top_of L - func) L) (\<lambda>rs.
              (let L = set_top func L
               in Inr (rs, L\<lparr>stk := frame, upvals := (if in_C L then own_upvals L us else us)\<rparr>)))))))))"

end
