(* ===== verification/Execute.thy ===== *)
theory Execute
  imports Calls
begin

text \<open>
  The interpreter loop (\<open>luaV_execute\<close> of \<open>lua/lvm.c\<close>).

  The \<open>pc\<close> of the running function is the \<open>savedpc\<close> of its \<open>CallInfo\<close>.  A step executes one instruction; it gives
  the position of the first result when the function returns to C.  The C code returns \<open>NULL\<close> when a run-time check
  fails, which \<open>luaD_poscall\<close> would read through; this is \<open>OutOfBounds\<close> here, like the use of a value of the
  wrong type.

  \<open>call\<close> is \<open>luaD_call\<close> for tag methods, \<open>dcall\<close> the same with positions in the stack.
\<close>

section \<open>Indexing\<close>

definition luaV_index :: "caller \<Rightarrow> addr \<Rightarrow> TObject \<Rightarrow> nat \<Rightarrow> lua_State \<Rightarrow> (TObject \<times> lua_State) res" where
  "luaV_index call h key loop L =
    bindR (fasttm (metatable (tabs L h)) TM_INDEX L) (\<lambda>(tm, L). case tm of
        None \<Rightarrow> Inr (LNil, L)
      | Some tm \<Rightarrow>
          if ttisfunction tm then callTMres call tm (LTable h) key L else luaV_gettable call tm key loop L)"

definition luaV_getnotable :: "caller \<Rightarrow> TObject \<Rightarrow> TObject \<Rightarrow> nat \<Rightarrow> lua_State \<Rightarrow> (TObject \<times> lua_State) res" where
  "luaV_getnotable call t key loop L =
    bindR (luaT_gettmbyobj t TM_INDEX L) (\<lambda>tm.
      if tm = LNil then luaG_typeerror t ''index''
      else if ttisfunction tm then callTMres call tm t key L
      else luaV_gettable call tm key loop L)"

text \<open>A read of a table: the raw value if there is one.  \<open>raw\<close> is \<open>luaH_get\<close> or \<open>luaH_getstr\<close>.\<close>

definition index_table :: "caller \<Rightarrow> (Table \<Rightarrow> slot res) \<Rightarrow> addr \<Rightarrow> TObject \<Rightarrow> lua_State \<Rightarrow> (TObject \<times> lua_State) res" where
  "index_table call raw h key L =
    bindR (raw (tabs L h)) (\<lambda>p.
      if slot_get (tabs L h) p \<noteq> LNil then Inr (slot_get (tabs L h) p, L) else luaV_index call h key 0 L)"

section \<open>Operands\<close>

fun konst_value :: "Konst \<Rightarrow> TObject res" where
  "konst_value KNil = Inr LNil"
| "konst_value (KNumber n) = Inr (LNumber n)"
| "konst_value (KString (Some s)) = Inr (LString s)"
| "konst_value (KString None) = Inl OutOfBounds"

definition konst :: "Proto \<Rightarrow> int \<Rightarrow> TObject res" where
  "konst p i = (if 0 \<le> i \<and> i < sizek p then konst_value (f_k p ! nat i) else Inl OutOfBounds)"

definition reg :: "int \<Rightarrow> lua_State \<Rightarrow> TObject res" where
  "reg i L = getslot (int (base_of L) + i) L"

definition set_reg :: "int \<Rightarrow> TObject \<Rightarrow> lua_State \<Rightarrow> lua_State res" where
  "set_reg i v L = setslot (int (base_of L) + i) v L"

text \<open>\<open>RKB\<close> and \<open>RKC\<close>: a register or a constant.\<close>

definition RK :: "Proto \<Rightarrow> int \<Rightarrow> lua_State \<Rightarrow> TObject res" where
  "RK p i L = (if i < MAXSTACK then reg i L else konst p (i - MAXSTACK))"

definition current_ci :: "lua_State \<Rightarrow> CallInfo res" where
  "current_ci L = (case fr_ci (fr L) of [] \<Rightarrow> Inl OutOfBounds | ci # _ \<Rightarrow> Inr ci)"

definition mod_ci :: "(CallInfo \<Rightarrow> CallInfo) \<Rightarrow> lua_State \<Rightarrow> lua_State" where
  "mod_ci f = modFr (\<lambda>F. F\<lparr>fr_ci := (case fr_ci F of [] \<Rightarrow> [] | ci # cis \<Rightarrow> f ci # cis)\<rparr>)"

definition dojump :: "int \<Rightarrow> lua_State \<Rightarrow> lua_State" where
  "dojump i = mod_ci (\<lambda>ci. ci\<lparr>savedpc := savedpc ci + i\<rparr>)"

text \<open>The Lua function whose frame has this base.\<close>

definition function_at :: "nat \<Rightarrow> lua_State \<Rightarrow> (Proto \<times> TObject \<times> addr list) res" where
  "function_at base L =
    bindR (getslot (int base - 1) L) (\<lambda>f. case f of
        LFunction a \<Rightarrow> (case fr_funcs (fr L) a of LClosure p g us \<Rightarrow> Inr (p, g, us) | _ \<Rightarrow> Inl OutOfBounds)
      | _ \<Rightarrow> Inl OutOfBounds)"

text \<open>The instruction at \<open>*pc\<close>, and the jump it makes for a test: \<open>pc\<close> is behind the test.\<close>

definition next_instr :: "Proto \<Rightarrow> lua_State \<Rightarrow> Instruction res" where
  "next_instr p L = bindR (current_ci L) (\<lambda>ci. code_at p (savedpc ci))"

definition test_jump :: "Proto \<Rightarrow> bool \<Rightarrow> lua_State \<Rightarrow> lua_State res" where
  "test_jump p skip L =
    (if skip then Inr (dojump 1 L)
     else bindR (next_instr p L) (\<lambda>j. Inr (dojump (GETARG_sBx j + 1) L)))"

section \<open>Instructions\<close>

fun loadnil_loop :: "nat \<Rightarrow> int \<Rightarrow> lua_State \<Rightarrow> lua_State res" where
  "loadnil_loop 0 rb L = set_reg rb LNil L"
| "loadnil_loop (Suc n) rb L = bindR (set_reg rb LNil L) (loadnil_loop n (rb - 1))"

definition upval_at :: "addr list \<Rightarrow> int \<Rightarrow> addr res" where
  "upval_at us b = (if 0 \<le> b \<and> b < int (length us) then Inr (us ! nat b) else Inl OutOfBounds)"

definition exec_load :: "Proto \<Rightarrow> addr list \<Rightarrow> OpCode \<Rightarrow> Instruction \<Rightarrow> lua_State \<Rightarrow> lua_State res" where
  "exec_load p us opc i L = (case opc of
     OP_MOVE \<Rightarrow> bindR (reg (GETARG_B i) L) (\<lambda>v. set_reg (GETARG_A i) v L)
   | OP_LOADK \<Rightarrow> bindR (konst p (GETARG_Bx i)) (\<lambda>v. set_reg (GETARG_A i) v L)
   | OP_LOADBOOL \<Rightarrow>
       bindR (set_reg (GETARG_A i) (LBoolean (GETARG_B i)) L) (\<lambda>L.
         Inr (if GETARG_C i \<noteq> 0 then dojump 1 L else L))
   | OP_LOADNIL \<Rightarrow> loadnil_loop (nat (GETARG_B i - GETARG_A i)) (GETARG_B i) L
   | OP_GETUPVAL \<Rightarrow>
       bindR (upval_at us (GETARG_B i)) (\<lambda>u. bindR (get_upval u (fr L)) (\<lambda>v. set_reg (GETARG_A i) v L))
   | OP_SETUPVAL \<Rightarrow>
       bindR (upval_at us (GETARG_B i)) (\<lambda>u. bindR (reg (GETARG_A i) L) (\<lambda>v. onF (set_upval u v) L))
   | _ \<Rightarrow> Inl OutOfBounds)"

text \<open>The variables of a program and the fields of tables; the global table \<open>g\<close> is that of the closure.\<close>

definition exec_index :: "caller \<Rightarrow> Proto \<Rightarrow> TObject \<Rightarrow> OpCode \<Rightarrow> Instruction \<Rightarrow> lua_State \<Rightarrow> lua_State res" where
  "exec_index call p g opc i L = (case opc of
     OP_GETGLOBAL \<Rightarrow>
       bindR (konst p (GETARG_Bx i)) (\<lambda>k. case (g, k) of
           (LTable h, LString s) \<Rightarrow>
             bindR (index_table call (\<lambda>t. luaH_getstr t s) h k L) (\<lambda>(v, L). set_reg (GETARG_A i) v L)
         | _ \<Rightarrow> Inl OutOfBounds)
   | OP_SETGLOBAL \<Rightarrow>
       bindR (konst p (GETARG_Bx i)) (\<lambda>k.
       bindR (reg (GETARG_A i) L) (\<lambda>v. luaV_settable call g k v L))
   | OP_GETTABLE \<Rightarrow>
       bindR (reg (GETARG_B i) L) (\<lambda>b.
       bindR (RK p (GETARG_C i) L) (\<lambda>c.
       bindR (case b of LTable h \<Rightarrow> index_table call (\<lambda>t. luaH_get t c) h c L | _ \<Rightarrow> luaV_getnotable call b c 0 L)
         (\<lambda>(v, L). set_reg (GETARG_A i) v L)))
   | OP_SETTABLE \<Rightarrow>
       bindR (reg (GETARG_A i) L) (\<lambda>a.
       bindR (RK p (GETARG_B i) L) (\<lambda>b.
       bindR (RK p (GETARG_C i) L) (\<lambda>c. luaV_settable call a b c L)))
   | OP_SELF \<Rightarrow>
       bindR (reg (GETARG_B i) L) (\<lambda>b.
       bindR (RK p (GETARG_C i) L) (\<lambda>c.
         if \<not> ttisstring c then Inl OutOfBounds
         else
           bindR (set_reg (GETARG_A i + 1) b L) (\<lambda>L.
           bindR (reg (GETARG_B i) L) (\<lambda>b.
           bindR (RK p (GETARG_C i) L) (\<lambda>c.
           bindR (case b of
                LTable h \<Rightarrow>
                  (case c of LString s \<Rightarrow> index_table call (\<lambda>t. luaH_getstr t s) h c L | _ \<Rightarrow> Inl OutOfBounds)
              | _ \<Rightarrow> luaV_getnotable call b c 0 L)
             (\<lambda>(v, L). set_reg (GETARG_A i) v L))))))
   | _ \<Rightarrow> Inl OutOfBounds)"

definition exec_newtable :: "Instruction \<Rightarrow> lua_State \<Rightarrow> lua_State res" where
  "exec_newtable i L =
    bindR (luaH_new (defaultmeta L) (fb2int (nat (GETARG_B i))) (nat (GETARG_C i))) (\<lambda>t.
      (case new_table t L of (a, L) \<Rightarrow> set_reg (GETARG_A i) (LTable a) L))"

fun arith_tm :: "OpCode \<Rightarrow> TMS" where
  "arith_tm OP_ADD = TM_ADD"
| "arith_tm OP_SUB = TM_SUB"
| "arith_tm OP_MUL = TM_MUL"
| "arith_tm OP_DIV = TM_DIV"
| "arith_tm _ = TM_POW"

text \<open>Two numbers are computed at once, except by \<open>OP_POW\<close>.\<close>

definition exec_arith :: "caller \<Rightarrow> Proto \<Rightarrow> OpCode \<Rightarrow> Instruction \<Rightarrow> lua_State \<Rightarrow> lua_State res" where
  "exec_arith call p opc i L =
    bindR (RK p (GETARG_B i) L) (\<lambda>b.
    bindR (RK p (GETARG_C i) L) (\<lambda>c.
    bindR (case (b, c, opc) of
         (LNumber x, LNumber y, OP_ADD) \<Rightarrow> Inr (LNumber (num_add x y), L)
       | (LNumber x, LNumber y, OP_SUB) \<Rightarrow> Inr (LNumber (num_sub x y), L)
       | (LNumber x, LNumber y, OP_MUL) \<Rightarrow> Inr (LNumber (num_mul x y), L)
       | (LNumber x, LNumber y, OP_DIV) \<Rightarrow> Inr (LNumber (num_div x y), L)
       | _ \<Rightarrow> Arith call b c (arith_tm opc) L)
      (\<lambda>(v, L). set_reg (GETARG_A i) v L)))"

definition exec_unary :: "caller \<Rightarrow> OpCode \<Rightarrow> Instruction \<Rightarrow> lua_State \<Rightarrow> lua_State res" where
  "exec_unary call opc i L =
    bindR (reg (GETARG_B i) L) (\<lambda>b.
      if opc = OP_NOT then set_reg (GETARG_A i) (LBoolean (if l_isfalse b then 1 else 0)) L
      else case luaV_tonumber b of
          Some n \<Rightarrow> set_reg (GETARG_A i) (LNumber (num_neg n)) L
        | None \<Rightarrow>
            bindR (call_binTM call b LNil TM_UNM L) (\<lambda>(r, L). case r of
                Some v \<Rightarrow> set_reg (GETARG_A i) v L
              | None \<Rightarrow> luaG_aritherror b LNil))"

text \<open>
  The result of \<open>luaV_concat\<close> is in the first of the registers; the others hold what the C code has left there,
  which no compiled code reads.
\<close>

definition exec_concat :: "caller \<Rightarrow> Instruction \<Rightarrow> lua_State \<Rightarrow> lua_State res" where
  "exec_concat call i L =
    (let b = GETARG_B i; c = GETARG_C i
     in bindR (getslots (nat (int (base_of L) + b)) (nat (c - b + 1)) L) (\<lambda>vs.
        bindR (luaV_concat call (rev vs) L) (\<lambda>(v, L).
        bindR (set_reg b v L) (set_reg (GETARG_A i) v))))"

section \<open>Tests and loops\<close>

definition exec_compare :: "caller \<Rightarrow> Proto \<Rightarrow> OpCode \<Rightarrow> Instruction \<Rightarrow> lua_State \<Rightarrow> lua_State res" where
  "exec_compare call p opc i L =
    bindR (RK p (GETARG_B i) L) (\<lambda>b.
    bindR (RK p (GETARG_C i) L) (\<lambda>c.
    bindR (if opc = OP_EQ then equalobj call b c L
           else if opc = OP_LT then luaV_lessthan call b c L
           else luaV_lessequal call b c L)
      (\<lambda>(r, L). test_jump p ((if r then 1 else 0) \<noteq> GETARG_A i) L)))"

definition exec_test :: "Proto \<Rightarrow> Instruction \<Rightarrow> lua_State \<Rightarrow> lua_State res" where
  "exec_test p i L =
    bindR (reg (GETARG_B i) L) (\<lambda>b.
      if (if l_isfalse b then 1 else 0) = GETARG_C i then test_jump p True L
      else bindR (set_reg (GETARG_A i) b L) (test_jump p False))"

text \<open>\<open>tonumber\<close> on a register: a string is converted in place.\<close>

definition reg_tonumber :: "int \<Rightarrow> string \<Rightarrow> lua_State \<Rightarrow> (lua_Number \<times> lua_State) res" where
  "reg_tonumber i msg L =
    bindR (reg i L) (\<lambda>v. case luaV_tonumber v of
        None \<Rightarrow> luaG_runerror msg
      | Some n \<Rightarrow> bindR (set_reg i (LNumber n) L) (\<lambda>L. Inr (n, L)))"

definition exec_forloop :: "Instruction \<Rightarrow> lua_State \<Rightarrow> lua_State res" where
  "exec_forloop i L =
    (let ra = GETARG_A i
     in bindR (reg ra L) (\<lambda>v. case v of
          LNumber n \<Rightarrow>
            bindR (reg_tonumber (ra + 1) (''`for'' @ [CHR 0x27] @ '' limit must be a number'') L) (\<lambda>(limit, L).
            bindR (reg_tonumber (ra + 2) (''`for'' @ [CHR 0x27] @ '' step must be a number'') L) (\<lambda>(step, L).
              (let idx = num_add n step
               in if (if num_lt (num_of_int 0) step then num_le idx limit else num_le limit idx)
                  then set_reg ra (LNumber idx) (dojump (GETARG_sBx i) L)
                  else Inr L)))
        | _ \<Rightarrow> luaG_runerror (''`for'' @ [CHR 0x27] @ '' initial value must be a number'')))"

text \<open>The results of the iterator move down to the loop variables, the last one first.\<close>

fun move_loopvars :: "nat \<Rightarrow> int \<Rightarrow> int \<Rightarrow> lua_State \<Rightarrow> lua_State res" where
  "move_loopvars 0 ra cb L = Inr L"
| "move_loopvars (Suc n) ra cb L =
    bindR (reg (cb + int n) L) (\<lambda>v. bindR (set_reg (ra + int n) v L) (move_loopvars n ra cb))"

definition exec_tforloop ::
  "(int \<Rightarrow> int \<Rightarrow> lua_State \<Rightarrow> lua_State res) \<Rightarrow> Proto \<Rightarrow> Instruction \<Rightarrow> lua_State \<Rightarrow> lua_State res" where
  "exec_tforloop dcall p i L =
    (let nvar = GETARG_C i + 1; ra = GETARG_A i; cb = ra + nvar + 2
     in bindR (reg ra L) (\<lambda>v. bindR (set_reg cb v L) (\<lambda>L.
        bindR (reg (ra + 1) L) (\<lambda>v. bindR (set_reg (cb + 1) v L) (\<lambda>L.
        bindR (reg (ra + 2) L) (\<lambda>v. bindR (set_reg (cb + 2) v L) (\<lambda>L.
        bindR (dcall (int (base_of L) + cb) nvar (set_top (base_of L + nat (cb + 3)) L)) (\<lambda>L.
        bindR (current_ci L) (\<lambda>ci.
        bindR (move_loopvars (nat nvar) (ra + 2) (ra + 2 + nvar) (set_top (ci_top ci) L)) (\<lambda>L.
        bindR (reg (ra + 2) L) (\<lambda>v. test_jump p (v = LNil) L)))))))))))"

definition exec_tforprep :: "Instruction \<Rightarrow> lua_State \<Rightarrow> lua_State res" where
  "exec_tforprep i L =
    bindR (reg (GETARG_A i) L) (\<lambda>v.
    bindR (case v of
         LTable h \<Rightarrow>
           bindR (set_reg (GETARG_A i + 1) v L) (\<lambda>L. case l_gt L of
               LTable gt \<Rightarrow> bindR (getstr_val (tabs L gt) ''next'') (\<lambda>f. set_reg (GETARG_A i) f L)
             | _ \<Rightarrow> Inl OutOfBounds)
       | _ \<Rightarrow> Inr L)
      (\<lambda>L. Inr (dojump (GETARG_sBx i) L)))"

section \<open>Tables and closures\<close>

fun setlist_loop :: "nat \<Rightarrow> addr \<Rightarrow> int \<Rightarrow> int \<Rightarrow> lua_State \<Rightarrow> lua_State res" where
  "setlist_loop 0 h bc ra L = Inr L"
| "setlist_loop (Suc n) h bc ra L =
    bindR (luaH_setnum (tabs L h) (bc + int (Suc n))) (\<lambda>(t, s).
    bindR (reg (ra + int (Suc n)) L) (\<lambda>v. setlist_loop n h bc ra (set_table h (slot_set t s v) L)))"

definition exec_setlist :: "OpCode \<Rightarrow> Instruction \<Rightarrow> lua_State \<Rightarrow> lua_State res" where
  "exec_setlist opc i L =
    (let ra = GETARG_A i; bc = GETARG_Bx i
     in bindR (reg ra L) (\<lambda>v. case v of
          LTable h \<Rightarrow>
            bindR (if opc = OP_SETLIST then Inr ((bc AND (LFIELDS_PER_FLUSH - 1)) + 1, L)
                   else bindR (current_ci L) (\<lambda>ci.
                     Inr (int (top_of L) - (int (base_of L) + ra) - 1, set_top (ci_top ci) L)))
              (\<lambda>(n, L). setlist_loop (nat n) h (bc AND NOT (LFIELDS_PER_FLUSH - 1)) ra L)
        | _ \<Rightarrow> Inl OutOfBounds))"

text \<open>The pseudo-instructions behind \<open>OP_CLOSURE\<close>; the result is the upvalues.\<close>

fun closure_loop :: "nat \<Rightarrow> Proto \<Rightarrow> addr list \<Rightarrow> lua_State \<Rightarrow> (addr list \<times> lua_State) res" where
  "closure_loop 0 p us L = Inr ([], L)"
| "closure_loop (Suc n) p us L =
    bindR (next_instr p L) (\<lambda>i.
    bindR (if GET_OPCODE i = op_num OP_GETUPVAL then bindR (upval_at us (GETARG_B i)) (\<lambda>u. Inr (u, L))
           else
             bindR (luaF_findupval (nat (int (base_of L) + GETARG_B i)) (fr L)) (\<lambda>(u, F). Inr (u, L\<lparr>fr := F\<rparr>)))
      (\<lambda>(u, L). bindR (closure_loop n p us (dojump 1 L)) (\<lambda>(vs, L). Inr (u # vs, L))))"

definition exec_closure :: "Proto \<Rightarrow> TObject \<Rightarrow> addr list \<Rightarrow> Instruction \<Rightarrow> lua_State \<Rightarrow> lua_State res" where
  "exec_closure p g us i L =
    (let b = GETARG_Bx i
     in if 0 \<le> b \<and> b < int (length (f_p p)) then
          (let np = f_p p ! nat b
           in bindR (closure_loop (unat (f_nups np)) p us L) (\<lambda>(vs, L).
                (case luaF_newLclosure np g vs (fr L) of (a, F) \<Rightarrow>
                   set_reg (GETARG_A i) (LFunction a) (L\<lparr>fr := F\<rparr>))))
        else Inl OutOfBounds)"

section \<open>Calls and returns\<close>

text \<open>A tail call moves the new frame down to the place of the old one.\<close>

fun move_frame :: "nat \<Rightarrow> int \<Rightarrow> int \<Rightarrow> lua_State \<Rightarrow> lua_State res" where
  "move_frame 0 dest src L = Inr L"
| "move_frame (Suc n) dest src L =
    bindR (getslot src L) (\<lambda>v. bindR (setslot dest v L) (move_frame n (dest + 1) (src + 1)))"

definition tail_call :: "Instruction \<Rightarrow> lua_State \<Rightarrow> lua_State res" where
  "tail_call i L = (case fr_ci (fr L) of
     new # old # cis \<Rightarrow>
       (let base = ci_base old; ra = int base + GETARG_A i
        in bindR (if fr_openupval (fr L) \<noteq> [] then onF (luaF_close base) L else Inr L) (\<lambda>L.
             (let aux = nat (int (top_of L) - ra)
              in bindR (move_frame aux (int base - 1) ra L) (\<lambda>L.
                 (let old = old\<lparr>ci_top := base + aux, savedpc := savedpc new, tailcalls := tailcalls old + 1,
                                ci_calling := False\<rparr>
                  in Inr (modFr (\<lambda>F. F\<lparr>fr_ci := old # cis, fr_top := base + aux, fr_base := base\<rparr>) L))))))
   | _ \<Rightarrow> Inl OutOfBounds)"

definition exec_call ::
  "cfunctions \<Rightarrow> caller \<Rightarrow> OpCode \<Rightarrow> Instruction \<Rightarrow> lua_State \<Rightarrow> lua_State res" where
  "exec_call cfuns call opc i L =
    (let ra = int (base_of L) + GETARG_A i; b = GETARG_B i;
         L = (if b \<noteq> 0 then set_top (nat (ra + b)) L else L); nresults = GETARG_C i - 1
     in bindR (luaD_precall cfuns call ra L) (\<lambda>(r, L). case r of
          Some firstResult \<Rightarrow>
            bindR (luaD_poscall nresults firstResult L) (\<lambda>L.
              if 0 \<le> nresults then bindR (current_ci L) (\<lambda>ci. Inr (set_top (ci_top ci) L)) else Inr L)
        | None \<Rightarrow>
            if opc = OP_CALL then
              (case fr_ci (fr L) of
                 new # old # cis \<Rightarrow> Inr (modFr (\<lambda>F. F\<lparr>fr_ci := new # old\<lparr>ci_calling := True\<rparr> # cis\<rparr>) L)
               | _ \<Rightarrow> Inl OutOfBounds)
            else tail_call i L))"

text \<open>\<open>Some\<close> position of the first result when the function was called from C.\<close>

definition exec_return :: "Instruction \<Rightarrow> lua_State \<Rightarrow> (int option \<times> lua_State) res" where
  "exec_return i L =
    (let ra = int (base_of L) + GETARG_A i; b = GETARG_B i;
         L = (if b \<noteq> 0 then set_top (nat (ra + b - 1)) L else L)
     in bindR (if fr_openupval (fr L) \<noteq> [] then onF (luaF_close (base_of L)) L else Inr L) (\<lambda>L.
          (case fr_ci (fr L) of
             me # ci # cis \<Rightarrow>
               if \<not> ci_calling ci then Inr (Some ra, L)
               else
                 bindR (function_at (ci_base ci) L) (\<lambda>(p, g, us).
                 bindR (code_at p (savedpc ci - 1)) (\<lambda>j.
                   (let nresults = GETARG_C j - 1
                    in bindR (luaD_poscall nresults ra L) (\<lambda>L.
                       bindR (current_ci L) (\<lambda>ci.
                         (let L = (if 0 \<le> nresults then set_top (ci_top ci) L else L)
                          in Inr (None, mod_ci (\<lambda>ci. ci\<lparr>ci_calling := False\<rparr>) L)))))))
           | _ \<Rightarrow> Inl OutOfBounds)))"

section \<open>The loop\<close>

definition exec_instr ::
  "cfunctions \<Rightarrow> (int \<Rightarrow> int \<Rightarrow> lua_State \<Rightarrow> lua_State res) \<Rightarrow> Proto \<Rightarrow> TObject \<Rightarrow> addr list \<Rightarrow> OpCode \<Rightarrow> Instruction \<Rightarrow>
     lua_State \<Rightarrow> (int option \<times> lua_State) res" where
  "exec_instr cfuns dcall p g us opc i L =
    (let call = caller_of dcall; go = (\<lambda>r. bindR r (\<lambda>L. Inr (None, L)))
     in if opc = OP_RETURN then exec_return i L
        else if opc \<in> {OP_MOVE, OP_LOADK, OP_LOADBOOL, OP_LOADNIL, OP_GETUPVAL, OP_SETUPVAL} then
          go (exec_load p us opc i L)
        else if opc \<in> {OP_GETGLOBAL, OP_SETGLOBAL, OP_GETTABLE, OP_SETTABLE, OP_SELF} then
          go (exec_index call p g opc i L)
        else if opc \<in> {OP_ADD, OP_SUB, OP_MUL, OP_DIV, OP_POW} then go (exec_arith call p opc i L)
        else if opc \<in> {OP_UNM, OP_NOT} then go (exec_unary call opc i L)
        else if opc \<in> {OP_EQ, OP_LT, OP_LE} then go (exec_compare call p opc i L)
        else if opc \<in> {OP_CALL, OP_TAILCALL} then go (exec_call cfuns call opc i L)
        else if opc \<in> {OP_SETLIST, OP_SETLISTO} then go (exec_setlist opc i L)
        else go (case opc of
             OP_NEWTABLE \<Rightarrow> exec_newtable i L
           | OP_CONCAT \<Rightarrow> exec_concat call i L
           | OP_JMP \<Rightarrow> Inr (dojump (GETARG_sBx i) L)
           | OP_TEST \<Rightarrow> exec_test p i L
           | OP_FORLOOP \<Rightarrow> exec_forloop i L
           | OP_TFORLOOP \<Rightarrow> exec_tforloop dcall p i L
           | OP_TFORPREP \<Rightarrow> exec_tforprep i L
           | OP_CLOSE \<Rightarrow> (if 0 \<le> int (base_of L) + GETARG_A i
               then onF (luaF_close (nat (int (base_of L) + GETARG_A i))) L else Inl OutOfBounds)
           | _ \<Rightarrow> exec_closure p g us i L))"

text \<open>An opcode that is none does nothing: the \<open>switch\<close> has no default.\<close>

definition exec_step ::
  "cfunctions \<Rightarrow> (int \<Rightarrow> int \<Rightarrow> lua_State \<Rightarrow> lua_State res) \<Rightarrow> lua_State \<Rightarrow> (int option \<times> lua_State) res" where
  "exec_step cfuns dcall L =
    bindR (function_at (base_of L) L) (\<lambda>(p, g, us).
    bindR (next_instr p L) (\<lambda>i.
      (case op_of (GET_OPCODE i) of
         None \<Rightarrow> Inr (None, dojump 1 L)
       | Some opc \<Rightarrow> exec_instr cfuns dcall p g us opc i (dojump 1 L))))"

fun luaV_execute ::
  "nat \<Rightarrow> cfunctions \<Rightarrow> (int \<Rightarrow> int \<Rightarrow> lua_State \<Rightarrow> lua_State res) \<Rightarrow> lua_State \<Rightarrow> (int \<times> lua_State) res" where
  "luaV_execute 0 cfuns dcall L = Inl NoReturn"
| "luaV_execute (Suc n) cfuns dcall L =
    bindR (exec_step cfuns dcall L) (\<lambda>(r, L). case r of
        None \<Rightarrow> luaV_execute n cfuns dcall L
      | Some ra \<Rightarrow> Inr (ra, L))"

text \<open>
  \<open>luaD_call\<close> within \<open>d\<close> levels of C calls, each with at most \<open>n\<close> instructions; \<open>luaD_call\<close> itself stops at
  \<open>LUA_MAXCCALLS\<close> levels.
\<close>

fun luaD_call_at :: "nat \<Rightarrow> nat \<Rightarrow> cfunctions \<Rightarrow> int \<Rightarrow> int \<Rightarrow> lua_State \<Rightarrow> lua_State res" where
  "luaD_call_at 0 n cfuns func nresults L = Inl NoReturn"
| "luaD_call_at (Suc d) n cfuns func nresults L =
    (let dcall = luaD_call_at d n cfuns
     in luaD_call cfuns (caller_of dcall) (luaV_execute n cfuns dcall) func nresults L)"

end
