(* ===== verification/Running.thy ===== *)
theory Running
  imports Execute
begin

text \<open>What calls and instructions do to the stack.\<close>

section \<open>Returning\<close>

definition with_stack :: "lua_State \<Rightarrow> TObject list \<Rightarrow> lua_State" where
  "with_stack L st = modFr (\<lambda>F. F\<lparr>fr_stack := st\<rparr>) L"

abbreviation stack_of :: "lua_State \<Rightarrow> TObject list" where
  "stack_of L \<equiv> fr_stack (fr L)"

lemma with_stack_simps [simp]:
  "stack_of (with_stack L st) = st" "with_stack (with_stack L st) st' = with_stack L st'" "top_of (with_stack L st) = top_of L"
  "base_of (with_stack L st) = base_of L" "fr_ci (fr (with_stack L st)) = fr_ci (fr L)" "with_stack L (stack_of L) = L"
  by (simp_all add: with_stack_def modFr_def)

lemma slot_simps:
  "i < length (stack_of L) \<Longrightarrow> getslot (int i) L = Inr (stack_of L ! i)"
  "i < length (stack_of L) \<Longrightarrow> setslot (int i) v L = Inr (with_stack L ((stack_of L)[i := v]))"
  by (simp_all add: getslot_def setslot_def get_stack_def set_stack_def onF_def with_stack_def modFr_def)

text \<open>How many results are moved, of \<open>k\<close> there are.\<close>

definition moved_results :: "nat \<Rightarrow> int \<Rightarrow> nat" where
  "moved_results k wanted = (if wanted < 0 then k else min k (nat wanted))"

lemma move_results_spec:
  assumes "res \<le> first" "first + k \<le> length (stack_of L)"
  shows "move_results k wanted (int res) (int first) L =
    (let m = moved_results k wanted
     in Inr (wanted - int m, int (res + m),
          with_stack L (take res (stack_of L) @ take m (drop first (stack_of L)) @ drop (res + m) (stack_of L))))"
  using assms
proof (induction k arbitrary: wanted res first L)
  case 0
  then show ?case
    by (simp add: moved_results_def)
next
  case (Suc k)
  let ?st = "stack_of L"
  show ?case
  proof (cases "wanted = 0")
    case True
    then show ?thesis
      by (simp add: moved_results_def)
  next
    case False
    let ?st' = "?st[res := ?st ! first]"
    let ?m = "moved_results k (wanted - 1)"
    have m: "moved_results (Suc k) wanted = Suc ?m"
      using False by (auto simp: moved_results_def nat_diff_distrib)
    have len: "first < length ?st" "res < length ?st"
      using Suc.prems by simp_all
    have d: "drop (Suc first) ?st' = drop (Suc first) ?st"
      using Suc.prems(1) by simp
    have t: "take (Suc res) ?st' = take res ?st @ [?st ! first]"
      using len(2) by (simp add: take_Suc_conv_app_nth)
    have f: "take (Suc ?m) (drop first ?st) = ?st ! first # take ?m (drop (Suc first) ?st)"
      using len(1) by (metis Cons_nth_drop_Suc take_Suc_Cons)
    have step: "move_results (Suc k) wanted (int res) (int first) L =
        move_results k (wanted - 1) (int (Suc res)) (int (Suc first)) (with_stack L ?st')"
      using False len by (simp add: slot_simps algebra_simps)
    have len': "Suc first + k \<le> length (stack_of (with_stack L ?st'))"
      using Suc.prems(2) by simp
    have le: "Suc res \<le> Suc first"
      using Suc.prems(1) by simp
    show ?thesis
      unfolding step Suc.IH [OF le len'] m
      using t d f by (simp add: Let_def drop_update_cancel)
  qed
qed

lemma nil_results_spec:
  assumes "res + k \<le> length (stack_of L)"
  shows "nil_results k (int res) L =
    Inr (int (res + k), with_stack L (take res (stack_of L) @ replicate k LNil @ drop (res + k) (stack_of L)))"
  using assms
proof (induction k arbitrary: res L)
  case (Suc k)
  let ?st' = "(stack_of L)[res := LNil]"
  have len: "res < length (stack_of L)" "Suc res + k \<le> length (stack_of (with_stack L ?st'))"
    using Suc.prems by simp_all
  have "take (Suc res) ?st' = take res (stack_of L) @ [LNil]"
    using len(1) by (simp add: take_Suc_conv_app_nth)
  moreover have "nil_results (Suc k) (int res) L = nil_results k (int (Suc res)) (with_stack L ?st')"
    using len by (simp add: slot_simps algebra_simps)
  ultimately show ?case
    using Suc.IH [OF len(2)] by (simp add: drop_update_cancel)
qed simp

text \<open>The results as the caller gets them: cut off, or filled up with nil.\<close>

definition adjusted :: "int \<Rightarrow> TObject list \<Rightarrow> TObject list" where
  "adjusted wanted rs = (if wanted < 0 then rs else take (nat wanted) rs @ replicate (nat wanted - length rs) LNil)"

text \<open>
  C5: \<open>luaD_poscall\<close> leaves the function: the caller's frame is the current one again, and the results are in the
  place of the function, as many as are wanted: surplus ones are dropped, missing ones are nil.  The stack below and
  behind them does not change.
\<close>

theorem poscall_results:
  assumes "fr_ci (fr L) = me # ci # cis" "1 \<le> base_of L" "base_of L - 1 \<le> first" "first \<le> top_of L"
    "top_of L \<le> length (stack_of L)" "base_of L - 1 + nat wanted \<le> length (stack_of L)"
  shows "luaD_poscall wanted (int first) L =
    (let res = base_of L - 1; vs = adjusted wanted (take (top_of L - first) (drop first (stack_of L)))
     in Inr (L\<lparr>fr := (fr L)\<lparr>fr_ci := ci # cis, fr_base := ci_base ci, fr_top := res + length vs,
          fr_stack := take res (stack_of L) @ vs @ drop (res + length vs) (stack_of L)\<rparr>\<rparr>))"
proof -
  let ?st = "stack_of L" and ?res = "base_of L - 1"
  define k where "k = top_of L - first"
  define m where "m = moved_results k wanted"
  define L1 where "L1 = modFr (\<lambda>F. F\<lparr>fr_ci := ci # cis, fr_base := ci_base ci\<rparr>) L"
  define st1 where "st1 = take ?res ?st @ take m (drop first ?st) @ drop (?res + m) ?st"
  define n where "n = nat (wanted - int m)"
  have L1: "stack_of L1 = ?st" "top_of L1 = top_of L"
    by (simp_all add: L1_def modFr_def)
  have k: "nat (int (top_of L) - int first) = k" "first + k \<le> length ?st" "m \<le> k"
    using assms(4,5) by (auto simp: k_def m_def moved_results_def)
  have mv: "move_results k wanted (int ?res) (int first) L1 = Inr (wanted - int m, int (?res + m), with_stack L1 st1)"
    using move_results_spec [of ?res first k L1 wanted] assms(3) k(2) L1 by (simp add: Let_def m_def st1_def)
  have mn: "m + n = (if wanted < 0 then k else nat wanted)"
    unfolding m_def n_def moved_results_def min_def by (cases "wanted < 0"; cases "k \<le> nat wanted") (simp_all, linarith?)
  have "?res + (m + n) \<le> length ?st"
    unfolding mn using assms(3,6) k(2) by auto
  then have room: "?res + m + n \<le> length ?st"
    by (simp only: add.assoc)
  have len: "length st1 = length ?st" "length (take ?res ?st) = ?res" "length (take m (drop first ?st)) = m"
    using assms(3) k(2,3) room by (simp_all add: st1_def)
  have nl: "nil_results n (int (?res + m)) (with_stack L1 st1) =
      Inr (int (?res + m + n), with_stack L1 (take (?res + m) st1 @ replicate n LNil @ drop (?res + m + n) st1))"
    using nil_results_spec [of "?res + m" n "with_stack L1 st1"] len(1) room by simp
  have vs: "adjusted wanted (take k (drop first ?st)) = take m (drop first ?st) @ replicate n LNil"
    using k(2) by (auto simp: adjusted_def m_def n_def moved_results_def min_def)
  have "take (?res + m) st1 = take ?res ?st @ take m (drop first ?st)" "drop (?res + m + n) st1 = drop (?res + m + n) ?st"
    using len(2,3) by (simp_all add: st1_def add.commute)
  with nl have nl': "nil_results n (int (?res + m)) (with_stack L1 st1) = Inr (int (?res + m + n),
      with_stack L1 (take ?res ?st @ (take m (drop first ?st) @ replicate n LNil) @ drop (?res + m + n) ?st))"
    by simp
  have lvs: "length (take m (drop first ?st) @ replicate n LNil) = m + n"
    using len(3) by simp
  have res: "int (base_of L) - 1 = int ?res"
    using assms(2) by simp
  have "luaD_poscall wanted (int first) L =
      Inr (set_top (?res + m + n) (with_stack L1 (take ?res ?st @ (take m (drop first ?st) @ replicate n LNil) @ drop (?res + m + n) ?st)))"
    by (simp only: luaD_poscall_def assms(1) list.sel list.case Let_def res L1_def [symmetric] L1(2) k(1) mv bindR_simps
        prod.case n_def [symmetric] nl' nat_int)
  then show ?thesis
    unfolding Let_def k_def [symmetric] vs lvs by (simp add: L1_def with_stack_def set_top_def modFr_def add.assoc)
qed

text \<open>A Lua function that was called at the place 2 and returns the value at 3; its caller wants two results.\<close>

definition returning :: lua_State where
  "returning = empty_state\<lparr>fr := no_frames\<lparr>
     fr_stack := [LFunction 64, LNil, LFunction 128, LBoolean 1, LString ''old'', LString ''kept''], fr_base := 3, fr_top := 4,
     fr_ci := [\<lparr>ci_base = 3, ci_top = 5, ci_C = False, ci_calling = False, savedpc = 4, tailcalls = 0\<rparr>,
       \<lparr>ci_base = 1, ci_top = 6, ci_C = False, ci_calling = True, savedpc = 2, tailcalls = 0\<rparr>]\<rparr>\<rparr>"

lemma poscall_results_witness:
  "\<exists>L'. luaD_poscall 2 3 returning = Inr L' \<and> base_of L' = 1 \<and> top_of L' = 4 \<and>
     stack_of L' = [LFunction 64, LNil, LBoolean 1, LNil, LString ''old'', LString ''kept'']"
  using poscall_results [of returning, where first = 3 and wanted = 2]
  by (simp add: returning_def no_frames_def adjusted_def Let_def eval_nat_numeral)

section \<open>Fuel\<close>

lemma luaV_execute_more:
  "luaV_execute n cfuns dcall L = r \<Longrightarrow> r \<noteq> Inl NoReturn \<Longrightarrow> luaV_execute (n + k) cfuns dcall L = r"
proof (induction n arbitrary: L)
  case (Suc n)
  show ?case
  proof (cases "exec_step cfuns dcall L")
    case (Inr x)
    obtain o' L' where x: "x = (o', L')"
      by (cases x)
    show ?thesis
    proof (cases o')
      case None
      then have "luaV_execute n cfuns dcall L' = r"
        using Suc.prems(1) Inr x by simp
      from Suc.IH [OF this Suc.prems(2)] show ?thesis
        using Inr x None by simp
    qed (use Suc.prems(1) Inr x in simp)
  qed (use Suc.prems(1) in simp)
qed simp

text \<open>
  the number of steps that the interpreter loop is given decides only whether it ends: two runs that both end give
  the same result, or the same error.
\<close>

theorem execute_fuel:
  assumes "luaV_execute n cfuns dcall L \<noteq> Inl NoReturn" "luaV_execute m cfuns dcall L \<noteq> Inl NoReturn"
  shows "luaV_execute n cfuns dcall L = luaV_execute m cfuns dcall L"
proof (cases "n \<le> m")
  case True
  then show ?thesis
    using luaV_execute_more [OF refl assms(1), of "m - n"] by simp
next
  case False
  then show ?thesis
    using luaV_execute_more [OF refl assms(2), of "n - m"] by simp
qed

end
