(* ===== verification/SafeRun.thy ===== *)
theory SafeRun
  imports Running TagMethods
begin

text \<open>
  The interpreter loop on code that the checker of \<open>lua/ldebug.c\<close> accepts: an instruction that works on the
  registers of its function stays inside the stack, the constants, the upvalues and the code.
\<close>

section \<open>Results in bounds\<close>

definition in_bounds :: "'a res \<Rightarrow> ('a \<Rightarrow> bool) \<Rightarrow> bool" where
  "in_bounds r Q \<longleftrightarrow> (case r of Inl e \<Rightarrow> e \<noteq> OutOfBounds | Inr x \<Rightarrow> Q x)"

lemma in_bounds_simps [simp]:
  "in_bounds (Inl e) Q \<longleftrightarrow> e \<noteq> OutOfBounds" "in_bounds (Inr x) Q \<longleftrightarrow> Q x" "in_bounds (luaG_runerror msg) Q"
  by (simp_all add: in_bounds_def luaG_runerror_def)

lemma in_bounds_bind: "in_bounds m P \<Longrightarrow> (\<And>x. P x \<Longrightarrow> in_bounds (f x) Q) \<Longrightarrow> in_bounds (bindR m f) Q"
  by (cases m) simp_all

lemma in_bounds_Inr: "m = Inr x \<Longrightarrow> in_bounds (f x) Q \<Longrightarrow> in_bounds (bindR m f) Q"
  by simp

section \<open>A frame\<close>

definition frame_at :: "Proto \<Rightarrow> TObject \<Rightarrow> addr list \<Rightarrow> int \<Rightarrow> lua_State \<Rightarrow> bool" where
  "frame_at p g us pc L \<longleftrightarrow>
     function_at (base_of L) L = Inr (p, g, us) \<and> int (base_of L) + maxstack p \<le> int (length (stack_of L)) \<and>
     top_of L \<le> length (stack_of L) \<and> wf_upvals (fr L) \<and> (\<exists>ci cis. fr_ci (fr L) = ci # cis \<and> savedpc ci = pc) \<and> (\<forall>h. wf_table (tabs L h)) \<and>
     (\<exists>h. l_gt L = LTable h) \<and> (\<forall>a. uv_v (fr_upvs (fr L) a) \<noteq> Some (base_of L - 1))"

text \<open>What the checker does not see: the upvalues of the closure, and values that the language cannot make.\<close>

definition proto_ok :: "Proto \<Rightarrow> addr list \<Rightarrow> bool" where
  "proto_ok p us \<longleftrightarrow> unat (f_nups p) \<le> length us \<and> (\<forall>i \<in> set (f_code p). wf_instr i) \<and> KString None \<notin> set (f_k p)"

lemma function_at_cong:
  assumes "fr_funcs (fr L') = fr_funcs (fr L)" "getslot (int b - 1) L' = getslot (int b - 1) L"
  shows "function_at b L' = function_at b L"
  unfolding function_at_def assms ..

lemma function_at_stack:
  assumes "function_at b L = Inr f" "i \<noteq> b - 1" "fr_funcs (fr L') = fr_funcs (fr L)" "stack_of L' = (stack_of L)[i := v]"
  shows "function_at b L' = Inr f"
proof -
  have b: "0 \<le> int b - 1" "nat (int b - 1) < length (stack_of L)" "nat (int b - 1) \<noteq> i"
    using assms(1,2) by (auto simp: function_at_def getslot_def get_stack_def split: if_splits)
  then have "getslot (int b - 1) L' = getslot (int b - 1) L"
    using assms(4) by (simp add: getslot_def get_stack_def)
  with function_at_cong [OF assms(3)] assms(1) show ?thesis
    by simp
qed

lemma frame_set_stack:
  assumes "frame_at p g us pc L" "i \<noteq> base_of L - 1"
  shows "frame_at p g us pc (with_stack L ((stack_of L)[i := v]))"
  using assms function_at_stack [of "base_of L" L "(p, g, us)" i "with_stack L ((stack_of L)[i := v])" v]
  by (auto simp: frame_at_def wf_upvals_def with_stack_def modFr_def)

lemma frame_base: "frame_at p g us pc L \<Longrightarrow> 1 \<le> base_of L"
  by (cases "base_of L") (auto simp: frame_at_def function_at_def getslot_def)

lemma set_reg_ok:
  assumes "frame_at p g us pc L" "0 \<le> a" "a < maxstack p"
  obtains L' where "set_reg a v L = Inr L'" "frame_at p g us pc L'"
proof -
  have i: "int (base_of L) + a = int (base_of L + nat a)"
    using assms(2) by simp
  have "base_of L + nat a < length (stack_of L)"
    using assms by (auto simp: frame_at_def)
  then have "set_reg a v L = Inr (with_stack L ((stack_of L)[base_of L + nat a := v]))"
    unfolding set_reg_def i by (rule slot_simps)
  moreover have "base_of L + nat a \<noteq> base_of L - 1"
    using frame_base [OF assms(1)] by simp
  ultimately show thesis
    using that frame_set_stack [OF assms(1)] by blast
qed

lemma reg_ok:
  assumes "frame_at p g us pc L" "0 \<le> a" "a < maxstack p"
  obtains v where "reg a L = Inr v"
proof -
  have i: "int (base_of L) + a = int (base_of L + nat a)"
    using assms(2) by simp
  have "base_of L + nat a < length (stack_of L)"
    using assms by (auto simp: frame_at_def)
  then show thesis
    using that slot_simps(1) [of "base_of L + nat a" L] unfolding reg_def i by blast
qed

lemma konst_ok:
  assumes "proto_ok p us" "0 \<le> k" "k < sizek p"
  obtains v where "konst p k = Inr v"
proof -
  have "f_k p ! nat k \<in> set (f_k p)"
    using assms(2,3) by (intro nth_mem) simp
  then have "f_k p ! nat k \<noteq> KString None"
    using assms(1) by (auto simp: proto_ok_def)
  then have "\<exists>v. konst_value (f_k p ! nat k) = Inr v"
    by (cases "f_k p ! nat k" rule: konst_value.cases) auto
  then show thesis
    using that assms(2,3) by (auto simp: konst_def)
qed

lemma RK_ok:
  assumes "frame_at p g us pc L" "proto_ok p us" "0 \<le> x" "rk_ok p x"
  obtains v where "RK p x L = Inr v"
proof (cases "x < MAXSTACK")
  case True
  then have "RK p x L = reg x L" "x < maxstack p"
    using assms(4) by (simp_all add: RK_def rk_ok_def)
  then show thesis
    using that reg_ok [OF assms(1,3)] by metis
next
  case False
  then have "RK p x L = konst p (x - MAXSTACK)" "0 \<le> x - MAXSTACK" "x - MAXSTACK < sizek p"
    using assms(4) by (simp_all add: RK_def rk_ok_def)
  then show thesis
    using that konst_ok [OF assms(2)] by metis
qed

text \<open>What the frame is made of; the rest of the state may change.\<close>

lemma frame_cong:
  assumes "frame_at p g us pc L" "fr_funcs (fr L') = fr_funcs (fr L)" "stack_of L' = stack_of L" "base_of L' = base_of L"
    "top_of L' = top_of L" "wf_upvals (fr L')" "\<exists>ci cis. fr_ci (fr L') = ci # cis \<and> savedpc ci = pc'" "\<forall>h. wf_table (tabs L' h)" "l_gt L' = l_gt L"
    "\<forall>a. uv_v (fr_upvs (fr L') a) \<noteq> Some (base_of L - 1)"
  shows "frame_at p g us pc' L'"
  using assms function_at_cong [of L' L "base_of L"] by (simp add: frame_at_def getslot_def get_stack_def)

lemma frame_dojump:
  assumes "frame_at p g us pc L"
  shows "frame_at p g us (pc + i) (dojump i L)"
  by (rule frame_cong [OF assms]; use assms in \<open>auto simp: frame_at_def dojump_def mod_ci_def modFr_def wf_upvals_def\<close>)

section \<open>Tag methods\<close>

lemma frame_set_table:
  assumes "frame_at p g us pc L" "wf_table t"
  shows "frame_at p g us pc (set_table h t L)"
  by (rule frame_cong [OF assms(1)]; use assms in \<open>auto simp: frame_at_def set_table_def\<close>)

lemma getstr_ok: "frame_at p g us pc L \<Longrightarrow> \<exists>v. getstr_val (tabs L h) s = Inr v"
  using getstr_val_content by (auto simp: frame_at_def)

lemma gettmbyobj_ok: "frame_at p g us pc L \<Longrightarrow> \<exists>v. luaT_gettmbyobj x e L = Inr v"
  using getstr_ok by (cases x) (auto simp: luaT_gettmbyobj_def)

lemma fasttm_frame: "frame_at p g us pc L \<Longrightarrow> \<exists>r L'. fasttm h e L = Inr (r, L') \<and> frame_at p g us pc L'"
  using getstr_ok [of p g us pc L h "tmname e"] frame_set_table [of p g us pc L]
  by (auto simp: fasttm_def luaT_gettm_def Let_def frame_at_def)

text \<open>
  The value has no tag method of that name, as for numbers and strings.  Without one, an operation either works on
  the values themselves or is an error; nothing is called.
\<close>

definition no_tag_method :: "TMS \<Rightarrow> lua_State \<Rightarrow> TObject \<Rightarrow> bool" where
  "no_tag_method e L v \<longleftrightarrow> luaT_gettmbyobj v e L = Inr LNil"

lemma no_tag_method_simps [simp]: "no_tag_method e L (LString s)" "no_tag_method e L (LNumber n)" "no_tag_method e L LNil"
  by (simp_all add: no_tag_method_def luaT_gettmbyobj_def)

lemma binTM_none: "no_tag_method e L x \<Longrightarrow> no_tag_method e L y \<Longrightarrow> call_binTM call x y e L = Inr (None, L)"
  by (simp add: call_binTM_def no_tag_method_def ttisfunction_def)

lemma orderTM_none: "no_tag_method e L x \<Longrightarrow> call_orderTM call x y e L = Inr (None, L)"
  by (simp add: call_orderTM_def no_tag_method_def)

lemma errors_in_bounds [simp]:
  "in_bounds (luaG_typeerror x s) Q" "in_bounds (luaG_ordererror x y) Q" "in_bounds (luaG_aritherror x y) Q"
  "in_bounds (luaG_concaterror x y) Q"
  by (simp_all add: luaG_typeerror_def luaG_ordererror_def luaG_aritherror_def luaG_concaterror_def Let_def)

lemma compTM_none:
  assumes "frame_at p g us pc L" "getstr_val (tabs L m1) (tmname e) = Inr LNil"
  shows "\<exists>L'. get_compTM m1 m2 e L = Inr (None, L') \<and> frame_at p g us pc L'"
proof -
  have "\<exists>L'. fasttm m1 e L = Inr (None, L')"
    using assms(2) by (simp add: fasttm_def luaT_gettm_def Let_def)
  then obtain L' where "fasttm m1 e L = Inr (None, L')"
    by blast
  moreover from this have "frame_at p g us pc L'"
    using fasttm_frame [OF assms(1), of m1 e] by auto
  ultimately show ?thesis
    by (simp add: get_compTM_def)
qed

lemma equalobj_ok:
  assumes "frame_at p g us pc L" "no_tag_method TM_EQ L x"
  shows "in_bounds (equalobj call x y L) (\<lambda>(r, L'). frame_at p g us pc L')"
proof -
  have eq: "in_bounds (bindR (get_compTM m1 m2 TM_EQ L) (\<lambda>(tm, L). case tm of
      None \<Rightarrow> Inr (False, L)
    | Some f \<Rightarrow> bindR (callTMres call f x y L) (\<lambda>(r, L). Inr (\<not> l_isfalse r, L)))) (\<lambda>(r, L'). frame_at p g us pc L')"
    if "getstr_val (tabs L m1) (tmname TM_EQ) = Inr LNil" for m1 m2 x y
    using compTM_none [OF assms(1) that, of m2] by auto
  show ?thesis
    using eq assms by (cases x; cases y) (simp_all add: equalobj_def luaV_equalval_def Let_def no_tag_method_def luaT_gettmbyobj_def)
qed

lemma lessthan_ok:
  assumes "frame_at p g us pc L" "no_tag_method TM_LT L x"
  shows "in_bounds (luaV_lessthan call x y L) (\<lambda>(r, L'). frame_at p g us pc L')"
  using assms orderTM_none [OF assms(2)] by (cases x; cases y) (simp_all add: luaV_lessthan_def)

lemma lessequal_ok:
  assumes "frame_at p g us pc L" "no_tag_method TM_LE L x" "no_tag_method TM_LT L y"
  shows "in_bounds (luaV_lessequal call x y L) (\<lambda>(r, L'). frame_at p g us pc L')"
  using assms orderTM_none [OF assms(2)] orderTM_none [OF assms(3)]
  by (cases x; cases y) (simp_all add: luaV_lessequal_def)

lemma Arith_ok:
  assumes "frame_at p g us pc L" "e \<in> {TM_ADD, TM_SUB, TM_MUL, TM_DIV}" "no_tag_method e L x" "no_tag_method e L y"
  shows "in_bounds (Arith call x y e L) (\<lambda>(v, L'). frame_at p g us pc L')"
  using assms(1,2) binTM_none [OF assms(3,4)]
  by (cases "luaV_tonumber x"; cases "luaV_tonumber y") (auto simp: Arith_def)

lemma concat_ok:
  assumes "vs \<noteq> []" "list_all (no_tag_method TM_CONCAT L) vs"
  shows "in_bounds (luaV_concat call vs L) (\<lambda>(v, L'). L' = L)"
  using assms
proof (induction "length vs" arbitrary: vs rule: less_induct)
  case less
  consider x where "vs = [x]" | x y rest where "vs = x # y # rest"
    using less.prems(1) by (cases vs rule: remdups_adj.cases) auto
  then show ?case
  proof cases
    case 2
    have m: "in_bounds (bindR (call_binTM call p1 p2 TM_CONCAT L) (\<lambda>(r, L). case r of
        None \<Rightarrow> luaG_concaterror p1 p2 | Some v \<Rightarrow> luaV_concat call (v # rest) L)) (\<lambda>(v, L'). L' = L)"
      if "no_tag_method TM_CONCAT L p1" "no_tag_method TM_CONCAT L p2" for p1 p2
      by (simp add: binTM_none [OF that])
    have r: "in_bounds (luaV_concat call (LString s # drop n rest) L) (\<lambda>(v, L'). L' = L)" for s n
      using 2 less.prems(2) by (intro less.hyps) (auto simp: list_all_iff dest: in_set_dropD)
    from r [of _ 0] have r0: "in_bounds (luaV_concat call (LString s # rest) L) (\<lambda>(v, L'). L' = L)" for s
      by simp
    show ?thesis
      using m r r0 less.prems(2) unfolding 2 luaV_concat.simps(3) Let_def by (auto split: option.split)
  qed simp
qed

section \<open>What the checker has seen\<close>

lemma checked_step:
  assumes "luaG_checkcode p = Inr r" "r \<noteq> 0" "0 \<le> pc" "pc < sizecode p"
  obtains l s where "symbexec_step p (sizecode p) NO_REG pc l = Inr (Some s)"
proof -
  obtain i where i: "luaG_symbexec p (sizecode p) NO_REG = Inr i" "i \<noteq> 0"
  proof -
    obtain i where "luaG_symbexec p (sizecode p) NO_REG = Inr i" "r = int_of_ulong i"
      using assms(1) by (auto simp: luaG_checkcode_def bindR_eq_Inr)
    moreover from this assms(2) have "i \<noteq> 0"
      by (auto simp: int_of_ulong_def)
    ultimately show thesis
      using that by blast
  qed
  then have "symbexec_loop p (sizecode p) NO_REG 0 (sizecode p - 1) = Inr i"
    by (auto simp: luaG_symbexec_def bindR_eq_Inr split: if_splits)
  then show thesis
    using that symbexec_loop_steps i(2) assms(3,4) by blast
qed

lemma checked_instr:
  assumes "luaG_checkcode p = Inr r" "r \<noteq> 0" "0 \<le> pc" "pc < sizecode p"
    "op_of (GET_OPCODE (f_code p ! nat pc)) = Some opc"
  obtains l s where "GET_OPCODE (f_code p ! nat pc) = op_num opc"
    "check_opcode p (sizecode p) NO_REG pc l opc (GETARG_A (f_code p ! nat pc)) (arg_b opc (f_code p ! nat pc))
       (arg_c opc (f_code p ! nat pc)) = Inr (Some s)"
    "has_mode (op_num opc) OpModeT \<Longrightarrow>
      pc + 2 < sizecode p \<and> (\<exists>j. code_at p (pc + 1) = Inr j \<and> GET_OPCODE j = op_num OP_JMP)"
proof -
  let ?i = "f_code p ! nat pc"
  have n: "GET_OPCODE ?i = op_num opc"
    using op_num_of [OF assms(5)] by simp
  obtain l s where "symbexec_step p (sizecode p) NO_REG pc l = Inr (Some s)"
    using checked_step [OF assms(1-4)] .
  then obtain b c l' where bc: "check_operands p ?i (op_num opc) (mode_of opc) = Some (b, c)"
    "check_opcode p (sizecode p) NO_REG pc l' opc (GETARG_A ?i) b c = Inr (Some s)"
    "has_mode (op_num opc) OpModeT \<Longrightarrow>
      pc + 2 < sizecode p \<and> (\<exists>j. code_at p (pc + 1) = Inr j \<and> GET_OPCODE j = op_num OP_JMP)"
    using assms(3-5) n mode_table [of opc] by (elim symbexec_stepE) (auto simp: returns_code_at)
  show thesis
    using that [OF n _ bc(3)] bc(2) check_operandsD(1,2) [OF bc(1)] by simp
qed

lemma checked_test:
  assumes "luaG_checkcode p = Inr r" "r \<noteq> 0" "0 \<le> pc" "pc < sizecode p"
    "op_of (GET_OPCODE (f_code p ! nat pc)) = Some opc" "opc \<in> {OP_EQ, OP_LT, OP_LE, OP_TEST}"
  shows "pc + 2 < sizecode p" "op_of (GET_OPCODE (f_code p ! nat (pc + 1))) = Some OP_JMP"
proof -
  have "has_mode (op_num opc) OpModeT"
    using assms(6) t_table by blast
  then obtain j where j: "pc + 2 < sizecode p" "code_at p (pc + 1) = Inr j" "GET_OPCODE j = op_num OP_JMP"
    using checked_instr [OF assms(1-5)] by metis
  then have "f_code p ! nat (pc + 1) = j"
    using assms(3) by (simp add: returns_code_at)
  with j show "pc + 2 < sizecode p" "op_of (GET_OPCODE (f_code p ! nat (pc + 1))) = Some OP_JMP"
    by (simp_all add: op_of_num)
qed

lemma checked_concat:
  assumes "luaG_checkcode p = Inr r" "r \<noteq> 0" "0 \<le> pc" "pc < sizecode p"
    "op_of (GET_OPCODE (f_code p ! nat pc)) = Some OP_CONCAT"
  shows "GETARG_B (f_code p ! nat pc) < GETARG_C (f_code p ! nat pc)"
  by (rule checked_instr [OF assms]) (simp add: check_opcode_def require_eq arg_b_def arg_c_def mode_of_def)

section \<open>Instructions\<close>

text \<open>The function goes on, inside of its code.\<close>

definition goes :: "Proto \<Rightarrow> TObject \<Rightarrow> addr list \<Rightarrow> lua_State res \<Rightarrow> bool" where
  "goes p g us r \<longleftrightarrow> in_bounds r (\<lambda>L'. \<exists>pc'. 0 \<le> pc' \<and> pc' < sizecode p \<and> frame_at p g us pc' L')"

lemma goes_Inr: "frame_at p g us pc L \<Longrightarrow> 0 \<le> pc \<Longrightarrow> pc < sizecode p \<Longrightarrow> goes p g us (Inr L)"
  unfolding goes_def in_bounds_simps by (intro exI conjI)

lemma goes_error: "goes p g us (luaG_aritherror x y)"
  by (simp add: goes_def)

lemma goes_dojump:
  assumes "frame_at p g us pc L" "0 \<le> pc + i" "pc + i < sizecode p"
  shows "goes p g us (Inr (dojump i L))"
  using goes_Inr [OF frame_dojump [OF assms(1)] assms(2,3)] .

lemma goes_set_reg:
  assumes "frame_at p g us pc L" "0 \<le> pc" "pc < sizecode p" "0 \<le> a" "a < maxstack p"
  shows "goes p g us (set_reg a v L)"
proof -
  from set_reg_ok [OF assms(1,4,5), of v] obtain L' where L': "set_reg a v L = Inr L'" "frame_at p g us pc L'" .
  show ?thesis
    unfolding L'(1) using L'(2) assms(2,3) by (rule goes_Inr)
qed

lemma goes_bind:
  assumes "in_bounds m (\<lambda>(v, L'). frame_at p g us pc L')" "\<And>v L'. frame_at p g us pc L' \<Longrightarrow> goes p g us (f v L')"
  shows "goes p g us (bindR m (\<lambda>(v, L). f v L))"
  unfolding goes_def by (rule in_bounds_bind [OF assms(1)]) (use assms(2) in \<open>auto simp: goes_def\<close>)

lemma goes_store:
  assumes "in_bounds m (\<lambda>(v, L'). frame_at p g us pc L')" "0 \<le> pc" "pc < sizecode p" "0 \<le> a" "a < maxstack p"
  shows "goes p g us (bindR m (\<lambda>(v, L). set_reg a v L))"
  by (rule goes_bind [OF assms(1)]) (rule goes_set_reg [OF _ assms(2-5)])

lemma loadnil_ok:
  assumes "frame_at p g us pc L" "0 \<le> pc" "pc < sizecode p" "int n \<le> rb" "rb < maxstack p"
  shows "goes p g us (loadnil_loop n rb L)"
  using assms
proof (induction n arbitrary: rb L)
  case 0
  then show ?case
    using goes_set_reg by simp
next
  case (Suc n)
  have "0 \<le> rb"
    using Suc.prems(4) by simp
  from set_reg_ok [OF Suc.prems(1) this Suc.prems(5), of LNil] obtain L' where
    L': "set_reg rb LNil L = Inr L'" "frame_at p g us pc L'" .
  have "int n \<le> rb - 1" "rb - 1 < maxstack p"
    using Suc.prems(4,5) by simp_all
  from Suc.IH [OF L'(2) Suc.prems(2,3) this] L'(1) show ?case
    by simp
qed

lemma test_jump_ok:
  assumes "frame_at p g us pc L" "0 \<le> pc" "pc + 1 < sizecode p" "0 \<le> pc + 1 + GETARG_sBx (f_code p ! nat pc)"
    "pc + 1 + GETARG_sBx (f_code p ! nat pc) < sizecode p"
  shows "goes p g us (test_jump p skip L)"
proof (cases skip)
  case True
  then show ?thesis
    using goes_dojump [OF assms(1), of 1] assms(2,3) by (simp add: test_jump_def)
next
  case False
  have "next_instr p L = Inr (f_code p ! nat pc)"
    using assms(1-3) by (auto simp: next_instr_def current_ci_def frame_at_def returns_code_at)
  then show ?thesis
    using False goes_dojump [OF assms(1), of "GETARG_sBx (f_code p ! nat pc) + 1"] assms(4,5)
    by (simp add: test_jump_def algebra_simps)
qed

lemma upval_ok:
  assumes "frame_at p g us pc L" "proto_ok p us" "0 \<le> b" "b < uint (f_nups p)"
  obtains u v where "upval_at us b = Inr u" "get_upval u (fr L) = Inr v"
proof -
  have "unat (f_nups p) \<le> length us" "int (unat (f_nups p)) = uint (f_nups p)"
    using assms(2) by (simp_all add: proto_ok_def)
  then have b: "b < int (length us)"
    using assms(4) by linarith
  have "\<exists>v. get_upval (us ! nat b) (fr L) = Inr v"
  proof (cases "uv_v (fr_upvs (fr L) (us ! nat b))")
    case (Some i)
    have "\<forall>a i. uv_v (fr_upvs (fr L) a) = Some i \<longrightarrow> i < length (stack_of L)"
      using assms(1) unfolding frame_at_def wf_upvals_def by (elim conjE)
    with Some have "i < length (stack_of L)"
      by (elim allE impE)
    with Some show ?thesis
      by (simp add: get_upval_def get_stack_def)
  qed (simp add: get_upval_def)
  then obtain v where v: "get_upval (us ! nat b) (fr L) = Inr v" ..
  have "upval_at us b = Inr (us ! nat b)"
    using b assms(3) by (simp add: upval_at_def)
  then show thesis
    using v by (rule that)
qed

lemma wf_upvals_cong:
  assumes "wf_upvals F" "\<And>a. uv_v (fr_upvs F' a) = uv_v (fr_upvs F a)" "fr_openupval F' = fr_openupval F"
    "length (fr_stack F') = length (fr_stack F)"
  shows "wf_upvals F'"
proof -
  have "uv_level (fr_upvs F') = uv_level (fr_upvs F)"
    by (simp add: uv_level_def assms(2) fun_eq_iff)
  with assms show ?thesis
    by (simp add: wf_upvals_def open_list_def)
qed

lemma set_upval_ok:
  assumes "frame_at p g us pc L"
  obtains L' where "onF (set_upval u v) L = Inr L'" "frame_at p g us pc L'"
proof (cases "uv_v (fr_upvs (fr L) u)")
  case None
  let ?L = "L\<lparr>fr := (fr L)\<lparr>fr_upvs := (fr_upvs (fr L))(u := (fr_upvs (fr L) u)\<lparr>uv_value := v\<rparr>)\<rparr>\<rparr>"
  have "onF (set_upval u v) L = Inr ?L"
    using None by (simp add: onF_def set_upval_def)
  moreover have "frame_at p g us pc ?L"
  proof (rule frame_cong [OF assms])
    show "wf_upvals (fr ?L)"
      by (rule wf_upvals_cong [of "fr L"]) (use assms in \<open>simp_all add: frame_at_def\<close>)
  qed (use assms in \<open>simp_all add: frame_at_def\<close>)
  ultimately show thesis
    using that by blast
next
  case (Some i)
  have i: "i < length (stack_of L)" "i \<noteq> base_of L - 1"
    using assms Some by (auto simp: frame_at_def wf_upvals_def)
  then have "onF (set_upval u v) L = Inr (with_stack L ((stack_of L)[i := v]))"
    using Some by (simp add: onF_def set_upval_def set_stack_def with_stack_def modFr_def)
  moreover have "frame_at p g us pc (with_stack L ((stack_of L)[i := v]))"
    using assms i(2) by (rule frame_set_stack)
  ultimately show thesis
    using that by blast
qed

lemma close_ok:
  assumes "frame_at p g us pc L"
  obtains L' where "onF (luaF_close lv) L = Inr L'" "frame_at p g us pc L'"
proof -
  have F: "open_list (fr_upvs (fr L)) (fr_openupval (fr L))"
    "\<forall>a v. uv_v (fr_upvs (fr L) a) = Some v \<longrightarrow> v < length (stack_of L)"
    using assms by (simp_all add: frame_at_def wf_upvals_def)
  obtain us' qs where c: "close_loop lv (fr_openupval (fr L)) (fr L) = Inr ((fr L)\<lparr>fr_upvs := us', fr_openupval := qs\<rparr>)"
    "open_list us' qs" "\<And>a. uv_v (us' a) = below lv (uv_v (fr_upvs (fr L) a))"
    using close_loop_spec [OF F] by blast
  let ?L = "L\<lparr>fr := (fr L)\<lparr>fr_upvs := us', fr_openupval := qs\<rparr>\<rparr>"
  have "onF (luaF_close lv) L = Inr ?L"
    by (simp add: onF_def luaF_close_def c(1))
  moreover have b: "below lv x = Some v \<Longrightarrow> x = Some v" for x v
    by (auto simp: below_def split: option.splits if_splits)
  have "frame_at p g us pc ?L"
  proof (rule frame_cong [OF assms])
    show "wf_upvals (fr ?L)"
      using c(2) F(2) by (auto simp: wf_upvals_def c(3) dest: b)
  qed (use assms in \<open>auto simp: frame_at_def c(3) dest: b\<close>)
  ultimately show thesis
    using that by blast
qed

section \<open>Each group of instructions\<close>

text \<open>The operands of the instruction at \<open>pc\<close> are in bounds.\<close>

definition fits :: "Proto \<Rightarrow> int \<Rightarrow> OpCode \<Rightarrow> Instruction \<Rightarrow> bool" where
  "fits p pc opc i \<longleftrightarrow>
     (\<forall>r \<in> registers opc (GETARG_A i) (arg_b opc i) (arg_c opc i). 0 \<le> r \<and> r < maxstack p) \<and>
     (\<forall>x \<in> rk_operands opc (arg_b opc i) (arg_c opc i). 0 \<le> x \<and> rk_ok p x) \<and>
     (\<forall>k \<in> constants opc (arg_b opc i). 0 \<le> k \<and> k < sizek p) \<and>
     (opc \<in> {OP_GETUPVAL, OP_SETUPVAL} \<longrightarrow> 0 \<le> arg_b opc i \<and> arg_b opc i < uint (f_nups p)) \<and>
     (\<forall>t \<in> successors p pc opc (arg_b opc i) (arg_c opc i). 0 \<le> t \<and> t < sizecode p)"

lemma checked_fits:
  assumes "luaG_checkcode p = Inr r" "r \<noteq> 0" "0 \<le> pc" "pc < sizecode p" "proto_ok p us"
    "op_of (GET_OPCODE (f_code p ! nat pc)) = Some opc" "opc \<noteq> OP_TFORPREP"
  shows "fits p pc opc (f_code p ! nat pc)"
proof -
  have "wf_instr (f_code p ! nat pc)"
    using assms(3-5) by (simp add: proto_ok_def)
  with luaG_checkcode_safe [OF assms(1-4)] assms(6,7) show ?thesis
    unfolding safe_instr_def fits_def Let_def by simp
qed

lemmas operand_defs = registers_def rk_operands_def constants_def successors_def arg_b_def arg_c_def mode_of_def

lemma fits_reg: "fits p pc opc i \<Longrightarrow> x \<in> registers opc (GETARG_A i) (arg_b opc i) (arg_c opc i) \<Longrightarrow> 0 \<le> x" 
    "fits p pc opc i \<Longrightarrow> x \<in> registers opc (GETARG_A i) (arg_b opc i) (arg_c opc i) \<Longrightarrow> x < maxstack p"
  by (simp_all add: fits_def)

lemma fits_next: "fits p pc opc i \<Longrightarrow> t \<in> successors p pc opc (arg_b opc i) (arg_c opc i) \<Longrightarrow> 0 \<le> t \<and> t < sizecode p"
  by (simp add: fits_def)

text \<open>
  The values that the instruction works on, and the tag methods it looks for when they are not of the right type;
  \<open>untagged\<close> says that it finds none.  The instructions that are not named look for none.
\<close>

definition value_list :: "TObject res \<Rightarrow> TObject list" where
  "value_list r = (case r of Inl e \<Rightarrow> [] | Inr v \<Rightarrow> [v])"

definition operands :: "Proto \<Rightarrow> OpCode \<Rightarrow> Instruction \<Rightarrow> lua_State \<Rightarrow> TObject list" where
  "operands p opc i L =
    (if opc \<in> {OP_ADD, OP_SUB, OP_MUL, OP_DIV, OP_EQ, OP_LT, OP_LE} then
       value_list (RK p (GETARG_B i) L) @ value_list (RK p (GETARG_C i) L)
     else if opc = OP_UNM then value_list (reg (GETARG_B i) L)
     else if opc = OP_CONCAT then
       (case getslots (nat (int (base_of L) + GETARG_B i)) (nat (GETARG_C i - GETARG_B i + 1)) L of
          Inl e \<Rightarrow> [] | Inr vs \<Rightarrow> vs)
     else [])"

fun tag_events :: "OpCode \<Rightarrow> TMS list" where
  "tag_events OP_ADD = [TM_ADD]"
| "tag_events OP_SUB = [TM_SUB]"
| "tag_events OP_MUL = [TM_MUL]"
| "tag_events OP_DIV = [TM_DIV]"
| "tag_events OP_UNM = [TM_UNM]"
| "tag_events OP_CONCAT = [TM_CONCAT]"
| "tag_events OP_EQ = [TM_EQ]"
| "tag_events OP_LT = [TM_LT]"
| "tag_events OP_LE = [TM_LE, TM_LT]"
| "tag_events _ = []"

definition untagged :: "Proto \<Rightarrow> OpCode \<Rightarrow> Instruction \<Rightarrow> lua_State \<Rightarrow> bool" where
  "untagged p opc i L \<longleftrightarrow> list_all (\<lambda>e. list_all (no_tag_method e L) (operands p opc i L)) (tag_events opc)"

lemma untagged_dojump [simp]: "untagged p opc i (dojump k L) = untagged p opc i L"
proof -
  have s: "getslot x (dojump k L) = getslot x L" "base_of (dojump k L) = base_of L" "getslots n m (dojump k L) = getslots n m L" for x n m
    by (simp_all add: getslot_def get_stack_def getslots_def dojump_def mod_ci_def modFr_def)
  have "no_tag_method e (dojump k L) v = no_tag_method e L v" for e v
    by (cases v) (simp_all add: no_tag_method_def luaT_gettmbyobj_def dojump_def mod_ci_def modFr_def)
  then have "no_tag_method e (dojump k L) = no_tag_method e L" for e
    by blast
  then show ?thesis
    by (simp add: untagged_def operands_def RK_def reg_def s)
qed

lemma move_ok:
  assumes "frame_at p g us pc L" "0 \<le> pc" "pc < sizecode p" "0 \<le> a" "a < maxstack p" "0 \<le> b" "b < maxstack p"
  shows "goes p g us (bindR (reg b L) (\<lambda>v. set_reg a v L))"
proof -
  from reg_ok [OF assms(1,6,7)] obtain v where "reg b L = Inr v" .
  then show ?thesis
    using goes_set_reg [OF assms(1-5)] by simp
qed

lemma exec_load_ok:
  assumes "frame_at p g us (pc + 1) L" "fits p pc opc i" "proto_ok p us"
    "opc \<in> {OP_MOVE, OP_LOADK, OP_LOADBOOL, OP_LOADNIL, OP_GETUPVAL, OP_SETUPVAL}"
  shows "goes p g us (exec_load p us opc i L)"
proof -
  note F = assms(1) and ok = assms(2) [unfolded fits_def]
  consider "opc = OP_MOVE" | "opc = OP_LOADK" | "opc = OP_LOADBOOL" | "opc = OP_LOADNIL" | "opc = OP_GETUPVAL" | "opc = OP_SETUPVAL"
    using assms(4) by blast
  then show ?thesis
  proof cases
    case 1
    then show ?thesis
      using ok move_ok [OF F] by (simp add: exec_load_def operand_defs)
  next
    case 2
    then have k: "0 \<le> GETARG_Bx i" "GETARG_Bx i < sizek p"
      using ok by (simp_all add: operand_defs)
    from konst_ok [OF assms(3) k] obtain v where "konst p (GETARG_Bx i) = Inr v" .
    then show ?thesis
      using 2 ok goes_set_reg [OF F] by (simp add: exec_load_def operand_defs)
  next
    case 3
    then have a: "0 \<le> GETARG_A i" "GETARG_A i < maxstack p"
      using ok by (simp_all add: operand_defs)
    from set_reg_ok [OF F a] obtain L' where L': "set_reg (GETARG_A i) (LBoolean (GETARG_B i)) L = Inr L'" "frame_at p g us (pc + 1) L'" .
    then show ?thesis
      using 3 ok goes_Inr [OF L'(2)] goes_dojump [OF L'(2), of 1]
      by (cases "GETARG_C i = 0") (simp_all add: exec_load_def operand_defs add.assoc)
  next
    case 4
    let ?n = "nat (GETARG_B i - GETARG_A i)"
    from 4 have "0 \<le> GETARG_B i" "GETARG_B i < maxstack p" "0 \<le> pc + 1" "pc + 1 < sizecode p"
      "GETARG_A i \<le> GETARG_B i \<Longrightarrow> 0 \<le> GETARG_A i"
      using ok by (simp_all add: operand_defs)
    moreover from this have "int ?n \<le> GETARG_B i"
      by (cases "GETARG_A i \<le> GETARG_B i") simp_all
    ultimately show ?thesis
      using 4 loadnil_ok [OF F] by (simp add: exec_load_def)
  next
    case 5
    then have b: "0 \<le> GETARG_B i" "GETARG_B i < uint (f_nups p)"
      using ok by (simp_all add: operand_defs)
    from upval_ok [OF F assms(3) b] obtain u v where "upval_at us (GETARG_B i) = Inr u" "get_upval u (fr L) = Inr v" .
    then show ?thesis
      using 5 ok goes_set_reg [OF F] by (simp add: exec_load_def operand_defs)
  next
    case 6
    then have b: "0 \<le> GETARG_B i" "GETARG_B i < uint (f_nups p)" and a: "0 \<le> GETARG_A i" "GETARG_A i < maxstack p"
      and n: "0 \<le> pc + 1" "pc + 1 < sizecode p"
      using ok by (simp_all add: operand_defs)
    from upval_ok [OF F assms(3) b] obtain u w where u: "upval_at us (GETARG_B i) = Inr u" "get_upval u (fr L) = Inr w" .
    from reg_ok [OF F a] obtain v where v: "reg (GETARG_A i) L = Inr v" .
    from set_upval_ok [OF F] obtain L' where L': "onF (set_upval u v) L = Inr L'" "frame_at p g us (pc + 1) L'" .
    show ?thesis
      using 6 u v L'(1) goes_Inr [OF L'(2) n] by (simp add: exec_load_def)
  qed
qed

lemma fits_arith:
  assumes "fits p pc opc i" "opc \<in> {OP_ADD, OP_SUB, OP_MUL, OP_DIV}"
  shows "0 \<le> GETARG_B i \<and> rk_ok p (GETARG_B i) \<and> 0 \<le> GETARG_C i \<and> rk_ok p (GETARG_C i) \<and>
    0 \<le> pc + 1 \<and> pc + 1 < sizecode p \<and> 0 \<le> GETARG_A i \<and> GETARG_A i < maxstack p"
  using assms(2,1) by (elim insertE emptyE) (simp_all add: fits_def operand_defs)

lemma fits_unary:
  assumes "fits p pc opc i" "opc \<in> {OP_UNM, OP_NOT}"
  shows "0 \<le> GETARG_B i \<and> GETARG_B i < maxstack p \<and> 0 \<le> pc + 1 \<and> pc + 1 < sizecode p \<and>
    0 \<le> GETARG_A i \<and> GETARG_A i < maxstack p"
  using assms(2,1) by (elim insertE emptyE) (simp_all add: fits_def operand_defs)

lemma fits_compare:
  assumes "fits p pc opc i" "opc \<in> {OP_EQ, OP_LT, OP_LE}"
  shows "0 \<le> GETARG_B i \<and> rk_ok p (GETARG_B i) \<and> 0 \<le> GETARG_C i \<and> rk_ok p (GETARG_C i) \<and> pc + 1 + 1 < sizecode p"
  using assms(2,1) by (elim insertE emptyE) (simp_all add: fits_def operand_defs)

lemma exec_arith_ok:
  assumes "frame_at p g us (pc + 1) L" "fits p pc opc i" "proto_ok p us" "untagged p opc i L"
    "opc \<in> {OP_ADD, OP_SUB, OP_MUL, OP_DIV}"
  shows "goes p g us (exec_arith call p opc i L)"
proof -
  note F = assms(1)
  have x: "0 \<le> GETARG_B i" "rk_ok p (GETARG_B i)" "0 \<le> GETARG_C i" "rk_ok p (GETARG_C i)"
    and a: "0 \<le> pc + 1" "pc + 1 < sizecode p" "0 \<le> GETARG_A i" "GETARG_A i < maxstack p"
    using fits_arith [OF assms(2,5)] by simp_all
  from RK_ok [OF F assms(3) x(1,2)] obtain b where b: "RK p (GETARG_B i) L = Inr b" .
  from RK_ok [OF F assms(3) x(3,4)] obtain c where c: "RK p (GETARG_C i) L = Inr c" .
  have "arith_tm opc \<in> {TM_ADD, TM_SUB, TM_MUL, TM_DIV}" "no_tag_method (arith_tm opc) L b" "no_tag_method (arith_tm opc) L c"
    using assms(4,5) by (elim insertE emptyE; simp add: untagged_def operands_def value_list_def b c)+
  note t = Arith_ok [OF F this]
  have "in_bounds (case (b, c, opc) of
         (LNumber x, LNumber y, OP_ADD) \<Rightarrow> Inr (LNumber (num_add x y), L)
       | (LNumber x, LNumber y, OP_SUB) \<Rightarrow> Inr (LNumber (num_sub x y), L)
       | (LNumber x, LNumber y, OP_MUL) \<Rightarrow> Inr (LNumber (num_mul x y), L)
       | (LNumber x, LNumber y, OP_DIV) \<Rightarrow> Inr (LNumber (num_div x y), L)
       | _ \<Rightarrow> Arith call b c (arith_tm opc) L) (\<lambda>(v, L'). frame_at p g us (pc + 1) L')"
    using t assms(5)
    by (elim insertE emptyE; cases b; cases c) (simp_all only: TObject.case OpCode.case prod.case in_bounds_simps F)
  from goes_store [OF this a] show ?thesis
    by (simp only: exec_arith_def b c bindR_simps)
qed

lemma exec_unary_ok:
  assumes "frame_at p g us (pc + 1) L" "fits p pc opc i" "untagged p opc i L" "opc \<in> {OP_UNM, OP_NOT}"
  shows "goes p g us (exec_unary call opc i L)"
proof -
  note F = assms(1)
  have x: "0 \<le> GETARG_B i" "GETARG_B i < maxstack p" and a: "0 \<le> pc + 1" "pc + 1 < sizecode p" "0 \<le> GETARG_A i" "GETARG_A i < maxstack p"
    using fits_unary [OF assms(2,4)] by simp_all
  from reg_ok [OF F x] obtain b where b: "reg (GETARG_B i) L = Inr b" .
  show ?thesis
  proof (cases "opc = OP_NOT")
    case True
    then show ?thesis
      using goes_set_reg [OF F a] by (simp add: exec_unary_def b)
  next
    case False
    then have "no_tag_method TM_UNM L b"
      using assms(3,4) by (simp add: untagged_def operands_def value_list_def b)
    then have "call_binTM call b LNil TM_UNM L = Inr (None, L)"
      by (intro binTM_none) simp_all
    then show ?thesis
      using False goes_set_reg [OF F a] by (simp add: exec_unary_def b goes_error split: option.split)
  qed
qed

lemma getslots_ok:
  "i + n \<le> length (stack_of L) \<Longrightarrow> getslots i n L = Inr (take n (drop i (stack_of L)))"
  by (simp add: getslots_def)

lemma exec_concat_ok:
  assumes "frame_at p g us (pc + 1) L" "fits p pc OP_CONCAT i" "untagged p OP_CONCAT i L" "GETARG_B i < GETARG_C i"
  shows "goes p g us (exec_concat call i L)"
proof -
  let ?b = "GETARG_B i" and ?c = "GETARG_C i"
  note F = assms(1) and ok = assms(2) [unfolded fits_def]
  have "?b \<in> {?b..?c}" "?c \<in> {?b..?c}"
    using assms(4) by simp_all
  then have bc: "0 \<le> ?b" "?b < maxstack p" "?c < maxstack p"
    using ok by (simp_all add: registers_def arg_b_def arg_c_def mode_of_def)
  have a: "0 \<le> pc + 1" "pc + 1 < sizecode p" "0 \<le> GETARG_A i" "GETARG_A i < maxstack p"
    using ok by (simp_all add: operand_defs)
  have "nat (int (base_of L) + ?b) + nat (?c - ?b + 1) \<le> length (stack_of L)"
    using F bc assms(4) unfolding frame_at_def by linarith
  then obtain vs where vs: "getslots (nat (int (base_of L) + ?b)) (nat (?c - ?b + 1)) L = Inr vs" "length vs = nat (?c - ?b + 1)"
    using getslots_ok by simp
  then have "rev vs \<noteq> []"
    using assms(4) by auto
  moreover have "list_all (no_tag_method TM_CONCAT L) (rev vs)"
    using assms(3) by (simp add: untagged_def operands_def vs(1) list_all_iff)
  ultimately have "in_bounds (luaV_concat call (rev vs) L) (\<lambda>(v, L'). L' = L)"
    by (rule concat_ok)
  then have m: "in_bounds (luaV_concat call (rev vs) L) (\<lambda>(v, L'). frame_at p g us (pc + 1) L')"
    using F by (auto simp: in_bounds_def split: sum.splits)
  have "goes p g us (bindR (set_reg ?b v L') (set_reg (GETARG_A i) v))" if "frame_at p g us (pc + 1) L'" for v L'
  proof -
    from set_reg_ok [OF that bc(1,2)] obtain M where "set_reg ?b v L' = Inr M" "frame_at p g us (pc + 1) M" .
    then show ?thesis
      using goes_set_reg [OF _ a] by simp
  qed
  from goes_bind [OF m this] show ?thesis
    by (simp only: exec_concat_def Let_def vs(1) bindR_simps)
qed

text \<open>A test is followed by a jump, whose target is one of the places where the function can go.\<close>

lemma exec_compare_ok:
  assumes "frame_at p g us (pc + 1) L" "fits p pc opc i" "proto_ok p us" "untagged p opc i L"
    "opc \<in> {OP_EQ, OP_LT, OP_LE}" "0 \<le> pc" "fits p (pc + 1) OP_JMP (f_code p ! nat (pc + 1))"
  shows "goes p g us (exec_compare call p opc i L)"
proof -
  note F = assms(1) and j = assms(7) [unfolded fits_def]
  have x: "0 \<le> GETARG_B i" "rk_ok p (GETARG_B i)" "0 \<le> GETARG_C i" "rk_ok p (GETARG_C i)" and n: "pc + 1 + 1 < sizecode p"
    using fits_compare [OF assms(2,5)] by simp_all
  from RK_ok [OF F assms(3) x(1,2)] obtain b where b: "RK p (GETARG_B i) L = Inr b" .
  from RK_ok [OF F assms(3) x(3,4)] obtain c where c: "RK p (GETARG_C i) L = Inr c" .
  have t: "in_bounds (if opc = OP_EQ then equalobj call b c L
      else if opc = OP_LT then luaV_lessthan call b c L else luaV_lessequal call b c L) (\<lambda>(r, L'). frame_at p g us (pc + 1) L')"
  proof -
    have n: "opc = OP_EQ \<Longrightarrow> no_tag_method TM_EQ L b" "opc = OP_LT \<Longrightarrow> no_tag_method TM_LT L b"
      "opc = OP_LE \<Longrightarrow> no_tag_method TM_LE L b \<and> no_tag_method TM_LT L c"
      using assms(4) by (auto simp: untagged_def operands_def value_list_def b c)
    then show ?thesis
      using equalobj_ok [OF F] lessthan_ok [OF F] lessequal_ok [OF F] assms(5) by auto
  qed
  have s: "0 \<le> pc + 1" "0 \<le> pc + 1 + 1 + GETARG_sBx (f_code p ! nat (pc + 1))"
    "pc + 1 + 1 + GETARG_sBx (f_code p ! nat (pc + 1)) < sizecode p"
    using assms(6) j by (simp_all add: operand_defs)
  show ?thesis
    unfolding exec_compare_def b c bindR_simps
    by (rule goes_bind [OF t]) (rule test_jump_ok [OF _ s(1) n s(2,3)])
qed

lemma exec_test_ok:
  assumes "frame_at p g us (pc + 1) L" "fits p pc OP_TEST i" "0 \<le> pc" "fits p (pc + 1) OP_JMP (f_code p ! nat (pc + 1))"
  shows "goes p g us (exec_test p i L)"
proof -
  note F = assms(1) and ok = assms(2) [unfolded fits_def] and j = assms(4) [unfolded fits_def]
  have x: "0 \<le> GETARG_B i" "GETARG_B i < maxstack p" "0 \<le> GETARG_A i" "GETARG_A i < maxstack p" and n: "pc + 1 + 1 < sizecode p"
    using ok by (simp_all add: operand_defs)
  have s: "0 \<le> pc + 1" "0 \<le> pc + 1 + 1 + GETARG_sBx (f_code p ! nat (pc + 1))"
    "pc + 1 + 1 + GETARG_sBx (f_code p ! nat (pc + 1)) < sizecode p"
    using assms(3) j by (simp_all add: operand_defs)
  from reg_ok [OF F x(1,2)] obtain b where b: "reg (GETARG_B i) L = Inr b" .
  from set_reg_ok [OF F x(3,4)] obtain L' where L': "set_reg (GETARG_A i) b L = Inr L'" "frame_at p g us (pc + 1) L'" .
  show ?thesis
    using test_jump_ok [OF F s(1) n s(2,3)] test_jump_ok [OF L'(2) s(1) n s(2,3)]
    by (simp add: exec_test_def b L'(1))
qed

lemma reg_tonumber_ok:
  assumes "frame_at p g us pc L" "0 \<le> a" "a < maxstack p"
  shows "in_bounds (reg_tonumber a msg L) (\<lambda>(n, L'). frame_at p g us pc L')"
proof -
  from reg_ok [OF assms] obtain v where v: "reg a L = Inr v" .
  show ?thesis
  proof (cases "luaV_tonumber v")
    case (Some n)
    from set_reg_ok [OF assms] obtain L' where "set_reg a (LNumber n) L = Inr L'" "frame_at p g us pc L'" .
    then show ?thesis
      by (simp add: reg_tonumber_def v Some)
  qed (simp add: reg_tonumber_def v)
qed

lemma exec_forloop_ok:
  assumes "frame_at p g us (pc + 1) L" "fits p pc OP_FORLOOP i"
  shows "goes p g us (exec_forloop i L)"
proof -
  let ?a = "GETARG_A i"
  note F = assms(1) and ok = assms(2) [unfolded fits_def]
  have "?a \<in> {?a..?a + 2}" "?a + 1 \<in> {?a..?a + 2}" "?a + 2 \<in> {?a..?a + 2}"
    by simp_all
  then have a: "0 \<le> ?a" "?a < maxstack p" "0 \<le> ?a + 1" "?a + 1 < maxstack p" "0 \<le> ?a + 2" "?a + 2 < maxstack p"
    using ok unfolding registers_def by simp_all
  have n: "0 \<le> pc + 1" "pc + 1 < sizecode p" "0 \<le> pc + 1 + GETARG_sBx i" "pc + 1 + GETARG_sBx i < sizecode p"
    using ok by (simp_all add: operand_defs)
  from reg_ok [OF F a(1,2)] obtain v where v: "reg ?a L = Inr v" .
  have loop: "goes p g us (let idx = num_add m step
       in if (if num_lt (num_of_int 0) step then num_le idx limit else num_le limit idx)
          then set_reg ?a (LNumber idx) (dojump (GETARG_sBx i) L') else Inr L')"
    if "frame_at p g us (pc + 1) L'" for m step limit L'
    using goes_set_reg [OF frame_dojump [OF that] n(3,4) a(1,2)] goes_Inr [OF that n(1,2)]
    unfolding Let_def by (simp only: split: if_split) blast
  have "goes p g us (bindR (reg_tonumber (?a + 1) m1 L) (\<lambda>(limit, L).
            bindR (reg_tonumber (?a + 2) m2 L) (\<lambda>(step, L).
              (let idx = num_add m step
               in if (if num_lt (num_of_int 0) step then num_le idx limit else num_le limit idx)
                  then set_reg ?a (LNumber idx) (dojump (GETARG_sBx i) L) else Inr L))))" for m1 m2 m
    by (rule goes_bind [OF reg_tonumber_ok [OF F a(3,4)]], rule goes_bind [OF reg_tonumber_ok [OF _ a(5,6)]], assumption, rule loop)
  then show ?thesis
    by (cases v) (simp_all only: exec_forloop_def v bindR_simps TObject.case Let_def, simp_all add: goes_def)
qed

section \<open>A step\<close>

text \<open>The instructions that work on the registers, the constants and the upvalues of their function.\<close>

definition local_opcodes :: "OpCode set" where
  "local_opcodes = {OP_MOVE, OP_LOADK, OP_LOADBOOL, OP_LOADNIL, OP_GETUPVAL, OP_SETUPVAL, OP_ADD, OP_SUB, OP_MUL, OP_DIV,
     OP_UNM, OP_NOT, OP_CONCAT, OP_JMP, OP_EQ, OP_LT, OP_LE, OP_TEST, OP_FORLOOP, OP_CLOSE}"

lemma checked_instr_ok:
  assumes "luaG_checkcode p = Inr r" "r \<noteq> 0" "proto_ok p us" "untagged p opc (f_code p ! nat pc) L" "0 \<le> pc" "pc < sizecode p"
    "op_of (GET_OPCODE (f_code p ! nat pc)) = Some opc" "opc \<in> local_opcodes" "frame_at p g us (pc + 1) L"
  shows "in_bounds (exec_instr cfuns dcall p g us opc (f_code p ! nat pc) L)
    (\<lambda>(r, L'). r = None \<and> (\<exists>pc'. 0 \<le> pc' \<and> pc' < sizecode p \<and> frame_at p g us pc' L'))"
proof -
  let ?i = "f_code p ! nat pc" and ?call = "caller_of dcall"
  have go: "in_bounds (bindR m (\<lambda>L. Inr (None, L)))
      (\<lambda>(r, L'). r = None \<and> (\<exists>pc'. 0 \<le> pc' \<and> pc' < sizecode p \<and> frame_at p g us pc' L'))" if "goes p g us m" for m
    by (rule in_bounds_bind [OF that [unfolded goes_def]]) simp
  have "opc \<noteq> OP_TFORPREP"
    using assms(8) by (auto simp: local_opcodes_def)
  note fit = checked_fits [OF assms(1,2,5,6,3,7) this] and F = assms(9) and t = checked_test [OF assms(1,2,5,6,7)]
  have j: "fits p (pc + 1) OP_JMP (f_code p ! nat (pc + 1))" if "opc \<in> {OP_EQ, OP_LT, OP_LE, OP_TEST}"
    using checked_fits [OF assms(1,2) _ _ assms(3) t(2) [OF that]] t(1) [OF that] assms(5) by simp
  consider "opc \<in> {OP_MOVE, OP_LOADK, OP_LOADBOOL, OP_LOADNIL, OP_GETUPVAL, OP_SETUPVAL}"
    | "opc \<in> {OP_ADD, OP_SUB, OP_MUL, OP_DIV}" | "opc \<in> {OP_UNM, OP_NOT}" | "opc \<in> {OP_EQ, OP_LT, OP_LE}"
    | "opc = OP_CONCAT" | "opc = OP_JMP" | "opc = OP_TEST" | "opc = OP_FORLOOP" | "opc = OP_CLOSE"
    using assms(8) unfolding local_opcodes_def by blast
  then show ?thesis
  proof cases
    case 1
    then have "exec_instr cfuns dcall p g us opc ?i L = bindR (exec_load p us opc ?i L) (\<lambda>L. Inr (None, L))"
      by (elim insertE emptyE) (simp_all add: exec_instr_def)
    then show ?thesis
      using go [OF exec_load_ok [OF F fit assms(3) 1]] by simp
  next
    case 2
    then have "exec_instr cfuns dcall p g us opc ?i L = bindR (exec_arith ?call p opc ?i L) (\<lambda>L. Inr (None, L))"
      by (elim insertE emptyE) (simp_all add: exec_instr_def)
    then show ?thesis
      using go [OF exec_arith_ok [OF F fit assms(3,4) 2]] by simp
  next
    case 3
    then have "exec_instr cfuns dcall p g us opc ?i L = bindR (exec_unary ?call opc ?i L) (\<lambda>L. Inr (None, L))"
      by (elim insertE emptyE) (simp_all add: exec_instr_def)
    then show ?thesis
      using go [OF exec_unary_ok [OF F fit assms(4) 3]] by simp
  next
    case 4
    then have "exec_instr cfuns dcall p g us opc ?i L = bindR (exec_compare ?call p opc ?i L) (\<lambda>L. Inr (None, L))"
      by (elim insertE emptyE) (simp_all add: exec_instr_def)
    moreover have "opc \<in> {OP_EQ, OP_LT, OP_LE, OP_TEST}"
      using 4 by blast
    ultimately show ?thesis
      using go [OF exec_compare_ok [OF F fit assms(3,4) 4 assms(5) j]] by simp
  next
    case 5
    have "goes p g us (exec_concat ?call ?i L)"
      using exec_concat_ok [OF F fit [unfolded 5] assms(4) [unfolded 5]] checked_concat [OF assms(1,2,5,6) assms(7) [unfolded 5]] .
    then show ?thesis
      using go by (simp add: 5 exec_instr_def)
  next
    case 6
    have "0 \<le> pc + 1 + GETARG_sBx ?i \<and> pc + 1 + GETARG_sBx ?i < sizecode p"
      by (rule fits_next [OF fit]) (simp add: 6 operand_defs)
    then have "goes p g us (Inr (dojump (GETARG_sBx ?i) L))"
      using goes_dojump [OF F] by simp
    then show ?thesis
      using go [of "Inr (dojump (GETARG_sBx ?i) L)"] by (simp add: 6 exec_instr_def)
  next
    case 7
    have "goes p g us (exec_test p ?i L)"
      using exec_test_ok [OF F fit [unfolded 7] assms(5) j] 7 by simp
    then show ?thesis
      using go by (simp add: 7 exec_instr_def)
  next
    case 8
    then show ?thesis
      using go [OF exec_forloop_ok [OF F fit [unfolded 8]]] by (simp add: exec_instr_def)
  next
    case 9
    have n: "0 \<le> pc + 1 \<and> pc + 1 < sizecode p" and a: "0 \<le> GETARG_A ?i"
      by (rule fits_next [OF fit], simp add: 9 operand_defs) (rule fits_reg [OF fit], simp add: 9 operand_defs)
    obtain L' where L': "onF (luaF_close (nat (int (base_of L) + GETARG_A ?i))) L = Inr L'" "frame_at p g us (pc + 1) L'"
      using close_ok [OF F] .
    with n have "goes p g us (onF (luaF_close (nat (int (base_of L) + GETARG_A ?i))) L)"
      using goes_Inr by simp
    then show ?thesis
      using go a by (simp add: 9 exec_instr_def)
  qed
qed

text \<open>
  C2: on a function that the bytecode checker accepts, an instruction that works on the registers, constants and
  upvalues of its function reads and writes inside of the stack, of the constants and of the code, and the function
  goes on in the same frame with a next instruction inside of its code, or raises an error.  This holds for all
  values in the registers as long as no operand has a tag method for the operation (which would be called, and of
  whose effect nothing is known), and whatever the calls of other functions do.  The conditions that the checker does
  not see are that the frame is as a call makes it, that the closure has as many upvalues as the function says, that
  every instruction fits its 32 bits (otherwise a register can be negative), and that no constant is a missing string.
\<close>

theorem checked_step_in_bounds:
  assumes "luaG_checkcode p = Inr r" "r \<noteq> 0" "proto_ok p us" "frame_at p g us pc L" "0 \<le> pc" "pc < sizecode p"
    "op_of (GET_OPCODE (f_code p ! nat pc)) = Some opc" "opc \<in> local_opcodes" "untagged p opc (f_code p ! nat pc) L"
  shows "in_bounds (exec_step cfuns dcall L)
    (\<lambda>(r, L'). r = None \<and> (\<exists>pc'. 0 \<le> pc' \<and> pc' < sizecode p \<and> frame_at p g us pc' L'))"
proof -
  have f: "function_at (base_of L) L = Inr (p, g, us)"
    using assms(4) by (simp add: frame_at_def)
  obtain ci cis where ci: "fr_ci (fr L) = ci # cis" "savedpc ci = pc"
    using assms(4) by (auto simp: frame_at_def)
  then have i: "next_instr p L = Inr (f_code p ! nat pc)"
    using returns_code_at [OF assms(5,6)] by (simp add: next_instr_def current_ci_def)
  have "untagged p opc (f_code p ! nat pc) (dojump 1 L)"
    using assms(9) by simp
  from checked_instr_ok [OF assms(1-3) this assms(5-8) frame_dojump [OF assms(4)]] show ?thesis
    by (simp add: exec_step_def f i assms(7))
qed

section \<open>An example\<close>

text \<open>\<open>ADD 0 0 K0; RETURN 0 1\<close>, with a string as the constant, on the number 1 in the frame of its first call.\<close>

definition adder :: Proto where
  "adder = tiny [0x3E8C, 0x801B]"

definition adder_state :: lua_State where
  "adder_state = sample_state\<lparr>fr := no_frames\<lparr>fr_stack := [LFunction 64, LNumber (num_of_int 1), LNil], fr_base := 1, fr_top := 3,
     fr_ci := [\<lparr>ci_base = 1, ci_top = 3, ci_C = False, ci_calling = False, savedpc = 0, tailcalls = 0\<rparr>],
     fr_funcs := (\<lambda>_. LClosure adder (LTable 2) [])\<rparr>\<rparr>"

lemma adder_frame: "frame_at adder (LTable 2) [] 0 adder_state"
  unfolding frame_at_def
proof (intro conjI)
  show "function_at (base_of adder_state) adder_state = Inr (adder, LTable 2, [])"
    by (simp add: function_at_def getslot_def get_stack_def adder_state_def no_frames_def)
  show "wf_upvals (fr adder_state)"
    by (simp add: adder_state_def no_frames_def wf_upvals_def open_list_def)
  show "\<forall>h. wf_table (tabs adder_state h)"
    using wf_sample by (simp add: adder_state_def sample_state_def)
qed (simp_all add: adder_state_def no_frames_def adder_def tiny_def sample_state_def empty_state_def)

lemma adder_untagged: "untagged adder OP_ADD (f_code adder ! nat 0) adder_state"
  by (simp add: untagged_def operands_def value_list_def RK_def reg_def konst_def getslot_def get_stack_def adder_def tiny_def
      adder_state_def GETARG_B_eq GETARG_C_eq MAXSTACK_def take_bit_eq_mod drop_bit_eq_div)

lemma checked_step_in_bounds_witness:
  "in_bounds (exec_step (\<lambda>_ n L. Inr (n, L)) (luaD_call_at 3 3 (\<lambda>_ n L. Inr (n, L))) adder_state)
     (\<lambda>(r, L'). r = None \<and> (\<exists>pc'. 0 \<le> pc' \<and> pc' < sizecode adder \<and> frame_at adder (LTable 2) [] pc' L'))"
proof (rule checked_step_in_bounds)
  show "luaG_checkcode adder = Inr 0x801B"
    by (simp add: adder_def luaG_checkcode_def luaG_symbexec_def precheck_def tiny_def code_at_def MAXSTACK_def
        symbexec_loop.simps symbexec_step_def require_def check_operands_def check_opcode_def check_call_def
        mode_eval op_of_def NUM_OPCODES_eq GET_OPCODE_eq GETARG_A_eq GETARG_B_eq GETARG_C_eq GETARG_Bx_eq wf_instr_def
        NO_REG_def MAXARG_A_def SIZE_A_def LUA_MULTRET_def int_of_ulong_def Let_def take_bit_eq_mod drop_bit_eq_div
        checkRK_def)
  show "op_of (GET_OPCODE (f_code adder ! nat 0)) = Some OP_ADD"
    by (simp add: adder_def tiny_def op_of_def GET_OPCODE_eq NUM_OPCODES_eq opcodes_def take_bit_eq_mod)
qed (simp_all add: adder_frame adder_untagged [simplified] proto_ok_def local_opcodes_def, simp_all add: adder_def tiny_def wf_instr_def take_bit_eq_mod)

end
