(* ===== verification/Spec2Isabelle.thy ===== *)
theory Spec2Isabelle
  imports Undump ModeMuncher Lexer Auxlib TagMethods SortOrder Quote Parser Constants SafeRun
begin

text \<open>
  A model of the Lua 5.0.2 interpreter (\<open>src/lua\<close>) that primemover carries in its executable, with the
  file-mode parser of its POSIX library.  The build tool itself, \<open>src/src/pm.lua\<close>, is a Lua program that
  this interpreter runs.

  How the program is put together.  A source text is a stream of blocks (\<open>lzio\<close>).  The scanner
  (\<open>llex\<close>) reads tokens from it for the parser and code generator (\<open>lparser\<close>, \<open>lcode\<close>), which build
  function prototypes (\<open>lobject.h\<close>, \<open>lfunc\<close>) of instructions (\<open>lopcodes\<close>).  Prototypes are also written
  to and read from precompiled chunks (\<open>ldump\<close>, \<open>lundump\<close>), where a checker (\<open>ldebug\<close>) must
  accept them.  The virtual machine (\<open>lvm\<close>) runs them on values (\<open>lobject\<close>): numbers, interned strings
  (\<open>lstring\<close>), tables (\<open>ltable\<close>).  Libraries in C (\<open>lstrlib\<close> and others) see the machine through a
  stack of values (\<open>lapi\<close>) and helpers on top of it (\<open>lauxlib\<close>).

  The theories, in the order of the program:

  \<^item> \<open>LuaPrelude\<close>: results with errors, the predicates \<open>yields\<close> and \<open>ensures\<close> on them with their
    rules, facts on words and lists that several components use.
  \<^item> \<open>Numbers\<close>: \<open>double\<close> as an IEEE 754 pattern, its arithmetic, comparison and conversions; \<open>CLib\<close>: what
    the sources use of the C library (characters, \<open>strtod\<close>, the formats \<open>%d\<close> and \<open>%.14g\<close>).
  \<^item> \<open>Opcodes\<close>: the instruction word (\<open>lopcodes.h\<close>).  Locales \<open>instr_field\<close> and \<open>disjoint_fields\<close> state the
    contract of a pair of a getter and a setter; every field of the instruction interprets them.
  \<^item> \<open>Objects\<close>: values, raw equality, floating-point bytes, logarithm, formatting, chunk names
    (\<open>lobject.c\<close>).
  \<^item> \<open>StringTable\<close>: hashing, interning and resizing (\<open>lstring.c\<close>), and the loops of \<open>lgc.c\<close> that sweep the
    strings, with their marks.
  \<^item> \<open>Tables\<close>: the array part and the chained scatter table (\<open>ltable.c\<close>).  \<open>TableCorrect\<close> has the invariant
    \<open>wf_table\<close>, the map \<open>content\<close> a table stands for, and the placing of a key; \<open>TableRehash\<close> shows that a
    rehash and every insertion keep them; \<open>TableOps\<close> states what tables promise, with the locale
    \<open>key_map\<close>, and what a traversal gives.
  \<^item> \<open>Streams\<close>: input streams and buffers (\<open>lzio.c\<close>, \<open>lmem.c\<close>).
  \<^item> \<open>Lexer\<close>: the scanner (\<open>llex.c\<close>).
  \<^item> \<open>Codegen\<close>: the code generator (\<open>lcode.c\<close>), as operations on the state of the compiler; \<open>JumpLists\<close>:
    the lists of jumps that are linked through the instructions, and where they end up; \<open>Constants\<close>: the
    table that shares the constants of a function, on top of the facts about tables.
  \<^item> \<open>Parser\<close>: the parser (\<open>lparser.c\<close>), from the stream to the prototype.
  \<^item> \<open>Protos\<close>: prototypes (\<open>lfunc.c\<close>); \<open>CodeCheck\<close>: the checker of \<open>ldebug.c\<close>; \<open>Undump\<close>: writer and
    reader of precompiled chunks.
  \<^item> \<open>Vm\<close>: the operations of \<open>lvm.c\<close> on values, with tag methods (\<open>ltm.c\<close>);
    \<open>TagMethods\<close>: the cache of absent tag methods in the flags of a table, and indexing with it.
  \<^item> \<open>Closures\<close>: closures and the list of open upvalues (\<open>lfunc.c\<close>); \<open>Calls\<close>: growing the stack, entering and
    leaving functions (\<open>ldo.c\<close>); \<open>Execute\<close>: the interpreter loop, with one definition for each group of
    instructions; \<open>Running\<close>: what a return does; \<open>SafeRun\<close>: the steps of checked code whose operands have no tag
    methods stay in bounds.
  \<^item> \<open>Api\<close>: the stack of a C function (\<open>lapi.c\<close>); \<open>Auxlib\<close>: arguments and string buffers
    (\<open>lauxlib.c\<close>).
  \<^item> \<open>Patterns\<close>: the pattern matcher of \<open>lstrlib.c\<close>; \<open>Formats\<close>: the conversions of \<open>sprintf\<close>;
    \<open>StrLib\<close>: the functions of the string library; \<open>Quote\<close>: what \<open>%q\<close> writes, the scanner reads.
  \<^item> \<open>TabLib\<close>: the table library (\<open>ltablib.c\<close>); \<open>TabSort\<close>: \<open>table.sort\<close> sorts; \<open>SortOrder\<close>: how it leaves
    its range with a function that is no order.
  \<^item> \<open>ModeMuncher\<close>: file modes (\<open>modemuncher.h\<close>).

  Conventions.  A C struct is a record, a tagged union a datatype.  A \<open>char\<close> is 8 bits and signed where
  it is used as a number, \<open>int\<close> 32 bits, \<open>long\<close> and pointers 64.  An operation that can raise a Lua error
  returns \<open>Inl\<close> of it; \<open>OutOfBounds\<close> stands for an access outside of an object or to bytes that were never
  written, and \<open>NoReturn\<close> for a loop out of fuel.  A property that says an operation is safe excludes
  \<open>OutOfBounds\<close>, one that says it ends excludes \<open>NoReturn\<close>; what it does not exclude it says.  A string value is
  its contents, which \<open>intern_pointer_eq\<close> justifies.  Fuel is used where the loop of the C code has no
  bound of its own: a chain search has the number of nodes, an insertion into a table the depth 2, the
  reader of precompiled chunks the length of the stream (\<open>undump_ends\<close>), the count of array elements
  \<open>2 ^ 31\<close>, beyond which its \<open>int\<close> would overflow; a walk along a jump list has the number of instructions,
  which \<open>JumpLists\<close> shows to be enough for a list that ends; the parser has the levels of nesting that it
  allows itself and the length of the chunk for its loops, each round of which takes a token.

  The interpreter loop is given the number of instructions it may run, and \<open>luaD_call_at\<close> the number of levels
  of C calls, which \<open>luaD_call\<close> itself bounds by \<open>LUA_MAXCCALLS\<close>; a program that does not end is \<open>NoReturn\<close> for
  all of them.  Operations that can call a function take the call as an argument: \<open>caller_of\<close> makes it from
  \<open>luaD_call\<close>, so that the same definitions serve the loop, the API and the libraries.

  What is not modelled: protected calls and the recovery from errors, coroutines, debug hooks, the collector but for
  the sweep of the strings and \<open>removekey\<close>, the libraries that only call the C library or the operating system, the
  stand-alone interpreter and the test harness.  Positions and variable names in error messages, which come from
  the running function, are left out of the messages of \<open>lvm.c\<close>, \<open>lauxlib.c\<close> and \<open>lstrlib.c\<close>.
  Memory does not run out: \<open>luaM_realloc\<close> only fails for sizes above its limit.  Strings are compared in the C
  locale, which \<open>os.setlocale\<close> could change.  The length of a capture is not cut to 32 bits, which would
  only show in a subject of two gigabytes.  An order function of \<open>table.sort\<close>, where a property has one, leaves the
  state as it is; the comparison of the language does.
\<close>

end
